(* ===== verification/Prelude.thy ===== *)
theory Prelude
  imports Main "HOL-Library.Monad_Syntax" "HOL-Library.Word"
begin

text \<open>
  Shared vocabulary of the development.

  \<^item> A Rust computation that may panic has a value of type \<open>'a option\<close>: \<^term>\<open>None\<close> is the
    panic, so a \<open>do\<close> block of \<open>HOL-Library.Monad_Syntax\<close> reads like the body of the source
    function. The workspace is built with the \<open>dev\<close> profile (\<open>xtask\<close> takes its binaries from
    the \<open>debug\<close> directory), so integer overflow and debug assertions are panics.
  \<^item> A Rust \<open>Result<T, E>\<close> is a sum \<open>'e + 'a\<close>, with \<^term>\<open>Inl\<close> for \<open>Err\<close>; since an
    operation with a \<open>&mut self\<close> may have changed the state before it returns an error, the new
    state stands beside the sum and not inside it.
  \<^item> \<open>usize\<close> values are natural numbers; every arithmetic operation on them is one of the
    checked operations below.
  \<^item> Slices are lists; \<^verbatim>\<open>slice_get\<close>, \<^verbatim>\<open>slice_set\<close> and \<^verbatim>\<open>copy_within\<close> panic out of range
    as the Rust ones do, and \<^verbatim>\<open>binary_search_by_key\<close> is the loop of the standard library.

  The collection \<open>exec_simps\<close> holds the rules that execute these operations once their side
  conditions are known.
\<close>

named_theorems exec_simps

type_synonym usize = nat

definition usize_limit :: nat where
  "usize_limit = 2 ^ 64"

definition u32_limit :: nat where
  "u32_limit = 2 ^ 32"

definition usize_MAX :: usize where
  "usize_MAX = 2 ^ 64 - 1"

definition uadd :: "usize \<Rightarrow> usize \<Rightarrow> usize option" where
  "uadd a b = (if a + b < usize_limit then Some (a + b) else None)"

definition usub :: "usize \<Rightarrow> usize \<Rightarrow> usize option" where
  "usub a b = (if b \<le> a then Some (a - b) else None)"

definition umul :: "usize \<Rightarrow> usize \<Rightarrow> usize option" where
  "umul a b = (if a * b < usize_limit then Some (a * b) else None)"

definition u32_add :: "nat \<Rightarrow> nat \<Rightarrow> nat option" where
  "u32_add a b = (if a + b < u32_limit then Some (a + b) else None)"

definition u32_mul :: "nat \<Rightarrow> nat \<Rightarrow> nat option" where
  "u32_mul a b = (if a * b < u32_limit then Some (a * b) else None)"

definition rust_assert :: "bool \<Rightarrow> unit option" where
  "rust_assert b = (if b then Some () else None)"

text \<open>\<open>usize::next_multiple_of\<close>: panics on a zero divisor and on overflow.\<close>

definition next_multiple_of :: "usize \<Rightarrow> usize \<Rightarrow> usize option" where
  "next_multiple_of x a =
     (if a = 0 then None
      else if x mod a = 0 then Some x
      else uadd x (a - x mod a))"

text \<open>\<open>usize::is_multiple_of\<close>: no panic; only zero is a multiple of zero.\<close>

definition is_multiple_of :: "usize \<Rightarrow> usize \<Rightarrow> bool" where
  "is_multiple_of x a = (if a = 0 then x = 0 else x mod a = 0)"

definition slice_get :: "'a list \<Rightarrow> nat \<Rightarrow> 'a option" where
  "slice_get xs i = (if i < length xs then Some (xs ! i) else None)"

definition slice_set :: "'a list \<Rightarrow> nat \<Rightarrow> 'a \<Rightarrow> 'a list option" where
  "slice_set xs i v = (if i < length xs then Some (xs[i := v]) else None)"

text \<open>The sub-slice \<open>&xs[lo..hi]\<close>.\<close>

definition slice_range :: "'a list \<Rightarrow> nat \<Rightarrow> nat \<Rightarrow> 'a list option" where
  "slice_range xs lo hi =
     (if lo \<le> hi \<and> hi \<le> length xs then Some (take (hi - lo) (drop lo xs)) else None)"

text \<open>\<open>slice::copy_within(lo..hi, dest)\<close>.\<close>

definition copy_within :: "'a list \<Rightarrow> nat \<Rightarrow> nat \<Rightarrow> nat \<Rightarrow> 'a list option" where
  "copy_within xs lo hi dest =
     (if lo \<le> hi \<and> hi \<le> length xs \<and> dest + (hi - lo) \<le> length xs
      then Some (take dest xs @ take (hi - lo) (drop lo xs) @ drop (dest + (hi - lo)) xs)
      else None)"

text \<open>
  \<open>slice::binary_search_by_key\<close>, the loop of the standard library: \<open>base\<close> and \<open>sz\<close> delimit
  the part still searched. \<^term>\<open>Inr i\<close> is \<open>Ok(i)\<close>, \<^term>\<open>Inl i\<close> is \<open>Err(i)\<close>.
\<close>

function bsearch_loop :: "nat list \<Rightarrow> nat \<Rightarrow> nat \<Rightarrow> nat \<Rightarrow> nat" where
  "bsearch_loop ks k base sz =
     (if 1 < sz then
        (let half = sz div 2; mid = base + half
         in bsearch_loop ks k (if k < ks ! mid then base else mid) (sz - half))
      else base)"
  by pat_completeness auto
termination
  by (relation "measure (\<lambda>(ks, k, base, sz). sz)") auto

declare bsearch_loop.simps [simp del]

definition binary_search_keys :: "nat list \<Rightarrow> nat \<Rightarrow> nat + nat" where
  "binary_search_keys ks k =
     (if ks = [] then Inl 0
      else (let base = bsearch_loop ks k 0 (length ks)
            in if ks ! base = k then Inr base
               else Inl (if ks ! base < k then base + 1 else base)))"

definition binary_search_by_key :: "'a list \<Rightarrow> nat \<Rightarrow> ('a \<Rightarrow> nat) \<Rightarrow> nat + nat" where
  "binary_search_by_key xs k f = binary_search_keys (map f xs) k"

text \<open>\<open>.unwrap_or_else(|x| x)\<close> on the result of a search: the index, found or not.\<close>

definition search_index :: "nat + nat \<Rightarrow> nat" where
  "search_index r = (case r of Inl x \<Rightarrow> x | Inr x \<Rightarrow> x)"

section \<open>Executing the checked operations\<close>

lemma uadd_ok [exec_simps]: "a + b < usize_limit \<Longrightarrow> uadd a b = Some (a + b)"
  by (simp add: uadd_def)

lemma usub_ok [exec_simps]: "b \<le> a \<Longrightarrow> usub a b = Some (a - b)"
  by (simp add: usub_def)

lemma u32_add_ok [exec_simps]: "a + b < u32_limit \<Longrightarrow> u32_add a b = Some (a + b)"
  by (simp add: u32_add_def)

lemma u32_mul_ok [exec_simps]: "a * b < u32_limit \<Longrightarrow> u32_mul a b = Some (a * b)"
  by (simp add: u32_mul_def)

lemma rust_assert_ok [exec_simps]: "b \<Longrightarrow> rust_assert b = Some ()"
  by (simp add: rust_assert_def)

lemma slice_get_ok [exec_simps]: "i < length xs \<Longrightarrow> slice_get xs i = Some (xs ! i)"
  by (simp add: slice_get_def)

lemma slice_set_ok [exec_simps]: "i < length xs \<Longrightarrow> slice_set xs i v = Some (xs[i := v])"
  by (simp add: slice_set_def)

lemma uadd_Some_iff: "uadd a b = Some c \<longleftrightarrow> a + b < usize_limit \<and> c = a + b"
  by (auto simp: uadd_def)

lemma slice_get_Some_iff: "slice_get xs i = Some x \<longleftrightarrow> i < length xs \<and> x = xs ! i"
  by (auto simp: slice_get_def)

text \<open>A \<open>Result<(), E>\<close> that is no error.\<close>

lemma not_Inl_unit [simp]: "(\<forall>e. r \<noteq> Inl e) \<longleftrightarrow> r = Inr ()"
  by (cases r) auto

section \<open>Alignment\<close>

text \<open>The value \<open>next_multiple_of\<close> returns when it does not panic.\<close>

definition align_up :: "nat \<Rightarrow> nat \<Rightarrow> nat" where
  "align_up x a = (if x mod a = 0 then x else x + (a - x mod a))"

lemma align_up_ge: "x \<le> align_up x a"
  by (simp add: align_up_def)

lemma align_up_dvd: "0 < a \<Longrightarrow> a dvd align_up x a"
proof (cases "x mod a = 0")
  case False
  assume a: "0 < a"
  have "x + (a - x mod a) = x div a * a + a"
    using mod_less_divisor [OF a, of x] div_mult_mod_eq [of x a] by linarith
  then have "x + (a - x mod a) = (x div a + 1) * a" by simp
  then show ?thesis
    using False by (simp add: align_up_def)
qed (simp add: align_up_def mod_eq_0_iff_dvd)

lemma align_up_less: "0 < a \<Longrightarrow> align_up x a < x + a"
  using mod_less_divisor [of a x] by (simp add: align_up_def)

lemma align_up_least: "0 < a \<Longrightarrow> a dvd y \<Longrightarrow> x \<le> y \<Longrightarrow> align_up x a \<le> y"
proof -
  assume a: "0 < a" and y: "a dvd y" and le: "x \<le> y"
  have u: "a dvd align_up x a" and lt: "align_up x a < x + a"
    using a by (rule align_up_dvd, rule align_up_less)
  show "align_up x a \<le> y"
  proof (rule ccontr)
    assume "\<not> align_up x a \<le> y"
    then have less: "y < align_up x a" by simp
    have "a dvd align_up x a - y"
      using u y by (rule dvd_diff_nat)
    then have "a \<le> align_up x a - y"
      using less by (simp add: dvd_imp_le)
    with lt le less show False by linarith
  qed
qed

lemma next_multiple_of_ok [exec_simps]:
  "0 < a \<Longrightarrow> align_up x a < usize_limit \<Longrightarrow> next_multiple_of x a = Some (align_up x a)"
  by (cases "x mod a = 0") (simp_all add: next_multiple_of_def align_up_def uadd_def)

lemma next_multiple_of_Some_iff:
  "next_multiple_of x a = Some y \<longleftrightarrow>
     0 < a \<and> y = align_up x a \<and> (a dvd x \<or> y < usize_limit)"
  by (auto simp: next_multiple_of_def align_up_def uadd_def mod_eq_0_iff_dvd)

lemma is_multiple_of_dvd: "0 < a \<Longrightarrow> is_multiple_of x a \<longleftrightarrow> a dvd x"
  by (auto simp: is_multiple_of_def)

section \<open>Slices seen as a used prefix of a buffer\<close>

text \<open>A buffer with \<open>n\<close> used slots holds the list of its used slots.\<close>

definition holds :: "'a list \<Rightarrow> nat \<Rightarrow> 'a list \<Rightarrow> bool" where
  "holds buf n xs \<longleftrightarrow> n = length xs \<and> length xs \<le> length buf \<and> take n buf = xs"

lemma holds_split: "holds buf n xs \<Longrightarrow> \<exists>ys. buf = xs @ ys \<and> n = length xs"
  unfolding holds_def by (metis append_take_drop_id)

lemma holds_append [simp]: "holds (xs @ ys) n xs \<longleftrightarrow> n = length xs"
  by (auto simp: holds_def)

lemma holds_nth: "holds buf n xs \<Longrightarrow> i < n \<Longrightarrow> buf ! i = xs ! i"
  unfolding holds_def by (metis nth_take)

lemma slice_range_holds [exec_simps]: "holds buf n xs \<Longrightarrow> slice_range buf 0 n = Some xs"
  by (auto simp: holds_def slice_range_def)

lemma slice_get_holds: "holds buf n xs \<Longrightarrow> i < n \<Longrightarrow> slice_get buf i = Some (xs ! i)"
  by (auto simp: holds_def slice_get_def) (metis nth_take)

lemma copy_within_insert:
  assumes "n = length (as @ bs)" and "junk \<noteq> []"
  shows "copy_within (as @ bs @ junk) (length as) n (length as + 1)
         = Some (take (length as + 1) (as @ bs @ junk) @ bs @ tl junk)"
  using assms by (cases junk) (simp_all add: copy_within_def)

lemma copy_within_delete:
  assumes "n = length (as @ x # bs)"
  shows "copy_within (as @ x # bs @ junk) (length as + 1) n (length as)
         = Some (as @ bs @ drop (length bs) (x # bs @ junk))"
  using assms by (simp add: copy_within_def)

lemma insert_slot:
  assumes "holds buf n (as @ bs)" and "n < length buf"
  shows "\<exists>buf1. copy_within buf (length as) n (length as + 1) = Some buf1
     \<and> length buf1 = length buf
     \<and> holds (buf1[length as := r]) (Suc n) (as @ r # bs)"
proof -
  obtain junk where buf: "buf = as @ bs @ junk" and n: "n = length (as @ bs)"
    using holds_split [OF assms(1)] by auto
  with assms(2) have ne: "junk \<noteq> []" by auto
  have len: "length (take (length as + 1) (as @ bs @ junk)) = length as + 1"
    using ne by (cases junk) auto
  have upd: "(take (length as + 1) (as @ bs @ junk) @ bs @ tl junk)[length as := r]
      = (as @ r # bs) @ tl junk"
    using ne by (cases bs; cases junk) (auto simp: list_update_append)
  show ?thesis
    using copy_within_insert [OF n ne] ne upd n by (cases junk) (auto simp: buf holds_def)
qed

lemma delete_slot:
  assumes "holds buf n (as @ x # bs)"
  shows "\<exists>buf1. copy_within buf (length as + 1) n (length as) = Some buf1
     \<and> length buf1 = length buf \<and> holds buf1 (n - 1) (as @ bs)
     \<and> holds (buf1[n - 1 := z]) (n - 1) (as @ bs)"
proof -
  obtain junk where buf: "buf = as @ x # bs @ junk" and n: "n = length (as @ x # bs)"
    using holds_split [OF assms] by auto
  show ?thesis
    using copy_within_delete [OF n, of junk] n
    by (auto simp: buf holds_def list_update_append)
qed

lemma holds_update:
  assumes "holds buf n (as @ x # bs)" and "i = length as"
  shows "holds (buf[i := y]) n (as @ y # bs)" and "buf ! i = x"
proof -
  obtain ys where buf: "buf = as @ x # bs @ ys" and n: "n = length (as @ x # bs)"
    using holds_split [OF assms(1)] by auto
  show "holds (buf[i := y]) n (as @ y # bs)" and "buf ! i = x"
    using assms(2) n by (simp_all add: buf list_update_append holds_def)
qed

section \<open>Binary search on sorted keys\<close>

lemma bsearch_loop_correct:
  assumes "sorted ks" and "0 < sz" and "base + sz \<le> length ks"
    and "base = 0 \<or> ks ! base \<le> k" and "\<forall>i. base + sz \<le> i \<and> i < length ks \<longrightarrow> k < ks ! i"
  shows "bsearch_loop ks k base sz < length ks
     \<and> (bsearch_loop ks k base sz = 0 \<or> ks ! bsearch_loop ks k base sz \<le> k)
     \<and> (\<forall>i. bsearch_loop ks k base sz < i \<and> i < length ks \<longrightarrow> k < ks ! i)"
  using assms
proof (induction ks k base sz rule: bsearch_loop.induct)
  case (1 ks k base sz)
  show ?case
  proof (cases "1 < sz")
    case False
    with "1.prems" show ?thesis by (auto simp: bsearch_loop.simps [of ks k base sz])
  next
    case True
    define half mid where "half = sz div 2" and "mid = base + half"
    have h: "0 < half" "half < sz" "mid < length ks"
      using True "1.prems"(3) by (auto simp: half_def mid_def)
    have hi: "k < ks ! i" if "k < ks ! mid" "mid \<le> i" "i < length ks" for i
      using that sorted_nth_mono [OF "1.prems"(1), of mid i] by simp
    let ?base = "if k < ks ! mid then base else mid"
    have eq: "bsearch_loop ks k base sz = bsearch_loop ks k ?base (sz - half)"
      using True by (subst bsearch_loop.simps) (simp add: half_def mid_def Let_def)
    have len: "?base + (sz - half) \<le> length ks" and pos: "0 < sz - half"
      using "1.prems"(3) h by (auto simp: mid_def)
    have up: "\<forall>i. ?base + (sz - half) \<le> i \<and> i < length ks \<longrightarrow> k < ks ! i"
    proof (cases "k < ks ! mid")
      case True
      moreover have "mid \<le> base + (sz - half)" by (simp add: mid_def half_def)
      ultimately show ?thesis using hi by simp
    next
      case False
      then show ?thesis using "1.prems"(5) h by (simp add: mid_def)
    qed
    have low: "?base = 0 \<or> ks ! ?base \<le> k"
      using "1.prems"(4) by simp
    show ?thesis
      unfolding eq
      using "1.IH" [OF True half_def mid_def "1.prems"(1) pos len low up] .
  qed
qed

text \<open>
  The contract of the standard library on strictly sorted keys: a found index is the key's, and an
  insertion point separates the smaller from the larger keys.
\<close>

lemma binary_search_keys_Inr:
  assumes "sorted ks" and "binary_search_keys ks k = Inr i"
  shows "i < length ks" and "ks ! i = k"
  using assms bsearch_loop_correct [of ks "length ks" 0 k]
  by (auto simp: binary_search_keys_def Let_def split: if_splits)

lemma binary_search_keys_Inl:
  assumes "sorted ks" and "binary_search_keys ks k = Inl i"
  shows "i \<le> length ks" and "\<forall>j < i. ks ! j < k" and "\<forall>j. i \<le> j \<and> j < length ks \<longrightarrow> k < ks ! j"
proof -
  define b where "b = bsearch_loop ks k 0 (length ks)"
  have all: "i \<le> length ks \<and> (\<forall>j < i. ks ! j < k) \<and> (\<forall>j. i \<le> j \<and> j < length ks \<longrightarrow> k < ks ! j)"
  proof (cases "ks = []")
    case True
    with assms(2) show ?thesis by (simp add: binary_search_keys_def)
  next
    case False
    then have c: "b < length ks" "b = 0 \<or> ks ! b \<le> k" "\<forall>j. b < j \<and> j < length ks \<longrightarrow> k < ks ! j"
      using bsearch_loop_correct [OF assms(1), of "length ks" 0 k] by (auto simp: b_def)
    have ne: "ks ! b \<noteq> k" and i: "i = (if ks ! b < k then b + 1 else b)"
      using assms(2) False by (auto simp: binary_search_keys_def b_def Let_def split: if_splits)
    show ?thesis
    proof (cases "ks ! b < k")
      case True
      have "ks ! j < k" if "j \<le> b" for j
        using sorted_nth_mono [OF assms(1) that c(1)] True by simp
      with True i c show ?thesis by auto
    next
      case False
      with c(2) ne have "b = 0" by auto
      moreover from False ne have "k < ks ! b" by simp
      ultimately show ?thesis using i c(3) False by (metis gr0I less_nat_zero_code zero_le)
    qed
  qed
  show "i \<le> length ks" and "\<forall>j < i. ks ! j < k" and "\<forall>j. i \<le> j \<and> j < length ks \<longrightarrow> k < ks ! j"
    using all by blast+
qed

text \<open>The same contract as a split of the list, the form the region lists use.\<close>

lemma binary_search_split:
  assumes "sorted (map f xs)"
  obtains (found) as x bs where "xs = as @ x # bs" and "f x = k"
      and "binary_search_by_key xs k f = Inr (length as)"
  | (absent) as bs where "xs = as @ bs" and "binary_search_by_key xs k f = Inl (length as)"
      and "\<forall>a \<in> set as. f a < k" and "\<forall>b \<in> set bs. k < f b"
proof (cases "binary_search_by_key xs k f")
  case (Inr i)
  then have i: "i < length xs" "f (xs ! i) = k"
    using binary_search_keys_Inr [OF assms, of k i] by (auto simp: binary_search_by_key_def)
  show ?thesis
    using found [of "take i xs" "xs ! i" "drop (Suc i) xs"] i Inr id_take_nth_drop [OF i(1)]
    by simp
next
  case (Inl i)
  note s = binary_search_keys_Inl [OF assms, of k i]
  have i: "i \<le> length xs" "\<forall>j < i. f (xs ! j) < k" "\<forall>j. i \<le> j \<and> j < length xs \<longrightarrow> k < f (xs ! j)"
    using Inl s by (auto simp: binary_search_by_key_def)
  have "\<forall>a \<in> set (take i xs). f a < k"
    using i(1,2) by (auto simp: in_set_conv_nth)
  moreover have "\<forall>b \<in> set (drop i xs). k < f b"
    using i(1,3) by (auto simp: in_set_conv_nth)
  ultimately show ?thesis
    using absent [of "take i xs" "drop i xs"] i(1) Inl by simp
qed

end
