(* ===== verification/Mutex.thy ===== *)
theory Mutex
  imports Prelude
begin

text \<open>
  The locks of \<open>src/mutex/src/lib.rs\<close>. Every atomic operation is one step, threads interleave
  freely, and a configuration is the shared lock word with its data and the program counter of each
  thread. The steps are functions of the lock, the program counter and the outcomes the environment
  chooses (a spurious failure of \<open>compare_exchange_weak\<close>), and the interleavings are an inductive
  relation over them. The model is sequentially consistent; memory orderings are not represented.
\<close>

unbundle bit_operations_syntax

section \<open>SpinLock\<close>

record 'a SpinLock =
  locked :: bool
  spin_data :: 'a

definition SpinLock_new :: "'a \<Rightarrow> 'a SpinLock" where
  "SpinLock_new d = \<lparr>locked = False, spin_data = d\<rparr>"

text \<open>\<open>compare_exchange_weak(false, true)\<close>: it may fail although the value matches.\<close>

definition spin_compare_exchange :: "bool \<Rightarrow> 'a SpinLock \<Rightarrow> bool \<times> 'a SpinLock" where
  "spin_compare_exchange spurious lk =
     (if \<not> locked lk \<and> \<not> spurious then (True, lk\<lparr>locked := True\<rparr>) else (False, lk))"

datatype spin_pc = SpinIdle | SpinWant | SpinHeld

text \<open>One turn of the loop of \<open>lock\<close>.\<close>

definition spin_lock_turn :: "bool \<Rightarrow> 'a SpinLock \<Rightarrow> spin_pc \<times> 'a SpinLock" where
  "spin_lock_turn spurious lk =
     (let (ok, lk') = spin_compare_exchange spurious lk in (if ok then SpinHeld else SpinWant, lk'))"

definition spin_try_lock :: "bool \<Rightarrow> 'a SpinLock \<Rightarrow> spin_pc \<times> 'a SpinLock" where
  "spin_try_lock spurious lk =
     (let (ok, lk') = spin_compare_exchange spurious lk in (if ok then SpinHeld else SpinIdle, lk'))"

definition spin_guard_drop :: "'a SpinLock \<Rightarrow> spin_pc \<times> 'a SpinLock" where
  "spin_guard_drop lk = (SpinIdle, lk\<lparr>locked := False\<rparr>)"

definition spin_deref :: "'a SpinLock \<Rightarrow> 'a" where
  "spin_deref lk = spin_data lk"

definition spin_deref_mut :: "'a SpinLock \<Rightarrow> 'a \<Rightarrow> 'a SpinLock" where
  "spin_deref_mut lk d = lk\<lparr>spin_data := d\<rparr>"

text \<open>The interleavings of the threads of \<open>pcs\<close>.\<close>

inductive spin_step :: "'a SpinLock \<times> spin_pc list \<Rightarrow> 'a SpinLock \<times> spin_pc list \<Rightarrow> bool" where
  spin_call: "i < length pcs \<Longrightarrow> pcs ! i = SpinIdle \<Longrightarrow> spin_step (lk, pcs) (lk, pcs[i := SpinWant])"
| spin_turn: "i < length pcs \<Longrightarrow> pcs ! i = SpinWant \<Longrightarrow> spin_lock_turn spurious lk = (pc, lk') \<Longrightarrow>
     spin_step (lk, pcs) (lk', pcs[i := pc])"
| spin_try: "i < length pcs \<Longrightarrow> pcs ! i = SpinIdle \<Longrightarrow> spin_try_lock spurious lk = (pc, lk') \<Longrightarrow>
     spin_step (lk, pcs) (lk', pcs[i := pc])"
| spin_access: "i < length pcs \<Longrightarrow> pcs ! i = SpinHeld \<Longrightarrow>
     spin_step (lk, pcs) (spin_deref_mut lk d, pcs)"
| spin_drop: "i < length pcs \<Longrightarrow> pcs ! i = SpinHeld \<Longrightarrow> spin_guard_drop lk = (pc, lk') \<Longrightarrow>
     spin_step (lk, pcs) (lk', pcs[i := pc])"

section \<open>RwLock\<close>

text \<open>The most significant bit of the word is the write flag, the others count the readers.\<close>

record 'a RwLock =
  rw_word :: "64 word"
  rw_data :: 'a

definition WRITE_FLAG :: "64 word" where
  "WRITE_FLAG = push_bit 63 1"

definition RwLock_new :: "'a \<Rightarrow> 'a RwLock" where
  "RwLock_new d = \<lparr>rw_word = 0, rw_data = d\<rparr>"

definition rw_compare_exchange :: "bool \<Rightarrow> 'a RwLock \<Rightarrow> 64 word \<Rightarrow> 64 word \<Rightarrow> bool \<times> 'a RwLock" where
  "rw_compare_exchange spurious lk current new =
     (if rw_word lk = current \<and> \<not> spurious then (True, lk\<lparr>rw_word := new\<rparr>) else (False, lk))"

text \<open>
  Where a thread is: \<open>ReadLoaded\<close> and \<open>WriteLoaded\<close> have loaded \<open>current_state\<close> and not yet tried to
  exchange it; \<open>WaitReaders\<close> has set the write flag and waits for the readers to leave.
\<close>

datatype rw_pc = RwIdle | ReadWant | ReadLoaded "64 word" | Reading
  | WriteWant | WriteLoaded "64 word" | WaitReaders | Writing

text \<open>The next step of a thread inside \<open>read\<close> or \<open>write\<close>.\<close>

fun rw_turn :: "bool \<Rightarrow> 'a RwLock \<Rightarrow> rw_pc \<Rightarrow> rw_pc \<times> 'a RwLock" where
  "rw_turn spurious lk ReadWant = (ReadLoaded (rw_word lk), lk)"
| "rw_turn spurious lk (ReadLoaded current_state) =
     (if current_state AND WRITE_FLAG = 0 then
        (let (ok, lk') = rw_compare_exchange spurious lk current_state (current_state + 1)
         in (if ok then Reading else ReadWant, lk'))
      else (ReadWant, lk))"
| "rw_turn spurious lk WriteWant = (WriteLoaded (rw_word lk), lk)"
| "rw_turn spurious lk (WriteLoaded current_state) =
     (if current_state AND WRITE_FLAG = 0 then
        (let (ok, lk') = rw_compare_exchange spurious lk current_state (current_state OR WRITE_FLAG)
         in (if ok then WaitReaders else WriteWant, lk'))
      else (WriteWant, lk))"
| "rw_turn spurious lk WaitReaders =
     (if rw_word lk AND NOT WRITE_FLAG \<noteq> 0 then (WaitReaders, lk) else (Writing, lk))"
| "rw_turn spurious lk pc = (pc, lk)"

definition read_guard_drop :: "'a RwLock \<Rightarrow> rw_pc \<times> 'a RwLock" where
  "read_guard_drop lk = (RwIdle, lk\<lparr>rw_word := rw_word lk - 1\<rparr>)"

definition write_guard_drop :: "'a RwLock \<Rightarrow> rw_pc \<times> 'a RwLock" where
  "write_guard_drop lk = (RwIdle, lk\<lparr>rw_word := rw_word lk AND NOT WRITE_FLAG\<rparr>)"

definition rw_deref :: "'a RwLock \<Rightarrow> 'a" where
  "rw_deref lk = rw_data lk"

definition rw_deref_mut :: "'a RwLock \<Rightarrow> 'a \<Rightarrow> 'a RwLock" where
  "rw_deref_mut lk d = lk\<lparr>rw_data := d\<rparr>"

inductive rw_step :: "'a RwLock \<times> rw_pc list \<Rightarrow> 'a RwLock \<times> rw_pc list \<Rightarrow> bool" where
  rw_call_read: "i < length pcs \<Longrightarrow> pcs ! i = RwIdle \<Longrightarrow> rw_step (lk, pcs) (lk, pcs[i := ReadWant])"
| rw_call_write: "i < length pcs \<Longrightarrow> pcs ! i = RwIdle \<Longrightarrow> rw_step (lk, pcs) (lk, pcs[i := WriteWant])"
| rw_next: "i < length pcs \<Longrightarrow> rw_turn spurious lk (pcs ! i) = (pc, lk') \<Longrightarrow>
     rw_step (lk, pcs) (lk', pcs[i := pc])"
| rw_access: "i < length pcs \<Longrightarrow> pcs ! i = Writing \<Longrightarrow> rw_step (lk, pcs) (rw_deref_mut lk d, pcs)"
| rw_read_drop: "i < length pcs \<Longrightarrow> pcs ! i = Reading \<Longrightarrow> read_guard_drop lk = (pc, lk') \<Longrightarrow>
     rw_step (lk, pcs) (lk', pcs[i := pc])"
| rw_write_drop: "i < length pcs \<Longrightarrow> pcs ! i = Writing \<Longrightarrow> write_guard_drop lk = (pc, lk') \<Longrightarrow>
     rw_step (lk, pcs) (lk', pcs[i := pc])"

section \<open>Invariants of a transition system\<close>

locale transition_system =
  fixes start :: "'c \<Rightarrow> bool"
    and step :: "'c \<Rightarrow> 'c \<Rightarrow> bool"
    and inv :: "'c \<Rightarrow> bool"
  assumes inv_start: "start c \<Longrightarrow> inv c"
    and inv_step: "inv c \<Longrightarrow> step c c' \<Longrightarrow> inv c'"
begin

lemma reachable_inv:
  assumes "step\<^sup>*\<^sup>* c c'" and "start c"
  shows "inv c'"
  using assms by (induction rule: rtranclp_induct) (auto intro: inv_start inv_step)

end

section \<open>The spin lock excludes\<close>

definition holders :: "spin_pc list \<Rightarrow> nat" where
  "holders pcs = length (filter (\<lambda>pc. pc = SpinHeld) pcs)"

definition spin_start :: "'a SpinLock \<times> spin_pc list \<Rightarrow> bool" where
  "spin_start c \<longleftrightarrow> \<not> locked (fst c) \<and> (\<forall>pc \<in> set (snd c). pc = SpinIdle)"

definition spin_inv :: "'a SpinLock \<times> spin_pc list \<Rightarrow> bool" where
  "spin_inv c \<longleftrightarrow> holders (snd c) = (if locked (fst c) then 1 else 0)"

text \<open>How an update of one program counter changes a count.\<close>

lemma filter_update_length:
  assumes "i < length xs"
  shows "length (filter P (xs[i := y])) + (if P (xs ! i) then 1 else 0) = length (filter P xs) + (if P y then 1 else 0)"
  using assms
proof (induction xs arbitrary: i)
  case (Cons x xs)
  then show ?case by (cases i) fastforce+
qed simp

lemmas holders_update = filter_update_length [where P = "\<lambda>pc. pc = SpinHeld", folded holders_def]

lemma spin_inv_step:
  assumes "spin_inv c" and "spin_step c c'"
  shows "spin_inv c'"
  using assms(2,1)
proof (cases rule: spin_step.cases)
  case (spin_call i pcs lk)
  then show ?thesis using holders_update [of i pcs SpinWant] assms(1) by (simp add: spin_inv_def)
next
  case (spin_turn i pcs spurious lk pc lk')
  then show ?thesis using holders_update [of i pcs pc] assms(1)
    by (auto simp: spin_inv_def spin_lock_turn_def spin_compare_exchange_def split: if_splits)
next
  case (spin_try i pcs spurious lk pc lk')
  then show ?thesis using holders_update [of i pcs pc] assms(1)
    by (auto simp: spin_inv_def spin_try_lock_def spin_compare_exchange_def split: if_splits)
next
  case (spin_access i pcs lk d)
  then show ?thesis using assms(1) by (simp add: spin_inv_def spin_deref_mut_def)
next
  case (spin_drop i pcs lk pc lk')
  then show ?thesis using holders_update [of i pcs pc] assms(1)
    by (auto simp: spin_inv_def spin_guard_drop_def split: if_splits)
qed

interpretation spin: transition_system spin_start spin_step spin_inv
proof
  fix c :: "'a SpinLock \<times> spin_pc list"
  assume s: "spin_start c"
  then have "filter (\<lambda>pc. pc = SpinHeld) (snd c) = []" by (auto simp: spin_start_def filter_empty_conv)
  then show "spin_inv c" using s by (simp add: spin_inv_def holders_def spin_start_def)
qed (rule spin_inv_step)

lemma two_in_filter:
  assumes "i < length xs" and "j < length xs" and "i \<noteq> j" and "P (xs ! i)" and "P (xs ! j)"
  shows "2 \<le> length (filter P xs)"
proof -
  have "{i, j} \<subseteq> {k. k < length xs \<and> P (xs ! k)}" using assms by auto
  then have "card {i, j} \<le> card {k. k < length xs \<and> P (xs ! k)}" by (intro card_mono) auto
  then show ?thesis using assms(3) by (simp add: length_filter_conv_card)
qed

section \<open>The word of the read-write lock\<close>

lemma bit_WRITE_FLAG: "bit WRITE_FLAG n \<longleftrightarrow> n = 63"
  unfolding WRITE_FLAG_def bit_push_bit_iff bit_1_iff by auto

lemma reader_bits:
  assumes "n < 2 ^ 63" and "bit (word_of_nat n :: 64 word) k"
  shows "k < 63"
proof (rule ccontr)
  assume "\<not> k < 63"
  then have "(2::nat) ^ 63 \<le> 2 ^ k" by (intro power_increasing) simp_all
  then have "n div 2 ^ k = 0" using assms(1) by simp
  then have "\<not> bit n k" by (simp add: bit_iff_odd)
  with assms(2) show False by (simp add: bit_of_nat_iff)
qed

lemma readers_no_flag: "n < 2 ^ 63 \<Longrightarrow> (word_of_nat n :: 64 word) AND WRITE_FLAG = 0"
  using reader_bits [of n 63] by (intro bit_eqI) (auto simp: bit_and_iff bit_WRITE_FLAG)

lemma readers_or_flag: "n < 2 ^ 63 \<Longrightarrow> (word_of_nat n :: 64 word) OR WRITE_FLAG = word_of_nat n + WRITE_FLAG"
  by (rule disjunctive_add_eq_or [symmetric, OF readers_no_flag])

lemma flag_set: "n < 2 ^ 63 \<Longrightarrow> ((word_of_nat n :: 64 word) + WRITE_FLAG) AND WRITE_FLAG \<noteq> 0"
proof -
  assume n: "n < 2 ^ 63"
  have "bit (((word_of_nat n :: 64 word) OR WRITE_FLAG) AND WRITE_FLAG) 63"
    by (simp add: bit_and_iff bit_or_iff bit_WRITE_FLAG)
  then show ?thesis using readers_or_flag [OF n] by auto
qed

lemma flag_removed: "n < 2 ^ 63 \<Longrightarrow> ((word_of_nat n :: 64 word) + WRITE_FLAG) AND NOT WRITE_FLAG = word_of_nat n"
proof -
  assume n: "n < 2 ^ 63"
  have "((word_of_nat n :: 64 word) OR WRITE_FLAG) AND NOT WRITE_FLAG = word_of_nat n"
    by (rule bit_eqI) (auto simp: bit_and_iff bit_or_iff bit_not_iff bit_WRITE_FLAG dest: reader_bits [OF n])
  then show ?thesis using readers_or_flag [OF n] by simp
qed

lemma readers_zero: "n < 2 ^ 63 \<Longrightarrow> (word_of_nat n :: 64 word) = 0 \<longleftrightarrow> n = 0"
proof -
  assume n: "n < 2 ^ 63"
  then show ?thesis by (auto simp: word_of_nat_eq_0_iff dest: dvd_imp_le)
qed

section \<open>The read-write lock excludes\<close>

definition readers :: "rw_pc list \<Rightarrow> nat" where
  "readers pcs = length (filter (\<lambda>pc. pc = Reading) pcs)"

definition writers :: "rw_pc list \<Rightarrow> nat" where
  "writers pcs = length (filter (\<lambda>pc. pc = WaitReaders \<or> pc = Writing) pcs)"

definition rw_start :: "'a RwLock \<times> rw_pc list \<Rightarrow> bool" where
  "rw_start c \<longleftrightarrow> rw_word (fst c) = 0 \<and> (\<forall>pc \<in> set (snd c). pc = RwIdle) \<and> length (snd c) < 2 ^ 63"

definition rw_inv :: "'a RwLock \<times> rw_pc list \<Rightarrow> bool" where
  "rw_inv c \<longleftrightarrow> length (snd c) < 2 ^ 63 \<and> writers (snd c) \<le> 1
     \<and> rw_word (fst c) = word_of_nat (readers (snd c)) + (if writers (snd c) = 1 then WRITE_FLAG else 0)
     \<and> (Writing \<in> set (snd c) \<longrightarrow> readers (snd c) = 0)"

lemmas readers_update = filter_update_length [where P = "\<lambda>pc. pc = Reading", folded readers_def]
lemmas writers_update = filter_update_length [where P = "\<lambda>pc. pc = WaitReaders \<or> pc = Writing", folded writers_def]

lemma readers_bound: "length pcs < 2 ^ 63 \<Longrightarrow> readers pcs < 2 ^ 63"
  unfolding readers_def by (rule le_less_trans [OF length_filter_le])

lemma readers_lt: "i < length pcs \<Longrightarrow> pcs ! i \<noteq> Reading \<Longrightarrow> readers pcs < length pcs"
  unfolding readers_def using length_filter_less [of "pcs ! i" pcs "\<lambda>pc. pc = Reading"] by simp

text \<open>A step that leaves the word and moves a thread between places outside the critical sections.\<close>

lemma rw_inv_quiet:
  assumes "rw_inv (lk, pcs)" and "i < length pcs" and "pc \<noteq> Reading" "pc \<noteq> WaitReaders" "pc \<noteq> Writing"
    and "pcs ! i \<noteq> Reading" "pcs ! i \<noteq> WaitReaders" "pcs ! i \<noteq> Writing"
  shows "rw_inv (lk, pcs[i := pc])"
  using assms readers_update [OF assms(2), of pc] writers_update [OF assms(2), of pc] set_update_subset_insert [of pcs i pc]
  by (auto simp: rw_inv_def)

lemma no_flag_no_writer:
  assumes "rw_inv (lk, pcs)" and "rw_word lk AND WRITE_FLAG = 0"
  shows "writers pcs = 0" and "rw_word lk = word_of_nat (readers pcs)"
  using assms flag_set [OF readers_bound, of pcs] by (auto simp: rw_inv_def split: if_splits)

lemma writing_counts: "Writing \<in> set pcs \<Longrightarrow> 0 < writers pcs"
  unfolding writers_def by (auto simp: filter_empty_conv)

lemma rw_inv_enter_read:
  assumes inv: "rw_inv (lk, pcs)" and i: "i < length pcs" "pcs ! i = ReadLoaded v" and v: "v AND WRITE_FLAG = 0" "rw_word lk = v"
  shows "rw_inv (lk\<lparr>rw_word := v + 1\<rparr>, pcs[i := Reading])"
proof -
  note w = no_flag_no_writer [OF inv, unfolded v(2), OF v(1)]
  have "Writing \<notin> set pcs" using writing_counts w(1) by fastforce
  then have "Writing \<notin> set (pcs[i := Reading])" using set_update_subset_insert [of pcs i Reading] by auto
  then show ?thesis
    using inv i w readers_update [OF i(1), of Reading] writers_update [OF i(1), of Reading]
    by (simp add: rw_inv_def algebra_simps)
qed

lemma rw_inv_enter_write:
  assumes inv: "rw_inv (lk, pcs)" and i: "i < length pcs" "pcs ! i = WriteLoaded v" and v: "v AND WRITE_FLAG = 0" "rw_word lk = v"
  shows "rw_inv (lk\<lparr>rw_word := v OR WRITE_FLAG\<rparr>, pcs[i := WaitReaders])"
proof -
  note w = no_flag_no_writer [OF inv, unfolded v(2), OF v(1)]
  have "Writing \<notin> set pcs" using writing_counts w(1) by fastforce
  then have "Writing \<notin> set (pcs[i := WaitReaders])" using set_update_subset_insert [of pcs i WaitReaders] by auto
  moreover have "readers pcs < 2 ^ 63" using inv readers_bound by (simp add: rw_inv_def)
  ultimately show ?thesis
    using inv i w readers_update [OF i(1), of WaitReaders] writers_update [OF i(1), of WaitReaders] readers_or_flag
    by (simp add: rw_inv_def)
qed

lemma rw_inv_readers_left:
  assumes inv: "rw_inv (lk, pcs)" and i: "i < length pcs" "pcs ! i = WaitReaders" and z: "rw_word lk AND NOT WRITE_FLAG = 0"
  shows "rw_inv (lk, pcs[i := Writing])"
proof -
  have n: "readers pcs < 2 ^ 63" using inv readers_bound by (simp add: rw_inv_def)
  have "0 < writers pcs" unfolding writers_def using i nth_mem [OF i(1)] by (auto simp: filter_empty_conv)
  then have "rw_word lk = word_of_nat (readers pcs) + WRITE_FLAG" using inv by (auto simp: rw_inv_def)
  then have "readers pcs = 0" using z flag_removed [OF n] readers_zero [OF n] by simp
  then show ?thesis
    using inv i readers_update [OF i(1), of Writing] writers_update [OF i(1), of Writing] by (simp add: rw_inv_def)
qed

lemma rw_inv_leave_read:
  assumes inv: "rw_inv (lk, pcs)" and i: "i < length pcs" "pcs ! i = Reading"
  shows "rw_inv (lk\<lparr>rw_word := rw_word lk - 1\<rparr>, pcs[i := RwIdle])"
proof -
  have r: "readers pcs = Suc (readers (pcs[i := RwIdle]))" and w: "writers (pcs[i := RwIdle]) = writers pcs"
    using i readers_update [OF i(1), of RwIdle] writers_update [OF i(1), of RwIdle] by simp_all
  have "Writing \<notin> set (pcs[i := RwIdle])"
    using inv r set_update_subset_insert [of pcs i RwIdle] by (auto simp: rw_inv_def)
  then show ?thesis using inv r w by (simp add: rw_inv_def)
qed

lemma rw_inv_leave_write:
  assumes inv: "rw_inv (lk, pcs)" and i: "i < length pcs" "pcs ! i = Writing"
  shows "rw_inv (lk\<lparr>rw_word := rw_word lk AND NOT WRITE_FLAG\<rparr>, pcs[i := RwIdle])"
proof -
  have n: "readers pcs < 2 ^ 63" using inv readers_bound by (simp add: rw_inv_def)
  have mem: "Writing \<in> set pcs" using i nth_mem [OF i(1)] by simp
  then have w1: "writers pcs = 1" using inv writing_counts by (fastforce simp: rw_inv_def)
  have r: "readers (pcs[i := RwIdle]) = readers pcs" and w: "writers (pcs[i := RwIdle]) = 0"
    using i w1 readers_update [OF i(1), of RwIdle] writers_update [OF i(1), of RwIdle] by simp_all
  have "Writing \<notin> set (pcs[i := RwIdle])" using writing_counts [of "pcs[i := RwIdle]"] w by fastforce
  then show ?thesis using inv r w w1 flag_removed [OF n] by (simp add: rw_inv_def)
qed

lemma rw_inv_turn:
  assumes inv: "rw_inv (lk, pcs)" and i: "i < length pcs" and run: "rw_turn spurious lk (pcs ! i) = (pc, lk')"
  shows "rw_inv (lk', pcs[i := pc])"
proof (cases "pcs ! i")
  case (ReadLoaded v)
  then show ?thesis
    using run rw_inv_enter_read [OF inv i ReadLoaded] rw_inv_quiet [OF inv i, of ReadWant]
    by (auto simp: rw_compare_exchange_def split: if_splits)
next
  case (WriteLoaded v)
  then show ?thesis
    using run rw_inv_enter_write [OF inv i WriteLoaded] rw_inv_quiet [OF inv i, of WriteWant]
    by (auto simp: rw_compare_exchange_def split: if_splits)
next
  case WaitReaders
  then have "pcs[i := WaitReaders] = pcs" by (metis list_update_id)
  then show ?thesis using WaitReaders run rw_inv_readers_left [OF inv i WaitReaders] inv by (auto split: if_splits)
qed (use run inv rw_inv_quiet [OF inv i] list_update_id [of pcs i] in auto)

lemma rw_inv_step:
  assumes "rw_inv c" and "rw_step c c'"
  shows "rw_inv c'"
  using assms(2)
proof (cases rule: rw_step.cases)
  case (rw_next i pcs spurious lk pc lk')
  then show ?thesis using rw_inv_turn assms(1) by blast
next
  case (rw_access i pcs lk d)
  then show ?thesis using assms(1) by (simp add: rw_inv_def rw_deref_mut_def)
next
  case (rw_read_drop i pcs lk pc lk')
  then show ?thesis using rw_inv_leave_read assms(1) by (auto simp: read_guard_drop_def)
next
  case (rw_write_drop i pcs lk pc lk')
  then show ?thesis using rw_inv_leave_write assms(1) by (auto simp: write_guard_drop_def)
next
  case (rw_call_read i pcs lk)
  then show ?thesis using assms(1) rw_inv_quiet [of lk pcs i ReadWant] by simp
next
  case (rw_call_write i pcs lk)
  then show ?thesis using assms(1) rw_inv_quiet [of lk pcs i WriteWant] by simp
qed

interpretation rw: transition_system rw_start rw_step rw_inv
proof
  fix c :: "'a RwLock \<times> rw_pc list"
  assume s: "rw_start c"
  then have "filter (\<lambda>pc. pc = Reading) (snd c) = []" "filter (\<lambda>pc. pc = WaitReaders \<or> pc = Writing) (snd c) = []"
    by (auto simp: rw_start_def filter_empty_conv)
  then show "rw_inv c" using s by (auto simp: rw_inv_def rw_start_def readers_def writers_def)
qed (rule rw_inv_step)

lemma two_steps: "r a b \<Longrightarrow> r b c \<Longrightarrow> r\<^sup>*\<^sup>* a c"
  by (rule rtranclp.rtrancl_into_rtrancl [OF r_into_rtranclp])

lemma three_steps: "r a b \<Longrightarrow> r b c \<Longrightarrow> r c d \<Longrightarrow> r\<^sup>*\<^sup>* a d"
  by (rule rtranclp.rtrancl_into_rtrancl [OF two_steps])

section \<open>Properties\<close>

text \<open>
  C20. Mutual exclusion of the spin lock: in every interleaving of any number of threads, with
  spurious failures of the exchange and failing \<open>try_lock\<close> calls, at most one thread holds a guard,
  and while one does the lock word is set.
\<close>

theorem spin_lock_mutual_exclusion:
  assumes "spin_start c" and "spin_step\<^sup>*\<^sup>* c (lk, pcs)"
    and "i < length pcs" and "j < length pcs" and "pcs ! i = SpinHeld" and "pcs ! j = SpinHeld"
  shows "i = j \<and> locked lk"
proof -
  have inv: "spin_inv (lk, pcs)" by (rule spin.reachable_inv [OF assms(2,1)])
  have "SpinHeld \<in> set pcs" using assms(3,5) nth_mem by fastforce
  then have "0 < holders pcs" unfolding holders_def by (auto simp: filter_empty_conv)
  then show ?thesis
    using inv two_in_filter [OF assms(3,4), of "\<lambda>pc. pc = SpinHeld"] assms(5,6)
    by (auto simp: spin_inv_def holders_def split: if_splits)
qed

theorem spin_lock_mutual_exclusion_witness:
  "\<exists>lk pcs. spin_step\<^sup>*\<^sup>* (SpinLock_new (0::nat), [SpinIdle, SpinIdle]) (lk, pcs) \<and> pcs ! 1 = SpinHeld \<and> locked lk"
proof -
  let ?c = "(SpinLock_new (0::nat), [SpinIdle, SpinIdle])"
  let ?d = "((SpinLock_new (0::nat))\<lparr>locked := True\<rparr>, [SpinIdle, SpinHeld])"
  have "spin_step ?c (SpinLock_new 0, [SpinIdle, SpinWant])"
    using spin_call [of 1 "[SpinIdle, SpinIdle]" "SpinLock_new (0::nat)"] by simp
  moreover have "spin_step (SpinLock_new (0::nat), [SpinIdle, SpinWant]) ?d"
    using spin_turn [of 1 "[SpinIdle, SpinWant]" False "SpinLock_new (0::nat)" SpinHeld]
    by (simp add: spin_lock_turn_def spin_compare_exchange_def SpinLock_new_def)
  ultimately have run: "spin_step\<^sup>*\<^sup>* ?c ?d" by (rule two_steps)
  have start: "spin_start ?c" by (simp add: spin_start_def SpinLock_new_def)
  have "locked ((SpinLock_new (0::nat))\<lparr>locked := True\<rparr>)"
    by (rule spin_lock_mutual_exclusion [OF start run, of 1 1, THEN conjunct2]) simp_all
  then show ?thesis
    using run by (intro exI [of _ "(SpinLock_new (0::nat))\<lparr>locked := True\<rparr>"] exI [of _ "[SpinIdle, SpinHeld]"]) simp
qed

text \<open>
  C19. The read-write lock: with fewer than \<open>2^63\<close> threads, while one thread holds the write guard no
  other thread holds a read or a write guard, and the lock word is the number of readers plus the
  write flag.
\<close>

theorem rw_lock_exclusion:
  assumes "rw_start c" and "rw_step\<^sup>*\<^sup>* c (lk, pcs)"
  shows "rw_word lk = word_of_nat (readers pcs) + (if writers pcs = 1 then WRITE_FLAG else 0)
     \<and> (\<forall>i j. i < length pcs \<and> j < length pcs \<and> pcs ! i = Writing \<longrightarrow> pcs ! j \<noteq> Reading \<and> (pcs ! j = Writing \<longrightarrow> i = j))"
proof -
  have inv: "rw_inv (lk, pcs)" by (rule rw.reachable_inv [OF assms(2,1)])
  have "pcs ! j \<noteq> Reading \<and> (pcs ! j = Writing \<longrightarrow> i = j)"
    if ij: "i < length pcs" "j < length pcs" "pcs ! i = Writing" for i j
  proof -
    have "Writing \<in> set pcs" using ij nth_mem by fastforce
    then have "readers pcs = 0" using inv by (simp add: rw_inv_def)
    then have "Reading \<notin> set pcs" by (auto simp: readers_def filter_empty_conv)
    then have "pcs ! j \<noteq> Reading" using ij(2) nth_mem by fastforce
    moreover have "i = j" if "pcs ! j = Writing"
    proof (rule ccontr)
      assume "i \<noteq> j"
      then have "2 \<le> writers pcs"
        unfolding writers_def using two_in_filter [OF ij(1,2), of "\<lambda>pc. pc = WaitReaders \<or> pc = Writing"] ij that by blast
      then show False using inv by (simp add: rw_inv_def)
    qed
    ultimately show ?thesis by blast
  qed
  then show ?thesis using inv by (auto simp: rw_inv_def)
qed

theorem rw_lock_exclusion_witness:
  "\<exists>lk pcs. rw_step\<^sup>*\<^sup>* (RwLock_new (0::nat), [RwIdle, RwIdle]) (lk, pcs) \<and> pcs ! 0 = Reading \<and> rw_word lk = 1"
proof -
  let ?lk = "RwLock_new (0::nat)"
  have "rw_step (?lk, [RwIdle, RwIdle]) (?lk, [ReadWant, RwIdle])"
    using rw_call_read [of 0 "[RwIdle, RwIdle]" ?lk] by simp
  moreover have "rw_step (?lk, [ReadWant, RwIdle]) (?lk, [ReadLoaded 0, RwIdle])"
    using rw_next [of 0 "[ReadWant, RwIdle]" False ?lk] by (simp add: RwLock_new_def)
  moreover have "rw_step (?lk, [ReadLoaded 0, RwIdle]) (?lk\<lparr>rw_word := 1\<rparr>, [Reading, RwIdle])"
    using rw_next [of 0 "[ReadLoaded 0, RwIdle]" False ?lk] by (simp add: RwLock_new_def rw_compare_exchange_def)
  ultimately have run: "rw_step\<^sup>*\<^sup>* (?lk, [RwIdle, RwIdle]) (?lk\<lparr>rw_word := 1\<rparr>, [Reading, RwIdle])"
    by (rule three_steps)
  have start: "rw_start (?lk, [RwIdle, RwIdle])" by (simp add: rw_start_def RwLock_new_def)
  have "rw_word (?lk\<lparr>rw_word := 1\<rparr>) = word_of_nat (readers [Reading, RwIdle]) + (if writers [Reading, RwIdle] = 1 then WRITE_FLAG else 0)"
    by (rule rw_lock_exclusion [OF start run, THEN conjunct1])
  then have "rw_word (?lk\<lparr>rw_word := 1\<rparr>) = 1" by (simp only: readers_def writers_def) simp
  then show ?thesis using run by (intro exI [of _ "?lk\<lparr>rw_word := 1\<rparr>"] exI [of _ "[Reading, RwIdle]"]) simp
qed

text \<open>
  C21. A writer is not overtaken: once a thread has set the write flag, no step lets another reader in,
  so the readers only leave until the writer gets the lock.
\<close>

theorem rw_writer_not_overtaken:
  assumes "rw_start c" and "rw_step\<^sup>*\<^sup>* c (lk, pcs)" and "WaitReaders \<in> set pcs" and "rw_step (lk, pcs) (lk', pcs')"
  shows "readers pcs' \<le> readers pcs"
proof -
  have inv: "rw_inv (lk, pcs)" by (rule rw.reachable_inv [OF assms(2,1)])
  have "0 < writers pcs" unfolding writers_def using assms(3) by (auto simp: filter_empty_conv)
  then have set: "rw_word lk AND WRITE_FLAG \<noteq> 0" using no_flag_no_writer(1) [OF inv] by fastforce
  have turn: "readers (pcs[i := pc]) \<le> readers pcs"
    if "i < length pcs" "rw_turn spurious lk (pcs ! i) = (pc, lk2)" for i pc spurious lk2
    using that readers_update [OF that(1), of pc] set
    by (cases "pcs ! i") (auto simp: rw_compare_exchange_def split: if_splits)
  from assms(4) show ?thesis
  proof (cases rule: rw_step.cases)
    case (rw_next i spurious pc)
    then show ?thesis using turn by blast
  next
    case (rw_call_read i)
    then show ?thesis using readers_update [of i pcs ReadWant] by simp
  next
    case (rw_call_write i)
    then show ?thesis using readers_update [of i pcs WriteWant] by simp
  next
    case (rw_read_drop i pc)
    then show ?thesis using readers_update [of i pcs pc] by (simp add: read_guard_drop_def)
  next
    case (rw_write_drop i pc)
    then show ?thesis using readers_update [of i pcs pc] by (simp add: write_guard_drop_def)
  qed simp
qed

theorem rw_writer_not_overtaken_witness:
  "\<exists>lk lk' pcs pcs'. WaitReaders \<in> set pcs \<and> rw_step (lk :: nat RwLock, pcs) (lk', pcs') \<and> readers pcs' \<le> readers pcs"
proof -
  let ?lk = "RwLock_new (0::nat)"
  have "rw_step (?lk, [RwIdle]) (?lk, [WriteWant])" using rw_call_write [of 0 "[RwIdle]" ?lk] by simp
  moreover have "rw_step (?lk, [WriteWant]) (?lk, [WriteLoaded 0])"
    using rw_next [of 0 "[WriteWant]" False ?lk] by (simp add: RwLock_new_def)
  moreover have "rw_step (?lk, [WriteLoaded 0]) (?lk\<lparr>rw_word := WRITE_FLAG\<rparr>, [WaitReaders])"
    using rw_next [of 0 "[WriteLoaded 0]" False ?lk] by (simp add: RwLock_new_def rw_compare_exchange_def)
  ultimately have run: "rw_step\<^sup>*\<^sup>* (?lk, [RwIdle]) (?lk\<lparr>rw_word := WRITE_FLAG\<rparr>, [WaitReaders])"
    by (rule three_steps)
  have start: "rw_start (?lk, [RwIdle])" by (simp add: rw_start_def RwLock_new_def)
  have next_step: "rw_step (?lk\<lparr>rw_word := WRITE_FLAG\<rparr>, [WaitReaders]) (?lk\<lparr>rw_word := WRITE_FLAG\<rparr>, [Writing])"
    using rw_next [of 0 "[WaitReaders]" False "?lk\<lparr>rw_word := WRITE_FLAG\<rparr>"] by simp
  show ?thesis
    using rw_writer_not_overtaken [OF start run _ next_step] next_step
    by (intro exI [of _ "?lk\<lparr>rw_word := WRITE_FLAG\<rparr>"] exI [of _ "[WaitReaders]"] exI [of _ "[Writing]"]) simp
qed

end
