(* ===== verification/Typestate.thy ===== *)
theory Typestate
  imports Prelude
begin

text \<open>
  The MMIO wrappers of \<open>src/typestate/src\<close>. A register is a number of bytes at an address of a byte
  memory. The hosts the workspace is built for are little-endian, so the native value of a register
  is the little-endian value of its bytes, \<open>to_le\<close> and \<open>from_le\<close> are the identity and \<open>to_be\<close> and
  \<open>from_be\<close> swap the bytes. The access wrappers \<open>ReadOnly\<close>, \<open>ReadPure\<close>, \<open>WriteOnly\<close> and \<open>ReadWrite\<close>
  differ only in the operations they offer; each operation is one definition here.
\<close>

unbundle bit_operations_syntax

section \<open>Bytes and native integers\<close>

type_synonym byte = "8 word"

type_synonym memory = "usize \<Rightarrow> byte"

fun le_value :: "byte list \<Rightarrow> nat" where
  "le_value [] = 0"
| "le_value (b # bs) = unat b + 256 * le_value bs"

fun le_bytes :: "nat \<Rightarrow> nat \<Rightarrow> byte list" where
  "le_bytes 0 v = []"
| "le_bytes (Suc n) v = word_of_nat v # le_bytes n (v div 256)"

text \<open>The native value of the \<open>n\<close> bytes at an offset of a byte slice: a field of a \<open>repr(C)\<close> structure.\<close>

definition field :: "byte list \<Rightarrow> nat \<Rightarrow> nat \<Rightarrow> nat" where
  "field data off n = le_value (take n (drop off data))"

definition swap_bytes :: "nat \<Rightarrow> nat \<Rightarrow> nat" where
  "swap_bytes n v = le_value (rev (le_bytes n v))"

text \<open>The methods of \<open>RawReg\<close> for an integer of \<open>n\<close> bytes.\<close>

definition to_le :: "nat \<Rightarrow> nat \<Rightarrow> nat" where
  "to_le n v = v"

definition from_le :: "nat \<Rightarrow> nat \<Rightarrow> nat" where
  "from_le n v = v"

definition to_be :: "nat \<Rightarrow> nat \<Rightarrow> nat" where
  "to_be n v = swap_bytes n v"

definition from_be :: "nat \<Rightarrow> nat \<Rightarrow> nat" where
  "from_be n v = swap_bytes n v"

section \<open>Volatile accesses\<close>

text \<open>\<open>read_volatile\<close> and \<open>write_volatile\<close> of a whole register.\<close>

definition load_bytes :: "memory \<Rightarrow> usize \<Rightarrow> nat \<Rightarrow> byte list" where
  "load_bytes m a n = map (\<lambda>i. m (a + i)) [0..<n]"

definition store_bytes :: "memory \<Rightarrow> usize \<Rightarrow> byte list \<Rightarrow> memory" where
  "store_bytes m a bs = (\<lambda>x. if a \<le> x \<and> x < a + length bs then bs ! (x - a) else m x)"

definition readable_read :: "nat \<Rightarrow> memory \<Rightarrow> usize \<Rightarrow> nat" where
  "readable_read n m a = le_value (load_bytes m a n)"

definition writable_write :: "nat \<Rightarrow> memory \<Rightarrow> usize \<Rightarrow> nat \<Rightarrow> memory" where
  "writable_write n m a v = store_bytes m a (le_bytes n v)"

text \<open>The byte loops of \<open>mod volatile\<close>: \<open>i\<close> counts up, \<open>dst\<close> is the temporary.\<close>

fun volatile_read_loop :: "memory \<Rightarrow> usize \<Rightarrow> nat \<Rightarrow> byte list \<Rightarrow> byte list" where
  "volatile_read_loop m data 0 dst = dst"
| "volatile_read_loop m data (Suc k) dst = volatile_read_loop m data k (dst @ [m (data + length dst)])"

definition volatile_read :: "nat \<Rightarrow> memory \<Rightarrow> usize \<Rightarrow> nat" where
  "volatile_read n m data = le_value (volatile_read_loop m data n [])"

fun volatile_write_loop :: "memory \<Rightarrow> usize \<Rightarrow> byte list \<Rightarrow> memory" where
  "volatile_write_loop m data [] = m"
| "volatile_write_loop m data (b # src) = volatile_write_loop (m(data := b)) (data + 1) src"

definition volatile_write :: "nat \<Rightarrow> memory \<Rightarrow> usize \<Rightarrow> nat \<Rightarrow> memory" where
  "volatile_write n m data v = volatile_write_loop m data (le_bytes n v)"

section \<open>Endianness\<close>

definition Le_read :: "nat \<Rightarrow> memory \<Rightarrow> usize \<Rightarrow> nat" where
  "Le_read n m a = from_le n (readable_read n m a)"

definition Le_write :: "nat \<Rightarrow> memory \<Rightarrow> usize \<Rightarrow> nat \<Rightarrow> memory" where
  "Le_write n m a v = writable_write n m a (to_le n v)"

definition Be_read :: "nat \<Rightarrow> memory \<Rightarrow> usize \<Rightarrow> nat" where
  "Be_read n m a = from_be n (readable_read n m a)"

definition Be_write :: "nat \<Rightarrow> memory \<Rightarrow> usize \<Rightarrow> nat \<Rightarrow> memory" where
  "Be_write n m a v = writable_write n m a (to_be n v)"

text \<open>The plain wrappers \<open>Le(v)\<close> and \<open>Be(v)\<close> on a value.\<close>

definition Le_new :: "nat \<Rightarrow> nat \<Rightarrow> nat" where
  "Le_new n t = from_le n t"

definition Be_new :: "nat \<Rightarrow> nat \<Rightarrow> nat" where
  "Be_new n t = from_be n t"

definition Le_get :: "nat \<Rightarrow> nat \<Rightarrow> nat" where
  "Le_get n stored = from_le n stored"

definition Le_set :: "nat \<Rightarrow> nat \<Rightarrow> nat" where
  "Le_set n val = to_le n val"

definition Be_get :: "nat \<Rightarrow> nat \<Rightarrow> nat" where
  "Be_get n stored = from_be n stored"

definition Be_set :: "nat \<Rightarrow> nat \<Rightarrow> nat" where
  "Be_set n val = to_be n val"

text \<open>The unaligned variants go byte by byte.\<close>

definition Unaligned_read :: "nat \<Rightarrow> memory \<Rightarrow> usize \<Rightarrow> nat" where
  "Unaligned_read n m a = volatile_read n m a"

definition Unaligned_write :: "nat \<Rightarrow> memory \<Rightarrow> usize \<Rightarrow> nat \<Rightarrow> memory" where
  "Unaligned_write n m a v = volatile_write n m a v"

definition Le_Unaligned_read :: "nat \<Rightarrow> memory \<Rightarrow> usize \<Rightarrow> nat" where
  "Le_Unaligned_read n m a = from_le n (volatile_read n m a)"

definition Le_Unaligned_write :: "nat \<Rightarrow> memory \<Rightarrow> usize \<Rightarrow> nat \<Rightarrow> memory" where
  "Le_Unaligned_write n m a v = volatile_write n m a (to_le n v)"

definition Be_Unaligned_read :: "nat \<Rightarrow> memory \<Rightarrow> usize \<Rightarrow> nat" where
  "Be_Unaligned_read n m a = from_be n (volatile_read n m a)"

definition Be_Unaligned_write :: "nat \<Rightarrow> memory \<Rightarrow> usize \<Rightarrow> nat \<Rightarrow> memory" where
  "Be_Unaligned_write n m a v = volatile_write n m a (to_be n v)"

text \<open>
  \<open>read_unaligned\<close> and \<open>write_unaligned\<close> of the core library, and the methods of \<open>Unaligned\<close>, \<open>Le<Unaligned>\<close> and \<open>Be<Unaligned>\<close>
  that go through a raw pointer; the macros \<open>unalign_read!\<close> and \<open>unalign_write!\<close> call them.
\<close>

definition read_unaligned :: "nat \<Rightarrow> memory \<Rightarrow> usize \<Rightarrow> nat" where
  "read_unaligned n m p = le_value (load_bytes m p n)"

definition write_unaligned :: "nat \<Rightarrow> memory \<Rightarrow> usize \<Rightarrow> nat \<Rightarrow> memory" where
  "write_unaligned n m p v = store_bytes m p (le_bytes n v)"

definition Unaligned_ptr_read :: "nat \<Rightarrow> memory \<Rightarrow> usize \<Rightarrow> nat" where
  "Unaligned_ptr_read n m p = read_unaligned n m p"

definition Unaligned_ptr_write :: "nat \<Rightarrow> memory \<Rightarrow> usize \<Rightarrow> nat \<Rightarrow> memory" where
  "Unaligned_ptr_write n m p v = write_unaligned n m p v"

definition Le_Unaligned_ptr_read :: "nat \<Rightarrow> memory \<Rightarrow> usize \<Rightarrow> nat" where
  "Le_Unaligned_ptr_read n m p = from_le n (read_unaligned n m p)"

definition Le_Unaligned_ptr_write :: "nat \<Rightarrow> memory \<Rightarrow> usize \<Rightarrow> nat \<Rightarrow> memory" where
  "Le_Unaligned_ptr_write n m p v = write_unaligned n m p (to_le n v)"

definition Be_Unaligned_ptr_read :: "nat \<Rightarrow> memory \<Rightarrow> usize \<Rightarrow> nat" where
  "Be_Unaligned_ptr_read n m p = from_be n (read_unaligned n m p)"

definition Be_Unaligned_ptr_write :: "nat \<Rightarrow> memory \<Rightarrow> usize \<Rightarrow> nat \<Rightarrow> memory" where
  "Be_Unaligned_ptr_write n m p v = write_unaligned n m p (to_be n v)"

section \<open>Read-modify-write\<close>

definition set_bits :: "nat \<Rightarrow> memory \<Rightarrow> usize \<Rightarrow> nat \<Rightarrow> memory" where
  "set_bits n m a msk = (let current = readable_read n m a in writable_write n m a (current OR msk))"

text \<open>\<open>!mask\<close> in \<open>n\<close> bytes.\<close>

definition clear_bits :: "nat \<Rightarrow> memory \<Rightarrow> usize \<Rightarrow> nat \<Rightarrow> memory" where
  "clear_bits n m a msk =
     (let current = readable_read n m a in writable_write n m a (current AND (256 ^ n - 1 - msk)))"

definition toggle_bits :: "nat \<Rightarrow> memory \<Rightarrow> usize \<Rightarrow> nat \<Rightarrow> memory" where
  "toggle_bits n m a msk = (let current = readable_read n m a in writable_write n m a (current XOR msk))"

section \<open>Bytes and values\<close>

lemma le_bytes_length [simp]: "length (le_bytes n v) = n"
  by (induction n v rule: le_bytes.induct) auto

lemma byte_lt: "unat (b :: byte) < 256"
  using unsigned_less [of b, where 'a = nat] by simp

lemma unat_byte: "unat (word_of_nat v :: byte) = v mod 256"
  by (simp add: unat_of_nat)

lemma le_value_le_bytes: "le_value (le_bytes n v) = v mod 256 ^ n"
proof (induction n arbitrary: v)
  case (Suc n)
  have "v mod 256 ^ Suc n = v mod 256 + 256 * (v div 256 mod 256 ^ n)"
    by (simp add: mod_mult2_eq)
  then show ?case using Suc by (simp add: unat_byte)
qed simp

lemma le_value_bound: "le_value bs < 256 ^ length bs"
proof (induction bs)
  case (Cons b bs)
  have "unat b < 256" by (rule byte_lt)
  then have "unat b + 256 * le_value bs < 256 * (le_value bs + 1)" by simp
  also have "\<dots> \<le> 256 * 256 ^ length bs" using Cons by (intro mult_le_mono2) simp
  finally show ?case by simp
qed simp

lemma le_bytes_le_value: "le_bytes (length bs) (le_value bs) = bs"
proof (induction bs)
  case (Cons b bs)
  have "unat b < 256" by (rule byte_lt)
  then have "(unat b + 256 * le_value bs) div 256 = le_value bs" by simp
  moreover have "(word_of_nat (unat b + 256 * le_value bs) :: byte) = b"
  proof -
    have "unat (word_of_nat (unat b + 256 * le_value bs) :: byte) = unat b"
      using \<open>unat b < 256\<close> by (simp only: unat_byte) simp
    then show ?thesis by (simp only: word_unat_eq_iff)
  qed
  ultimately show ?case using Cons by simp
qed simp

lemma swap_bytes_bound: "swap_bytes n v < 256 ^ n"
  using le_value_bound [of "rev (le_bytes n v)"] by (simp add: swap_bytes_def)

lemma le_bytes_swap: "le_bytes n (swap_bytes n v) = rev (le_bytes n v)"
  using le_bytes_le_value [of "rev (le_bytes n v)"] by (simp add: swap_bytes_def)

lemma swap_swap: "swap_bytes n (swap_bytes n v) = v mod 256 ^ n"
  by (simp add: swap_bytes_def [of n "swap_bytes n v"] le_bytes_swap le_value_le_bytes)

section \<open>Memory\<close>

lemma load_store: "load_bytes (store_bytes m a bs) a (length bs) = bs"
  by (intro nth_equalityI) (auto simp: load_bytes_def store_bytes_def)

lemma volatile_read_loop_eq: "volatile_read_loop m a k dst = dst @ map (\<lambda>i. m (a + i)) [length dst..<length dst + k]"
proof (induction k arbitrary: dst)
  case (Suc k)
  have "[length dst..<length dst + Suc k] = length dst # [Suc (length dst)..<Suc (length dst) + k]"
    by (subst upt_conv_Cons) simp_all
  then show ?case using Suc by simp
qed simp

lemma volatile_read_eq: "volatile_read n m a = readable_read n m a"
  by (simp add: volatile_read_def readable_read_def load_bytes_def volatile_read_loop_eq)

lemma store_bytes_Cons: "store_bytes (m(a := b)) (a + 1) bs = store_bytes m a (b # bs)"
proof
  fix x
  show "store_bytes (m(a := b)) (a + 1) bs x = store_bytes m a (b # bs) x"
  proof (cases "a < x")
    case True
    then obtain k where "x = a + Suc k" using less_iff_Suc_add by auto
    then show ?thesis by (auto simp: store_bytes_def)
  qed (auto simp: store_bytes_def)
qed

lemma volatile_write_loop_eq: "volatile_write_loop m a bs = store_bytes m a bs"
proof (induction bs arbitrary: m a)
  case Nil
  then show ?case by (auto simp: store_bytes_def fun_eq_iff)
next
  case (Cons b bs)
  then show ?case by (simp only: volatile_write_loop.simps store_bytes_Cons)
qed

lemma volatile_write_eq: "volatile_write n m a v = writable_write n m a v"
  by (simp add: volatile_write_def writable_write_def volatile_write_loop_eq)

lemma read_write: "readable_read n (writable_write n m a v) a = v mod 256 ^ n"
  using load_store [of m a "le_bytes n v"] by (simp add: readable_read_def writable_write_def le_value_le_bytes)

lemma write_frame: "x < a \<or> a + n \<le> x \<Longrightarrow> writable_write n m a v x = m x"
  by (auto simp: writable_write_def store_bytes_def)

section \<open>The contract of a register\<close>

text \<open>
  What every readable and writable wrapper promises: a value written is read back, and only the
  register's own bytes change.
\<close>

locale register_access =
  fixes rd :: "nat \<Rightarrow> memory \<Rightarrow> usize \<Rightarrow> nat"
    and wr :: "nat \<Rightarrow> memory \<Rightarrow> usize \<Rightarrow> nat \<Rightarrow> memory"
  assumes read_back: "v < 256 ^ n \<Longrightarrow> rd n (wr n m a v) a = v"
    and frame: "x < a \<or> a + n \<le> x \<Longrightarrow> wr n m a v x = m x"
    and local_read: "(\<And>x. a \<le> x \<Longrightarrow> x < a + n \<Longrightarrow> m x = m' x) \<Longrightarrow> rd n m a = rd n m' a"
begin

text \<open>Two registers that do not overlap do not disturb each other.\<close>

lemma independent:
  assumes "a + n \<le> b \<or> b + k \<le> a" and "v < 256 ^ n" and "w < 256 ^ k"
  shows "rd n (wr k (wr n m a v) b w) a = v \<and> rd k (wr k (wr n m a v) b w) b = w"
proof -
  have "rd n (wr k (wr n m a v) b w) a = rd n (wr n m a v) a"
    using assms(1) by (intro local_read frame) auto
  then show ?thesis using read_back assms(2,3) by simp
qed

end

lemma readable_read_local: "(\<And>x. a \<le> x \<Longrightarrow> x < a + n \<Longrightarrow> m x = m' x) \<Longrightarrow> readable_read n m a = readable_read n m' a"
  unfolding readable_read_def load_bytes_def by (rule arg_cong [where f = le_value]) simp

lemmas access_defs = Le_read_def Le_write_def Be_read_def Be_write_def Unaligned_read_def Unaligned_write_def
  Le_Unaligned_read_def Le_Unaligned_write_def Be_Unaligned_read_def Be_Unaligned_write_def
  to_le_def from_le_def to_be_def from_be_def

interpretation plain: register_access readable_read writable_write
proof
  fix v n m a
  assume "v < (256::nat) ^ n"
  then show "readable_read n (writable_write n m a v) a = v" by (simp add: read_write)
qed (rule write_frame, assumption, rule readable_read_local)

lemma Le_access: "Le_read = readable_read" "Le_write = writable_write"
  by (simp_all add: access_defs fun_eq_iff)

interpretation le: register_access Le_read Le_write
  unfolding Le_access by (rule plain.register_access_axioms)

interpretation be: register_access Be_read Be_write
proof
  fix v n m a
  assume v: "v < (256::nat) ^ n"
  show "Be_read n (Be_write n m a v) a = v"
    using v swap_bytes_bound [of n v] by (simp add: access_defs read_write swap_swap)
next
  fix x a n m v
  assume "x < a \<or> a + n \<le> (x::nat)"
  then show "Be_write n m a v x = m x" by (simp add: access_defs write_frame)
next
  fix a n :: nat and m m' :: memory
  assume "\<And>x. a \<le> x \<Longrightarrow> x < a + n \<Longrightarrow> m x = m' x"
  then have "readable_read n m a = readable_read n m' a" by (rule readable_read_local)
  then show "Be_read n m a = Be_read n m' a" by (simp add: access_defs)
qed

text \<open>The byte-wise wrappers are the aligned ones.\<close>

lemma unaligned_access:
  "Unaligned_read = readable_read" "Unaligned_write = writable_write"
  "Le_Unaligned_read = Le_read" "Le_Unaligned_write = Le_write"
  "Be_Unaligned_read = Be_read" "Be_Unaligned_write = Be_write"
  by (simp_all add: access_defs volatile_read_eq volatile_write_eq fun_eq_iff)

text \<open>The pointer methods do in plain memory what the volatile accesses do byte by byte.\<close>

lemma pointer_access:
  "Unaligned_ptr_read = Unaligned_read" "Unaligned_ptr_write = Unaligned_write"
  "Le_Unaligned_ptr_read = Le_Unaligned_read" "Le_Unaligned_ptr_write = Le_Unaligned_write"
  "Be_Unaligned_ptr_read = Be_Unaligned_read" "Be_Unaligned_ptr_write = Be_Unaligned_write"
  by (simp_all add: fun_eq_iff Unaligned_ptr_read_def Unaligned_ptr_write_def Le_Unaligned_ptr_read_def Le_Unaligned_ptr_write_def
      Be_Unaligned_ptr_read_def Be_Unaligned_ptr_write_def access_defs volatile_read_eq volatile_write_eq
      read_unaligned_def write_unaligned_def readable_read_def writable_write_def)

interpretation be_unaligned: register_access Be_Unaligned_read Be_Unaligned_write
  unfolding unaligned_access by (rule be.register_access_axioms)

section \<open>Properties\<close>

text \<open>
  Two big-endian registers at any addresses, accessed byte by byte, that do not overlap: each
  reads back what was written to it.
\<close>

lemma be_registers_independent:
  assumes "a + n \<le> b \<or> b + k \<le> a" and "v < 256 ^ n" and "w < 256 ^ k"
  shows "Be_Unaligned_read n (Be_Unaligned_write k (Be_Unaligned_write n m a v) b w) a = v
     \<and> Be_Unaligned_read k (Be_Unaligned_write k (Be_Unaligned_write n m a v) b w) b = w"
  using assms by (rule be_unaligned.independent)

lemma be_registers_independent_example:
  "Be_Unaligned_read 2 (Be_Unaligned_write 4 (Be_Unaligned_write 2 (\<lambda>_. 0) 1 513) 3 7) 1 = 513"
  using be_registers_independent [of 1 2 3 4 513 7 "\<lambda>_. 0"] by simp

text \<open>
  The byte order on the device: a big-endian write stores the bytes of the value from the most
  significant one on, a little-endian write from the least significant one on.
\<close>

lemma endian_byte_order:
  "load_bytes (Be_write n m a v) a n = rev (le_bytes n v) \<and> load_bytes (Le_write n m a v) a n = le_bytes n v"
  using load_store [of m a "rev (le_bytes n v)"] load_store [of m a "le_bytes n v"]
  by (simp add: access_defs writable_write_def le_bytes_swap)

end
