(* ===== verification/Elf.thy ===== *)
theory Elf
  imports Typestate
begin

text \<open>
  The ELF reader, \<open>src/elf/src/lib.rs\<close>. A \<open>&[u8]\<close> is the address of its first byte and its bytes. The
  \<open>repr(C)\<close> structures are read from the bytes at their field offsets, as native integers; the
  function \<open>read\<close> then converts a field to the endianness of the file. A reference to a structure at
  an address that is not a multiple of its alignment is a panic in a debug build.
\<close>

unbundle bit_operations_syntax

section \<open>Data\<close>

record Elf64Header =
  ident_magic :: "byte list"
  ident_class :: nat
  ident_data :: nat
  ident_version :: nat
  e_type :: nat
  e_machine :: nat
  e_version :: nat
  e_entry :: nat
  e_phoff :: nat
  e_shoff :: nat
  e_flags :: nat
  e_ehsize :: nat
  e_phentsize :: nat
  e_phnum :: nat
  e_shentsize :: nat
  e_shnum :: nat
  e_shstrndx :: nat

record Elf64ProgramHeader =
  p_type :: nat
  p_flags :: nat
  p_offset :: nat
  p_vaddr :: nat
  p_paddr :: nat
  p_filesz :: nat
  p_memsz :: nat
  p_align :: nat

datatype ElfEndian = Big | Little

datatype ElfErr = TooShort | InvalidMagic | Unsupported | Invalid

datatype target_arch = X86_64 | Aarch64

definition EM_X86_64 :: nat where
  "EM_X86_64 = 62"

definition EM_AARCH64 :: nat where
  "EM_AARCH64 = 183"

definition PT_LOAD :: nat where
  "PT_LOAD = 1"

definition PT_DYNAMIC :: nat where
  "PT_DYNAMIC = 2"

definition PT_INTERP :: nat where
  "PT_INTERP = 3"

record ProgramHeaderData =
  permission :: nat
  ph_address :: nat
  file_len :: nat
  mem_len :: nat
  ph_offset :: nat
  ph_align :: nat

definition permission_MASK :: nat where
  "permission_MASK = 7"

record Elf64 =
  elf_ptr :: usize
  elf_bytes :: "byte list"
  endian :: ElfEndian

section \<open>Reading structures\<close>

definition size_of_Elf64Header :: nat where
  "size_of_Elf64Header = 64"

definition size_of_Elf64ProgramHeader :: nat where
  "size_of_Elf64ProgramHeader = 56"

definition align_of_Elf64Header :: nat where
  "align_of_Elf64Header = 8"

definition elf_header_ref :: "usize \<Rightarrow> byte list \<Rightarrow> Elf64Header option" where
  "elf_header_ref ptr data = do {
     rust_assert (is_multiple_of ptr 8);
     Some \<lparr>ident_magic = take 4 data, ident_class = field data 4 1, ident_data = field data 5 1,
       ident_version = field data 6 1, e_type = field data 16 2, e_machine = field data 18 2,
       e_version = field data 20 4, e_entry = field data 24 8, e_phoff = field data 32 8,
       e_shoff = field data 40 8, e_flags = field data 48 4, e_ehsize = field data 52 2,
       e_phentsize = field data 54 2, e_phnum = field data 56 2, e_shentsize = field data 58 2,
       e_shnum = field data 60 2, e_shstrndx = field data 62 2\<rparr>
   }"

definition program_header_ref :: "usize \<Rightarrow> byte list \<Rightarrow> nat \<Rightarrow> Elf64ProgramHeader option" where
  "program_header_ref ptr data off = do {
     rust_assert (is_multiple_of (ptr + off) 8);
     Some \<lparr>p_type = field data off 4, p_flags = field data (off + 4) 4,
       p_offset = field data (off + 8) 8, p_vaddr = field data (off + 16) 8,
       p_paddr = field data (off + 24) 8, p_filesz = field data (off + 32) 8,
       p_memsz = field data (off + 40) 8, p_align = field data (off + 48) 8\<rparr>
   }"

text \<open>\<open>read(data, endian)\<close> for a field of \<open>n\<close> bytes.\<close>

definition elf_read :: "nat \<Rightarrow> nat \<Rightarrow> ElfEndian \<Rightarrow> nat" where
  "elf_read n v e = (case e of Big \<Rightarrow> from_be n v | Little \<Rightarrow> from_le n v)"

section \<open>The operations\<close>

definition elf_header_size :: "usize \<times> usize" where
  "elf_header_size = (size_of_Elf64Header, align_of_Elf64Header)"

definition elf_real_header_size :: "Elf64 \<Rightarrow> (usize \<times> usize) option" where
  "elf_real_header_size elf = do {
     header \<leftarrow> elf_header_ref (elf_ptr elf) (elf_bytes elf);
     table \<leftarrow> umul size_of_Elf64ProgramHeader (elf_read 2 (e_phnum header) (endian elf));
     s \<leftarrow> uadd (elf_read 8 (e_phoff header) (endian elf)) table;
     Some (s, align_of_Elf64Header)
   }"

definition elf_new :: "target_arch \<Rightarrow> usize \<Rightarrow> byte list \<Rightarrow> (ElfErr + Elf64) option" where
  "elf_new arch ptr elf =
     (if length elf < fst elf_header_size then Some (Inl TooShort)
      else if take 4 elf \<noteq> [127, 69, 76, 70] then Some (Inl InvalidMagic)
      else do {
        header \<leftarrow> elf_header_ref ptr elf;
        (if ident_class header \<noteq> 2 then Some (Inl Unsupported)
         else if ident_data header \<noteq> 1 \<and> ident_data header \<noteq> 2 then Some (Inl Unsupported)
         else do {
           let e = (if ident_data header = 1 then Little else Big);
           let machine = elf_read 2 (e_machine header) e;
           (if ident_version header \<noteq> 1 then Some (Inl Unsupported)
            else if elf_read 2 (e_type header) e \<noteq> 2 then Some (Inl Unsupported)
            else if \<not> (machine = EM_X86_64 \<and> arch = X86_64 \<or> machine = EM_AARCH64 \<and> arch = Aarch64)
              then Some (Inl Unsupported)
            else if elf_read 4 (e_version header) e \<noteq> 1 then Some (Inl Unsupported)
            else if elf_read 2 (e_ehsize header) e \<noteq> size_of_Elf64Header then Some (Inl Invalid)
            else if elf_read 2 (e_phentsize header) e \<noteq> size_of_Elf64ProgramHeader then Some (Inl Invalid)
            else Some (Inr \<lparr>elf_ptr = ptr, elf_bytes = elf, endian = e\<rparr>))
         })
      })"

text \<open>One turn of the loop: \<^term>\<open>Inr None\<close> is \<open>continue\<close>.\<close>

definition check_program_header ::
  "Elf64 \<Rightarrow> Elf64ProgramHeader \<Rightarrow> ElfErr + ProgramHeaderData option" where
  "check_program_header elf ph =
     (let rd8 = (\<lambda>v. elf_read 8 v (endian elf));
          t = elf_read 4 (p_type ph) (endian elf)
      in if t = PT_INTERP \<or> t = PT_DYNAMIC then Inl Invalid
         else if t \<noteq> PT_LOAD then Inr None
         else if 0 < rd8 (p_align ph) \<and> rd8 (p_vaddr ph) mod rd8 (p_align ph) \<noteq> rd8 (p_offset ph) mod rd8 (p_align ph)
           then Inl Invalid
         else if usize_limit \<le> rd8 (p_offset ph) + rd8 (p_filesz ph) then Inl Invalid
         else if length (elf_bytes elf) < rd8 (p_offset ph) + rd8 (p_filesz ph) then Inl TooShort
         else if rd8 (p_memsz ph) < rd8 (p_filesz ph) then Inl Invalid
         else Inr (Some \<lparr>permission = (elf_read 4 (p_flags ph) (endian elf) mod 256) AND permission_MASK,
                ph_address = rd8 (p_paddr ph), file_len = rd8 (p_filesz ph), mem_len = rd8 (p_memsz ph),
                ph_offset = rd8 (p_offset ph), ph_align = rd8 (p_align ph)\<rparr>))"

text \<open>
  The loop over the headers from number \<open>i\<close> on; the result carries the data that \<open>f\<close> was called
  with, in order.
\<close>

fun program_header_loop ::
  "Elf64 \<Rightarrow> usize \<Rightarrow> nat \<Rightarrow> nat \<Rightarrow> ((ElfErr + unit) \<times> ProgramHeaderData list) option" where
  "program_header_loop elf phoff i 0 = Some (Inr (), [])"
| "program_header_loop elf phoff i (Suc k) = do {
     base \<leftarrow> uadd (elf_ptr elf) phoff;
     off \<leftarrow> umul i size_of_Elf64ProgramHeader;
     _ \<leftarrow> uadd base off;
     ph \<leftarrow> program_header_ref (elf_ptr elf) (elf_bytes elf) (phoff + off);
     (case check_program_header elf ph of
        Inl e \<Rightarrow> Some (Inl e, [])
      | Inr None \<Rightarrow> program_header_loop elf phoff (i + 1) k
      | Inr (Some d) \<Rightarrow> do {
          (res, ds) \<leftarrow> program_header_loop elf phoff (i + 1) k;
          Some (res, d # ds)
        })
   }"

definition iterate_program_header :: "Elf64 \<Rightarrow> ((ElfErr + unit) \<times> ProgramHeaderData list) option" where
  "iterate_program_header elf = do {
     (s, _) \<leftarrow> elf_real_header_size elf;
     (if length (elf_bytes elf) < s then Some (Inl TooShort, [])
      else do {
        header \<leftarrow> elf_header_ref (elf_ptr elf) (elf_bytes elf);
        program_header_loop elf (elf_read 8 (e_phoff header) (endian elf)) 0
          (elf_read 2 (e_phnum header) (endian elf))
      })
   }"

section \<open>Properties\<close>

text \<open>The conditions on the image that \<open>new\<close> checks, independent of their order.\<close>

definition file_endian :: "byte list \<Rightarrow> ElfEndian" where
  "file_endian data = (if field data 5 1 = 1 then Little else Big)"

definition header_valid :: "target_arch \<Rightarrow> byte list \<Rightarrow> bool" where
  "header_valid arch data \<longleftrightarrow>
     64 \<le> length data \<and> take 4 data = [127, 69, 76, 70] \<and> field data 4 1 = 2
     \<and> field data 5 1 \<in> {1, 2} \<and> field data 6 1 = 1
     \<and> elf_read 2 (field data 16 2) (file_endian data) = 2
     \<and> elf_read 2 (field data 18 2) (file_endian data) = (case arch of X86_64 \<Rightarrow> 62 | Aarch64 \<Rightarrow> 183)
     \<and> elf_read 4 (field data 20 4) (file_endian data) = 1
     \<and> elf_read 2 (field data 52 2) (file_endian data) = 64
     \<and> elf_read 2 (field data 54 2) (file_endian data) = 56"


text \<open>
  An image for the witnesses: a little-endian header, one loadable segment whose header is at offset
  64 and whose four bytes of content are at offset 120.
\<close>

definition demo_image :: "byte list" where
  "demo_image = [127, 69, 76, 70, 2, 1, 1, 0, 0, 0, 0, 0, 0, 0, 0, 0, 2, 0, 183, 0, 1, 0, 0, 0,
     0, 0, 0, 0, 0, 0, 0, 0, 64, 0, 0, 0, 0, 0, 0, 0, 0, 0, 0, 0, 0, 0, 0, 0, 0, 0, 0, 0, 64, 0, 56, 0, 1, 0, 0, 0, 0, 0, 0, 0,
     1, 0, 0, 0, 5, 0, 0, 0, 120, 0, 0, 0, 0, 0, 0, 0, 120, 16, 0, 0, 0, 0, 0, 0, 0, 32, 0, 0, 0, 0, 0, 0,
     4, 0, 0, 0, 0, 0, 0, 0, 16, 0, 0, 0, 0, 0, 0, 0, 0, 16, 0, 0, 0, 0, 0, 0, 1, 2, 3, 4]"

lemma demo_fields:
  "field demo_image 4 1 = 2" "field demo_image 5 1 = 1" "field demo_image 6 1 = 1" "field demo_image 16 2 = 2"
  "field demo_image 18 2 = 183" "field demo_image 20 4 = 1" "field demo_image 32 8 = 64"
  "field demo_image 52 2 = 64" "field demo_image 54 2 = 56" "field demo_image 56 2 = 1"
  "field demo_image 64 4 = 1" "field demo_image 68 4 = 5" "field demo_image 72 8 = 120" "field demo_image 80 8 = 4216"
  "field demo_image 88 8 = 8192" "field demo_image 96 8 = 4" "field demo_image 104 8 = 16" "field demo_image 112 8 = 4096"
  "length demo_image = 124" "take 4 demo_image = [127, 69, 76, 70]"
  by (simp_all add: field_def demo_image_def)

lemma demo_header_valid: "header_valid Aarch64 demo_image" "file_endian demo_image = Little"
  by (simp_all add: header_valid_def file_endian_def demo_fields demo_fields [simplified One_nat_def]
    elf_read_def from_le_def)



text \<open>
  The segments that the callback may rely on: the bytes of the file that a segment is loaded from are
  inside the image, they fit into the segment's memory, and only the three permission bits are set.
\<close>

definition segment_ok :: "Elf64 \<Rightarrow> ProgramHeaderData \<Rightarrow> bool" where
  "segment_ok elf d \<longleftrightarrow> ph_offset d + file_len d \<le> length (elf_bytes elf) \<and> file_len d \<le> mem_len d
     \<and> permission d < 8"

definition header_type :: "Elf64 \<Rightarrow> usize \<Rightarrow> nat \<Rightarrow> nat" where
  "header_type elf phoff i = elf_read 4 (field (elf_bytes elf) (phoff + i * 56) 4) (endian elf)"

lemma permission_bits: "(n::nat) AND permission_MASK < 8"
proof -
  have "n AND permission_MASK = n mod 2 ^ 3"
    unfolding permission_MASK_def using take_bit_eq_mask [of 3 n] by (simp add: take_bit_eq_mod mask_eq_exp_minus_1)
  then show ?thesis by simp
qed

lemma check_program_header_ok:
  "check_program_header elf ph = Inr (Some d) \<Longrightarrow> segment_ok elf d"
  by (auto simp: check_program_header_def segment_ok_def Let_def permission_bits split: if_splits)

lemma check_program_header_type:
  assumes "check_program_header elf ph = Inr r"
  shows "elf_read 4 (p_type ph) (endian elf) \<noteq> PT_INTERP \<and> elf_read 4 (p_type ph) (endian elf) \<noteq> PT_DYNAMIC
     \<and> (r = None \<longleftrightarrow> elf_read 4 (p_type ph) (endian elf) \<noteq> PT_LOAD)"
  using assms by (auto simp: check_program_header_def Let_def split: if_splits)

lemma program_header_ref_type:
  "program_header_ref ptr data off = Some ph \<Longrightarrow> p_type ph = field data off 4"
  by (auto simp: program_header_ref_def rust_assert_def split: if_splits)

lemma program_header_loop_ok:
  assumes "8 dvd elf_ptr elf" "8 dvd phoff" "elf_ptr elf + phoff + (i + k) * 56 < usize_limit"
  shows "\<exists>res ds. program_header_loop elf phoff i k = Some (res, ds) \<and> list_all (segment_ok elf) ds
    \<and> (res = Inr () \<longrightarrow> (\<forall>j. i \<le> j \<longrightarrow> j < i + k \<longrightarrow> header_type elf phoff j \<notin> {2, 3})
        \<and> length ds = length (filter (\<lambda>j. header_type elf phoff j = 1) [i..<i + k]))"
  using assms(3)
proof (induction k arbitrary: i)
  case (Suc k)
  let ?off = "phoff + i * 56"
  have al: "is_multiple_of (elf_ptr elf + ?off) 8"
    using assms(1,2) by (simp add: is_multiple_of_dvd)
  then obtain ph where ph: "program_header_ref (elf_ptr elf) (elf_bytes elf) ?off = Some ph"
    by (simp add: program_header_ref_def rust_assert_def)
  have loop: "program_header_loop elf phoff i (Suc k) =
     (case check_program_header elf ph of
        Inl e \<Rightarrow> Some (Inl e, [])
      | Inr None \<Rightarrow> program_header_loop elf phoff (i + 1) k
      | Inr (Some d) \<Rightarrow> do { (res, ds) \<leftarrow> program_header_loop elf phoff (i + 1) k; Some (res, d # ds) })"
    using Suc.prems ph by (simp add: uadd_def umul_def size_of_Elf64ProgramHeader_def)
  have ty: "elf_read 4 (p_type ph) (endian elf) = header_type elf phoff i"
    using program_header_ref_type [OF ph] by (simp add: header_type_def)
  have range: "[i..<i + Suc k] = i # [Suc i..<Suc i + k]" by (simp add: upt_rec)
  have here: "i \<le> j \<Longrightarrow> j < i + Suc k \<Longrightarrow> j = i \<or> Suc i \<le> j \<and> j < Suc i + k" for j by linarith
  obtain res ds where IH: "program_header_loop elf phoff (Suc i) k = Some (res, ds)" "list_all (segment_ok elf) ds"
    "res = Inr () \<longrightarrow> (\<forall>j. Suc i \<le> j \<longrightarrow> j < Suc i + k \<longrightarrow> header_type elf phoff j \<notin> {2, 3})
        \<and> length ds = length (filter (\<lambda>j. header_type elf phoff j = 1) [Suc i..<Suc i + k])"
    using Suc.IH [of "Suc i"] Suc.prems by auto
  show ?case
  proof (cases "check_program_header elf ph")
    case (Inl e)
    then show ?thesis unfolding loop range by (simp del: upt_Suc)
  next
    case (Inr r)
    note t = check_program_header_type [OF Inr, unfolded ty PT_INTERP_def PT_DYNAMIC_def PT_LOAD_def]
    show ?thesis
    proof (cases r)
      case None
      have "(\<forall>j. i \<le> j \<longrightarrow> j < i + Suc k \<longrightarrow> header_type elf phoff j \<notin> {2, 3})" if "res = Inr ()"
        using that IH(3) t here by blast
      then show ?thesis unfolding loop range using IH t None Inr by (simp del: upt_Suc)
    next
      case (Some d)
      have "(\<forall>j. i \<le> j \<longrightarrow> j < i + Suc k \<longrightarrow> header_type elf phoff j \<notin> {2, 3})" if "res = Inr ()"
        using that IH(3) t here by blast
      then show ?thesis unfolding loop range using IH t Some check_program_header_ok [of elf ph d] Inr
        by (simp del: upt_Suc)
    qed
  qed
qed simp


lemma demo_elf_new:
  "elf_new Aarch64 4096 demo_image = Some (Inr \<lparr>elf_ptr = 4096, elf_bytes = demo_image, endian = Little\<rparr>)"
  by (simp add: elf_new_def elf_header_ref_def rust_assert_def is_multiple_of_dvd Let_def demo_fields
    demo_fields [simplified One_nat_def] elf_header_size_def size_of_Elf64Header_def
    size_of_Elf64ProgramHeader_def EM_X86_64_def EM_AARCH64_def elf_read_def from_le_def)


end
