(* ===== verification/Bitregs.thy ===== *)
theory Bitregs
  imports Prelude
begin

text \<open>
  The \<open>bitregs!\<close> macro of \<open>src/typestate/src/bitflags.rs\<close>. A use of the macro is the list of its items;
  the helper rules of the macro that fold over the items are functions on that list, and the methods
  of the generated type are functions on the raw word. The assertions that the macro places in
  \<open>const\<close> items, which fail the compilation, are the predicate \<open>bitregs_checks\<close>.

  The items of a layout occupy ranges of bits; the lemmas reduce every operation to its effect on a
  single bit. The locale \<open>bit_layout\<close> states what a client of a register relies on, that different
  items occupy different bits, and the laws of \<open>get\<close>, \<open>set\<close> and \<open>bits\<close> follow in it.
\<close>

unbundle bit_operations_syntax

section \<open>Items\<close>

datatype resattr = res0 | res1 | ignore

datatype bititem =
    Reserved nat nat resattr
  | Plain string nat nat
  | EnumField string nat nat "(string \<times> nat) list"

text \<open>\<open>@[msb:lsb]\<close> is normalised to an offset and a size.\<close>

definition res_at :: "nat \<Rightarrow> nat \<Rightarrow> resattr \<Rightarrow> bititem" where
  "res_at msb lsb a = Reserved lsb (msb - lsb + 1) a"

definition field_at :: "string \<Rightarrow> nat \<Rightarrow> nat \<Rightarrow> bititem" where
  "field_at n msb lsb = Plain n lsb (msb - lsb + 1)"

definition enum_at :: "string \<Rightarrow> nat \<Rightarrow> nat \<Rightarrow> (string \<times> nat) list \<Rightarrow> bititem" where
  "enum_at n msb lsb vs = EnumField n lsb (msb - lsb + 1) vs"

fun item_off :: "bititem \<Rightarrow> nat" where
  "item_off (Reserved off sz a) = off"
| "item_off (Plain n off sz) = off"
| "item_off (EnumField n off sz vs) = off"

fun item_sz :: "bititem \<Rightarrow> nat" where
  "item_sz (Reserved off sz a) = sz"
| "item_sz (Plain n off sz) = sz"
| "item_sz (EnumField n off sz vs) = sz"

section \<open>Masks and the folds over the items\<close>

definition field_val :: "nat \<Rightarrow> 'w::len word" where
  "field_val sz = (if LENGTH('w) \<le> sz then NOT 0 else push_bit sz 1 - 1)"

definition range_mask :: "nat \<Rightarrow> nat \<Rightarrow> 'w::len word" where
  "range_mask off sz = push_bit off (field_val sz)"

fun collect_res :: "resattr \<Rightarrow> 'w::len word \<Rightarrow> bititem list \<Rightarrow> 'w word" where
  "collect_res k acc [] = acc"
| "collect_res k acc (Reserved off sz a # rest) =
     (if a = k then collect_res k (acc OR range_mask off sz) rest else collect_res k acc rest)"
| "collect_res k acc (_ # rest) = collect_res k acc rest"

fun collect_mask :: "'w::len word \<Rightarrow> bititem list \<Rightarrow> 'w word" where
  "collect_mask acc [] = acc"
| "collect_mask acc (it # rest) = collect_mask (acc OR range_mask (item_off it) (item_sz it)) rest"

text \<open>
  The rules of \<open>@collect_overlap\<close> match a field only with an access qualifier, which the rest of the
  macro refuses: a field is skipped token by token, and only reserved items take part.
\<close>

fun collect_overlap :: "'w::len word \<Rightarrow> 'w word \<Rightarrow> bititem list \<Rightarrow> 'w word" where
  "collect_overlap uacc oacc [] = oacc"
| "collect_overlap uacc oacc (Reserved off sz a # rest) =
     collect_overlap (uacc OR range_mask off sz) (oacc OR (uacc AND range_mask off sz)) rest"
| "collect_overlap uacc oacc (_ # rest) = collect_overlap uacc oacc rest"

definition RES0_MASK :: "bititem list \<Rightarrow> 'w::len word" where
  "RES0_MASK items = collect_res res0 0 items"

definition RES1_MASK :: "bititem list \<Rightarrow> 'w::len word" where
  "RES1_MASK items = collect_res res1 0 items"

definition DECLARED_MASK :: "bititem list \<Rightarrow> 'w::len word" where
  "DECLARED_MASK items = collect_mask 0 items"

definition OVERLAP_MASK :: "bititem list \<Rightarrow> 'w::len word" where
  "OVERLAP_MASK items = collect_overlap 0 0 items"

text \<open>The assertions of \<open>@fields\<close>: the range is inside the register, enum values fit their field.\<close>

fun fields_check :: "nat \<Rightarrow> bititem \<Rightarrow> bool" where
  "fields_check bits (EnumField n off sz vs) \<longleftrightarrow>
     0 < sz \<and> off < bits \<and> off + sz \<le> bits \<and> list_all (\<lambda>(v, x). x \<le> 2 ^ sz - 1) vs"
| "fields_check bits it \<longleftrightarrow> 0 < item_sz it \<and> item_off it < bits \<and> item_off it + item_sz it \<le> bits"

definition bitregs_checks :: "'w::len itself \<Rightarrow> bititem list \<Rightarrow> bool" where
  "bitregs_checks w items \<longleftrightarrow> list_all (fields_check LENGTH('w)) items
     \<and> (DECLARED_MASK items :: 'w word) = NOT 0 \<and> (OVERLAP_MASK items :: 'w word) = 0"

section \<open>The generated methods\<close>

definition from_bits :: "'w::len word \<Rightarrow> 'w word" where
  "from_bits bits = bits"

definition reg_new :: "bititem list \<Rightarrow> 'w::len word" where
  "reg_new items = RES1_MASK items"

definition reg_bits :: "bititem list \<Rightarrow> 'w::len word \<Rightarrow> 'w word" where
  "reg_bits items self = (self AND NOT (RES0_MASK items)) OR RES1_MASK items"

definition with_bits :: "'w::len word \<Rightarrow> 'w word \<Rightarrow> 'w word" where
  "with_bits self bits = bits"

definition reg_get :: "nat \<Rightarrow> nat \<Rightarrow> 'w::len word \<Rightarrow> 'w word option" where
  "reg_get off sz self = do {
     rust_assert (0 < sz \<and> off < LENGTH('w) \<and> off + sz \<le> LENGTH('w));
     Some (drop_bit off self AND field_val sz)
   }"

definition reg_set :: "nat \<Rightarrow> nat \<Rightarrow> 'w::len word \<Rightarrow> 'w word \<Rightarrow> 'w word option" where
  "reg_set off sz v self = do {
     rust_assert (0 < sz \<and> off < LENGTH('w) \<and> off + sz \<le> LENGTH('w));
     Some ((self AND NOT (push_bit off (field_val sz))) OR push_bit off (v AND field_val sz))
   }"

text \<open>\<open>TryFrom\<close> takes the first variant with the value; a variant is its name and discriminant.\<close>

definition enum_try_from :: "(string \<times> nat) list \<Rightarrow> 'w::len word \<Rightarrow> (string \<times> nat) option" where
  "enum_try_from vs x = find (\<lambda>(n, v). unat x = v) vs"

definition enum_into :: "string \<times> nat \<Rightarrow> 'w::len word" where
  "enum_into e = of_nat (snd e)"

definition get_enum :: "(string \<times> nat) list \<Rightarrow> nat \<Rightarrow> nat \<Rightarrow> 'w::len word \<Rightarrow> (string \<times> nat) option option" where
  "get_enum vs off sz self = do { x \<leftarrow> reg_get off sz self; Some (enum_try_from vs x) }"

definition set_enum :: "nat \<Rightarrow> nat \<Rightarrow> string \<times> nat \<Rightarrow> 'w::len word \<Rightarrow> 'w word option" where
  "set_enum off sz e self = reg_set off sz (enum_into e) self"

section \<open>The effect on single bits\<close>

definition covers :: "bititem \<Rightarrow> nat \<Rightarrow> bool" where
  "covers it n \<longleftrightarrow> item_off it \<le> n \<and> n < item_off it + item_sz it"

lemma field_val_mask: "(field_val sz :: 'w::len word) = mask sz"
  by (auto simp: field_val_def mask_eq_exp_minus_1 push_bit_eq_mult intro: bit_word_eqI
      simp flip: mask_eq_exp_minus_1 simp: bit_mask_iff bit_not_iff)

lemma bit_range_mask: "bit (range_mask off sz :: 'w::len word) n \<longleftrightarrow> n < LENGTH('w) \<and> off \<le> n \<and> n < off + sz"
  by (auto simp: range_mask_def field_val_mask bit_push_bit_iff bit_mask_iff)

lemma bit_collect_res:
  "bit (collect_res k acc items :: 'w::len word) n \<longleftrightarrow>
     bit acc n \<or> n < LENGTH('w) \<and> (\<exists>off sz. Reserved off sz k \<in> set items \<and> off \<le> n \<and> n < off + sz)"
  by (induction k acc items rule: collect_res.induct) (auto simp: bit_or_iff bit_range_mask)

lemma bit_collect_mask:
  "bit (collect_mask acc items :: 'w::len word) n \<longleftrightarrow>
     bit acc n \<or> n < LENGTH('w) \<and> (\<exists>it \<in> set items. covers it n)"
  by (induction acc items rule: collect_mask.induct) (auto simp: bit_or_iff bit_range_mask covers_def)

lemma declared_full_iff:
  "(DECLARED_MASK items :: 'w::len word) = NOT 0 \<longleftrightarrow> (\<forall>n < LENGTH('w). \<exists>it \<in> set items. covers it n)"
  by (auto simp: DECLARED_MASK_def bit_eq_iff bit_collect_mask bit_not_iff)

lemma bit_reg_set:
  assumes "reg_set off sz v self = Some r"
  shows "bit r n \<longleftrightarrow> (if off \<le> n \<and> n < off + sz then bit v (n - off) else bit (self :: 'w::len word) n)"
  using assms
  by (auto simp: reg_set_def rust_assert_def field_val_mask bit_or_iff bit_and_iff bit_not_iff bit_push_bit_iff
      bit_mask_iff split: if_splits dest: bit_imp_le_length)

lemma bit_reg_get:
  assumes "reg_get off sz self = Some r"
  shows "bit r n \<longleftrightarrow> n < sz \<and> bit (self :: 'w::len word) (off + n)"
  using assms
  by (auto simp: reg_get_def rust_assert_def field_val_mask bit_and_iff bit_drop_bit_eq bit_mask_iff
      split: if_splits dest: bit_imp_le_length)

section \<open>Layouts whose items are disjoint\<close>

definition items_disjoint :: "bititem \<Rightarrow> bititem \<Rightarrow> bool" where
  "items_disjoint a b \<longleftrightarrow> item_off a + item_sz a \<le> item_off b \<or> item_off b + item_sz b \<le> item_off a"

fun layout_disjoint :: "bititem list \<Rightarrow> bool" where
  "layout_disjoint [] \<longleftrightarrow> True"
| "layout_disjoint (it # rest) \<longleftrightarrow> list_all (items_disjoint it) rest \<and> layout_disjoint rest"

fun is_reserved :: "bititem \<Rightarrow> bool" where
  "is_reserved (Reserved off sz a) \<longleftrightarrow> True"
| "is_reserved _ \<longleftrightarrow> False"

lemma items_disjoint_sym: "items_disjoint a b \<longleftrightarrow> items_disjoint b a"
  by (auto simp: items_disjoint_def)

lemma items_disjoint_covers: "items_disjoint a b \<Longrightarrow> covers a n \<Longrightarrow> \<not> covers b n"
  by (auto simp: items_disjoint_def covers_def)

lemma layout_disjoint_nth:
  "layout_disjoint items \<Longrightarrow> i < length items \<Longrightarrow> j < length items \<Longrightarrow> i \<noteq> j
     \<Longrightarrow> items_disjoint (items ! i) (items ! j)"
proof (induction items arbitrary: i j)
  case (Cons it rest)
  then show ?case
    by (cases i; cases j) (auto simp: list_all_length items_disjoint_sym [of _ it])
qed simp

lemma fields_check_range:
  "fields_check b it \<Longrightarrow> 0 < item_sz it \<and> item_off it < b \<and> item_off it + item_sz it \<le> b"
  by (cases it) auto

lemma reg_get_in_range:
  "0 < sz \<Longrightarrow> off + sz \<le> LENGTH('w) \<Longrightarrow>
     reg_get off sz (x :: 'w::len word) = Some (take_bit sz (drop_bit off x))"
  by (auto simp: reg_get_def rust_assert_def field_val_mask take_bit_eq_mask)

lemma reg_set_in_range:
  "0 < sz \<Longrightarrow> off + sz \<le> LENGTH('w) \<Longrightarrow> \<exists>r. reg_set off sz v (x :: 'w::len word) = Some r"
  by (auto simp: reg_set_def rust_assert_def)

locale bit_layout =
  fixes ty :: "'w::len itself"
    and items :: "bititem list"
  assumes fits: "list_all (fields_check LENGTH('w)) items"
    and apart: "layout_disjoint items"
begin

lemma in_range:
  assumes "i < length items"
  shows "0 < item_sz (items ! i)" "item_off (items ! i) + item_sz (items ! i) \<le> LENGTH('w)"
  using fits fields_check_range [of "LENGTH('w)" "items ! i"] assms by (auto simp: list_all_length)

lemma set_get:
  fixes r :: "'w word"
  assumes "i < length items" "j < length items"
  shows "\<exists>r'. reg_set (item_off (items ! i)) (item_sz (items ! i)) v r = Some r'
     \<and> reg_get (item_off (items ! i)) (item_sz (items ! i)) r' = Some (take_bit (item_sz (items ! i)) v)
     \<and> (i \<noteq> j \<longrightarrow> reg_get (item_off (items ! j)) (item_sz (items ! j)) r'
          = reg_get (item_off (items ! j)) (item_sz (items ! j)) r)"
proof -
  obtain r' where r': "reg_set (item_off (items ! i)) (item_sz (items ! i)) v r = Some r'"
    using reg_set_in_range in_range [OF assms(1)] by blast
  have same: "take_bit (item_sz (items ! i)) (drop_bit (item_off (items ! i)) r') = take_bit (item_sz (items ! i)) v"
    using in_range [OF assms(1)]
    by (intro bit_word_eqI) (auto simp: bit_take_bit_iff bit_drop_bit_eq bit_reg_set [OF r'])
  have other: "take_bit (item_sz (items ! j)) (drop_bit (item_off (items ! j)) r')
      = take_bit (item_sz (items ! j)) (drop_bit (item_off (items ! j)) r)" if "i \<noteq> j"
    using layout_disjoint_nth [OF apart assms that]
    by (intro bit_word_eqI) (auto simp: bit_take_bit_iff bit_drop_bit_eq bit_reg_set [OF r'] items_disjoint_def)
  show ?thesis using r' same other in_range assms by (auto simp: reg_get_in_range)
qed

lemma res_bit_outside:
  assumes "i < length items" "\<not> is_reserved (items ! i)" "covers (items ! i) n"
  shows "\<not> bit (collect_res k 0 items :: 'w word) n"
proof
  assume "bit (collect_res k 0 items :: 'w word) n"
  then obtain off sz where R: "Reserved off sz k \<in> set items" "off \<le> n" "n < off + sz"
    by (auto simp: bit_collect_res)
  then obtain j where j: "j < length items" "items ! j = Reserved off sz k" by (auto simp: in_set_conv_nth)
  then have "j \<noteq> i" using assms(2) by auto
  then have "\<not> covers (items ! j) n"
    using items_disjoint_covers layout_disjoint_nth [OF apart assms(1) j(1)] assms(3) by auto
  then show False using R j by (simp add: covers_def)
qed

lemma bits_get:
  fixes r :: "'w word"
  assumes "i < length items" "\<not> is_reserved (items ! i)"
  shows "reg_get (item_off (items ! i)) (item_sz (items ! i)) (reg_bits items r)
     = reg_get (item_off (items ! i)) (item_sz (items ! i)) r"
proof -
  have out: "\<not> bit (collect_res k 0 items :: 'w word) (item_off (items ! i) + n)" if "n < item_sz (items ! i)" for k n
    using res_bit_outside [OF assms] that by (simp add: covers_def)
  have "take_bit (item_sz (items ! i)) (drop_bit (item_off (items ! i)) (reg_bits items r))
      = take_bit (item_sz (items ! i)) (drop_bit (item_off (items ! i)) r)"
    by (rule bit_word_eqI)
      (auto simp: bit_take_bit_iff bit_drop_bit_eq reg_bits_def RES0_MASK_def RES1_MASK_def bit_or_iff bit_and_iff
        bit_not_iff out dest: bit_imp_le_length)
  then show ?thesis using in_range [OF assms(1)] by (simp add: reg_get_in_range)
qed

lemma bits_reserved:
  fixes r :: "'w word"
  assumes "Reserved off sz a \<in> set items" "n < sz"
  shows "bit (reg_bits items r) (off + n) \<longleftrightarrow> a = res1 \<or> a = ignore \<and> bit r (off + n)"
proof -
  obtain i where i: "i < length items" "items ! i = Reserved off sz a" using assms(1) by (auto simp: in_set_conv_nth)
  have inside: "off + n < LENGTH('w)" using in_range [OF i(1)] i(2) assms(2) by simp
  have only: "bit (collect_res k 0 items :: 'w word) (off + n) \<longleftrightarrow> k = a" for k
  proof
    assume "bit (collect_res k 0 items :: 'w word) (off + n)"
    then obtain off' sz' where R: "Reserved off' sz' k \<in> set items" "off' \<le> off + n" "off + n < off' + sz'"
      by (auto simp: bit_collect_res)
    then obtain j where j: "j < length items" "items ! j = Reserved off' sz' k" by (auto simp: in_set_conv_nth)
    show "k = a"
    proof (cases "i = j")
      case False
      then have "\<not> covers (items ! j) (off + n)"
        using items_disjoint_covers [OF layout_disjoint_nth [OF apart i(1) j(1)]] i assms(2) by (simp add: covers_def)
      then show ?thesis using R j by (simp add: covers_def)
    qed (use i j in auto)
  next
    assume "k = a"
    then show "bit (collect_res k 0 items :: 'w word) (off + n)"
      using assms inside by (simp add: bit_collect_res) (metis le_add1 nat_add_left_cancel_less)
  qed
  show ?thesis
    using inside by (cases a) (auto simp: reg_bits_def RES0_MASK_def RES1_MASK_def bit_or_iff bit_and_iff bit_not_iff only)
qed

lemma enum_roundtrip:
  fixes r :: "'w word"
  assumes "EnumField n off sz vs \<in> set items" "e \<in> set vs" "distinct (map snd vs)"
  shows "\<exists>r'. set_enum off sz e r = Some r' \<and> get_enum vs off sz r' = Some (Some e)"
proof -
  obtain i where i: "i < length items" "items ! i = EnumField n off sz vs" using assms(1) by (auto simp: in_set_conv_nth)
  have chk: "fields_check LENGTH('w) (EnumField n off sz vs)" using fits assms(1) unfolding list_all_iff by blast
  then have "snd e \<le> 2 ^ sz - 1" using assms(2) by (cases e) (auto simp: list_all_iff)
  moreover have "(0 :: nat) < 2 ^ sz" by simp
  ultimately have le: "snd e < 2 ^ sz" by linarith
  have width: "sz \<le> LENGTH('w)" using fields_check_range [OF chk] by simp
  obtain r' where r': "reg_set off sz (enum_into e) r = Some r'" "reg_get off sz r' = Some (take_bit sz (enum_into e))"
    using set_get [OF i(1) i(1), of "enum_into e" r] i(2) by auto
  have val: "unat (take_bit sz (enum_into e :: 'w word)) = snd e"
    using le width by (simp add: enum_into_def unsigned_take_bit_eq unsigned_of_nat take_bit_take_bit take_bit_nat_eq_self min_def)
  have "enum_try_from vs (take_bit sz (enum_into e) :: 'w word) = Some e"
    unfolding enum_try_from_def val using assms(2,3)
    by (induction vs) (auto simp: image_iff)
  then show ?thesis using r' by (auto simp: set_enum_def get_enum_def)
qed

end

text \<open>The width check and the coverage check as functions on the ranges.\<close>

lemma bitregs_checks_by_range:
  assumes "list_all (fields_check LENGTH('w)) items"
    and "list_all (\<lambda>n. list_ex (\<lambda>it. covers it n) items) [0..<LENGTH('w)]"
    and "layout_disjoint items"
  shows "bitregs_checks (w :: 'w::len itself) items"
proof -
  have "(\<forall>n. bit (u :: 'w word) n \<longrightarrow> (\<forall>it \<in> set its. \<not> covers it n)) \<Longrightarrow> layout_disjoint its
      \<Longrightarrow> collect_overlap u 0 its = 0" for u its
  proof (induction u "0 :: 'w word" its rule: collect_overlap.induct)
    case (2 uacc off sz a rest)
    have none: "uacc AND range_mask off sz = 0"
      using 2(2) by (intro bit_word_eqI) (auto simp: bit_and_iff bit_range_mask covers_def)
    have "\<forall>n. bit (uacc OR range_mask off sz) n \<longrightarrow> (\<forall>it \<in> set rest. \<not> covers it n)"
      using 2(2,3) items_disjoint_covers
      by (auto simp: bit_or_iff bit_range_mask list_all_iff covers_def [of "Reserved off sz a"])
    then show ?case using 2(1) 2(3) none by simp
  qed auto
  then have "(OVERLAP_MASK items :: 'w word) = 0" using assms(3) by (simp add: OVERLAP_MASK_def)
  moreover have "(DECLARED_MASK items :: 'w word) = NOT 0"
    unfolding declared_full_iff using assms(2) by (auto simp: list_all_iff list_ex_iff)
  ultimately show ?thesis using assms(1) by (simp add: bitregs_checks_def)
qed

end
