(* ===== verification/Paging_Registers.thy ===== *)
theory Paging_Registers
  imports Bitregs
begin

text \<open>
  The register and descriptor layouts of \<open>src/arch_hal/aarch64_hal/paging/src/registers.rs\<close> and
  \<open>descriptor.rs\<close>: each use of \<open>bitregs!\<close> is the list of its items, in the order of the source. All but
  the block descriptor interpret the locale \<open>bit_layout\<close>, so the laws of \<open>get\<close>, \<open>set\<close> and \<open>bits\<close> hold of
  them; the block descriptor leaves eight bits undeclared.
\<close>

section \<open>The layouts\<close>

definition PARange :: "(string \<times> nat) list" where
  "PARange = [(''PA32bits4GB'', 0), (''PA36bits64GB'', 1), (''PA40bits1TB'', 2), (''PA42bits4TB'', 3),
     (''PA44bits16TB'', 4), (''PA48bits256TB'', 5), (''PA52bits4PB'', 6), (''PA56bits64PB'', 7)]"

definition TGran4_2 :: "(string \<times> nat) list" where
  "TGran4_2 = [(''SeeEL1'', 0), (''NotSupported'', 1), (''Supported'', 2), (''Supported52bit'', 3)]"

definition ECV :: "(string \<times> nat) list" where
  "ECV = [(''NotImplemented'', 0), (''Implemented1'', 1), (''Implemented2'', 2)]"

definition ID_AA64MMFR0_EL1 :: "bititem list" where
  "ID_AA64MMFR0_EL1 = [
    enum_at ''parange'' 3 0 PARange, field_at ''asidbits'' 7 4, field_at ''bigend'' 11 8,
    field_at ''snsmem'' 15 12, field_at ''bigendel0'' 19 16, field_at ''tgran16'' 23 20,
    field_at ''tgran64'' 27 24, field_at ''tgran4'' 31 28, field_at ''tgran16_2'' 35 32,
    field_at ''tgran64_2'' 39 36, enum_at ''tgran4_2'' 43 40 TGran4_2, field_at ''exs'' 47 44,
    res_at 55 48 res0, field_at ''fgt'' 59 56, enum_at ''ecv'' 63 60 ECV]"

definition VTCR_EL2 :: "bititem list" where
  "VTCR_EL2 = [
    field_at ''t0sz'' 5 0, field_at ''sl0'' 7 6, field_at ''irgn0'' 9 8, field_at ''orgn0'' 11 10,
    field_at ''sh0'' 13 12, field_at ''tg0'' 15 14, field_at ''ps'' 18 16, field_at ''vs'' 19 19,
    res_at 20 20 res0, field_at ''ha'' 21 21, field_at ''hd'' 22 22, res_at 24 23 res0,
    field_at ''hwu59'' 25 25, field_at ''hwu60'' 26 26, field_at ''hwu61'' 27 27, field_at ''hwu62'' 28 28,
    field_at ''nsw'' 29 29, field_at ''nsa'' 30 30, res_at 31 31 res1, field_at ''ds'' 32 32,
    field_at ''sl2'' 33 33, field_at ''assured_only'' 34 34, field_at ''tl1'' 35 35, field_at ''s2pie'' 36 36,
    field_at ''s2poe'' 37 37, field_at ''d128'' 38 38, res_at 39 39 res0, field_at ''gcsh'' 40 40,
    field_at ''tl0'' 41 41, res_at 43 42 res0, field_at ''haft'' 44 44, field_at ''hdbss'' 45 45,
    res_at 63 46 res0]"

definition SkipLevel :: "(string \<times> nat) list" where
  "SkipLevel = [(''Skip0Level'', 0), (''Skip1Level'', 1), (''Skip2Level'', 2), (''Skip3Level'', 3)]"

definition VTTBR_EL2 :: "bititem list" where
  "VTTBR_EL2 = [
    field_at ''cnp'' 0 0, enum_at ''skl'' 2 1 SkipLevel, res_at 4 3 res0, field_at ''baddr'' 47 5,
    field_at ''vmid'' 63 48]"

definition HCR_EL2 :: "bititem list" where
  "HCR_EL2 = [
    field_at ''vm'' 0 0, field_at ''swio'' 1 1, field_at ''ptw'' 2 2, field_at ''fmo'' 3 3,
    field_at ''imo'' 4 4, field_at ''amo'' 5 5, field_at ''vf'' 6 6, field_at ''vi'' 7 7,
    field_at ''vse'' 8 8, field_at ''fb'' 9 9, field_at ''bsu'' 11 10, field_at ''dc'' 12 12,
    field_at ''twi'' 13 13, field_at ''twe'' 14 14, field_at ''tid0'' 15 15, field_at ''tid1'' 16 16,
    field_at ''tid2'' 17 17, field_at ''tid3'' 18 18, field_at ''tsc'' 19 19, field_at ''tidcp'' 20 20,
    field_at ''tacr'' 21 21, field_at ''tsw'' 22 22, field_at ''tpcp'' 23 23, field_at ''tpu'' 24 24,
    field_at ''ttlb'' 25 25, field_at ''tvm'' 26 26, field_at ''tge'' 27 27, field_at ''tdz'' 28 28,
    field_at ''hcd'' 29 29, field_at ''trvm'' 30 30, field_at ''rw'' 31 31, field_at ''cd'' 32 32,
    field_at ''id'' 33 33, field_at ''e2h'' 34 34, field_at ''tlor'' 35 35, field_at ''terr'' 36 36,
    field_at ''tea'' 37 37, res_at 38 38 res0, field_at ''tme'' 39 39, field_at ''apk'' 40 40,
    field_at ''api'' 41 41, field_at ''nv'' 42 42, field_at ''nv1'' 43 43, field_at ''at'' 44 44,
    field_at ''nv2'' 45 45, field_at ''fwb'' 46 46, field_at ''fien'' 47 47, field_at ''gpf'' 48 48,
    field_at ''tid4'' 49 49, field_at ''ticab'' 50 50, field_at ''amvoffen'' 51 51, field_at ''tocu'' 52 52,
    field_at ''enscxt'' 53 53, field_at ''ttlbis'' 54 54, field_at ''ttlbos'' 55 55, field_at ''ata'' 56 56,
    field_at ''dct'' 57 57, field_at ''tid5'' 58 58, field_at ''tweden'' 59 59, field_at ''twedel'' 63 60]"

definition Stage2_48bitTableDescriptor :: "bititem list" where
  "Stage2_48bitTableDescriptor = [
    res_at 1 0 res1, res_at 11 2 ignore, field_at ''NLTA'' 47 12, res_at 50 48 res0, res_at 58 51 ignore,
    res_at 62 59 res0, res_at 63 63 res0]"

definition Stage2_48bitBlockDescriptor :: "bititem list" where
  "Stage2_48bitBlockDescriptor = [
    res_at 0 0 res1, res_at 1 1 res0, field_at ''mem_attr'' 5 2, field_at ''s2ap0'' 6 6,
    field_at ''s2ap1'' 7 7, field_at ''sh'' 9 8, field_at ''af'' 10 10, res_at 11 11 res0,
    field_at ''oab'' 47 21, field_at ''nt'' 16 16, res_at 50 48 res0, field_at ''dbm'' 51 51,
    field_at ''contiguous'' 52 52, field_at ''xn'' 54 53, field_at ''ns'' 55 55, field_at ''sw'' 57 56,
    field_at ''assured_only'' 58 58, res_at 59 59 ignore, res_at 62 60 ignore, res_at 63 63 res0]"

text \<open>
  The interface of \<open>src/arch_hal/aarch64_hal/paging/src/lib.rs\<close>. Both operations are \<open>todo!()\<close>, so they panic on every argument; \<open>PagingErr\<close>
  has no values, so a result can only be the settings themselves.
\<close>

record Stage2PagingSetting =
  setting_ipa :: usize
  setting_pa :: usize
  setting_size :: usize
  setting_permissions :: "8 word"

record Stage2Paging =
  before :: "Stage2PagingSetting list"

definition activate :: "Stage2Paging \<Rightarrow> unit option" where
  "activate self = None"

definition set_stage2paging :: "Stage2PagingSetting list \<Rightarrow> Stage2Paging option" where
  "set_stage2paging data = None"

definition paging_registers :: "bititem list list" where
  "paging_registers = [ID_AA64MMFR0_EL1, VTCR_EL2, VTTBR_EL2, HCR_EL2, Stage2_48bitTableDescriptor]"

lemmas layout_defs = ID_AA64MMFR0_EL1_def VTCR_EL2_def VTTBR_EL2_def HCR_EL2_def Stage2_48bitTableDescriptor_def
  Stage2_48bitBlockDescriptor_def res_at_def field_at_def enum_at_def PARange_def TGran4_2_def ECV_def SkipLevel_def

section \<open>The layouts meet the contract\<close>

definition layout_ok64 :: "bititem list \<Rightarrow> bool" where
  "layout_ok64 L \<longleftrightarrow> list_all (fields_check 64) L \<and> layout_disjoint L"

definition covered64 :: "bititem list \<Rightarrow> bool" where
  "covered64 L \<longleftrightarrow> list_all (\<lambda>n. list_ex (\<lambda>it. covers it n) L) [0..<64]"

lemma registers_ok: "list_all layout_ok64 (Stage2_48bitBlockDescriptor # paging_registers)"
  by code_simp

lemma registers_covered: "list_all covered64 paging_registers"
  by code_simp

lemma layout_ok64_locale: "layout_ok64 L \<Longrightarrow> bit_layout TYPE(64) L"
  by unfold_locales (simp_all add: layout_ok64_def)

interpretation mmfr0: bit_layout "TYPE(64)" ID_AA64MMFR0_EL1
  by (rule layout_ok64_locale) (use registers_ok in \<open>simp add: paging_registers_def\<close>)

interpretation vtcr: bit_layout "TYPE(64)" VTCR_EL2
  by (rule layout_ok64_locale) (use registers_ok in \<open>simp add: paging_registers_def\<close>)

interpretation vttbr: bit_layout "TYPE(64)" VTTBR_EL2
  by (rule layout_ok64_locale) (use registers_ok in \<open>simp add: paging_registers_def\<close>)

interpretation hcr: bit_layout "TYPE(64)" HCR_EL2
  by (rule layout_ok64_locale) (use registers_ok in \<open>simp add: paging_registers_def\<close>)

interpretation table_descriptor: bit_layout "TYPE(64)" Stage2_48bitTableDescriptor
  by (rule layout_ok64_locale) (use registers_ok in \<open>simp add: paging_registers_def\<close>)

lemma register_layout: "L \<in> set paging_registers \<Longrightarrow> bit_layout TYPE(64) L"
  using registers_ok by (auto simp: list_all_iff intro: layout_ok64_locale)

section \<open>Properties\<close>


text \<open>
  The layout of the block descriptor does not pass the coverage check of \<open>bitregs!\<close>: it declares
  neither bits 12 to 15 nor bits 17 to 20.
\<close>

lemma block_descriptor_uncovered: "\<not> bitregs_checks TYPE(64) Stage2_48bitBlockDescriptor"
proof -
  have "\<not> list_ex (\<lambda>it. covers it 12) Stage2_48bitBlockDescriptor" by code_simp
  moreover have "\<exists>it \<in> set Stage2_48bitBlockDescriptor. covers it 12"
    if "bitregs_checks TYPE(64) Stage2_48bitBlockDescriptor"
    using that declared_full_iff [where 'w = 64, of Stage2_48bitBlockDescriptor] by (simp add: bitregs_checks_def)
  ultimately show ?thesis by (auto simp: list_ex_iff)
qed

text \<open>
  A layout in which two fields share bits passes the checks of \<open>bitregs!\<close>: only reserved items are
  compared with each other.
\<close>

lemma overlapping_fields_accepted:
  "bitregs_checks TYPE(8) [field_at ''a'' 7 0, field_at ''b'' 3 0]
     \<and> \<not> layout_disjoint [field_at ''a'' 7 0, field_at ''b'' 3 0]"
  by (simp add: bitregs_checks_def field_at_def DECLARED_MASK_def OVERLAP_MASK_def range_mask_def field_val_def
      items_disjoint_def)

text \<open>
  C25. In each of these registers, writing a field with \<open>set\<close> succeeds, a \<open>get\<close> of the field then returns the
  value cut to the width of the field, and every other field or reserved range reads as before.
\<close>

theorem register_set_get:
  assumes "L \<in> set paging_registers" "i < length L" "j < length L" "j \<noteq> i"
  shows "\<exists>r'. reg_set (item_off (L ! i)) (item_sz (L ! i)) v (r :: 64 word) = Some r'
     \<and> reg_get (item_off (L ! i)) (item_sz (L ! i)) r' = Some (take_bit (item_sz (L ! i)) v)
     \<and> reg_get (item_off (L ! j)) (item_sz (L ! j)) r' = reg_get (item_off (L ! j)) (item_sz (L ! j)) r"
  using bit_layout.set_get [OF register_layout [OF assms(1)] assms(2,3), of v r] assms(4) by auto

theorem register_set_get_witness:
  "\<exists>r'. reg_set 5 43 0x4008000 (0 :: 64 word) = Some r' \<and> reg_get 5 43 r' = Some (take_bit 43 0x4008000)
     \<and> reg_get 48 16 r' = reg_get 48 16 (0 :: 64 word)"
  using register_set_get [of VTTBR_EL2 3 4 "0x4008000" 0]
  by (simp add: paging_registers_def VTTBR_EL2_def field_at_def enum_at_def res_at_def)

text \<open>
  \<open>bits()\<close> applies the reserved policy and nothing else: fields read the same in the result, every bit
  of a \<open>res1\<close> range is set, every bit of a \<open>res0\<close> range is clear and \<open>ignore\<close> ranges are copied. An enum field
  written with \<open>set_enum\<close> is read back by \<open>get_enum\<close>.
\<close>

lemma register_bits_policy:
  assumes "L \<in> set paging_registers"
  shows "(\<forall>i < length L. \<not> is_reserved (L ! i) \<longrightarrow>
        reg_get (item_off (L ! i)) (item_sz (L ! i)) (reg_bits L (r :: 64 word)) = reg_get (item_off (L ! i)) (item_sz (L ! i)) r)
     \<and> (\<forall>off sz a n. Reserved off sz a \<in> set L \<longrightarrow> n < sz \<longrightarrow>
        bit (reg_bits L r) (off + n) = (a = res1 \<or> a = ignore \<and> bit r (off + n)))
     \<and> (\<forall>f off sz vs e. EnumField f off sz vs \<in> set L \<longrightarrow> e \<in> set vs \<longrightarrow> distinct (map snd vs) \<longrightarrow>
        (\<exists>r'. set_enum off sz e r = Some r' \<and> get_enum vs off sz r' = Some (Some e)))"
  using bit_layout.bits_get [OF register_layout [OF assms]] bit_layout.bits_reserved [OF register_layout [OF assms]]
    bit_layout.enum_roundtrip [OF register_layout [OF assms]]
  by blast

lemma register_bits_policy_example:
  "\<exists>r'. set_enum 1 2 (''Skip2Level'', 2) (0 :: 64 word) = Some r'
     \<and> get_enum SkipLevel 1 2 r' = Some (Some (''Skip2Level'', 2))"
proof -
  have "EnumField ''skl'' 1 2 SkipLevel \<in> set VTTBR_EL2" "(''Skip2Level'', 2) \<in> set SkipLevel" "distinct (map snd SkipLevel)"
    by (simp_all add: VTTBR_EL2_def enum_at_def SkipLevel_def)
  moreover have "VTTBR_EL2 \<in> set paging_registers" by (simp add: paging_registers_def)
  ultimately show ?thesis using register_bits_policy [of VTTBR_EL2 0] by blast
qed

end
