(* ===== verification/Cache.thy ===== *)
theory Cache
  imports Prelude
begin

text \<open>
  Cache maintenance by address, \<open>src/virtio/src/cache.rs\<close>. The instructions are recorded in the order they
  are issued; the value of \<open>CTR_EL0\<close> is the argument \<open>ctr\<close>. A sum that leaves the address space is a panic.
\<close>

unbundle bit_operations_syntax

datatype cache_op = Cvac usize | Ivac usize | Civac usize | Dsb_sy

definition cache_line_size :: "nat \<Rightarrow> usize" where
  "cache_line_size ctr = push_bit (drop_bit 16 ctr AND 0xF) 4"

text \<open>\<open>p & !(line - 1)\<close>\<close>

definition line_start :: "usize \<Rightarrow> usize \<Rightarrow> usize" where
  "line_start line p = unat ((word_of_nat p :: 64 word) AND NOT (word_of_nat line - 1))"

definition align_range :: "nat \<Rightarrow> usize \<Rightarrow> usize \<Rightarrow> (usize \<times> usize \<times> usize) option" where
  "align_range ctr ptr len = do {
     let line = cache_line_size ctr;
     let start = line_start line ptr;
     x \<leftarrow> uadd ptr len;
     y \<leftarrow> uadd x line;
     z \<leftarrow> usub y 1;
     Some (start, line_start line z, line)
   }"

partial_function (option) line_loop :: "(usize \<Rightarrow> cache_op) \<Rightarrow> usize \<Rightarrow> usize \<Rightarrow> usize \<Rightarrow> cache_op list option" where
  "line_loop op cur limit line =
     (if cur < limit then do {
        cur1 \<leftarrow> uadd cur line;
        ops \<leftarrow> line_loop op cur1 limit line;
        Some (op cur # ops)
      }
      else Some [])"

definition clean_dcache_range :: "nat \<Rightarrow> usize \<Rightarrow> usize \<Rightarrow> cache_op list option" where
  "clean_dcache_range ctr ptr len =
     (if len = 0 then Some []
      else do {
        (cur, limit, line) \<leftarrow> align_range ctr ptr len;
        ops \<leftarrow> line_loop Cvac cur limit line;
        Some (ops @ [Dsb_sy])
      })"

definition invalidate_dcache_range :: "nat \<Rightarrow> usize \<Rightarrow> usize \<Rightarrow> cache_op list option" where
  "invalidate_dcache_range ctr ptr len =
     (if len = 0 then Some []
      else do {
        (cur, limit, line) \<leftarrow> align_range ctr ptr len;
        ops \<leftarrow> line_loop Ivac cur limit line;
        Some (ops @ [Dsb_sy])
      })"

definition clean_invalidate_dcache_range :: "nat \<Rightarrow> usize \<Rightarrow> usize \<Rightarrow> cache_op list option" where
  "clean_invalidate_dcache_range ctr ptr len =
     (if len = 0 then Some []
      else do {
        (cur, limit, line) \<leftarrow> align_range ctr ptr len;
        ops \<leftarrow> line_loop Civac cur limit line;
        Some (ops @ [Dsb_sy])
      })"

section \<open>Lines\<close>

lemma line_power: "\<exists>k \<le> 17. cache_line_size ctr = 2 ^ k"
proof -
  have "drop_bit 16 ctr AND 15 = take_bit 4 (drop_bit 16 ctr)"
    by (simp add: take_bit_eq_mask mask_eq_exp_minus_1)
  moreover have "take_bit 4 (drop_bit 16 ctr) < 16"
    using take_bit_nat_less_exp [of 4 "drop_bit 16 ctr"] by simp
  ultimately have "cache_line_size ctr = 2 ^ (2 + take_bit 4 (drop_bit 16 ctr))" "2 + take_bit 4 (drop_bit 16 ctr) \<le> 17"
    by (simp_all add: cache_line_size_def push_bit_eq_mult power_add)
  then show ?thesis by blast
qed

lemma line_pos: "0 < cache_line_size ctr"
  using line_power [of ctr] by auto

lemma line_start_eq:
  assumes "p < usize_limit"
  shows "line_start (cache_line_size ctr) p = cache_line_size ctr * (p div cache_line_size ctr)"
proof -
  obtain k where k: "k \<le> 17" "cache_line_size ctr = 2 ^ k" using line_power [of ctr] by blast
  let ?w = "word_of_nat p :: 64 word"
  have "(word_of_nat (cache_line_size ctr) - 1 :: 64 word) = mask k"
    by (simp add: k(2) mask_eq_exp_minus_1)
  moreover have "?w AND NOT (mask k) = push_bit k (drop_bit k ?w)"
    by (rule bit_eqI) (auto simp: bit_simps)
  ultimately have "line_start (cache_line_size ctr) p = unat (push_bit k (drop_bit k ?w))"
    by (simp add: line_start_def)
  also have "\<dots> = take_bit 64 (push_bit k (drop_bit k p))"
  proof -
    have "unat ?w = p" "take_bit 64 p = p" using assms by (simp_all add: unat_of_nat usize_limit_def take_bit_nat_eq_self)
    then show ?thesis by (simp add: unsigned_push_bit_eq unsigned_drop_bit_eq)
  qed
  also have "\<dots> = take_bit 64 (2 ^ k * (p div 2 ^ k))"
    by (simp add: push_bit_eq_mult drop_bit_eq_div mult.commute)
  also have "\<dots> = 2 ^ k * (p div 2 ^ k)"
    using assms by (simp add: take_bit_nat_eq_self_iff usize_limit_def order.strict_trans1 [OF times_div_less_eq_dividend])
  finally show ?thesis by (simp add: k(2))
qed

lemma line_loop_runs:
  "0 < line \<Longrightarrow> line * j < usize_limit \<Longrightarrow> line_loop op (line * i) (line * j) line = Some (map (\<lambda>x. op (line * x)) [i..<j])"
proof (induction "j - i" arbitrary: i)
  case 0
  then show ?case by (subst line_loop.simps) simp
next
  case (Suc d)
  then have "line * Suc i \<le> line * j" by (intro mult_le_mono2) simp
  then have "uadd (line * i) line = Some (line * Suc i)"
    using Suc.prems by (simp add: exec_simps)
  moreover have "[i..<j] = i # [Suc i..<j]" using Suc(2) by (simp add: upt_conv_Cons)
  ultimately show ?case
    using Suc.hyps(1) [of "Suc i"] Suc.prems Suc.hyps(2) by (subst line_loop.simps) (simp del: upt_Suc mult_Suc_right)
qed

text \<open>The lines that a range of bytes meets, in order.\<close>

definition lines_of :: "usize \<Rightarrow> usize \<Rightarrow> usize \<Rightarrow> usize list" where
  "lines_of line ptr len = map ((*) line) [ptr div line..<(ptr + len + line - 1) div line]"

lemma range_ops:
  assumes "ptr + len + cache_line_size ctr \<le> usize_limit - 1"
  shows "\<exists>cur limit. align_range ctr ptr len = Some (cur, limit, cache_line_size ctr)
    \<and> line_loop op cur limit (cache_line_size ctr) = Some (map op (lines_of (cache_line_size ctr) ptr len))"
proof -
  let ?l = "cache_line_size ctr"
  have pos: "0 < ?l" by (rule line_pos)
  have lt: "ptr < usize_limit" "ptr + len < usize_limit" "ptr + len + ?l < usize_limit" "ptr + len + ?l - 1 < usize_limit"
    using assms by (auto simp: usize_limit_def)
  have "?l * ((ptr + len + ?l - 1) div ?l) < usize_limit"
    using lt(4) times_div_less_eq_dividend by (rule le_less_trans [rotated])
  then show ?thesis
    using pos lt line_loop_runs [OF pos, of _ op]
    by (simp add: align_range_def Let_def exec_simps line_start_eq lines_of_def comp_def del: One_nat_def)
qed

lemma set_lines_of:
  assumes "0 < line"
  shows "set (lines_of line ptr len) = {a. line dvd a \<and> a < ptr + len \<and> ptr < a + line}"
proof -
  have "ptr div line \<le> x \<longleftrightarrow> ptr < line * x + line" for x
    using assms by (metis div_less_iff_less_mult less_Suc_eq_le mult.commute mult_Suc_right add.commute)
  moreover have "x < (ptr + len + line - 1) div line \<longleftrightarrow> line * x < ptr + len" for x
    using assms less_eq_div_iff_mult_less_eq [of line "Suc x" "ptr + len + line - 1"] by (auto simp: mult.commute)
  ultimately show ?thesis by (auto simp: lines_of_def dvd_def)
qed

section \<open>What a range operation touches\<close>

text \<open>
  C32. \<open>clean_dcache_range\<close>, \<open>invalidate_dcache_range\<close> and \<open>clean_invalidate_dcache_range\<close> on a range of bytes whose
  end is a line away from the end of the address space: the loop ends, and it issues its instruction once for
  every cache line that holds a byte of the range, for no other line, in ascending order, and then the barrier.
\<close>

theorem cache_range_exact:
  assumes "0 < len" and "ptr + len + cache_line_size ctr < 2 ^ 64"
  shows "\<exists>lines. set lines = {a. cache_line_size ctr dvd a \<and> a < ptr + len \<and> ptr < a + cache_line_size ctr}
    \<and> sorted lines \<and> distinct lines
    \<and> clean_dcache_range ctr ptr len = Some (map Cvac lines @ [Dsb_sy])
    \<and> invalidate_dcache_range ctr ptr len = Some (map Ivac lines @ [Dsb_sy])
    \<and> clean_invalidate_dcache_range ctr ptr len = Some (map Civac lines @ [Dsb_sy])"
proof -
  let ?lines = "lines_of (cache_line_size ctr) ptr len"
  have fit: "ptr + len + cache_line_size ctr \<le> usize_limit - 1" using assms(2) by (simp add: usize_limit_def)
  have "sorted ?lines \<and> distinct ?lines"
    using line_pos [of ctr] by (auto simp: lines_of_def distinct_map inj_on_def sorted_map intro!: sorted_wrt_mono_rel [OF _ sorted_upt])
  moreover have "clean_dcache_range ctr ptr len = Some (map Cvac ?lines @ [Dsb_sy])"
    using range_ops [OF fit, of Cvac] assms(1) by (auto simp: clean_dcache_range_def)
  moreover have "invalidate_dcache_range ctr ptr len = Some (map Ivac ?lines @ [Dsb_sy])"
    using range_ops [OF fit, of Ivac] assms(1) by (auto simp: invalidate_dcache_range_def)
  moreover have "clean_invalidate_dcache_range ctr ptr len = Some (map Civac ?lines @ [Dsb_sy])"
    using range_ops [OF fit, of Civac] assms(1) by (auto simp: clean_invalidate_dcache_range_def)
  ultimately show ?thesis using set_lines_of [OF line_pos, of ctr ptr len] by blast
qed

theorem cache_range_exact_witness:
  "cache_line_size 0x40000 = 64 \<and> (\<exists>lines. set lines = {a. 64 dvd a \<and> a < 0x10b0 \<and> 0x1030 < a + 64}
    \<and> invalidate_dcache_range 0x40000 0x1030 0x80 = Some (map Ivac lines @ [Dsb_sy]))"
proof -
  have line: "cache_line_size 0x40000 = 64" by (simp add: cache_line_size_def)
  show ?thesis using cache_range_exact [of "0x80" "0x1030" "0x40000"] by (auto simp: line)
qed

end
