(* ===== verification/Boot_Args.thy ===== *)
theory Boot_Args
  imports Prelude
begin

text \<open>
  The argument of the boot loader: \<open>str_to_usize\<close> of \<open>src/bootloader/src/main.rs\<close>, which reads the address
  of the device tree from \<open>argv[0]\<close>. A Rust \<open>&str\<close> is the list of its bytes. \<open>from_str_radix\<close> is the loop
  of the standard library: it refuses the empty string and a sign that stands alone, skips a leading \<open>+\<close>,
  and stops at a character that is no digit and at an overflow.
\<close>

section \<open>The standard library\<close>

definition to_digit :: "nat \<Rightarrow> char \<Rightarrow> nat option" where
  "to_digit radix c =
     (let b = (of_char c :: nat);
          d = (if 48 \<le> b \<and> b \<le> 57 then b - 48
               else if 97 \<le> b \<and> b \<le> 122 then b - 87
               else if 65 \<le> b \<and> b \<le> 90 then b - 55
               else 36)
      in if d < radix then Some d else None)"

fun radix_loop :: "nat \<Rightarrow> usize \<Rightarrow> string \<Rightarrow> usize option" where
  "radix_loop radix result [] = Some result"
| "radix_loop radix result (c # digits) = do {
     x \<leftarrow> to_digit radix c;
     mul \<leftarrow> umul result radix;
     result \<leftarrow> uadd mul x;
     radix_loop radix result digits
   }"

definition from_str_radix :: "string \<Rightarrow> nat \<Rightarrow> usize option" where
  "from_str_radix src radix =
     (if src = [] \<or> src = ''+'' \<or> src = ''-'' then None
      else if hd src = CHR ''+'' then radix_loop radix 0 (tl src)
      else radix_loop radix 0 src)"

section \<open>The parser\<close>

text \<open>\<open>s.get(0..2)\<close> is \<open>None\<close> on a shorter string; the three prefixes are ASCII, so a cut after one of them is
  always a character boundary.\<close>

definition str_get_prefix :: "nat \<Rightarrow> string \<Rightarrow> string option" where
  "str_get_prefix n s = (if n \<le> length s then Some (take n s) else None)"

definition str_to_usize :: "string \<Rightarrow> usize option" where
  "str_to_usize s =
     (let (radix, start) =
        (if str_get_prefix 2 s = Some ''0x'' then (16, drop 2 s)
         else if str_get_prefix 2 s = Some ''0o'' then (8, drop 2 s)
         else if str_get_prefix 2 s = Some ''0b'' then (2, drop 2 s)
         else (10, s))
      in from_str_radix start radix)"

section \<open>Positional notation\<close>

text \<open>The reference: the value of a list of digits, and the digits of a number.\<close>

definition radix_value :: "nat \<Rightarrow> nat list \<Rightarrow> nat" where
  "radix_value radix ds = foldl (\<lambda>a d. a * radix + d) 0 ds"

definition unsigned_part :: "string \<Rightarrow> string" where
  "unsigned_part s = (case s of [] \<Rightarrow> [] | c # cs \<Rightarrow> if c = CHR ''+'' then cs else s)"

definition digit_char :: "nat \<Rightarrow> char" where
  "digit_char d = (if d < 10 then char_of (48 + d) else char_of (87 + d))"

fun radix_string :: "nat \<Rightarrow> nat \<Rightarrow> string" where
  "radix_string radix n =
     (if n < radix \<or> radix < 2 then [digit_char n]
      else radix_string radix (n div radix) @ [digit_char (n mod radix)])"

declare radix_string.simps [simp del]

lemma foldl_radix_mono: "(a :: nat) \<le> foldl (\<lambda>a d. a * radix + d) a ds" if "0 < radix"
proof (induction ds arbitrary: a)
  case (Cons d ds)
  have "a \<le> a * radix + d"
    using that by (cases radix) simp_all
  also have "\<dots> \<le> foldl (\<lambda>a d. a * radix + d) (a * radix + d) ds"
    by (rule Cons.IH)
  finally show ?case by simp
qed simp

text \<open>The loop computes the value exactly when every character is a digit and the value fits: an overflow on
  the way cannot be undone by later digits.\<close>

lemma radix_loop_Some_iff:
  assumes "0 < radix" "a < usize_limit"
  shows "radix_loop radix a s = Some n \<longleftrightarrow>
    (\<exists>ds. map (to_digit radix) s = map Some ds \<and> foldl (\<lambda>a d. a * radix + d) a ds = n \<and> n < usize_limit)"
  using assms(2)
proof (induction s arbitrary: a)
  case (Cons c s)
  show ?case
  proof (cases "to_digit radix c")
    case None
    then show ?thesis by (auto simp: Cons_eq_map_conv)
  next
    case (Some x)
    show ?thesis
    proof (cases "a * radix + x < usize_limit")
      case True
      then have "radix_loop radix a (c # s) = radix_loop radix (a * radix + x) s"
        using Some by (simp add: umul_def uadd_def)
      then show ?thesis
        using Cons.IH [OF True] Some by (auto simp: Cons_eq_map_conv)
    next
      case False
      then have "radix_loop radix a (c # s) = None"
        using Some by (simp add: umul_def uadd_def)
      moreover have "\<not> foldl (\<lambda>a d. a * radix + d) (a * radix + x) ds < usize_limit" for ds
        using False foldl_radix_mono [OF assms(1), of "a * radix + x" ds] by simp
      ultimately show ?thesis
        using Some by (auto simp: Cons_eq_map_conv)
    qed
  qed
qed auto

lemma from_str_radix_loop:
  "s \<noteq> ''-'' \<Longrightarrow> from_str_radix s radix =
     (if unsigned_part s = [] then None else radix_loop radix 0 (unsigned_part s))"
  by (cases s) (auto simp: from_str_radix_def unsigned_part_def)

lemma to_digit_minus: "radix \<le> 36 \<Longrightarrow> to_digit radix (CHR ''-'') = None"
  by (simp add: to_digit_def)

lemma from_str_radix_Some_iff:
  assumes "0 < radix" "radix \<le> 36"
  shows "from_str_radix s radix = Some n \<longleftrightarrow>
    (\<exists>ds. ds \<noteq> [] \<and> map (to_digit radix) (unsigned_part s) = map Some ds \<and> radix_value radix ds = n \<and> n < usize_limit)"
proof (cases "s = ''-''")
  case True
  then show ?thesis
    using to_digit_minus [OF assms(2)] by (auto simp: from_str_radix_def unsigned_part_def Cons_eq_map_conv)
next
  case False
  have "0 < usize_limit" by (simp add: usize_limit_def)
  then show ?thesis
    using radix_loop_Some_iff [OF assms(1), of 0 "unsigned_part s" n]
    by (auto simp: from_str_radix_loop [OF False] radix_value_def)
qed

section \<open>Numerals\<close>

lemma of_char_digit: "d < 36 \<Longrightarrow> of_char (digit_char d) = (if d < 10 then 48 + d else 87 + d)"
  by (simp add: digit_char_def)

lemma to_digit_char: "d < radix \<Longrightarrow> radix \<le> 36 \<Longrightarrow> to_digit radix (digit_char d) = Some d"
  by (simp add: to_digit_def of_char_digit)

lemma radix_string_digits:
  assumes "2 \<le> radix" "radix \<le> 36"
  shows "\<exists>ds. ds \<noteq> [] \<and> map (to_digit radix) (radix_string radix n) = map Some ds \<and> radix_value radix ds = n
    \<and> (\<forall>d\<in>set ds. d < radix) \<and> radix_string radix n = map digit_char ds"
proof (induction n rule: less_induct)
  case (less n)
  show ?case
  proof (cases "n < radix")
    case True
    then show ?thesis
      using assms by (intro exI [of _ "[n]"]) (simp add: radix_string.simps to_digit_char radix_value_def)
  next
    case False
    then have "n div radix < n" using assms by simp
    then obtain ds where ds: "ds \<noteq> []" "map (to_digit radix) (radix_string radix (n div radix)) = map Some ds"
      "radix_value radix ds = n div radix" "\<forall>d\<in>set ds. d < radix" "radix_string radix (n div radix) = map digit_char ds"
      using less by blast
    have r: "radix_string radix n = radix_string radix (n div radix) @ [digit_char (n mod radix)]"
      using False assms by (subst radix_string.simps) simp
    show ?thesis
      using ds assms by (intro exI [of _ "ds @ [n mod radix]"])
        (simp add: r to_digit_char radix_value_def)
  qed
qed

lemma digit_char_neq:
  "d < 36 \<Longrightarrow> digit_char d \<noteq> CHR ''+''"
  "d < 10 \<Longrightarrow> digit_char d \<noteq> CHR ''x''"
  "d < 10 \<Longrightarrow> digit_char d \<noteq> CHR ''o''"
  "d < 10 \<Longrightarrow> digit_char d \<noteq> CHR ''b''"
  using of_char_digit [of d] by (auto split: if_splits)

lemma unsigned_part_digits: "\<forall>d\<in>set ds. d < 36 \<Longrightarrow> unsigned_part (map digit_char ds) = map digit_char ds"
  by (cases ds) (auto simp: unsigned_part_def digit_char_neq)

lemma from_str_radix_string:
  assumes "2 \<le> radix" "radix \<le> 36" "n < usize_limit"
  shows "from_str_radix (radix_string radix n) radix = Some n"
proof -
  obtain ds where ds: "ds \<noteq> []" "map (to_digit radix) (radix_string radix n) = map Some ds"
    "radix_value radix ds = n" "\<forall>d\<in>set ds. d < radix" "radix_string radix n = map digit_char ds"
    using radix_string_digits [OF assms(1,2)] by blast
  have "unsigned_part (radix_string radix n) = radix_string radix n"
    using ds(4,5) assms(2) by (auto intro!: unsigned_part_digits)
  then show ?thesis
    using ds(1-3) assms by (auto simp: from_str_radix_Some_iff)
qed

lemma decimal_no_prefix:
  assumes "c \<in> {CHR ''x'', CHR ''o'', CHR ''b''}"
  shows "str_get_prefix 2 (radix_string 10 n) \<noteq> Some [CHR ''0'', c]"
proof -
  obtain ds where ds: "\<forall>d\<in>set ds. d < 10" "radix_string 10 n = map digit_char ds"
    using radix_string_digits [of 10 n] by auto
  show ?thesis
  proof (cases ds rule: remdups_adj.cases)
    case (3 x y xs)
    then show ?thesis
      using ds assms digit_char_neq [of y] by (auto simp: str_get_prefix_def)
  qed (auto simp: ds str_get_prefix_def)
qed

section \<open>Properties\<close>

text \<open>
  C34. \<open>str_to_usize\<close> accepts exactly the unsigned numerals: with one of the prefixes \<open>0x\<close>, \<open>0o\<close>, \<open>0b\<close> the rest is
  read in that radix and everything else in radix ten; the result is a number exactly when, after an optional
  plus sign, there is at least one character, every character is a digit of the radix and the value fits 64
  bits, and then it is the positional value of the digits. Every other string gives \<open>None\<close>; nothing panics.
\<close>

theorem str_to_usize_value:
  "str_to_usize s = Some n \<longleftrightarrow>
     (\<exists>radix t ds. (radix, t) =
          (if take 2 s = ''0x'' then (16, drop 2 s) else if take 2 s = ''0o'' then (8, drop 2 s)
           else if take 2 s = ''0b'' then (2, drop 2 s) else (10, s))
        \<and> ds \<noteq> [] \<and> map (to_digit radix) (unsigned_part t) = map Some ds
        \<and> n = radix_value radix ds \<and> n < 2 ^ 64)"
proof -
  have cut: "str_get_prefix 2 s = Some [a, b] \<longleftrightarrow> take 2 s = [a, b]" for a b
    by (cases s rule: remdups_adj.cases) (auto simp: str_get_prefix_def)
  consider "take 2 s = ''0x''" | "take 2 s = ''0o''" | "take 2 s = ''0b''"
    | "take 2 s \<noteq> ''0x''" "take 2 s \<noteq> ''0o''" "take 2 s \<noteq> ''0b''" by blast
  then show ?thesis
    by cases (auto simp: str_to_usize_def cut from_str_radix_Some_iff usize_limit_def)
qed

text \<open>
  Every 64-bit number survives printing and parsing: written in radix 16, 8 or 2 after its prefix, or in
  radix ten without one, it is read back as itself. So every address can be passed in \<open>argv[0]\<close>.
\<close>

lemma str_to_usize_roundtrip:
  assumes "n < 2 ^ 64"
  shows "str_to_usize (''0x'' @ radix_string 16 n) = Some n
    \<and> str_to_usize (''0o'' @ radix_string 8 n) = Some n
    \<and> str_to_usize (''0b'' @ radix_string 2 n) = Some n
    \<and> str_to_usize (radix_string 10 n) = Some n"
proof (intro conjI)
  have n: "n < usize_limit" using assms by (simp add: usize_limit_def)
  show "str_to_usize (''0x'' @ radix_string 16 n) = Some n"
    using from_str_radix_string [of 16 n] n by (simp add: str_to_usize_def str_get_prefix_def)
  show "str_to_usize (''0o'' @ radix_string 8 n) = Some n"
    using from_str_radix_string [of 8 n] n by (simp add: str_to_usize_def str_get_prefix_def)
  show "str_to_usize (''0b'' @ radix_string 2 n) = Some n"
    using from_str_radix_string [of 2 n] n by (simp add: str_to_usize_def str_get_prefix_def)
  show "str_to_usize (radix_string 10 n) = Some n"
    using from_str_radix_string [of 10 n] n decimal_no_prefix by (simp add: str_to_usize_def)
qed

lemma str_to_usize_roundtrip_example:
  "(0x40000000 :: nat) < 2 ^ 64 \<and> str_to_usize (''0x'' @ radix_string 16 0x40000000) = Some 0x40000000"
  using str_to_usize_roundtrip [of "0x40000000"] by simp

end
