(* ===== verification/Dtb.thy ===== *)
theory Dtb
  imports Typestate
begin

text \<open>
  The flattened device tree, \<open>src/dtb/src/lib.rs\<close>: the accessors of \<open>mod big_endian\<close> and the walk over
  the structure block. The parser works on addresses, so its operations take the memory; a
  \<open>&'static str\<close> is the list of its bytes and an error is the text the code returns. The
  dereference of a pointer to an integer or a structure at an address that is not a multiple of its
  alignment is a panic in a debug build; the token arrays \<open>[u8; 4]\<close> have no alignment. The macro
  \<open>pr_debug!\<close> expands to nothing outside tests, its arguments included.

  A \<open>FnMut\<close> argument is a function that takes and returns the state it captures. A node holds a raw
  pointer to its parent, which lives unchanged in the frame of the caller while the node is walked;
  the model holds the parent itself.
\<close>

section \<open>Results\<close>

type_synonym 'a fallible = "(string + 'a) option"

text \<open>The operator \<open>?\<close>.\<close>

definition try_bind :: "'a fallible \<Rightarrow> ('a \<Rightarrow> 'b fallible) \<Rightarrow> 'b fallible" where
  "try_bind r f = do { x \<leftarrow> r; (case x of Inl e \<Rightarrow> Some (Inl e) | Inr v \<Rightarrow> f v) }"

lemma try_bind_cong [fundef_cong]:
  "r = r' \<Longrightarrow> (\<And>v. r' = Some (Inr v) \<Longrightarrow> f v = g v) \<Longrightarrow> try_bind r f = try_bind r' g"
  by (auto simp: try_bind_def split: bind_split sum.splits)

lemma try_bind_mono [partial_function_mono]:
  assumes "mono_option r" and "\<And>v. mono_option (\<lambda>f. g f v)"
  shows "mono_option (\<lambda>f. try_bind (r f) (g f))"
  unfolding try_bind_def
proof (rule bind_mono [OF assms(1)])
  fix x
  show "mono_option (\<lambda>f. case x of Inl e \<Rightarrow> Some (Inl e) | Inr v \<Rightarrow> g f v)"
    using assms(2) by (cases x) (auto intro: option.const_mono)
qed

datatype ControlFlow = Continue | Break

text \<open>\<open>u32::next_multiple_of\<close> panics when the multiple does not fit.\<close>

definition u32_next_multiple_of :: "nat \<Rightarrow> nat \<Rightarrow> nat option" where
  "u32_next_multiple_of x a = do { y \<leftarrow> next_multiple_of x a; rust_assert (y < u32_limit); Some y }"

section \<open>Strings\<close>

definition str_bytes :: "string \<Rightarrow> byte list" where
  "str_bytes s = map of_char s"

text \<open>The length that \<open>CStr::from_ptr\<close> counts; there is no byte behind the end of the address space.\<close>

function strlen :: "memory \<Rightarrow> usize \<Rightarrow> nat \<Rightarrow> nat option" where
  "strlen m a n =
     (if usize_limit \<le> a + n then None
      else if m (a + n) = 0 then Some n
      else strlen m a (Suc n))"
  by pat_completeness auto
termination
  by (relation "measure (\<lambda>(m, a, n). usize_limit - (a + n))") auto

declare strlen.simps [simp del]

definition utf8_between :: "nat \<Rightarrow> nat \<Rightarrow> byte \<Rightarrow> bool" where
  "utf8_between lo hi b \<longleftrightarrow> lo \<le> unat b \<and> unat b \<le> hi"

text \<open>The UTF-8 validation of \<open>CStr::to_str\<close>.\<close>

fun valid_utf8 :: "byte list \<Rightarrow> bool" where
  "valid_utf8 [] = True"
| "valid_utf8 (b # rest) =
     (if unat b < 0x80 then valid_utf8 rest
      else if utf8_between 0xC2 0xDF b then
        (case rest of c # rest1 \<Rightarrow> utf8_between 0x80 0xBF c \<and> valid_utf8 rest1 | [] \<Rightarrow> False)
      else if utf8_between 0xE0 0xEF b then
        (case rest of c # d # rest2 \<Rightarrow>
            utf8_between (if unat b = 0xE0 then 0xA0 else 0x80) (if unat b = 0xED then 0x9F else 0xBF) c
            \<and> utf8_between 0x80 0xBF d \<and> valid_utf8 rest2
         | _ \<Rightarrow> False)
      else if utf8_between 0xF0 0xF4 b then
        (case rest of c # d # e # rest3 \<Rightarrow>
            utf8_between (if unat b = 0xF0 then 0x90 else 0x80) (if unat b = 0xF4 then 0x8F else 0xBF) c
            \<and> utf8_between 0x80 0xBF d \<and> utf8_between 0x80 0xBF e \<and> valid_utf8 rest3
         | _ \<Rightarrow> False)
      else False)"

section \<open>Big-endian accessors\<close>

record FtdHeader =
  magic :: nat
  total_size :: nat
  off_dt_struct :: nat
  off_dt_strings :: nat
  off_mem_rsvmap :: nat
  version :: nat
  last_comp_version :: nat
  boot_cpuid_phys :: nat
  size_dt_strings :: nat
  size_dt_struct :: nat

text \<open>The fields as they lie in memory, in native byte order.\<close>

definition header_ref :: "memory \<Rightarrow> usize \<Rightarrow> FtdHeader" where
  "header_ref m a = \<lparr>magic = readable_read 4 m a, total_size = readable_read 4 m (a + 4),
     off_dt_struct = readable_read 4 m (a + 8), off_dt_strings = readable_read 4 m (a + 12),
     off_mem_rsvmap = readable_read 4 m (a + 16), version = readable_read 4 m (a + 20),
     last_comp_version = readable_read 4 m (a + 24), boot_cpuid_phys = readable_read 4 m (a + 28),
     size_dt_strings = readable_read 4 m (a + 32), size_dt_struct = readable_read 4 m (a + 36)\<rparr>"

definition write_string_offset :: "memory \<Rightarrow> usize \<Rightarrow> nat \<Rightarrow> memory" where
  "write_string_offset m a offset = writable_write 4 m (a + 12) (to_be 4 offset)"

definition write_struct_offset :: "memory \<Rightarrow> usize \<Rightarrow> nat \<Rightarrow> memory" where
  "write_struct_offset m a offset = writable_write 4 m (a + 8) (to_be 4 offset)"

definition write_total_size :: "memory \<Rightarrow> usize \<Rightarrow> nat \<Rightarrow> memory" where
  "write_total_size m a sz = writable_write 4 m (a + 4) (to_be 4 sz)"

record FdtProperty =
  property_len :: nat
  name_offset :: nat

definition size_of_FdtProperty :: nat where
  "size_of_FdtProperty = 8"

definition property_ref :: "memory \<Rightarrow> usize \<Rightarrow> FdtProperty option" where
  "property_ref m a = do {
     rust_assert (is_multiple_of a 4);
     Some \<lparr>property_len = readable_read 4 m a, name_offset = readable_read 4 m (a + 4)\<rparr>
   }"

definition get_property_len :: "FdtProperty \<Rightarrow> nat" where
  "get_property_len p = from_be 4 (property_len p)"

definition get_name_offset :: "FdtProperty \<Rightarrow> nat" where
  "get_name_offset p = from_be 4 (name_offset p)"

definition size_of_FdtReserveEntry :: nat where
  "size_of_FdtReserveEntry = 16"

definition get_address :: "memory \<Rightarrow> usize \<Rightarrow> nat option" where
  "get_address m a = do { rust_assert (is_multiple_of a 8); Some (from_be 8 (readable_read 8 m a)) }"

definition get_size :: "memory \<Rightarrow> usize \<Rightarrow> nat option" where
  "get_size m a = do {
     p \<leftarrow> uadd a 8;
     rust_assert (is_multiple_of p 8);
     Some (from_be 8 (readable_read 8 m p))
   }"

definition write_address :: "memory \<Rightarrow> usize \<Rightarrow> nat \<Rightarrow> memory" where
  "write_address m a addr = writable_write 8 m a (to_be 8 addr)"

definition write_size :: "memory \<Rightarrow> usize \<Rightarrow> nat \<Rightarrow> memory" where
  "write_size m a sz = writable_write 8 m (a + 8) (to_be 8 sz)"

record Dtb =
  dtb_address :: usize

definition DTB_VERSION :: nat where
  "DTB_VERSION = 17"

definition DTB_HEADER_MAGIC :: nat where
  "DTB_HEADER_MAGIC = 0xd00dfeed"

definition Dtb_new :: "memory \<Rightarrow> usize \<Rightarrow> Dtb fallible" where
  "Dtb_new m address = do {
     rust_assert (is_multiple_of address 4);
     let header = header_ref m address;
     (if from_be 4 (magic header) \<noteq> DTB_HEADER_MAGIC then Some (Inl ''invalid magic'')
      else if DTB_VERSION < from_be 4 (last_comp_version header)
      then Some (Inl ''this dtb is not compatible with the version 17'')
      else Some (Inr \<lparr>dtb_address = address\<rparr>))
   }"

definition get_fdt_address :: "Dtb \<Rightarrow> usize" where
  "get_fdt_address dtb = dtb_address dtb"

definition get_memory_reservation_offset :: "memory \<Rightarrow> Dtb \<Rightarrow> usize" where
  "get_memory_reservation_offset m dtb = from_be 4 (off_mem_rsvmap (header_ref m (dtb_address dtb)))"

definition get_total_size :: "memory \<Rightarrow> Dtb \<Rightarrow> nat" where
  "get_total_size m dtb = from_be 4 (total_size (header_ref m (dtb_address dtb)))"

definition get_struct_size :: "memory \<Rightarrow> Dtb \<Rightarrow> usize" where
  "get_struct_size m dtb = from_be 4 (size_dt_struct (header_ref m (dtb_address dtb)))"

definition get_string_size :: "memory \<Rightarrow> Dtb \<Rightarrow> usize" where
  "get_string_size m dtb = from_be 4 (size_dt_strings (header_ref m (dtb_address dtb)))"

definition get_struct_start_address :: "memory \<Rightarrow> Dtb \<Rightarrow> usize option" where
  "get_struct_start_address m dtb =
     uadd (dtb_address dtb) (from_be 4 (off_dt_struct (header_ref m (dtb_address dtb))))"

definition get_struct_end_address :: "memory \<Rightarrow> Dtb \<Rightarrow> usize option" where
  "get_struct_end_address m dtb = do {
     start \<leftarrow> get_struct_start_address m dtb;
     uadd start (from_be 4 (size_dt_struct (header_ref m (dtb_address dtb))))
   }"

definition get_string_start_address :: "memory \<Rightarrow> Dtb \<Rightarrow> usize option" where
  "get_string_start_address m dtb =
     uadd (dtb_address dtb) (from_be 4 (off_dt_strings (header_ref m (dtb_address dtb))))"

definition get_string_end_address :: "memory \<Rightarrow> Dtb \<Rightarrow> usize option" where
  "get_string_end_address m dtb = do {
     start \<leftarrow> get_string_start_address m dtb;
     uadd start (from_be 4 (size_dt_strings (header_ref m (dtb_address dtb))))
   }"

definition get_memory_reservation_start_address :: "memory \<Rightarrow> Dtb \<Rightarrow> usize option" where
  "get_memory_reservation_start_address m dtb =
     uadd (dtb_address dtb) (from_be 4 (off_mem_rsvmap (header_ref m (dtb_address dtb))))"

definition read_u32_from_ptr :: "memory \<Rightarrow> usize \<Rightarrow> nat option" where
  "read_u32_from_ptr m address = do {
     rust_assert (is_multiple_of address 4);
     Some (from_be 4 (readable_read 4 m address))
   }"

definition read_char_str :: "memory \<Rightarrow> usize \<Rightarrow> byte list fallible" where
  "read_char_str m address = do {
     n \<leftarrow> strlen m address 0;
     let bytes = load_bytes m address n;
     Some (if valid_utf8 bytes then Inr bytes else Inl ''failed to convert &Cstr to &str'')
   }"

text \<open>The shift drops what leaves the 64 bits, so the sum never overflows.\<close>

fun read_regs_loop :: "memory \<Rightarrow> usize \<Rightarrow> nat \<Rightarrow> usize \<Rightarrow> usize \<Rightarrow> (usize \<times> usize) option" where
  "read_regs_loop m address 0 address_result address_consumed = Some (address_result, address_consumed)"
| "read_regs_loop m address (Suc k) address_result address_consumed = do {
     p \<leftarrow> uadd address address_consumed;
     cell \<leftarrow> read_u32_from_ptr m p;
     address_result1 \<leftarrow> uadd (address_result * 2 ^ 32 mod usize_limit) cell;
     address_consumed1 \<leftarrow> uadd address_consumed 4;
     read_regs_loop m address k address_result1 address_consumed1
   }"

definition read_regs :: "memory \<Rightarrow> usize \<Rightarrow> nat \<Rightarrow> (usize \<times> usize) fallible" where
  "read_regs m address sz = map_option Inr (read_regs_loop m address sz 0 0)"

record CharStringIter =
  pointer :: usize
  remain_size :: nat

text \<open>The iterator's \<open>Option<Result<..>>\<close> is given inside out: no item, or the item and the iterator behind it.\<close>

definition CharStringIter_next :: "memory \<Rightarrow> CharStringIter \<Rightarrow> (byte list \<times> CharStringIter) option fallible" where
  "CharStringIter_next m self =
     (if remain_size self = 0 then Some (Inr None)
      else try_bind (read_char_str m (pointer self)) (\<lambda>s. do {
        let str_size = length s + 1;
        p \<leftarrow> uadd (pointer self) str_size;
        (if u32_limit \<le> str_size then Some (Inl ''over flow'')
         else if remain_size self < str_size then Some (Inl ''too small'')
         else Some (Inr (Some (s, \<lparr>pointer = p, remain_size = remain_size self - str_size\<rparr>))))
      }))"

lemma CharStringIter_next_less:
  "CharStringIter_next m it = Some (Inr (Some (s, it1))) \<Longrightarrow> remain_size it1 < remain_size it"
  by (auto simp: CharStringIter_next_def try_bind_def Let_def
      split: if_splits bind_splits sum.splits)

end
