(* ===== verification/Dtb_Parser.thy ===== *)
theory Dtb_Parser
  imports Dtb
begin

text \<open>
  The parser of \<open>src/dtb/src/lib.rs\<close>: the data of a node, the walk over the structure block with its
  two pairs of closures, and the memory reservation block.
\<close>

section \<open>Nodes\<close>

record PropertyData =
  head_addr :: usize
  len :: nat

datatype SimpleDeviceNode = SimpleDeviceNode
  (parent: "SimpleDeviceNode option")
  (address_cells: nat)
  (size_cells: nat)
  (reg: "PropertyData option")
  (ranges: "usize option")

definition SimpleDeviceNode_new :: "SimpleDeviceNode option \<Rightarrow> SimpleDeviceNode" where
  "SimpleDeviceNode_new par = SimpleDeviceNode par 2 1 None None"

datatype ReservedMemoryData =
    Static PropertyData
  | Dynamic "PropertyData option" "PropertyData option" "PropertyData option"

datatype ReservedMemoryNode =
    Unused "ReservedMemoryNode option"
  | Parent nat nat
  | Child ReservedMemoryNode "ReservedMemoryData option"

definition ReservedMemoryNode_new :: "ReservedMemoryNode option \<Rightarrow> ReservedMemoryNode" where
  "ReservedMemoryNode_new par = Unused par"

definition assume_parent_and_get_property :: "ReservedMemoryNode \<Rightarrow> string + nat \<times> nat" where
  "assume_parent_and_get_property self =
     (case self of
        Parent ac sc \<Rightarrow> Inr (ac, sc)
      | _ \<Rightarrow> Inl ''reserved-memory: expected parent when reading cells'')"

definition ADDRESS_CELLS :: "byte list" where
  "ADDRESS_CELLS = str_bytes ''#address-cells''"

definition SIZE_CELLS :: "byte list" where
  "SIZE_CELLS = str_bytes ''#size-cells''"

definition PROP_COMPATIBLE :: "byte list" where
  "PROP_COMPATIBLE = str_bytes ''compatible''"

definition PROP_DEVICE_NAME :: "byte list" where
  "PROP_DEVICE_NAME = str_bytes ''device_type''"

definition PROP_REG :: "byte list" where
  "PROP_REG = str_bytes ''reg''"

definition PROP_RANGES :: "byte list" where
  "PROP_RANGES = str_bytes ''ranges''"

definition PROP_SIZE :: "byte list" where
  "PROP_SIZE = str_bytes ''size''"

definition PROP_ALIGNMENT :: "byte list" where
  "PROP_ALIGNMENT = str_bytes ''alignment''"

definition PROP_ALLOC_RANGES :: "byte list" where
  "PROP_ALLOC_RANGES = str_bytes ''alloc-ranges''"

record DtbParser =
  dtb_header :: Dtb

definition SIZEOF_FDT_TOKEN :: usize where
  "SIZEOF_FDT_TOKEN = 4"

definition ALIGNMENT :: nat where
  "ALIGNMENT = 4"

text \<open>
  The loop over the strings of a \<open>compatible\<close> property: an error ends it, a match does not.
\<close>

function compatible_loop :: "memory \<Rightarrow> byte list \<Rightarrow> CharStringIter \<Rightarrow> bool \<Rightarrow> bool fallible" where
  "compatible_loop m compatible_name it result =
     try_bind (CharStringIter_next m it) (\<lambda>item.
       case item of
         None \<Rightarrow> Some (Inr result)
       | Some (s, it1) \<Rightarrow>
           compatible_loop m compatible_name it1 (if compatible_name = s then True else result))"
  by pat_completeness auto
termination
  by (relation "measure (\<lambda>(m, c, it, r). remain_size it)") (auto dest: CharStringIter_next_less)

declare compatible_loop.simps [simp del]

text \<open>
  The common head of the two \<open>parse_property\<close> closures: the cursor moves from the token over the
  property descriptor to the value, and the name of the property is looked up.
\<close>

definition property_head :: "memory \<Rightarrow> DtbParser \<Rightarrow> usize \<Rightarrow> (FdtProperty \<times> byte list \<times> usize) fallible" where
  "property_head m parser address = do {
     address1 \<leftarrow> uadd address SIZEOF_FDT_TOKEN;
     property \<leftarrow> property_ref m address1;
     address2 \<leftarrow> uadd address1 size_of_FdtProperty;
     strings \<leftarrow> get_string_start_address m (dtb_header parser);
     at \<leftarrow> uadd strings (get_name_offset property);
     try_bind (read_char_str m at) (\<lambda>name. Some (Inr (property, name, address2)))
   }"

definition skip_value :: "FdtProperty \<Rightarrow> usize \<Rightarrow> usize option" where
  "skip_value property address = do {
     n \<leftarrow> u32_next_multiple_of (get_property_len property) ALIGNMENT;
     uadd address n
   }"

definition parse_prop ::
  "memory \<Rightarrow> DtbParser \<Rightarrow> byte list option \<Rightarrow> byte list option \<Rightarrow> SimpleDeviceNode \<Rightarrow> usize
   \<Rightarrow> (SimpleDeviceNode \<times> usize \<times> bool) fallible" where
  "parse_prop m parser device_name compatible_name self address =
     try_bind (property_head m parser address) (\<lambda>(property, name, address).
       case self of SimpleDeviceNode par ac sc rg rn \<Rightarrow> let plen = get_property_len property in
       try_bind
         (if name = ADDRESS_CELLS then do {
            v \<leftarrow> read_u32_from_ptr m address;
            Some (Inr (SimpleDeviceNode par v sc rg rn, False))
          }
          else if name = SIZE_CELLS then do {
            v \<leftarrow> read_u32_from_ptr m address;
            Some (Inr (SimpleDeviceNode par ac v rg rn, False))
          }
          else if name = PROP_COMPATIBLE then
            (case compatible_name of
               None \<Rightarrow> Some (Inr (self, False))
             | Some c \<Rightarrow>
                 try_bind (compatible_loop m c \<lparr>pointer = address, remain_size = plen\<rparr> False)
                   (\<lambda>result. Some (Inr (self, result))))
          else if name = PROP_DEVICE_NAME then
            (case device_name of
               None \<Rightarrow> Some (Inr (self, False))
             | Some d \<Rightarrow> try_bind (read_char_str m address) (\<lambda>s. Some (Inr (self, d = s))))
          else if name = PROP_REG then
            (if plen \<noteq> 0 then
               (case par of
                  None \<Rightarrow> Some (Inl (CHR 0x27 # ''reg' property should not be located at the root node''))
                | Some _ \<Rightarrow> Some (Inr (SimpleDeviceNode par ac sc (Some \<lparr>head_addr = address, len = plen\<rparr>) rn, False)))
             else Some (Inr (self, False)))
          else if name = PROP_RANGES then Some (Inr (SimpleDeviceNode par ac sc rg (Some address), False))
          else Some (Inr (self, False)))
         (\<lambda>(self, result). do {
            address \<leftarrow> skip_value property address;
            Some (Inr (self, address, result))
          }))"

definition cells_max :: nat where
  "cells_max = 2"

definition read_reg_internal :: "memory \<Rightarrow> SimpleDeviceNode \<Rightarrow> usize \<Rightarrow> (usize \<times> usize) option fallible" where
  "read_reg_internal m self offset =
     (case reg self of
        None \<Rightarrow> Some (Inr None)
      | Some r \<Rightarrow> do {
          node \<leftarrow> parent self;
          (if cells_max < address_cells node \<or> cells_max < size_cells node
           then Some (Inl ''address or size cells overflow usize'')
           else do {
             a \<leftarrow> uadd (head_addr r) offset;
             try_bind (read_regs m a (address_cells node)) (\<lambda>address. do {
               b \<leftarrow> uadd a (snd address);
               try_bind (read_regs m b (size_cells node)) (\<lambda>sz.
                 Some (Inr (Some (fst address, fst sz))))
             })
           })
        })"

definition read_round_internal :: "memory \<Rightarrow> SimpleDeviceNode \<Rightarrow> (usize \<times> usize \<times> usize) option fallible" where
  "read_round_internal m self =
     (case ranges self of
        None \<Rightarrow> Some (Inr None)
      | Some r \<Rightarrow> try_bind (read_regs m r (address_cells self)) (\<lambda>child_address. do {
          a \<leftarrow> uadd r (snd child_address);
          node \<leftarrow> parent self;
          try_bind (read_regs m a (address_cells node)) (\<lambda>parent_address. do {
            b \<leftarrow> uadd a (snd parent_address);
            try_bind (read_regs m b (size_cells self)) (\<lambda>parent_len.
              Some (Inr (Some (fst child_address, fst parent_address, fst parent_len))))
          })
        }))"

text \<open>The translation through the \<open>ranges\<close> of one node.\<close>

definition translate_address :: "memory \<Rightarrow> SimpleDeviceNode \<Rightarrow> usize \<times> usize \<Rightarrow> (usize \<times> usize) fallible" where
  "translate_address m self address =
     (if ranges self \<noteq> None then
        try_bind (read_round_internal m self) (\<lambda>r. do {
          (child, par, plen) \<leftarrow> r;
          window \<leftarrow> uadd child plen;
          top \<leftarrow> uadd (fst address) (snd address);
          (if window < top then Some (Inl ''ranges size overflow'')
           else do {
             d \<leftarrow> usub (fst address) child;
             x \<leftarrow> uadd d par;
             Some (Inr (x, snd address))
           })
        })
      else Some (Inr address))"

fun calculate_address_internal :: "memory \<Rightarrow> SimpleDeviceNode \<Rightarrow> usize \<times> usize \<Rightarrow> (usize \<times> usize) fallible" where
  "calculate_address_internal m (SimpleDeviceNode par ac sc rg rn) address =
     try_bind (translate_address m (SimpleDeviceNode par ac sc rg rn) address) (\<lambda>address_child.
       case par of
         None \<Rightarrow> Some (Inr address_child)
       | Some s \<Rightarrow> calculate_address_internal m s address_child)"

section \<open>The addresses of a device\<close>

definition DeviceAddressIter_next ::
  "memory \<Rightarrow> SimpleDeviceNode \<Rightarrow> nat option \<Rightarrow> ((usize \<times> usize) \<times> nat) option fallible" where
  "DeviceAddressIter_next m prop remaining =
     (case reg prop of
        None \<Rightarrow> Some (Inl ''reg property is none'')
      | Some r \<Rightarrow>
          let remain = (case remaining of None \<Rightarrow> len r | Some n \<Rightarrow> n) in
          if remain = 0 then Some (Inr None)
          else do {
            offset \<leftarrow> usub (len r) remain;
            try_bind (read_reg_internal m prop offset) (\<lambda>entry.
              case entry of
                None \<Rightarrow> Some (Inl ''reg property is none'')
              | Some address \<Rightarrow> try_bind (calculate_address_internal m prop address) (\<lambda>result. do {
                  node \<leftarrow> parent prop;
                  cells \<leftarrow> u32_add (address_cells node) (size_cells node);
                  stride \<leftarrow> u32_mul cells 4;
                  remain1 \<leftarrow> usub remain stride;
                  Some (Inr (Some (result, remain1)))
                }))
          })"

type_synonym 's callback = "usize \<Rightarrow> usize \<Rightarrow> 's \<Rightarrow> (ControlFlow \<times> 's) option"

text \<open>
  The \<open>calculate_property\<close> closure of \<open>find_node\<close>; \<open>s\<close> is the state of the callback \<open>f\<close>. When the cells
  of the parent are both zero the iterator never ends, so the loop is a partial function.
\<close>

partial_function (option) emit_loop ::
  "memory \<Rightarrow> 's callback \<Rightarrow> SimpleDeviceNode \<Rightarrow> nat option \<Rightarrow> 's \<Rightarrow> ((string + ControlFlow) \<times> 's) option" where
  "emit_loop m f prop remaining s = do {
     entry \<leftarrow> DeviceAddressIter_next m prop remaining;
     (case entry of
        Inl e \<Rightarrow> Some (Inl e, s)
      | Inr None \<Rightarrow> Some (Inr Continue, s)
      | Inr (Some ((address, sz), remain)) \<Rightarrow> do {
          (flow, s1) \<leftarrow> f address sz s;
          (if flow = Break then Some (Inr Break, s1) else emit_loop m f prop (Some remain) s1)
        })
   }"

section \<open>The walk\<close>

definition FDT_BEGIN_NODE :: "byte list" where
  "FDT_BEGIN_NODE = [0, 0, 0, 1]"

definition FDT_END_NODE :: "byte list" where
  "FDT_END_NODE = [0, 0, 0, 2]"

definition FDT_PROP :: "byte list" where
  "FDT_PROP = [0, 0, 0, 3]"

definition FDT_NOP :: "byte list" where
  "FDT_NOP = [0, 0, 0, 4]"

definition FDT_END :: "byte list" where
  "FDT_END = [0, 0, 0, 9]"

definition DtbParser_init :: "memory \<Rightarrow> usize \<Rightarrow> DtbParser fallible" where
  "DtbParser_init m address = try_bind (Dtb_new m address) (\<lambda>dtb. Some (Inr \<lparr>dtb_header = dtb\<rparr>))"

definition DtbParser_get_size :: "memory \<Rightarrow> DtbParser \<Rightarrow> usize" where
  "DtbParser_get_size m parser = get_total_size m (dtb_header parser)"

definition get_types :: "memory \<Rightarrow> usize \<Rightarrow> byte list" where
  "get_types m address = load_bytes m address SIZEOF_FDT_TOKEN"

function skip_nop :: "memory \<Rightarrow> DtbParser \<Rightarrow> usize \<Rightarrow> usize option" where
  "skip_nop m parser address = do {
     limit \<leftarrow> get_struct_end_address m (dtb_header parser);
     (if address < limit \<and> get_types m address = FDT_NOP then do {
        address1 \<leftarrow> uadd address SIZEOF_FDT_TOKEN;
        skip_nop m parser address1
      } else Some address)
   }"
  by pat_completeness auto
termination
  by (relation "measure (\<lambda>(m, parser, address). usize_limit - address)")
    (auto simp: SIZEOF_FDT_TOKEN_def uadd_Some_iff)

declare skip_nop.simps [simp del]

text \<open>The name of a node: the pointer stands behind the token and moves behind the padding.\<close>

definition node_name_at :: "memory \<Rightarrow> usize \<Rightarrow> (byte list \<times> usize) fallible" where
  "node_name_at m p = try_bind (read_char_str m p) (\<lambda>node_name. do {
     n \<leftarrow> next_multiple_of (length node_name + 1) ALIGNMENT;
     p1 \<leftarrow> uadd p n;
     Some (Inr (node_name, p1))
   })"

text \<open>Every turn of the loop of \<open>skip_node\<close> moves the pointer, so it ends.\<close>

lemma node_name_at_ge: "node_name_at m p = Some (Inr (nm, p1)) \<Longrightarrow> p \<le> p1 \<and> p1 < usize_limit"
  by (auto simp: node_name_at_def try_bind_def uadd_def split: bind_splits sum.splits if_splits)

function skip_node_loop :: "memory \<Rightarrow> usize \<Rightarrow> usize \<Rightarrow> usize fallible" where
  "skip_node_loop m p nest =
     (let token = get_types m p in
      if token = FDT_NOP then do {
        p1 \<leftarrow> uadd p SIZEOF_FDT_TOKEN;
        skip_node_loop m p1 nest
      }
      else if token = FDT_BEGIN_NODE then do {
        p1 \<leftarrow> uadd p SIZEOF_FDT_TOKEN;
        try_bind (node_name_at m p1) (\<lambda>(nm, p2). do {
          nest1 \<leftarrow> uadd nest 1;
          skip_node_loop m p2 nest1
        })
      }
      else if token = FDT_PROP then do {
        p1 \<leftarrow> uadd p SIZEOF_FDT_TOKEN;
        property \<leftarrow> property_ref m p1;
        n \<leftarrow> u32_next_multiple_of (get_property_len property) ALIGNMENT;
        n1 \<leftarrow> uadd size_of_FdtProperty n;
        p2 \<leftarrow> uadd p1 n1;
        skip_node_loop m p2 nest
      }
      else if token = FDT_END_NODE then do {
        p1 \<leftarrow> uadd p SIZEOF_FDT_TOKEN;
        nest1 \<leftarrow> usub nest 1;
        (if nest1 = 0 then Some (Inr p1) else skip_node_loop m p1 nest1)
      }
      else Some (Inl ''skip_node: unknown or unexpected token''))"
  by pat_completeness auto
termination
  by (relation "measure (\<lambda>(m, p, nest). usize_limit - p)")
    (auto simp: SIZEOF_FDT_TOKEN_def uadd_Some_iff dest: node_name_at_ge)

declare skip_node_loop.simps [simp del]

definition skip_node :: "memory \<Rightarrow> usize \<Rightarrow> usize fallible" where
  "skip_node m p =
     (if get_types m p \<noteq> FDT_BEGIN_NODE then Some (Inl ''skip_node: expected FDT_BEGIN_NODE'')
      else skip_node_loop m p 0)"

text \<open>The type argument \<open>T: DtbStructData\<close> of the walk and its two closures.\<close>

record ('t, 's) visitor =
  new_node :: "'t option \<Rightarrow> 't"
  parse_property :: "'t \<Rightarrow> byte list \<Rightarrow> usize \<Rightarrow> ('t \<times> usize \<times> bool \<times> nat option) fallible"
  calculate_property :: "'t \<Rightarrow> 's \<Rightarrow> ((string + ControlFlow) \<times> 's) option"

partial_function (option) prop_loop ::
  "memory \<Rightarrow> ('t, 's) visitor \<Rightarrow> byte list \<Rightarrow> 't \<Rightarrow> usize \<Rightarrow> nat option \<Rightarrow> bool
   \<Rightarrow> ('t \<times> usize \<times> nat option \<times> bool) fallible" where
  "prop_loop m v node_name prop p remaining_depth find_in_this_node =
     (let token = get_types m p in
      if token = FDT_NOP then do {
        p1 \<leftarrow> uadd p SIZEOF_FDT_TOKEN;
        prop_loop m v node_name prop p1 remaining_depth find_in_this_node
      }
      else if token = FDT_PROP then
        try_bind (parse_property v prop node_name p) (\<lambda>(prop1, p1, result, depth).
          prop_loop m v node_name prop1 p1 depth (if result then True else find_in_this_node))
      else if token = FDT_BEGIN_NODE \<or> token = FDT_END_NODE
      then Some (Inr (prop, p, remaining_depth, find_in_this_node))
      else Some (Inl ''walk_struct: unexpected token inside node''))"

text \<open>\<open>walk_struct\<close> up to the loop over the children: token, name, properties and \<open>calculate_property\<close>.\<close>

definition walk_head ::
  "memory \<Rightarrow> ('t, 's) visitor \<Rightarrow> 't option \<Rightarrow> nat option \<Rightarrow> usize \<Rightarrow> 's
   \<Rightarrow> ((string + 't \<times> nat option \<times> usize \<times> ControlFlow) \<times> 's) option" where
  "walk_head m v node_info remaining_depth p s =
     (if get_types m p \<noteq> FDT_BEGIN_NODE then Some (Inl ''walk_struct: expected FDT_BEGIN_NODE'', s)
      else do {
        p1 \<leftarrow> uadd p SIZEOF_FDT_TOKEN;
        r \<leftarrow> try_bind (node_name_at m p1) (\<lambda>(node_name, p2).
          prop_loop m v node_name (new_node v node_info) p2 remaining_depth False);
        (case r of
           Inl e \<Rightarrow> Some (Inl e, s)
         | Inr (prop, p3, depth, find_in_this_node) \<Rightarrow>
             if find_in_this_node then do {
               (c, s1) \<leftarrow> calculate_property v prop s;
               Some (map_sum id (\<lambda>flow. (prop, depth, p3, flow)) c, s1)
             }
             else Some (Inr (prop, depth, p3, Continue), s))
      })"

text \<open>
  The loop over the children, the last part of \<open>walk_struct\<close>, with the recursive call unfolded into
  its head and its own loop.
\<close>

partial_function (option) walk_children ::
  "memory \<Rightarrow> ('t, 's) visitor \<Rightarrow> 't \<Rightarrow> nat option \<Rightarrow> usize \<Rightarrow> 's
   \<Rightarrow> ((string + usize \<times> ControlFlow) \<times> 's) option" where
  "walk_children m v prop remaining_depth p s =
     (let token = get_types m p in
      if token = FDT_NOP then do {
        p1 \<leftarrow> uadd p SIZEOF_FDT_TOKEN;
        walk_children m v prop remaining_depth p1 s
      }
      else if token = FDT_BEGIN_NODE \<and> remaining_depth = Some 0 then do {
        r \<leftarrow> skip_node m p;
        (case r of
           Inl e \<Rightarrow> Some (Inl e, s)
         | Inr p1 \<Rightarrow> walk_children m v prop remaining_depth p1 s)
      }
      else if token = FDT_BEGIN_NODE then do {
        (r, s1) \<leftarrow> walk_head m v (Some prop) (map_option (\<lambda>f. f - 1) remaining_depth) p s;
        (r2, s2) \<leftarrow> (case r of
            Inl e \<Rightarrow> Some (Inl e, s1)
          | Inr (child, depth, p1, flow) \<Rightarrow>
              if flow = Break then Some (Inr (p1, Break), s1)
              else walk_children m v child depth p1 s1);
        (case r2 of
           Inl e \<Rightarrow> Some (Inl e, s2)
         | Inr (p2, flow) \<Rightarrow>
             if flow = Break then Some (Inr (p2, Break), s2)
             else walk_children m v prop remaining_depth p2 s2)
      }
      else if token = FDT_END_NODE then do {
        p1 \<leftarrow> uadd p SIZEOF_FDT_TOKEN;
        Some (Inr (p1, Continue), s)
      }
      else Some (Inl ''walk_struct: unknown or unexpected token while parsing DTB'', s))"

definition walk_struct ::
  "memory \<Rightarrow> ('t, 's) visitor \<Rightarrow> 't option \<Rightarrow> nat option \<Rightarrow> usize \<Rightarrow> 's
   \<Rightarrow> ((string + usize \<times> ControlFlow) \<times> 's) option" where
  "walk_struct m v node_info remaining_depth p s = do {
     (r, s1) \<leftarrow> walk_head m v node_info remaining_depth p s;
     (case r of
        Inl e \<Rightarrow> Some (Inl e, s1)
      | Inr (prop, depth, p1, flow) \<Rightarrow>
          if flow = Break then Some (Inr (p1, Break), s1)
          else walk_children m v prop depth p1 s1)
   }"

text \<open>The loop calls \<open>walk_struct\<close> on every child below the depth limit.\<close>

lemma walk_children_child:
  assumes "get_types m p = FDT_BEGIN_NODE" and "remaining_depth \<noteq> Some 0"
  shows "walk_children m v prop remaining_depth p s = do {
     (r, s1) \<leftarrow> walk_struct m v (Some prop) (map_option (\<lambda>f. f - 1) remaining_depth) p s;
     (case r of
        Inl e \<Rightarrow> Some (Inl e, s1)
      | Inr (p1, flow) \<Rightarrow>
          if flow = Break then Some (Inr (p1, Break), s1)
          else walk_children m v prop remaining_depth p1 s1)
   }"
  using assms
  by (subst walk_children.simps)
    (auto simp: walk_struct_def FDT_BEGIN_NODE_def FDT_NOP_def split: bind_split intro!: bind_option_cong)

text \<open>The end of both searches: behind the root only \<open>FDT_NOP\<close> and \<open>FDT_END\<close> may follow.\<close>

definition finish_walk ::
  "memory \<Rightarrow> DtbParser \<Rightarrow> (string + usize \<times> ControlFlow) \<times> 's \<Rightarrow> ((string + unit) \<times> 's) option" where
  "finish_walk m parser = (\<lambda>(r, s).
     case r of
       Inl e \<Rightarrow> Some (Inl e, s)
     | Inr (p, flow) \<Rightarrow>
         if flow = Continue then do {
           p1 \<leftarrow> skip_nop m parser p;
           Some (if get_types m p1 \<noteq> FDT_END then Inl ''struct block: did not end with FDT_END'' else Inr (), s)
         }
         else Some (Inr (), s))"

section \<open>Searching for devices\<close>

definition find_node_visitor ::
  "memory \<Rightarrow> DtbParser \<Rightarrow> byte list option \<Rightarrow> byte list option \<Rightarrow> 's callback
   \<Rightarrow> (SimpleDeviceNode, 's) visitor" where
  "find_node_visitor m parser device_name compatible_name f = \<lparr>
     new_node = SimpleDeviceNode_new,
     parse_property = (\<lambda>prop node_name cursor.
       try_bind (parse_prop m parser device_name compatible_name prop cursor)
         (\<lambda>(prop1, cursor1, b). Some (Inr (prop1, cursor1, b, None)))),
     calculate_property = (\<lambda>prop s. emit_loop m f prop None s)\<rparr>"

definition find_node ::
  "memory \<Rightarrow> DtbParser \<Rightarrow> byte list option \<Rightarrow> byte list option \<Rightarrow> 's callback \<Rightarrow> 's
   \<Rightarrow> ((string + unit) \<times> 's) option" where
  "find_node m parser device_name compatible_name f s =
     (if (device_name \<noteq> None \<and> compatible_name \<noteq> None) \<or> (device_name = None \<and> compatible_name = None)
      then Some (Inl ''device name and compatible name cannot be searched for at the same time'', s)
      else do {
        start \<leftarrow> get_struct_start_address m (dtb_header parser);
        p \<leftarrow> skip_nop m parser start;
        r \<leftarrow> walk_struct m (find_node_visitor m parser device_name compatible_name f) None None p s;
        finish_walk m parser r
      })"

section \<open>The memory reservation block\<close>

function reservation_loop :: "memory \<Rightarrow> 's callback \<Rightarrow> usize \<Rightarrow> 's \<Rightarrow> 's option" where
  "reservation_loop m f p s = do {
     addr \<leftarrow> get_address m p;
     sz \<leftarrow> get_size m p;
     (if addr = 0 \<and> sz = 0 then Some s
      else do {
        (flow, s1) \<leftarrow> f addr sz s;
        (if flow = Break then Some s1
         else do {
           p1 \<leftarrow> uadd p size_of_FdtReserveEntry;
           reservation_loop m f p1 s1
         })
      })
   }"
  by pat_completeness auto
termination
  by (relation "measure (\<lambda>(m, f, p, s). usize_limit - p)")
    (auto simp: size_of_FdtReserveEntry_def uadd_Some_iff)

declare reservation_loop.simps [simp del]

definition find_memory_reservation_block :: "memory \<Rightarrow> DtbParser \<Rightarrow> 's callback \<Rightarrow> 's \<Rightarrow> 's option" where
  "find_memory_reservation_block m parser f s = do {
     p \<leftarrow> get_memory_reservation_start_address m (dtb_header parser);
     reservation_loop m f p s
   }"

end
