(* ===== verification/Dtb_Tree.thy ===== *)
theory Dtb_Tree
  imports Dtb_Parser
begin

text \<open>
  Device trees as data and their encoding in the structure block. \<^verbatim>\<open>stored m a bs\<close>
  says that the bytes \<open>bs\<close> lie at address \<open>a\<close>. The lemmas run the accessors of the parser on stored
  bytes and \<open>skip_node\<close> on an encoded tree.
\<close>

section \<open>Bytes in memory\<close>

definition stored :: "memory \<Rightarrow> usize \<Rightarrow> byte list \<Rightarrow> bool" where
  "stored m a bs \<longleftrightarrow> load_bytes m a (length bs) = bs"

lemma load_bytes_length [simp]: "length (load_bytes m a n) = n"
  by (simp add: load_bytes_def)

lemma load_bytes_nth [simp]: "i < n \<Longrightarrow> load_bytes m a n ! i = m (a + i)"
  by (simp add: load_bytes_def)

lemma load_bytes_add: "load_bytes m a (i + j) = load_bytes m a i @ load_bytes m (a + i) j"
  by (rule nth_equalityI) (auto simp: nth_append)

lemma stored_nth: "stored m a bs \<longleftrightarrow> (\<forall>i < length bs. m (a + i) = bs ! i)"
  by (auto simp: stored_def list_eq_iff_nth_eq)

lemma stored_append [simp]: "stored m a (xs @ ys) \<longleftrightarrow> stored m a xs \<and> stored m (a + length xs) ys"
  by (auto simp: stored_def load_bytes_add)

lemma stored_Cons: "stored m a (x # xs) \<longleftrightarrow> m a = x \<and> stored m (Suc a) xs"
  using stored_append [of m a "[x]" xs] by (auto simp: stored_def load_bytes_def)

lemma stored_Nil [simp]: "stored m a []"
  by (simp add: stored_def load_bytes_def)

lemma stored_load: "stored m a bs \<Longrightarrow> n = length bs \<Longrightarrow> load_bytes m a n = bs"
  by (simp add: stored_def)

lemma stored_take: "stored m a bs \<Longrightarrow> stored m a (take n bs)"
  by (auto simp: stored_nth)

lemma stored_drop: "stored m a bs \<Longrightarrow> n \<le> length bs \<Longrightarrow> stored m (a + n) (drop n bs)"
  by (auto simp: stored_nth add.assoc)

definition be_value :: "byte list \<Rightarrow> nat" where
  "be_value bs = le_value (rev bs)"

definition be_bytes :: "nat \<Rightarrow> nat \<Rightarrow> byte list" where
  "be_bytes n v = rev (le_bytes n v)"

lemma be_bytes_length [simp]: "length (be_bytes n v) = n"
  by (simp add: be_bytes_def)

lemma be_value_be_bytes: "v < 256 ^ n \<Longrightarrow> be_value (be_bytes n v) = v"
  by (simp add: be_value_def be_bytes_def le_value_le_bytes)

lemma be_value_bound: "be_value bs < 256 ^ length bs"
  using le_value_bound [of "rev bs"] by (simp add: be_value_def)

lemma read_stored:
  assumes "stored m a bs" and "n = length bs"
  shows "from_be n (readable_read n m a) = be_value bs"
  using assms le_bytes_le_value [of bs]
  by (simp add: from_be_def swap_bytes_def readable_read_def stored_load be_value_def)

section \<open>Trees\<close>

text \<open>
  A node has a name, items before its first child (properties with the offset of their name in the
  strings block, and \<open>FDT_NOP\<close>s) and children, each followed by a number of \<open>FDT_NOP\<close>s.
\<close>

datatype fdt_item = Nop | Property nat "byte list"

datatype fdt_tree = Tree "byte list" "fdt_item list" "(fdt_tree \<times> nat) list"

definition padding :: "nat \<Rightarrow> byte list" where
  "padding n = replicate (align_up n 4 - n) 0"

definition enc_nops :: "nat \<Rightarrow> byte list" where
  "enc_nops n = concat (replicate n FDT_NOP)"

fun enc_item :: "fdt_item \<Rightarrow> byte list" where
  "enc_item Nop = FDT_NOP"
| "enc_item (Property off val) = FDT_PROP @ be_bytes 4 (length val) @ be_bytes 4 off @ val @ padding (length val)"

definition enc_items :: "fdt_item list \<Rightarrow> byte list" where
  "enc_items items = concat (map enc_item items)"

definition enc_name :: "byte list \<Rightarrow> byte list" where
  "enc_name nm = nm @ [0] @ padding (length nm + 1)"

fun enc_tree :: "fdt_tree \<Rightarrow> byte list" where
  "enc_tree (Tree nm items kids) =
     FDT_BEGIN_NODE @ enc_name nm @ enc_items items
     @ concat (map (\<lambda>(t, n). enc_tree t @ enc_nops n) kids) @ FDT_END_NODE"

definition enc_kids :: "(fdt_tree \<times> nat) list \<Rightarrow> byte list" where
  "enc_kids kids = concat (map (\<lambda>(t, n). enc_tree t @ enc_nops n) kids)"

text \<open>The string at an offset of the strings block, and what the parser requires of strings and lengths.\<close>

definition name_in :: "byte list \<Rightarrow> nat \<Rightarrow> byte list" where
  "name_in strs off = takeWhile (\<lambda>b. b \<noteq> 0) (drop off strs)"

definition str_ok :: "byte list \<Rightarrow> bool" where
  "str_ok s \<longleftrightarrow> 0 \<notin> set s \<and> valid_utf8 s"

fun item_ok :: "byte list \<Rightarrow> fdt_item \<Rightarrow> bool" where
  "item_ok strs Nop = True"
| "item_ok strs (Property off val) \<longleftrightarrow>
     off < u32_limit \<and> 0 \<in> set (drop off strs) \<and> valid_utf8 (name_in strs off) \<and> length val + 4 \<le> u32_limit"

fun tree_ok :: "byte list \<Rightarrow> fdt_tree \<Rightarrow> bool" where
  "tree_ok strs (Tree nm items kids) \<longleftrightarrow>
     str_ok nm \<and> list_all (item_ok strs) items \<and> list_all (\<lambda>(t, n). tree_ok strs t) kids"

lemma enc_tree_kids: "enc_tree (Tree nm items kids) = FDT_BEGIN_NODE @ enc_name nm @ enc_items items @ enc_kids kids @ FDT_END_NODE"
  by (simp add: enc_kids_def)

lemma enc_kids_simps [simp]:
  "enc_kids [] = []" "enc_kids ((t, n) # kids) = enc_tree t @ enc_nops n @ enc_kids kids"
  by (simp_all add: enc_kids_def)

lemma enc_items_simps [simp]: "enc_items [] = []" "enc_items (i # items) = enc_item i @ enc_items items"
  by (simp_all add: enc_items_def)

lemma enc_nops_simps [simp]: "enc_nops 0 = []" "enc_nops (Suc n) = FDT_NOP @ enc_nops n"
  by (simp_all add: enc_nops_def)

declare enc_tree.simps [simp del]

lemmas token_defs = FDT_BEGIN_NODE_def FDT_END_NODE_def FDT_PROP_def FDT_NOP_def FDT_END_def

lemma token_length [simp]:
  "length FDT_BEGIN_NODE = 4" "length FDT_END_NODE = 4" "length FDT_PROP = 4" "length FDT_NOP = 4"
  "length FDT_END = 4"
  by (simp_all add: token_defs)

lemma token_distinct [simp]:
  "FDT_BEGIN_NODE \<noteq> FDT_END_NODE" "FDT_BEGIN_NODE \<noteq> FDT_PROP" "FDT_BEGIN_NODE \<noteq> FDT_NOP" "FDT_BEGIN_NODE \<noteq> FDT_END"
  "FDT_END_NODE \<noteq> FDT_BEGIN_NODE" "FDT_END_NODE \<noteq> FDT_PROP" "FDT_END_NODE \<noteq> FDT_NOP" "FDT_END_NODE \<noteq> FDT_END"
  "FDT_PROP \<noteq> FDT_BEGIN_NODE" "FDT_PROP \<noteq> FDT_END_NODE" "FDT_PROP \<noteq> FDT_NOP" "FDT_PROP \<noteq> FDT_END"
  "FDT_NOP \<noteq> FDT_BEGIN_NODE" "FDT_NOP \<noteq> FDT_END_NODE" "FDT_NOP \<noteq> FDT_PROP" "FDT_NOP \<noteq> FDT_END"
  "FDT_END \<noteq> FDT_NOP" "FDT_END \<noteq> FDT_BEGIN_NODE"
  by (simp_all add: token_defs)

lemma get_types_stored [simp]: "stored m p tok \<Longrightarrow> length tok = 4 \<Longrightarrow> get_types m p = tok"
  by (simp add: get_types_def SIZEOF_FDT_TOKEN_def stored_load)

section \<open>Lengths\<close>

lemma padded_length: "length (xs @ padding (length xs)) = align_up (length xs) 4"
  using align_up_ge [of "length xs" 4] by (simp add: padding_def)

lemma enc_name_length: "length (enc_name nm) = align_up (length nm + 1) 4"
  using padded_length [of "nm @ [0]"] by (simp add: enc_name_def)

lemma enc_item_length:
  "length (enc_item (Property off val)) = 12 + align_up (length val) 4"
  using padded_length [of val] by simp

lemma enc_item_dvd: "4 dvd length (enc_item i)"
proof (cases i)
  case (Property off val)
  then show ?thesis
    using align_up_dvd [of 4 "length val"] by (simp only: enc_item_length) (simp add: dvd_add_right_iff)
qed simp

lemma enc_items_dvd: "4 dvd length (enc_items items)"
  by (induction items) (simp_all add: dvd_add enc_item_dvd del: enc_item.simps)

lemma enc_nops_length: "length (enc_nops n) = 4 * n"
  by (induction n) simp_all

lemma enc_name_dvd: "4 dvd length (enc_name nm)"
  by (simp add: enc_name_length align_up_dvd)

lemma enc_tree_dvd: "4 dvd length (enc_tree t)"
proof (induction t)
  case (Tree nm items kids)
  have "4 dvd length (enc_kids kids)"
    using Tree by (induction kids) (auto simp: dvd_add enc_nops_length, fastforce intro: dvd_add)
  then show ?case
    by (simp add: enc_tree_kids dvd_add enc_name_dvd enc_items_dvd)
qed

section \<open>Running the accessors\<close>

lemma strlen_stored:
  assumes "stored m a (s @ [0])" and "0 \<notin> set s" and "a + length s < usize_limit" and "n \<le> length s"
  shows "strlen m a n = Some (length s)"
  using assms(4)
proof (induction "length s - n" arbitrary: n)
  case 0
  then show ?case using assms(1,3) by (simp add: strlen.simps [of m a n] stored_Cons)
next
  case (Suc k)
  then have n: "n < length s" by simp
  then have "m (a + n) = s ! n" using assms(1) by (simp add: stored_nth nth_append)
  then have "m (a + n) \<noteq> 0" using assms(2) n nth_mem by metis
  then show ?case using Suc assms(3) n by (subst strlen.simps) simp
qed

lemma read_char_str_stored:
  assumes "stored m a (s @ [0])" and "str_ok s" and "a + length s < usize_limit"
  shows "read_char_str m a = Some (Inr s)"
proof -
  have "load_bytes m a (length s) = s"
    using assms(1) by (simp add: stored_def [of m a s, symmetric])
  then show ?thesis
    using assms strlen_stored [of m a s 0] by (simp add: read_char_str_def str_ok_def Let_def)
qed

lemma node_name_at_stored:
  assumes "stored m p (enc_name nm)" and "str_ok nm" and "p + length (enc_name nm) < usize_limit"
  shows "node_name_at m p = Some (Inr (nm, p + length (enc_name nm)))"
proof -
  have st: "stored m p (nm @ [0])" using assms(1) by (simp add: enc_name_def stored_Cons)
  have le: "length nm + 1 \<le> length (enc_name nm)" by (simp add: enc_name_def)
  have "read_char_str m p = Some (Inr nm)"
    using read_char_str_stored [OF st assms(2)] assms(3) le by simp
  moreover have "next_multiple_of (length nm + 1) ALIGNMENT = Some (length (enc_name nm))"
    using assms(3) by (simp add: ALIGNMENT_def enc_name_length next_multiple_of_ok)
  ultimately show ?thesis
    using assms(3) by (simp add: node_name_at_def try_bind_def exec_simps)
qed

lemma u32_padded: "n + 4 \<le> u32_limit \<Longrightarrow> u32_next_multiple_of n ALIGNMENT = Some (align_up n 4)"
  using align_up_less [of 4 n]
  by (simp add: u32_next_multiple_of_def ALIGNMENT_def next_multiple_of_ok exec_simps u32_limit_def usize_limit_def)

text \<open>An encoded property is read by its descriptor, twelve bytes in front of its value.\<close>

lemma property_stored:
  assumes "stored m p (enc_item (Property off val))" and "item_ok strs (Property off val)" and "4 dvd p"
  shows "\<exists>property. property_ref m (p + 4) = Some property \<and> get_property_len property = length val
    \<and> get_name_offset property = off"
proof -
  have "stored m (p + 4) (be_bytes 4 (length val))" "stored m (p + 4 + 4) (be_bytes 4 off)"
    using assms(1) by (simp_all add: add.assoc)
  moreover have "length val < 256 ^ 4" "off < 256 ^ 4"
    using assms(2) by (simp_all add: u32_limit_def)
  moreover have "is_multiple_of (p + 4) 4"
    using assms(3) by (simp add: is_multiple_of_dvd)
  ultimately show ?thesis
    by (simp add: property_ref_def exec_simps get_property_len_def get_name_offset_def read_stored be_value_be_bytes)
qed

lemma value_stored:
  assumes "stored m p (enc_item (Property off val))"
  shows "stored m (p + 12) val"
  using assms by (simp add: add.assoc)

section \<open>Skipping a node\<close>

lemma skip_nops:
  "stored m p (enc_nops n) \<Longrightarrow> p + length (enc_nops n) < usize_limit \<Longrightarrow>
   skip_node_loop m p nest = skip_node_loop m (p + length (enc_nops n)) nest"
proof (induction n arbitrary: p)
  case (Suc n)
  have "skip_node_loop m p nest = skip_node_loop m (p + 4) nest"
    using Suc.prems by (subst skip_node_loop.simps) (simp add: SIZEOF_FDT_TOKEN_def exec_simps)
  then show ?case using Suc.IH [of "p + 4"] Suc.prems by (simp add: add.assoc)
qed simp

lemma skip_items:
  "stored m p (enc_items items) \<Longrightarrow> list_all (item_ok strs) items \<Longrightarrow> 4 dvd p \<Longrightarrow>
   p + length (enc_items items) < usize_limit \<Longrightarrow>
   skip_node_loop m p nest = skip_node_loop m (p + length (enc_items items)) nest"
proof (induction items arbitrary: p)
  case (Cons i items)
  have step: "skip_node_loop m p nest = skip_node_loop m (p + length (enc_item i)) nest"
  proof (cases i)
    case Nop
    then show ?thesis
      using Cons.prems by (subst skip_node_loop.simps) (simp add: SIZEOF_FDT_TOKEN_def exec_simps)
  next
    case (Property off val)
    have i: "stored m p (enc_item (Property off val))" "item_ok strs (Property off val)"
      using Cons.prems(1,2) by (simp_all add: Property del: enc_item.simps)
    then obtain property where pr: "property_ref m (p + 4) = Some property"
      and len: "get_property_len property = length val"
      using property_stored Cons.prems(3) by blast
    have lt: "p + (12 + align_up (length val) 4) < usize_limit"
      using Cons.prems(4) by (simp add: Property enc_item_length del: enc_item.simps)
    have "get_types m p = FDT_PROP" using i(1) by simp
    moreover have "u32_next_multiple_of (length val) ALIGNMENT = Some (align_up (length val) 4)"
      using i(2) by (simp add: u32_padded)
    ultimately show ?thesis
      unfolding Property enc_item_length
      using lt pr len
      by (subst skip_node_loop.simps)
        (simp add: SIZEOF_FDT_TOKEN_def size_of_FdtProperty_def exec_simps ac_simps)
  qed
  have "4 dvd p + length (enc_item i)"
    using Cons.prems(3) enc_item_dvd by (rule dvd_add)
  then show ?case
    using step Cons.IH [of "p + length (enc_item i)"] Cons.prems
    by (simp add: add.assoc del: enc_item.simps)
qed simp

lemma skip_tree:
  "stored m p (enc_tree t) \<Longrightarrow> tree_ok strs t \<Longrightarrow> 4 dvd p \<Longrightarrow> p + length (enc_tree t) < usize_limit \<Longrightarrow>
   nest + length (enc_tree t) < usize_limit \<Longrightarrow>
   skip_node_loop m p nest =
     (if nest = 0 then Some (Inr (p + length (enc_tree t))) else skip_node_loop m (p + length (enc_tree t)) nest)"
proof (induction t arbitrary: p nest)
  case (Tree nm items kids)
  let ?q = "p + 4 + length (enc_name nm)"
  let ?r = "?q + length (enc_items items)"
  have kids: "skip_node_loop m r (Suc nest) = skip_node_loop m (r + length (enc_kids ks)) (Suc nest)"
    if "set ks \<subseteq> set kids" "stored m r (enc_kids ks)" "list_all (\<lambda>(t, n). tree_ok strs t) ks" "4 dvd r"
      "r + length (enc_kids ks) < usize_limit" "Suc nest + length (enc_kids ks) < usize_limit" for r ks
    using that
  proof (induction ks arbitrary: r)
    case (Cons k ks)
    obtain t n where k: "k = (t, n)" by (cases k)
    have t: "t \<in> Basic_BNFs.fsts (t, n)" "(t, n) \<in> set kids" using Cons.prems(1) by (auto simp: k)
    have "skip_node_loop m r (Suc nest) = skip_node_loop m (r + length (enc_tree t)) (Suc nest)"
      using Tree.IH [OF t(2) t(1), of r "Suc nest"] Cons.prems by (simp add: k)
    also have "\<dots> = skip_node_loop m (r + length (enc_tree t) + length (enc_nops n)) (Suc nest)"
      using Cons.prems by (intro skip_nops) (simp_all add: k)
    also have "\<dots> = skip_node_loop m (r + length (enc_kids (k # ks))) (Suc nest)"
      using Cons.prems Cons.IH [of "r + length (enc_tree t) + length (enc_nops n)"] enc_tree_dvd [of t]
      by (simp add: k add.assoc enc_nops_length)
    finally show ?case .
  qed simp
  have st: "stored m p FDT_BEGIN_NODE" "stored m (p + 4) (enc_name nm)" "stored m ?q (enc_items items)"
    "stored m ?r (enc_kids kids)" "stored m (?r + length (enc_kids kids)) FDT_END_NODE"
    using Tree.prems(1) by (simp_all add: enc_tree_kids add.assoc)
  have ok: "str_ok nm" "list_all (item_ok strs) items" "list_all (\<lambda>(t, n). tree_ok strs t) kids"
    using Tree.prems(2) by simp_all
  have dvd: "4 dvd ?q" "4 dvd ?r"
    using Tree.prems(3) by (simp_all add: dvd_add enc_name_dvd enc_items_dvd)
  have lt: "?r + length (enc_kids kids) + 4 < usize_limit" "Suc nest + length (enc_kids kids) + 3 < usize_limit"
    using Tree.prems(4,5) by (simp_all add: enc_tree_kids)
  have "skip_node_loop m p nest = skip_node_loop m ?q (Suc nest)"
    using st(1,2) ok(1) lt node_name_at_stored [OF st(2)]
    by (subst skip_node_loop.simps) (simp add: SIZEOF_FDT_TOKEN_def try_bind_def exec_simps)
  also have "\<dots> = skip_node_loop m ?r (Suc nest)"
    using skip_items [OF st(3) ok(2) dvd(1)] lt by simp
  also have "\<dots> = skip_node_loop m (?r + length (enc_kids kids)) (Suc nest)"
    using kids [OF subset_refl st(4) ok(3) dvd(2)] lt by simp
  also have "\<dots> = (if nest = 0 then Some (Inr (?r + length (enc_kids kids) + 4))
       else skip_node_loop m (?r + length (enc_kids kids) + 4) nest)"
    using st(5) lt by (subst skip_node_loop.simps) (simp add: SIZEOF_FDT_TOKEN_def exec_simps)
  finally show ?case by (simp add: enc_tree_kids add.assoc)
qed

lemma skip_node_stored:
  assumes "stored m p (enc_tree t)" and "tree_ok strs t" and "4 dvd p" and "p + length (enc_tree t) < usize_limit"
  shows "skip_node m p = Some (Inr (p + length (enc_tree t)))"
proof -
  have "get_types m p = FDT_BEGIN_NODE"
    using assms(1) by (cases t) (simp add: enc_tree_kids)
  then show ?thesis
    using skip_tree [OF assms, of 0] assms(4) by (simp add: skip_node_def)
qed

end
