(* ===== verification/Dtb_Reserved.thy ===== *)
theory Dtb_Reserved
  imports Dtb_Parser
begin

text \<open>
  \<open>find_reserved_memory_node\<close> of \<open>src/dtb/src/lib.rs\<close>: its two closures for the walk and the loops that
  hand the regions of a child of \<open>/reserved-memory\<close> to the callbacks.
\<close>

section \<open>Parsing the properties\<close>

definition RESERVED_MEMORY :: "byte list" where
  "RESERVED_MEMORY = str_bytes ''reserved-memory''"

text \<open>The first property of a node decides what the node is.\<close>

definition classify_node :: "byte list \<Rightarrow> ReservedMemoryNode \<Rightarrow> ReservedMemoryNode" where
  "classify_node node_name prop =
     (case prop of
        Unused par \<Rightarrow>
          (case par of
             Some (Parent ac sc) \<Rightarrow> Child (Parent ac sc) None
           | _ \<Rightarrow> if node_name = RESERVED_MEMORY then Parent 2 1 else prop)
      | _ \<Rightarrow> prop)"

text \<open>
  The match on a property of a child. A dynamic property finds its slot among \<open>size\<close>, \<open>alignment\<close> and
  \<open>alloc_ranges\<close>, which must be empty.
\<close>

definition set_dynamic :: "byte list \<Rightarrow> PropertyData \<Rightarrow> ReservedMemoryData \<Rightarrow> string + ReservedMemoryData" where
  "set_dynamic name d dat =
     (case dat of
        Static _ \<Rightarrow> Inl (''reserved-memory child: dynamic property with existing 'reg'' @ [CHR 0x27])
      | Dynamic sz alignm alloc_ranges \<Rightarrow>
          if name = PROP_SIZE then
            (if sz \<noteq> None then Inl ''reserved-memory child: duplicate dynamic property''
             else Inr (Dynamic (Some d) alignm alloc_ranges))
          else if name = PROP_ALIGNMENT then
            (if alignm \<noteq> None then Inl ''reserved-memory child: duplicate dynamic property''
             else Inr (Dynamic sz (Some d) alloc_ranges))
          else
            (if alloc_ranges \<noteq> None then Inl ''reserved-memory child: duplicate dynamic property''
             else Inr (Dynamic sz alignm (Some d))))"

definition parse_child ::
  "byte list \<Rightarrow> PropertyData \<Rightarrow> ReservedMemoryData option \<Rightarrow> string + ReservedMemoryData option \<times> bool" where
  "parse_child name d dat =
     (if name = PROP_REG then
        (if dat \<noteq> None then Inl ''reserved-memory child: duplicate 'reg' property''
         else if len d \<noteq> 0 then Inr (Some (Static d), True)
         else Inr (dat, False))
      else if name = PROP_SIZE \<or> name = PROP_ALIGNMENT \<or> name = PROP_ALLOC_RANGES then
        (case set_dynamic name d (case dat of None \<Rightarrow> Dynamic None None None | Some x \<Rightarrow> x) of
           Inl e \<Rightarrow> Inl e
         | Inr x \<Rightarrow> Inr (Some x, True))
      else Inr (dat, False))"

definition parse_reserved ::
  "memory \<Rightarrow> DtbParser \<Rightarrow> ReservedMemoryNode \<Rightarrow> byte list \<Rightarrow> usize
   \<Rightarrow> (ReservedMemoryNode \<times> usize \<times> bool \<times> nat option) fallible" where
  "parse_reserved m parser prop node_name cursor =
     try_bind (property_head m parser cursor) (\<lambda>(property, name, cursor).
       try_bind
         (case classify_node node_name prop of
            Parent ac sc \<Rightarrow>
              if name = ADDRESS_CELLS then do {
                v \<leftarrow> read_u32_from_ptr m cursor;
                Some (Inr (Parent v sc, False))
              }
              else if name = SIZE_CELLS then do {
                v \<leftarrow> read_u32_from_ptr m cursor;
                Some (Inr (Parent ac v, False))
              }
              else Some (Inr (Parent ac sc, False))
          | Child par dat \<Rightarrow>
              Some (map_sum id (\<lambda>(dat1, matched). (Child par dat1, matched))
                (parse_child name \<lparr>head_addr = cursor, len = get_property_len property\<rparr> dat))
          | Unused par \<Rightarrow> Some (Inr (Unused par, False)))
         (\<lambda>(prop1, matched_node). do {
            cursor1 \<leftarrow> skip_value property cursor;
            Some (Inr (if node_name = RESERVED_MEMORY then (prop1, cursor1, True, Some 1)
                       else (prop1, cursor1, matched_node, None)))
          }))"

section \<open>Reporting the regions\<close>

type_synonym 's dynamic_callback =
  "usize \<Rightarrow> usize option \<Rightarrow> (usize \<times> usize) option \<Rightarrow> 's \<Rightarrow> ((unit + ControlFlow) \<times> 's) option"

text \<open>One pair of an address and a size, \<open>consumed\<close> bytes behind the head of a property.\<close>

definition read_pair :: "memory \<Rightarrow> nat \<Rightarrow> nat \<Rightarrow> usize \<Rightarrow> usize \<Rightarrow> (usize \<times> usize \<times> usize) fallible" where
  "read_pair m ac sc head consumed = do {
     a \<leftarrow> uadd head consumed;
     try_bind (read_regs m a ac) (\<lambda>addr. do {
       consumed1 \<leftarrow> uadd consumed (snd addr);
       b \<leftarrow> uadd head consumed1;
       try_bind (read_regs m b sc) (\<lambda>sz. do {
         consumed2 \<leftarrow> uadd consumed1 (snd sz);
         Some (Inr (fst addr, fst sz, consumed2))
       })
     })
   }"

partial_function (option) static_loop ::
  "memory \<Rightarrow> 's callback \<Rightarrow> nat \<Rightarrow> nat \<Rightarrow> PropertyData \<Rightarrow> usize \<Rightarrow> 's \<Rightarrow> ((string + ControlFlow) \<times> 's) option" where
  "static_loop m f ac sc r consumed s = do {
     pair \<leftarrow> read_pair m ac sc (head_addr r) consumed;
     (case pair of
        Inl e \<Rightarrow> Some (Inl e, s)
      | Inr (addr, sz, consumed1) \<Rightarrow> do {
          (flow, s1) \<leftarrow> f addr sz s;
          (if flow = Break then Some (Inr Break, s1)
           else if consumed1 = len r then Some (Inr Continue, s1)
           else if len r < consumed1
           then Some (Inl ''reserved-memory static: overrun while reading 'reg' entries'', s1)
           else static_loop m f ac sc r consumed1 s1)
        })
   }"

partial_function (option) alloc_ranges_loop ::
  "memory \<Rightarrow> 's dynamic_callback \<Rightarrow> nat \<Rightarrow> nat \<Rightarrow> usize \<Rightarrow> usize option \<Rightarrow> PropertyData \<Rightarrow> usize \<Rightarrow> 's
   \<Rightarrow> ((string + ControlFlow) \<times> 's) option" where
  "alloc_ranges_loop m dynamic ac sc alloc_size alignm r consumed s = do {
     pair \<leftarrow> read_pair m ac sc (head_addr r) consumed;
     (case pair of
        Inl e \<Rightarrow> Some (Inl e, s)
      | Inr (addr, sz, consumed1) \<Rightarrow> do {
          (res, s1) \<leftarrow> dynamic alloc_size alignm (Some (addr, sz)) s;
          (case res of
             Inr flow \<Rightarrow> Some (Inr flow, s1)
           | Inl _ \<Rightarrow>
               if consumed1 = len r then Some (Inr Continue, s1)
               else if len r < consumed1
               then Some (Inl (''reserved-memory dynamic: overrun while reading 'alloc-ranges'' @ [CHR 0x27]), s1)
               else alloc_ranges_loop m dynamic ac sc alloc_size alignm r consumed1 s1)
        })
   }"

definition calculate_dynamic ::
  "memory \<Rightarrow> 's dynamic_callback \<Rightarrow> nat \<Rightarrow> nat \<Rightarrow> PropertyData option \<Rightarrow> PropertyData option
   \<Rightarrow> PropertyData option \<Rightarrow> 's \<Rightarrow> ((string + ControlFlow) \<times> 's) option" where
  "calculate_dynamic m dynamic ac sc sz alignm alloc_ranges s =
     (let sc_bytes = sc * 4; ac_bytes = ac * 4 in
      case sz of
        None \<Rightarrow> Some (Inl ''reserved-memory dynamic: missing 'size' property'', s)
      | Some size_prop \<Rightarrow>
          if len size_prop \<noteq> sc_bytes then Some (Inl ''reserved-memory dynamic: 'size' length mismatch'', s)
          else if (case alignm of None \<Rightarrow> False | Some x \<Rightarrow> len x \<noteq> sc_bytes)
          then Some (Inl ''reserved-memory dynamic: 'alignment' length mismatch'', s)
          else if (case alloc_ranges of None \<Rightarrow> False
                   | Some x \<Rightarrow> len x = 0 \<or> \<not> is_multiple_of (len x) (ac_bytes + sc_bytes))
          then Some (Inl ''reserved-memory dynamic: 'alloc-ranges' length not multiple of stride'', s)
          else do {
            r \<leftarrow> try_bind (read_regs m (head_addr size_prop) sc) (\<lambda>alloc_size.
              case alignm of
                None \<Rightarrow> Some (Inr (fst alloc_size, None))
              | Some x \<Rightarrow> try_bind (read_regs m (head_addr x) sc) (\<lambda>a.
                  Some (Inr (fst alloc_size, Some (fst a)))));
            (case r of
               Inl e \<Rightarrow> Some (Inl e, s)
             | Inr (alloc_size, al) \<Rightarrow>
                 (case alloc_ranges of
                    Some x \<Rightarrow> alloc_ranges_loop m dynamic ac sc alloc_size al x 0 s
                  | None \<Rightarrow> do {
                      (res, s1) \<leftarrow> dynamic alloc_size al None s;
                      Some (Inr (case res of Inr flow \<Rightarrow> flow | Inl _ \<Rightarrow> Continue), s1)
                    }))
          })"

definition calculate_reserved ::
  "memory \<Rightarrow> 's callback \<Rightarrow> 's dynamic_callback \<Rightarrow> ReservedMemoryNode \<Rightarrow> 's
   \<Rightarrow> ((string + ControlFlow) \<times> 's) option" where
  "calculate_reserved m f dynamic prop s =
     (case prop of
        Child par (Some dat) \<Rightarrow>
          (case assume_parent_and_get_property par of
             Inl e \<Rightarrow> Some (Inl e, s)
           | Inr (ac, sc) \<Rightarrow>
               if 2 < ac \<or> 2 < sc
               then Some (Inl ''reserved-memory: address-cells/size-cells > 2 not supported'', s)
               else
                 (case dat of
                    Static r \<Rightarrow>
                      if len r = 0 \<or> \<not> is_multiple_of (len r) ((ac + sc) * 4)
                      then Some (Inl ''reserved-memory static: 'reg' length not multiple of stride'', s)
                      else static_loop m f ac sc r 0 s
                  | Dynamic sz alignm alloc_ranges \<Rightarrow>
                      calculate_dynamic m dynamic ac sc sz alignm alloc_ranges s))
      | _ \<Rightarrow> Some (Inr Continue, s))"

definition reserved_visitor ::
  "memory \<Rightarrow> DtbParser \<Rightarrow> 's callback \<Rightarrow> 's dynamic_callback \<Rightarrow> (ReservedMemoryNode, 's) visitor" where
  "reserved_visitor m parser f dynamic = \<lparr>
     new_node = ReservedMemoryNode_new,
     parse_property = parse_reserved m parser,
     calculate_property = calculate_reserved m f dynamic\<rparr>"

definition find_reserved_memory_node ::
  "memory \<Rightarrow> DtbParser \<Rightarrow> 's callback \<Rightarrow> 's dynamic_callback \<Rightarrow> 's \<Rightarrow> ((string + unit) \<times> 's) option" where
  "find_reserved_memory_node m parser f dynamic s = do {
     start \<leftarrow> get_struct_start_address m (dtb_header parser);
     p \<leftarrow> skip_nop m parser start;
     r \<leftarrow> walk_struct m (reserved_visitor m parser f dynamic) None (Some 1) p s;
     finish_walk m parser r
   }"

end
