(* ===== verification/Dtb_Walk.thy ===== *)
theory Dtb_Walk
  imports Dtb_Tree Dtb_Reserved
begin

text \<open>
  The walk over the structure block refines a recursion over the tree. The contract of a
  \<open>parse_property\<close> closure is a locale: on an encoded property it moves the cursor behind the property
  and computes its result from the name and the value. Inside the locale \<open>walk_struct\<close> on an encoded
  tree is \<^verbatim>\<open>visit_tree\<close>: a total recursion, with the nodes in document order and the depth
  limit of the code. Both closures of the parser are instances.
\<close>

section \<open>The reference recursion\<close>

type_synonym 't item_parser = "'t \<Rightarrow> byte list \<Rightarrow> byte list \<Rightarrow> usize \<Rightarrow> byte list \<Rightarrow> ('t \<times> bool \<times> nat option) fallible"

fun visit_items ::
  "byte list \<Rightarrow> 't item_parser \<Rightarrow> byte list \<Rightarrow> 't \<Rightarrow> usize \<Rightarrow> nat option \<Rightarrow> bool \<Rightarrow> fdt_item list
   \<Rightarrow> ('t \<times> nat option \<times> bool) fallible" where
  "visit_items strs item nm prop p depth found [] = Some (Inr (prop, depth, found))"
| "visit_items strs item nm prop p depth found (Nop # items) =
     visit_items strs item nm prop (p + 4) depth found items"
| "visit_items strs item nm prop p depth found (Property off val # items) =
     try_bind (item prop nm (name_in strs off) (p + 12) val) (\<lambda>(prop1, b, depth1).
       visit_items strs item nm prop1 (p + length (enc_item (Property off val))) depth1 (found \<or> b) items)"

text \<open>A step after which the walk goes on only if it was told to.\<close>

definition and_then ::
  "((string + ControlFlow) \<times> 's) option \<Rightarrow> ('s \<Rightarrow> ((string + ControlFlow) \<times> 's) option)
   \<Rightarrow> ((string + ControlFlow) \<times> 's) option" where
  "and_then r f = do { (x, s) \<leftarrow> r; (if x = Inr Continue then f s else Some (x, s)) }"

lemma and_then_cong [fundef_cong]:
  "r = r' \<Longrightarrow> (\<And>s. f s = g s) \<Longrightarrow> and_then r f = and_then r' g"
proof -
  assume "r = r'" and "\<And>s. f s = g s"
  then have "r = r'" and "f = g" by auto
  then show ?thesis by simp
qed

fun visit_tree ::
  "byte list \<Rightarrow> 't item_parser \<Rightarrow> ('t, 's) visitor \<Rightarrow> 't option \<Rightarrow> nat option \<Rightarrow> usize \<Rightarrow> fdt_tree \<Rightarrow> 's
   \<Rightarrow> ((string + ControlFlow) \<times> 's) option"
  and visit_kids ::
  "byte list \<Rightarrow> 't item_parser \<Rightarrow> ('t, 's) visitor \<Rightarrow> 't \<Rightarrow> nat option \<Rightarrow> usize \<Rightarrow> (fdt_tree \<times> nat) list \<Rightarrow> 's
   \<Rightarrow> ((string + ControlFlow) \<times> 's) option" where
  "visit_tree strs item v node_info depth p (Tree nm items kids) s = do {
     r \<leftarrow> visit_items strs item nm (new_node v node_info) (p + 4 + length (enc_name nm)) depth False items;
     (case r of
        Inl e \<Rightarrow> Some (Inl e, s)
      | Inr (prop, depth1, found) \<Rightarrow>
          and_then (if found then calculate_property v prop s else Some (Inr Continue, s))
            (visit_kids strs item v prop depth1
               (p + 4 + length (enc_name nm) + length (enc_items items)) kids))
   }"
| "visit_kids strs item v prop depth p [] s = Some (Inr Continue, s)"
| "visit_kids strs item v prop depth p ((t, n) # kids) s =
     and_then
       (if depth = Some 0 then Some (Inr Continue, s)
        else visit_tree strs item v (Some prop) (map_option (\<lambda>f. f - 1) depth) p t s)
       (visit_kids strs item v prop depth (p + length (enc_tree t) + length (enc_nops n)) kids)"

text \<open>A condition on the names and values of all properties of a tree.\<close>

fun item_good :: "(byte list \<Rightarrow> byte list \<Rightarrow> bool) \<Rightarrow> byte list \<Rightarrow> fdt_item \<Rightarrow> bool" where
  "item_good good strs Nop = True"
| "item_good good strs (Property off val) = good (name_in strs off) val"

fun tree_good :: "(byte list \<Rightarrow> byte list \<Rightarrow> bool) \<Rightarrow> byte list \<Rightarrow> fdt_tree \<Rightarrow> bool" where
  "tree_good good strs (Tree nm items kids) \<longleftrightarrow>
     list_all (item_good good strs) items \<and> list_all (\<lambda>(t, n). tree_good good strs t) kids"

section \<open>A walk and its reference\<close>

text \<open>The walk gives the result of the reference, and when it goes on it stands at \<open>q\<close>.\<close>

definition walked ::
  "usize \<Rightarrow> ((string + usize \<times> ControlFlow) \<times> 's) option \<Rightarrow> ((string + ControlFlow) \<times> 's) option \<Rightarrow> bool" where
  "walked q w r \<longleftrightarrow> map_option (\<lambda>(x, s). (map_sum id snd x, s)) w = r
     \<and> (\<forall>p s. w = Some (Inr (p, Continue), s) \<longrightarrow> p = q)"

lemma walked_stop [simp]:
  "walked q None None" "walked q (Some (Inl e, s)) (Some (Inl e, s))"
  "walked q (Some (Inr (p, Break), s)) (Some (Inr Break, s))"
  "walked q (Some (Inr (q, Continue), s)) (Some (Inr Continue, s))"
  by (simp_all add: walked_def)

lemma not_Break [simp]: "flow \<noteq> Break \<longleftrightarrow> flow = Continue"
  by (cases flow) auto

lemma walked_then:
  assumes "walked q w r" and "\<And>s. walked q1 (f q s) (g s)"
  shows "walked q1 (do {
     (x, s) \<leftarrow> w;
     (case x of
        Inl e \<Rightarrow> Some (Inl e, s)
      | Inr (p, flow) \<Rightarrow> if flow = Break then Some (Inr (p, Break), s) else f p s)
   }) (and_then r g)"
proof (cases w)
  case None
  then show ?thesis using assms(1) by (auto simp: walked_def and_then_def)
next
  case (Some xs)
  obtain x s where xs: "xs = (x, s)" by (cases xs)
  show ?thesis
  proof (cases x)
    case (Inl e)
    then show ?thesis using assms(1) by (auto simp: Some xs walked_def and_then_def)
  next
    case (Inr pf)
    then obtain p flow where "x = Inr (p, flow)" by (cases pf) simp
    then show ?thesis
      using assms by (cases flow) (auto simp: Some xs walked_def [of q] and_then_def)
  qed
qed

lemma walked_head:
  assumes "\<And>s. walked q1 (f nd depth q s) (g s)"
  shows "walked q1 (do {
     (x, s) \<leftarrow> do { (c, s1) \<leftarrow> r; Some (map_sum id (\<lambda>flow. (nd, depth, q, flow)) c, s1) };
     (case x of
        Inl e \<Rightarrow> Some (Inl e, s)
      | Inr (nd, depth, p, flow) \<Rightarrow> if flow = Break then Some (Inr (p, Break), s) else f nd depth p s)
   }) (and_then r g)"
proof (cases r)
  case (Some xs)
  obtain x s where xs: "xs = (x, s)" by (cases xs)
  show ?thesis
  proof (cases x)
    case (Inr flow)
    then show ?thesis using assms by (cases flow) (auto simp: Some xs and_then_def)
  qed (simp add: Some xs and_then_def)
qed (simp add: and_then_def)

section \<open>The contract of a closure\<close>

definition strings_at :: "memory \<Rightarrow> DtbParser \<Rightarrow> byte list \<Rightarrow> bool" where
  "strings_at m parser strs \<longleftrightarrow>
     (case get_string_start_address m (dtb_header parser) of
        None \<Rightarrow> False
      | Some a \<Rightarrow> stored m a strs \<and> a + length strs < usize_limit)"

locale property_parser =
  fixes visit :: "memory \<Rightarrow> DtbParser \<Rightarrow> ('t, 's) visitor" and item :: "'t item_parser"
    and good :: "byte list \<Rightarrow> byte list \<Rightarrow> bool"
  assumes parse:
    "strings_at m parser strs \<Longrightarrow> stored m p (enc_item (Property off val)) \<Longrightarrow> item_ok strs (Property off val) \<Longrightarrow>
     good (name_in strs off) val \<Longrightarrow> 4 dvd p \<Longrightarrow> p + length (enc_item (Property off val)) < usize_limit \<Longrightarrow>
     parse_property (visit m parser) nd nm p = try_bind (item nd nm (name_in strs off) (p + 12) val)
       (\<lambda>(nd1, b, depth). Some (Inr (nd1, p + length (enc_item (Property off val)), b, depth)))"
begin

lemma prop_loop_items:
  "strings_at m parser strs \<Longrightarrow> stored m p (enc_items items) \<Longrightarrow> list_all (item_ok strs) items \<Longrightarrow> list_all (item_good good strs) items \<Longrightarrow>
   4 dvd p \<Longrightarrow> p + length (enc_items items) < usize_limit \<Longrightarrow>
   get_types m (p + length (enc_items items)) \<in> {FDT_BEGIN_NODE, FDT_END_NODE} \<Longrightarrow>
   prop_loop m (visit m parser) nm nd p depth found = try_bind (visit_items strs item nm nd p depth found items)
     (\<lambda>(nd1, rest). Some (Inr (nd1, p + length (enc_items items), rest)))"
proof (induction items arbitrary: nd p depth found)
  case Nil
  then show ?case by (subst prop_loop.simps) (auto simp: try_bind_def)
next
  case (Cons i items)
  have dvd: "4 dvd p + length (enc_item i)"
    using Cons.prems(5) enc_item_dvd by (rule dvd_add)
  note IH = Cons.IH [OF Cons.prems(1) _ _ _ dvd]
  show ?case
  proof (cases i)
    case Nop
    then show ?thesis
      using Cons.prems IH
      by (subst prop_loop.simps) (simp add: SIZEOF_FDT_TOKEN_def exec_simps add.assoc)
  next
    case (Property off val)
    have "get_types m p = FDT_PROP" using Cons.prems(2) by (simp add: Property)
    moreover have "parse_property (visit m parser) nd nm p = try_bind (item nd nm (name_in strs off) (p + 12) val)
       (\<lambda>(nd1, b, depth). Some (Inr (nd1, p + length (enc_item i), b, depth)))"
      unfolding Property using Cons.prems
      by (intro parse [OF Cons.prems(1)]) (simp_all add: Property del: enc_item.simps)
    ultimately show ?thesis
      using Cons.prems IH
      by (subst prop_loop.simps)
        (auto simp: Property add.assoc try_bind_def split: bind_splits sum.splits simp del: enc_item.simps)
  qed
qed

lemma walk_head_tree:
  assumes strings: "strings_at m parser strs"
    and "stored m p (FDT_BEGIN_NODE @ enc_name nm @ enc_items items)" and "str_ok nm"
    and "list_all (item_ok strs) items" and "list_all (item_good good strs) items" and "4 dvd p"
    and "q = p + 4 + length (enc_name nm) + length (enc_items items)" and "q < usize_limit"
    and "get_types m q \<in> {FDT_BEGIN_NODE, FDT_END_NODE}"
  shows "walk_head m (visit m parser) node_info depth p s = do {
     r \<leftarrow> visit_items strs item nm (new_node (visit m parser) node_info) (p + 4 + length (enc_name nm)) depth False items;
     (case r of
        Inl e \<Rightarrow> Some (Inl e, s)
      | Inr (nd, depth1, found) \<Rightarrow> do {
          (c, s1) \<leftarrow> (if found then calculate_property (visit m parser) nd s else Some (Inr Continue, s));
          Some (map_sum id (\<lambda>flow. (nd, depth1, q, flow)) c, s1)
        })
   }"
proof -
  have st: "stored m p FDT_BEGIN_NODE" "stored m (p + 4) (enc_name nm)"
    "stored m (p + 4 + length (enc_name nm)) (enc_items items)"
    using assms(2) by (simp_all add: add.assoc)
  have name: "node_name_at m (p + 4) = Some (Inr (nm, p + 4 + length (enc_name nm)))"
    using st(2) assms(3,7,8) by (intro node_name_at_stored) simp_all
  have dvd: "4 dvd p + 4 + length (enc_name nm)"
    using assms(6) enc_name_dvd by (simp add: dvd_add)
  have "prop_loop m (visit m parser) nm (new_node (visit m parser) node_info) (p + 4 + length (enc_name nm)) depth False
      = try_bind (visit_items strs item nm (new_node (visit m parser) node_info) (p + 4 + length (enc_name nm)) depth False items)
          (\<lambda>(nd1, rest). Some (Inr (nd1, q, rest)))"
    unfolding assms(7) using assms(7,8,9) by (intro prop_loop_items [OF strings st(3) assms(4,5) dvd]) simp_all
  then show ?thesis
    using st(1) name assms(7,8)
    by (auto simp: walk_head_def SIZEOF_FDT_TOKEN_def exec_simps try_bind_def
        split: bind_split sum.split)
qed

lemma walk_nops:
  "stored m p (enc_nops n) \<Longrightarrow> p + length (enc_nops n) < usize_limit \<Longrightarrow>
   walk_children m (visit m parser) nd depth p s = walk_children m (visit m parser) nd depth (p + length (enc_nops n)) s"
proof (induction n arbitrary: p)
  case (Suc n)
  have "walk_children m (visit m parser) nd depth p s = walk_children m (visit m parser) nd depth (p + 4) s"
    using Suc.prems by (subst walk_children.simps) (simp add: SIZEOF_FDT_TOKEN_def exec_simps)
  then show ?case using Suc.IH [of "p + 4"] Suc.prems by (simp add: add.assoc)
qed simp

text \<open>The children one by one, given the walk over each of them.\<close>

lemma walk_kids:
  assumes "\<And>t n node_info depth p s. (t, n) \<in> set kids \<Longrightarrow> stored m p (enc_tree t) \<Longrightarrow> 4 dvd p \<Longrightarrow>
     p + length (enc_tree t) < usize_limit \<Longrightarrow>
     walked (p + length (enc_tree t)) (walk_struct m (visit m parser) node_info depth p s) (visit_tree strs item (visit m parser) node_info depth p t s)"
    and "list_all (\<lambda>(t, n). tree_ok strs t) kids"
    and "stored m p (enc_kids kids @ FDT_END_NODE)" and "4 dvd p" and "p + length (enc_kids kids) + 4 < usize_limit"
  shows "walked (p + length (enc_kids kids) + 4) (walk_children m (visit m parser) nd depth p s) (visit_kids strs item (visit m parser) nd depth p kids s)"
  using assms
proof (induction kids arbitrary: p s)
  case Nil
  then show ?case
    by (subst walk_children.simps) (simp add: SIZEOF_FDT_TOKEN_def exec_simps)
next
  case (Cons k kids)
  obtain t n where k: "k = (t, n)" by (cases k)
  let ?q = "p + length (enc_tree t)"
  let ?last = "p + length (enc_kids (k # kids)) + 4"
  have st: "stored m p (enc_tree t)" "stored m ?q (enc_nops n)"
    "stored m (?q + length (enc_nops n)) (enc_kids kids @ FDT_END_NODE)"
    using Cons.prems(3) by (simp_all add: k add.assoc)
  have lt: "?q + length (enc_nops n) + length (enc_kids kids) + 4 < usize_limit"
    using Cons.prems(5) by (simp add: k)
  have begins: "get_types m p = FDT_BEGIN_NODE"
    using st(1) by (cases t) (simp add: enc_tree_kids)
  have "walked (?q + length (enc_nops n) + length (enc_kids kids) + 4)
      (walk_children m (visit m parser) nd depth (?q + length (enc_nops n)) s1)
      (visit_kids strs item (visit m parser) nd depth (?q + length (enc_nops n)) kids s1)" for s1
    using Cons.prems(2,4) st(3) lt enc_tree_dvd [of t]
    by (intro Cons.IH) (auto simp: enc_nops_length intro: Cons.prems(1))
  moreover have "walk_children m (visit m parser) nd depth ?q s1 = walk_children m (visit m parser) nd depth (?q + length (enc_nops n)) s1" for s1
    using st(2) lt by (intro walk_nops) simp_all
  ultimately have rest: "walked ?last (walk_children m (visit m parser) nd depth ?q s1)
      (visit_kids strs item (visit m parser) nd depth (?q + length (enc_nops n)) kids s1)" for s1
    by (simp add: k add.assoc)
  show ?case
  proof (cases "depth = Some 0")
    case True
    have "skip_node m p = Some (Inr ?q)"
      using st(1) Cons.prems(2,4) lt by (intro skip_node_stored [where strs = strs]) (simp_all add: k)
    then have "walk_children m (visit m parser) nd depth p s = walk_children m (visit m parser) nd depth ?q s"
      using begins True by (subst walk_children.simps) simp
    then show ?thesis using rest True by (simp add: k and_then_def)
  next
    case False
    have "walked ?q (walk_struct m (visit m parser) (Some nd) (map_option (\<lambda>f. f - 1) depth) p s)
        (visit_tree strs item (visit m parser) (Some nd) (map_option (\<lambda>f. f - 1) depth) p t s)"
      using st(1) Cons.prems(4) lt by (intro Cons.prems(1) [of t n]) (simp_all add: k)
    from walked_then [where f = "walk_children m (visit m parser) nd depth", OF this rest] show ?thesis
      using False by (simp add: k walk_children_child [OF begins False])
  qed
qed

lemma walk_tree:
  "strings_at m parser strs \<Longrightarrow> stored m p (enc_tree t) \<Longrightarrow> tree_ok strs t \<Longrightarrow> tree_good good strs t \<Longrightarrow> 4 dvd p \<Longrightarrow>
   p + length (enc_tree t) < usize_limit \<Longrightarrow>
   walked (p + length (enc_tree t)) (walk_struct m (visit m parser) node_info depth p s) (visit_tree strs item (visit m parser) node_info depth p t s)"
proof (induction t arbitrary: node_info depth p s)
  case (Tree nm items kids)
  let ?q = "p + 4 + length (enc_name nm) + length (enc_items items)"
  have st: "stored m p (FDT_BEGIN_NODE @ enc_name nm @ enc_items items)" "stored m ?q (enc_kids kids @ FDT_END_NODE)"
    using Tree.prems(2) by (simp_all add: enc_tree_kids add.assoc)
  have lt: "?q + length (enc_kids kids) + 4 < usize_limit"
    using Tree.prems(6) by (simp add: enc_tree_kids)
  have dvd: "4 dvd ?q"
    using Tree.prems(5) by (simp add: dvd_add enc_name_dvd enc_items_dvd)
  have token: "get_types m ?q \<in> {FDT_BEGIN_NODE, FDT_END_NODE}"
  proof (cases kids)
    case (Cons k ks)
    then show ?thesis using st(2) by (cases k; cases "fst k") (simp add: enc_tree_kids)
  qed (use st(2) in simp)
  have kids: "walked (?q + length (enc_kids kids) + 4) (walk_children m (visit m parser) nd depth1 ?q s1)
      (visit_kids strs item (visit m parser) nd depth1 ?q kids s1)" for nd depth1 s1
  proof (rule walk_kids [OF _ _ st(2) dvd lt])
    fix t n node_info depth p s
    assume t: "(t, n) \<in> set kids" "stored m p (enc_tree t)" "4 dvd p" "p + length (enc_tree t) < usize_limit"
    have "tree_ok strs t" "tree_good good strs t"
      using Tree.prems(3,4) t(1) by (auto simp: list_all_iff)
    then show "walked (p + length (enc_tree t)) (walk_struct m (visit m parser) node_info depth p s)
        (visit_tree strs item (visit m parser) node_info depth p t s)"
      using t by (intro Tree.IH [OF _ _ Tree.prems(1), of "(t, n)" t]) auto
  qed (use Tree.prems(3) in simp)
  have head: "walk_head m (visit m parser) node_info depth p s = do {
     r \<leftarrow> visit_items strs item nm (new_node (visit m parser) node_info) (p + 4 + length (enc_name nm)) depth False items;
     (case r of
        Inl e \<Rightarrow> Some (Inl e, s)
      | Inr (nd, depth1, found) \<Rightarrow> do {
          (c, s1) \<leftarrow> (if found then calculate_property (visit m parser) nd s else Some (Inr Continue, s));
          Some (map_sum id (\<lambda>flow. (nd, depth1, ?q, flow)) c, s1)
        })
   }"
    using Tree.prems(3,4,5) lt token by (intro walk_head_tree [OF Tree.prems(1) st(1)]) simp_all
  have len: "p + length (enc_tree (Tree nm items kids)) = ?q + length (enc_kids kids) + 4"
    by (simp add: enc_tree_kids)
  show ?case
  proof (cases "visit_items strs item nm (new_node (visit m parser) node_info) (p + 4 + length (enc_name nm)) depth False items")
    case (Some r)
    show ?thesis
    proof (cases r)
      case (Inr x)
      then obtain nd depth1 found where r: "r = Inr (nd, depth1, found)" by (cases x) auto
      show ?thesis
        unfolding len walk_struct_def head visit_tree.simps Some r
        by (simp only: bind.bind_lunit sum.case prod.case)
          (rule walked_head [where f = "walk_children m (visit m parser)", OF kids])
    qed (simp add: walk_struct_def head Some)
  qed (simp add: walk_struct_def head)
qed

end

end
