(* ===== verification/Dtb_Closures.thy ===== *)
theory Dtb_Closures
  imports Dtb_Walk
begin

text \<open>
  The two \<open>parse_property\<close> closures of the parser keep the contract of the walk: on well-formed values
  they compute what \<^verbatim>\<open>device_item\<close> and \<^verbatim>\<open>reserved_item\<close> say of the name and the value alone. With
  that, both searches over a stored device tree are recursions over the tree.
\<close>

section \<open>Values\<close>

function strings_of :: "byte list \<Rightarrow> byte list list" where
  "strings_of bs = (if bs = [] then [] else takeWhile (\<lambda>b. b \<noteq> 0) bs # strings_of (tl (dropWhile (\<lambda>b. b \<noteq> 0) bs)))"
  by pat_completeness auto
termination
proof (relation "measure length")
  fix bs :: "byte list"
  assume "bs \<noteq> []"
  then have "0 < length bs" by simp
  moreover have "length (dropWhile (\<lambda>b. b \<noteq> 0) bs) \<le> length bs" by (rule length_dropWhile_le)
  ultimately show "(tl (dropWhile (\<lambda>b. b \<noteq> 0) bs), bs) \<in> measure length"
    unfolding in_measure length_tl by linarith
qed simp

declare strings_of.simps [simp del]

definition strings_ok :: "byte list \<Rightarrow> bool" where
  "strings_ok val \<longleftrightarrow> (val = [] \<or> List.last val = 0) \<and> list_all valid_utf8 (strings_of val)"

definition first_string :: "byte list \<Rightarrow> byte list" where
  "first_string val = takeWhile (\<lambda>b. b \<noteq> 0) val"

definition device_good :: "byte list \<Rightarrow> byte list \<Rightarrow> bool" where
  "device_good name val \<longleftrightarrow>
     (name = ADDRESS_CELLS \<or> name = SIZE_CELLS \<longrightarrow> length val = 4)
     \<and> (name = PROP_COMPATIBLE \<longrightarrow> strings_ok val)
     \<and> (name = PROP_DEVICE_NAME \<longrightarrow> 0 \<in> set val \<and> valid_utf8 (first_string val))"

definition device_item :: "byte list option \<Rightarrow> byte list option \<Rightarrow> SimpleDeviceNode item_parser" where
  "device_item device_name compatible_name nd nm name a val =
     (case nd of SimpleDeviceNode par ac sc rg rn \<Rightarrow>
        if name = ADDRESS_CELLS then Some (Inr (SimpleDeviceNode par (be_value val) sc rg rn, False, None))
        else if name = SIZE_CELLS then Some (Inr (SimpleDeviceNode par ac (be_value val) rg rn, False, None))
        else if name = PROP_COMPATIBLE then
          Some (Inr (nd, (case compatible_name of None \<Rightarrow> False | Some c \<Rightarrow> c \<in> set (strings_of val)), None))
        else if name = PROP_DEVICE_NAME then
          Some (Inr (nd, (case device_name of None \<Rightarrow> False | Some d \<Rightarrow> d = first_string val), None))
        else if name = PROP_REG then
          (if val = [] then Some (Inr (nd, False, None))
           else if par = None
           then Some (Inl (CHR 0x27 # ''reg' property should not be located at the root node''))
           else Some (Inr (SimpleDeviceNode par ac sc (Some \<lparr>head_addr = a, len = length val\<rparr>) rn, False, None)))
        else if name = PROP_RANGES then Some (Inr (SimpleDeviceNode par ac sc rg (Some a), False, None))
        else Some (Inr (nd, False, None)))"

definition reserved_good :: "byte list \<Rightarrow> byte list \<Rightarrow> bool" where
  "reserved_good name val \<longleftrightarrow> (name = ADDRESS_CELLS \<or> name = SIZE_CELLS \<longrightarrow> length val = 4)"

definition reserved_item :: "ReservedMemoryNode item_parser" where
  "reserved_item nd nm name a val =
     try_bind
       (case classify_node nm nd of
          Parent ac sc \<Rightarrow>
            Some (Inr (Parent (if name = ADDRESS_CELLS then be_value val else ac)
              (if name = SIZE_CELLS then be_value val else sc), False))
        | Child par dat \<Rightarrow>
            Some (map_sum id (\<lambda>(dat1, matched). (Child par dat1, matched))
              (parse_child name \<lparr>head_addr = a, len = length val\<rparr> dat))
        | Unused par \<Rightarrow> Some (Inr (Unused par, False)))
       (\<lambda>(nd1, matched). Some (Inr (nd1, if nm = RESERVED_MEMORY then (True, Some 1) else (matched, None))))"

section \<open>Reading them\<close>

lemma string_split: "0 \<in> set (bs :: byte list) \<Longrightarrow> \<exists>rest. bs = takeWhile (\<lambda>b. b \<noteq> 0) bs @ 0 # rest"
proof (induction bs)
  case (Cons b bs)
  then show ?case by (cases "b = 0") auto
qed simp

lemma read_first_string:
  assumes "stored m a val" and "0 \<in> set val" and "valid_utf8 (first_string val)" and "a + length val < usize_limit"
  shows "read_char_str m a = Some (Inr (first_string val))"
proof -
  obtain rest where val: "val = first_string val @ 0 # rest"
    using string_split [OF assms(2)] by (auto simp: first_string_def)
  have "str_ok (first_string val)"
    using assms(3) by (auto simp: str_ok_def first_string_def dest: set_takeWhileD)
  moreover have "stored m a (first_string val @ [0])"
    using assms(1) by (subst (asm) val) (simp add: stored_Cons)
  moreover have "length (first_string val) < length val"
    by (subst (2) val) simp
  ultimately show ?thesis using assms(4) by (intro read_char_str_stored) simp_all
qed

lemma property_head_stored:
  assumes "strings_at m parser strs" and "stored m p (enc_item (Property off val))"
    and "item_ok strs (Property off val)" and "4 dvd p" and "p + length (enc_item (Property off val)) < usize_limit"
  shows "\<exists>property. property_head m parser p = Some (Inr (property, name_in strs off, p + 12))
    \<and> get_property_len property = length val
    \<and> skip_value property (p + 12) = Some (p + length (enc_item (Property off val)))"
proof -
  obtain property where pr: "property_ref m (p + 4) = Some property"
    "get_property_len property = length val" "get_name_offset property = off"
    using property_stored [OF assms(2,3,4)] by blast
  obtain a where a: "get_string_start_address m (dtb_header parser) = Some a" "stored m a strs" "a + length strs < usize_limit"
    using assms(1) by (auto simp: strings_at_def split: option.splits)
  have off: "off < length strs" "0 \<in> set (drop off strs)" "valid_utf8 (first_string (drop off strs))"
    using assms(3) by (auto simp: first_string_def name_in_def not_less intro: ccontr)
  have "stored m (a + off) (drop off strs)"
    using a(2) off(1) stored_append [of m a "take off strs" "drop off strs"] by simp
  then have "read_char_str m (a + off) = Some (Inr (name_in strs off))"
    using off a(3) by (subst read_first_string) (simp_all add: first_string_def name_in_def)
  moreover have "p + 12 < usize_limit"
    using assms(5) by (simp only: enc_item_length)
  moreover have "skip_value property (p + 12) = Some (p + length (enc_item (Property off val)))"
    using assms(3,5) unfolding enc_item_length
    by (simp add: skip_value_def pr u32_padded exec_simps)
  ultimately show ?thesis
    using pr a off(1)
    by (simp add: property_head_def SIZEOF_FDT_TOKEN_def size_of_FdtProperty_def exec_simps try_bind_def)
qed

lemma read_cells_stored:
  "stored m a val \<Longrightarrow> length val = 4 \<Longrightarrow> 4 dvd a \<Longrightarrow> read_u32_from_ptr m a = Some (be_value val)"
  by (simp add: read_u32_from_ptr_def is_multiple_of_dvd exec_simps read_stored)

lemma compatible_loop_stored:
  "stored m a val \<Longrightarrow> val = [] \<or> List.last val = 0 \<Longrightarrow> list_all valid_utf8 (strings_of val) \<Longrightarrow>
   a + length val < usize_limit \<Longrightarrow> length val < u32_limit \<Longrightarrow>
   compatible_loop m c \<lparr>pointer = a, remain_size = length val\<rparr> result = Some (Inr (result \<or> c \<in> set (strings_of val)))"
proof (induction val arbitrary: a result rule: strings_of.induct)
  case (1 val)
  show ?case
  proof (cases "val = []")
    case True
    then show ?thesis
      by (subst compatible_loop.simps) (simp add: CharStringIter_next_def try_bind_def strings_of.simps [of "[]"])
  next
    case False
    let ?s = "first_string val" and ?rest = "tl (dropWhile (\<lambda>b. b \<noteq> 0) val)"
    have zero: "0 \<in> set val" using "1.prems"(2) False last_in_set by metis
    obtain rest where val: "val = ?s @ 0 # rest"
      using string_split [OF zero] by (auto simp: first_string_def)
    have "takeWhile (\<lambda>b. b \<noteq> 0) val @ dropWhile (\<lambda>b. b \<noteq> 0) val = takeWhile (\<lambda>b. b \<noteq> 0) val @ 0 # rest"
      using val by (simp add: first_string_def)
    then have rest: "?rest = rest" by (simp only: same_append_eq list.sel)
    have so: "strings_of val = ?s # strings_of rest"
      using False rest by (simp add: strings_of.simps [of val] first_string_def)
    have len: "length val = length ?s + 1 + length rest" by (subst val) simp
    have rd: "read_char_str m a = Some (Inr ?s)"
      using "1.prems" zero so by (intro read_first_string) simp_all
    have st: "stored m (a + (length ?s + 1)) rest"
      using "1.prems"(1) by (subst (asm) val) (simp add: stored_Cons)
    have la: "rest = [] \<or> List.last rest = 0"
      using "1.prems"(2) False by (subst (asm) (2) val) (auto split: if_splits)
    have IH: "compatible_loop m c \<lparr>pointer = a + (length ?s + 1), remain_size = length rest\<rparr> r
        = Some (Inr (r \<or> c \<in> set (strings_of rest)))" for r
      using "1.IH" [OF False, unfolded rest, OF st la] "1.prems"(3-5) so len by simp
    show ?thesis
      using "1.prems"(4,5) len
      by (subst compatible_loop.simps)
        (simp add: CharStringIter_next_def try_bind_def rd exec_simps so IH [simplified] False Let_def)
  qed
qed

section \<open>The closures keep the contract\<close>

lemma names_distinct: "distinct [ADDRESS_CELLS, SIZE_CELLS, PROP_COMPATIBLE, PROP_DEVICE_NAME, PROP_REG, PROP_RANGES,
    PROP_SIZE, PROP_ALIGNMENT, PROP_ALLOC_RANGES]"
  by code_simp

lemma names_distinct_rev: "distinct [PROP_ALLOC_RANGES, PROP_ALIGNMENT, PROP_SIZE, PROP_RANGES, PROP_REG,
    PROP_DEVICE_NAME, PROP_COMPATIBLE, SIZE_CELLS, ADDRESS_CELLS]"
  by code_simp

lemmas name_neq = names_distinct [simplified] names_distinct_rev [simplified]

interpretation devices: property_parser
  "\<lambda>m parser. find_node_visitor m parser device_name compatible_name f"
  "device_item device_name compatible_name" device_good
  for device_name compatible_name :: "byte list option" and f :: "'s callback"
proof
  fix m parser strs p off val nd and nm :: "byte list"
  assume strs: "strings_at m parser strs" and st: "stored m p (enc_item (Property off val))"
    and ok: "item_ok strs (Property off val)" and good: "device_good (name_in strs off) val"
    and dvd: "4 dvd p" and lt: "p + length (enc_item (Property off val)) < usize_limit"
  obtain property where head: "property_head m parser p = Some (Inr (property, name_in strs off, p + 12))"
    "get_property_len property = length val" "skip_value property (p + 12) = Some (p + length (enc_item (Property off val)))"
    using property_head_stored [OF strs st ok dvd lt] by blast
  have val: "stored m (p + 12) val" using st by (rule value_stored)
  have dvd12: "4 dvd p + 12" using dvd by simp
  have lt12: "p + 12 + length val < usize_limit" "length val < u32_limit"
    using lt ok align_up_ge [of "length val" 4] by (simp_all only: enc_item_length) simp_all
  note reads = read_cells_stored [OF val _ dvd12] read_first_string [OF val _ _ lt12(1)]
    compatible_loop_stored [OF val _ _ lt12]
  show "parse_property (find_node_visitor m parser device_name compatible_name f) nd nm p
      = try_bind (device_item device_name compatible_name nd nm (name_in strs off) (p + 12) val)
          (\<lambda>(nd1, b, depth). Some (Inr (nd1, p + length (enc_item (Property off val)), b, depth)))"
  proof -
    obtain par ac sc rg rn where nd: "nd = SimpleDeviceNode par ac sc rg rn" by (cases nd)
    let ?n = "name_in strs off"
    note defs = nd find_node_visitor_def parse_prop_def head try_bind_def device_item_def Let_def name_neq
    consider "?n = ADDRESS_CELLS" | "?n = SIZE_CELLS" | "?n = PROP_COMPATIBLE" | "?n = PROP_DEVICE_NAME" | "?n = PROP_REG"
      | "?n = PROP_RANGES"
      | "?n \<notin> {ADDRESS_CELLS, SIZE_CELLS, PROP_COMPATIBLE, PROP_DEVICE_NAME, PROP_REG, PROP_RANGES}"
      by blast
    then show ?thesis
    proof cases
      case 1
      then show ?thesis using good by (simp add: defs device_good_def reads(1) del: enc_item.simps)
    next
      case 2
      then show ?thesis using good by (simp add: defs device_good_def reads(1) del: enc_item.simps)
    next
      case 3
      then have ok: "val = [] \<or> List.last val = 0" "list_all valid_utf8 (strings_of val)"
        using good by (simp_all add: device_good_def strings_ok_def)
      show ?thesis
        using 3 by (simp add: defs reads(3) [OF ok] split: option.split del: enc_item.simps)
    next
      case 4
      then show ?thesis
        using good by (simp add: defs device_good_def reads(2) split: option.split del: enc_item.simps)
    next
      case 5
      then show ?thesis by (simp add: defs split: option.split del: enc_item.simps)
    next
      case 6
      then show ?thesis by (simp add: defs del: enc_item.simps)
    next
      case 7
      then show ?thesis by (simp add: defs del: enc_item.simps)
    qed
  qed
qed

interpretation reserved: property_parser
  "\<lambda>m parser. reserved_visitor m parser f dynamic" reserved_item reserved_good
  for f :: "'s callback" and dynamic :: "'s dynamic_callback"
proof
  fix m parser strs p off val nd and nm :: "byte list"
  assume strs: "strings_at m parser strs" and st: "stored m p (enc_item (Property off val))"
    and ok: "item_ok strs (Property off val)" and good: "reserved_good (name_in strs off) val"
    and dvd: "4 dvd p" and lt: "p + length (enc_item (Property off val)) < usize_limit"
  obtain property where head: "property_head m parser p = Some (Inr (property, name_in strs off, p + 12))"
    "get_property_len property = length val" "skip_value property (p + 12) = Some (p + length (enc_item (Property off val)))"
    using property_head_stored [OF strs st ok dvd lt] by blast
  have reads: "length val = 4 \<Longrightarrow> read_u32_from_ptr m (p + 12) = Some (be_value val)"
    using read_cells_stored [OF value_stored [OF st]] dvd by simp
  show "parse_property (reserved_visitor m parser f dynamic) nd nm p
      = try_bind (reserved_item nd nm (name_in strs off) (p + 12) val)
          (\<lambda>(nd1, b, depth). Some (Inr (nd1, p + length (enc_item (Property off val)), b, depth)))"
    using good
    by (auto simp: reserved_visitor_def parse_reserved_def head try_bind_def reserved_item_def reserved_good_def
        reads name_neq split: ReservedMemoryNode.split sum.split simp del: enc_item.simps)
qed

end
