(* ===== verification/Dtb_Search.thy ===== *)
theory Dtb_Search
  imports Dtb_Closures
begin

text \<open>
  The searches over a whole device tree blob: what \<open>find_node\<close> and \<open>find_reserved_memory_node\<close> do on a
  stored tree, and the list of devices that \<open>find_node\<close> reports.
\<close>

section \<open>A stored device tree\<close>

definition struct_bytes :: "nat \<Rightarrow> fdt_tree \<Rightarrow> nat \<Rightarrow> byte list" where
  "struct_bytes i t j = enc_nops i @ enc_tree t @ enc_nops j @ FDT_END"

text \<open>
  The structure block holds a tree, with \<open>FDT_NOP\<close>s before and behind it and the end token, and the
  strings block holds the names; \<open>a\<close> is the start of the structure block.
\<close>

definition blob_at :: "memory \<Rightarrow> DtbParser \<Rightarrow> byte list \<Rightarrow> usize \<Rightarrow> nat \<Rightarrow> fdt_tree \<Rightarrow> nat \<Rightarrow> bool" where
  "blob_at m parser strs a i t j \<longleftrightarrow>
     get_struct_start_address m (dtb_header parser) = Some a \<and> 4 dvd a
     \<and> a + length (struct_bytes i t j) < usize_limit
     \<and> length (struct_bytes i t j) \<le> get_struct_size m (dtb_header parser)
     \<and> a + get_struct_size m (dtb_header parser) < usize_limit
     \<and> stored m a (struct_bytes i t j) \<and> strings_at m parser strs \<and> tree_ok strs t"

lemma struct_end:
  "get_struct_start_address m dtb = Some a \<Longrightarrow> a + get_struct_size m dtb < usize_limit \<Longrightarrow>
   get_struct_end_address m dtb = Some (a + get_struct_size m dtb)"
  by (simp add: get_struct_end_address_def get_struct_size_def exec_simps)

lemma skip_nop_stored:
  assumes "get_struct_end_address m (dtb_header parser) = Some e" and "e < usize_limit" and "length tok = 4" and "tok \<noteq> FDT_NOP"
  shows "stored m p (enc_nops n @ tok) \<Longrightarrow> p + 4 * n \<le> e \<Longrightarrow> skip_nop m parser p = Some (p + 4 * n)"
proof (induction n arbitrary: p)
  case 0
  then show ?case using assms by (subst skip_nop.simps) simp
next
  case (Suc n)
  have "skip_nop m parser p = skip_nop m parser (p + 4)"
    using assms Suc.prems by (subst skip_nop.simps) (simp add: SIZEOF_FDT_TOKEN_def exec_simps)
  then show ?case using Suc.IH [of "p + 4"] Suc.prems by (simp add: add.assoc)
qed

text \<open>What a search makes of the result of the walk.\<close>

definition search_result :: "((string + ControlFlow) \<times> 's) option \<Rightarrow> ((string + unit) \<times> 's) option" where
  "search_result r = map_option (\<lambda>(x, s). (map_sum id (\<lambda>_. ()) x, s)) r"

context property_parser
begin

lemma search_tree:
  assumes "blob_at m parser strs a i t j" and "tree_good good strs t"
  shows "do {
     start \<leftarrow> get_struct_start_address m (dtb_header parser);
     p \<leftarrow> skip_nop m parser start;
     r \<leftarrow> walk_struct m (visit m parser) None depth p s;
     finish_walk m parser r
   } = search_result (visit_tree strs item (visit m parser) None depth (a + 4 * i) t s)"
proof -
  let ?p = "a + 4 * i"
  let ?q = "?p + length (enc_tree t)"
  have start: "get_struct_start_address m (dtb_header parser) = Some a" and dvd: "4 dvd a"
    and lt: "a + length (struct_bytes i t j) < usize_limit"
    and le: "a + length (struct_bytes i t j) \<le> a + get_struct_size m (dtb_header parser)"
    and ends: "a + get_struct_size m (dtb_header parser) < usize_limit"
    and st: "stored m a (struct_bytes i t j)" and strs: "strings_at m parser strs" and ok: "tree_ok strs t"
    using assms(1) by (simp_all add: blob_at_def)
  note limit = struct_end [OF start ends] ends
  have pieces: "stored m a (enc_nops i @ FDT_BEGIN_NODE)" "stored m ?p (enc_tree t)" "stored m ?q (enc_nops j @ FDT_END)"
    using st by (cases t; simp add: struct_bytes_def enc_tree_kids enc_nops_length add.assoc)+
  have skip: "skip_nop m parser a = Some ?p"
    using le by (intro skip_nop_stored [OF limit _ _ pieces(1)]) (simp_all add: struct_bytes_def enc_nops_length)
  have skip2: "skip_nop m parser ?q = Some (?q + 4 * j)"
    using le by (intro skip_nop_stored [OF limit _ _ pieces(3)]) (simp_all add: struct_bytes_def enc_nops_length)
  have fin: "get_types m (?q + 4 * j) = FDT_END"
    using pieces(3) by (simp add: enc_nops_length)
  have "walked ?q (walk_struct m (visit m parser) None depth ?p s) (visit_tree strs item (visit m parser) None depth ?p t s)"
    using lt dvd by (intro walk_tree [OF strs pieces(2) ok assms(2)]) (simp_all add: struct_bytes_def enc_nops_length)
  then have w: "map_option (\<lambda>(x, s). (map_sum id snd x, s)) (walk_struct m (visit m parser) None depth ?p s)
      = visit_tree strs item (visit m parser) None depth ?p t s"
    and q: "\<And>p s1. walk_struct m (visit m parser) None depth ?p s = Some (Inr (p, Continue), s1) \<Longrightarrow> p = ?q"
    by (auto simp: walked_def)
  show ?thesis
    using q fin skip2
    by (auto simp: start skip finish_walk_def search_result_def w [symmetric] split: bind_split sum.split)
qed

end

section \<open>Register cells\<close>

lemma le_value_append: "le_value (xs @ ys) = le_value xs + 256 ^ length xs * le_value ys"
  by (induction xs) (simp_all add: algebra_simps)

lemma be_value_append: "be_value (xs @ ys) = be_value xs * 256 ^ length ys + be_value ys"
  by (simp add: be_value_def le_value_append)

lemma read_u32_stored:
  "stored m a bs \<Longrightarrow> length bs = 4 \<Longrightarrow> 4 dvd a \<Longrightarrow> read_u32_from_ptr m a = Some (be_value bs)"
  by (rule read_cells_stored)

text \<open>Up to two cells are the number they encode.\<close>

lemma read_regs_stored:
  assumes "stored m a bs" and "length bs = 4 * k" and "k \<le> 2" and "4 dvd a" and "a + length bs < usize_limit"
  shows "read_regs m a k = Some (Inr (be_value bs, 4 * k))"
proof -
  consider "k = 0" | "k = 1" | "k = 2" using assms(3) by linarith
  then show ?thesis
  proof cases
    case 1
    then show ?thesis using assms(2) by (simp add: read_regs_def be_value_def)
  next
    case 2
    have "be_value bs < usize_limit"
      using be_value_bound [of bs] assms(2) 2 by (simp add: usize_limit_def)
    then show ?thesis
      using 2 assms read_u32_stored [of m a bs] by (simp add: read_regs_def exec_simps usize_limit_def)
  next
    case 3
    obtain x y where bs: "bs = x @ y" and len: "length x = 4" "length y = 4"
      using assms(2) 3 by (metis append_take_drop_id length_drop length_take min.absorb2 add_diff_cancel_left' mult_2_right
          numeral_Bit0 le_add1 mult.commute)
    have b: "be_value x < 2 ^ 32" "be_value y < 2 ^ 32"
      using be_value_bound [of x] be_value_bound [of y] len by simp_all
    then have sums: "be_value x * 4294967296 + be_value y < usize_limit" "be_value x * 4294967296 < usize_limit"
      "be_value x < usize_limit"
      by (simp_all add: usize_limit_def)
    have "read_u32_from_ptr m a = Some (be_value x)" "read_u32_from_ptr m (a + 4) = Some (be_value y)"
      using assms(1,4) len by (auto intro!: read_u32_stored simp: bs)
    moreover have "a + 4 < usize_limit" "8 < usize_limit" "4 < usize_limit" and k: "k = Suc (Suc 0)"
      using assms(5) len 3 by (simp_all add: bs usize_limit_def)
    ultimately show ?thesis
      using sums assms(5) len
      by (simp add: read_regs_def k exec_simps bs be_value_append)
  qed
qed

fun reg_entries :: "nat \<Rightarrow> nat \<Rightarrow> nat \<Rightarrow> byte list \<Rightarrow> (usize \<times> usize) list" where
  "reg_entries 0 ac sc val = []"
| "reg_entries (Suc n) ac sc val =
     (be_value (take (4 * ac) val), be_value (take (4 * sc) (drop (4 * ac) val)))
     # reg_entries n ac sc (drop (4 * (ac + sc)) val)"

text \<open>No \<open>ranges\<close> from a node up to the root: addresses are passed on as they are.\<close>

fun plain :: "SimpleDeviceNode \<Rightarrow> bool" where
  "plain (SimpleDeviceNode par ac sc rg rn) \<longleftrightarrow> rn = None \<and> (case par of None \<Rightarrow> True | Some p \<Rightarrow> plain p)"

lemma plain_address: "plain nd \<Longrightarrow> calculate_address_internal m nd address = Some (Inr address)"
proof (induction nd)
  case (SimpleDeviceNode par ac sc rg rn)
  then show ?case by (cases par) (auto simp: translate_address_def try_bind_def)
qed

text \<open>The callback on a list of pairs: one call after the other, until it says \<open>Break\<close>.\<close>

fun each :: "'s callback \<Rightarrow> (usize \<times> usize) list \<Rightarrow> 's \<Rightarrow> (ControlFlow \<times> 's) option" where
  "each f [] s = Some (Continue, s)"
| "each f ((a, n) # es) s = do {
     (flow, s1) \<leftarrow> f a n s;
     (if flow = Break then Some (Break, s1) else each f es s1)
   }"

definition emitted :: "(ControlFlow \<times> 's) option \<Rightarrow> ((string + ControlFlow) \<times> 's) option" where
  "emitted r = map_option (\<lambda>(flow, s). (Inr flow, s)) r"

lemma emitted_simps [simp]:
  "emitted None = None" "emitted (Some (flow, s)) = Some (Inr flow, s)"
  by (simp_all add: emitted_def)

lemma and_then_Continue: "and_then (Some (Inr Continue, s)) g = g s"
  by (simp add: and_then_def)

lemma each_then:
  assumes "\<And>s. g s = emitted (each f ys s)"
  shows "and_then (emitted (each f xs s)) g = emitted (each f (xs @ ys) s)"
proof (induction xs arbitrary: s)
  case (Cons x xs)
  obtain a n where x: "x = (a, n)" by (cases x)
  show ?case
  proof (cases "f a n s")
    case None
    then show ?thesis by (simp add: x and_then_def)
  next
    case (Some r)
    then obtain flow s1 where "f a n s = Some (flow, s1)" by (cases r) simp
    then show ?thesis using Cons.IH [of s1] by (cases flow) (simp_all add: x and_then_def)
  qed
qed (simp add: and_then_def assms)

definition collect :: "(usize \<times> usize) list callback" where
  "collect a n s = Some (Continue, s @ [(a, n)])"

lemma each_collect [simp]: "each collect es s = Some (Continue, s @ es)"
  by (induction es arbitrary: s) (auto simp: collect_def)

lemma emit_each:
  assumes "stored m h val" and "4 dvd h" and "h + length val < usize_limit" and "length val < u32_limit"
    and "plain nd" and "parent nd = Some pnd" and "reg nd = Some \<lparr>head_addr = h, len = length val\<rparr>"
    and "address_cells pnd \<le> 2" and "size_cells pnd \<le> 2" and "0 < address_cells pnd + size_cells pnd"
  shows "length val = off + 4 * (address_cells pnd + size_cells pnd) * n \<Longrightarrow> 4 dvd off \<Longrightarrow>
    emit_loop m f nd (Some (length val - off)) s =
      emitted (each f (reg_entries n (address_cells pnd) (size_cells pnd) (drop off val)) s)"
proof (induction n arbitrary: off s)
  case 0
  then show ?case
    using assms(7) by (subst emit_loop.simps) (simp add: DeviceAddressIter_next_def)
next
  case (Suc n)
  let ?ac = "address_cells pnd" and ?sc = "size_cells pnd"
  let ?x = "take (4 * ?ac) (drop off val)" and ?y = "take (4 * ?sc) (drop (4 * ?ac) (drop off val))"
  have len: "off + 4 * ?ac + 4 * ?sc \<le> length val"
    using Suc.prems(1) by (simp add: algebra_simps)
  have rest: "stored m (h + off) (drop off val)"
    using assms(1) len by (intro stored_drop) simp_all
  have x: "stored m (h + off) ?x"
    using rest by (rule stored_take)
  have y: "stored m (h + off + 4 * ?ac) ?y"
    using len by (intro stored_take stored_drop [OF rest]) simp
  have rx: "read_regs m (h + off) ?ac = Some (Inr (be_value ?x, 4 * ?ac))"
    using len assms(2,3,8) Suc.prems(2) by (intro read_regs_stored [OF x]) (simp_all add: dvd_add)
  have ry: "read_regs m (h + off + 4 * ?ac) ?sc = Some (Inr (be_value ?y, 4 * ?sc))"
    using len assms(2,3,9) Suc.prems(2) by (intro read_regs_stored [OF y]) (simp_all add: dvd_add)
  have more: "\<not> length val \<le> off" using len assms(10) by linarith
  have entry: "DeviceAddressIter_next m nd (Some (length val - off))
      = Some (Inr (Some ((be_value ?x, be_value ?y), length val - (off + 4 * (?ac + ?sc)))))"
    using len assms(3,4,8-10) rx ry
    by (simp add: more DeviceAddressIter_next_def read_reg_internal_def cells_max_def assms(6,7) try_bind_def
        plain_address [OF assms(5)] exec_simps u32_limit_def Let_def algebra_simps)
  have dvd: "4 dvd off + 4 * (?ac + ?sc)" using Suc.prems(2) by (simp add: dvd_add)
  have next_off: "length val = off + 4 * (?ac + ?sc) + 4 * (?ac + ?sc) * n"
    using Suc.prems(1) by (simp add: algebra_simps)
  show ?case
    using Suc.IH [OF next_off dvd]
    by (subst emit_loop.simps) (auto simp: entry add.commute [of off] split: Option.bind_splits)
qed

section \<open>The devices of a tree\<close>

text \<open>The values of the properties of a name, in the order of the node.\<close>

fun values_of :: "byte list \<Rightarrow> byte list \<Rightarrow> fdt_item list \<Rightarrow> byte list list" where
  "values_of strs name [] = []"
| "values_of strs name (Nop # items) = values_of strs name items"
| "values_of strs name (Property off val # items) =
     (if name_in strs off = name then [val] else []) @ values_of strs name items"

text \<open>The last value wins; an empty \<open>reg\<close> counts for nothing.\<close>

definition cell_of :: "byte list \<Rightarrow> byte list \<Rightarrow> nat \<Rightarrow> fdt_item list \<Rightarrow> nat" where
  "cell_of strs name k items = List.last (k # map be_value (values_of strs name items))"

definition reg_of :: "byte list \<Rightarrow> fdt_item list \<Rightarrow> byte list" where
  "reg_of strs items = List.last ([] # filter (\<lambda>val. val \<noteq> []) (values_of strs PROP_REG items))"

definition matches :: "byte list \<Rightarrow> byte list option \<Rightarrow> byte list option \<Rightarrow> fdt_item list \<Rightarrow> bool" where
  "matches strs device_name compatible_name items \<longleftrightarrow>
     (case compatible_name of None \<Rightarrow> False
      | Some c \<Rightarrow> list_ex (\<lambda>val. c \<in> set (strings_of val)) (values_of strs PROP_COMPATIBLE items))
     \<or> (case device_name of None \<Rightarrow> False
        | Some d \<Rightarrow> list_ex (\<lambda>val. d = first_string val) (values_of strs PROP_DEVICE_NAME items))"

definition entries_of :: "nat \<times> nat \<Rightarrow> byte list \<Rightarrow> (usize \<times> usize) list" where
  "entries_of cells val =
     reg_entries (length val div (4 * (fst cells + snd cells))) (fst cells) (snd cells) val"

text \<open>The \<open>reg\<close> entries of the matching nodes in document order; \<open>cells\<close> are the cells of the parent.\<close>

fun device_regs :: "byte list \<Rightarrow> byte list option \<Rightarrow> byte list option \<Rightarrow> nat \<times> nat \<Rightarrow> fdt_tree \<Rightarrow> (usize \<times> usize) list" where
  "device_regs strs d c cells (Tree nm items kids) =
     (if matches strs d c items then entries_of cells (reg_of strs items) else [])
     @ concat (map (\<lambda>(t, n). device_regs strs d c
         (cell_of strs ADDRESS_CELLS 2 items, cell_of strs SIZE_CELLS 1 items) t) kids)"

text \<open>
  The trees on which the search succeeds: no \<open>ranges\<close>, no \<open>reg\<close> at the root, and every matching node
  has a \<open>reg\<close> made of whole entries of at most two cells each.
\<close>

definition node_regular :: "byte list \<Rightarrow> byte list option \<Rightarrow> byte list option \<Rightarrow> (nat \<times> nat) option \<Rightarrow> fdt_item list \<Rightarrow> bool" where
  "node_regular strs d c cells items \<longleftrightarrow>
     values_of strs PROP_RANGES items = []
     \<and> (case cells of
          None \<Rightarrow> reg_of strs items = [] \<and> \<not> matches strs d c items
        | Some (ac, sc) \<Rightarrow> matches strs d c items \<longrightarrow>
            ac \<le> 2 \<and> sc \<le> 2 \<and> 0 < ac + sc \<and> reg_of strs items \<noteq> [] \<and> 4 * (ac + sc) dvd length (reg_of strs items))"

fun tree_regular :: "byte list \<Rightarrow> byte list option \<Rightarrow> byte list option \<Rightarrow> (nat \<times> nat) option \<Rightarrow> fdt_tree \<Rightarrow> bool" where
  "tree_regular strs d c cells (Tree nm items kids) \<longleftrightarrow>
     node_regular strs d c cells items
     \<and> list_all (\<lambda>(t, n). tree_regular strs d c
         (Some (cell_of strs ADDRESS_CELLS 2 items, cell_of strs SIZE_CELLS 1 items)) t) kids"

lemma cell_of_simps [simp]:
  "cell_of strs name k [] = k" "cell_of strs name k (Nop # items) = cell_of strs name k items"
  "cell_of strs name k (Property off val # items) =
     cell_of strs name (if name_in strs off = name then be_value val else k) items"
  by (simp_all add: cell_of_def)

lemma matches_simps [simp]:
  "\<not> matches strs d c []" "matches strs d c (Nop # items) = matches strs d c items"
  by (auto simp: matches_def split: option.splits)

definition match1 :: "byte list option \<Rightarrow> byte list option \<Rightarrow> byte list \<Rightarrow> byte list \<Rightarrow> bool" where
  "match1 d c name val \<longleftrightarrow>
     (name = PROP_COMPATIBLE \<and> (case c of None \<Rightarrow> False | Some x \<Rightarrow> x \<in> set (strings_of val)))
     \<or> (name = PROP_DEVICE_NAME \<and> (case d of None \<Rightarrow> False | Some x \<Rightarrow> x = first_string val))"

lemma matches_Property [simp]:
  "matches strs d c (Property off val # items) \<longleftrightarrow> match1 d c (name_in strs off) val \<or> matches strs d c items"
  by (auto simp: matches_def match1_def split: option.splits)

lemma reg_of_simps:
  "reg_of strs [] = []" "reg_of strs (Nop # items) = reg_of strs items"
  "reg_of strs (Property off val # items) =
     (if reg_of strs items = [] \<and> name_in strs off = PROP_REG then val else reg_of strs items)"
proof -
  have ne: "filter (\<lambda>val. val \<noteq> []) vs = [] \<or> List.last (filter (\<lambda>val. val \<noteq> []) vs) \<noteq> []" for vs :: "byte list list"
    using last_in_set [of "filter (\<lambda>val. val \<noteq> []) vs"] by auto
  show "reg_of strs (Property off val # items) =
     (if reg_of strs items = [] \<and> name_in strs off = PROP_REG then val else reg_of strs items)"
    using ne [of "values_of strs PROP_REG items"] by (auto simp: reg_of_def)
qed (simp_all add: reg_of_def)

lemma device_item_regular:
  assumes "name \<noteq> PROP_RANGES" and "par = None \<longrightarrow> name \<noteq> PROP_REG \<or> val = []"
  shows "device_item d c (SimpleDeviceNode par ac sc rg None) nm name a val = Some (Inr
    (SimpleDeviceNode par (if name = ADDRESS_CELLS then be_value val else ac) (if name = SIZE_CELLS then be_value val else sc)
      (if name = PROP_REG \<and> val \<noteq> [] then Some \<lparr>head_addr = a, len = length val\<rparr> else rg) None,
     match1 d c name val, None))"
proof -
  consider "name = ADDRESS_CELLS" | "name = SIZE_CELLS" | "name = PROP_COMPATIBLE" | "name = PROP_DEVICE_NAME" | "name = PROP_REG"
    | "name \<notin> {ADDRESS_CELLS, SIZE_CELLS, PROP_COMPATIBLE, PROP_DEVICE_NAME, PROP_REG, PROP_RANGES}"
    using assms(1) by blast
  then show ?thesis
    using assms by cases (simp_all add: device_item_def match1_def name_neq)
qed

text \<open>The properties of one node: its cells, its last \<open>reg\<close> where it lies, and whether it matched.\<close>

lemma device_items:
  assumes "values_of strs PROP_RANGES items = []" and "par = None \<longrightarrow> reg_of strs items = []"
    and "stored m p (enc_items items)" and "4 dvd p"
  shows "\<exists>rg1. visit_items strs (device_item d c) nm (SimpleDeviceNode par ac sc rg None) p None found items
      = Some (Inr (SimpleDeviceNode par (cell_of strs ADDRESS_CELLS ac items) (cell_of strs SIZE_CELLS sc items) rg1 None,
          None, found \<or> matches strs d c items))
    \<and> (if reg_of strs items = [] then rg1 = rg
       else \<exists>h. rg1 = Some \<lparr>head_addr = h, len = length (reg_of strs items)\<rparr> \<and> stored m h (reg_of strs items)
         \<and> 4 dvd h \<and> h + length (reg_of strs items) \<le> p + length (enc_items items))"
  using assms
proof (induction items arbitrary: ac sc rg p found)
  case Nil
  then show ?case by (simp add: reg_of_simps)
next
  case (Cons i items)
  have dvd: "4 dvd p + length (enc_item i)"
    using Cons.prems(4) enc_item_dvd by (rule dvd_add)
  have st: "stored m (p + length (enc_item i)) (enc_items items)"
    using Cons.prems(3) by (simp del: enc_item.simps)
  have IH: "\<exists>rg1. visit_items strs (device_item d c) nm (SimpleDeviceNode par ac sc rg None) (p + length (enc_item i)) None found items
      = Some (Inr (SimpleDeviceNode par (cell_of strs ADDRESS_CELLS ac items) (cell_of strs SIZE_CELLS sc items) rg1 None,
          None, found \<or> matches strs d c items))
    \<and> (if reg_of strs items = [] then rg1 = rg
       else \<exists>h. rg1 = Some \<lparr>head_addr = h, len = length (reg_of strs items)\<rparr> \<and> stored m h (reg_of strs items)
         \<and> 4 dvd h \<and> h + length (reg_of strs items) \<le> p + length (enc_items (i # items)))" for ac sc rg found
    using Cons.IH [OF _ _ st dvd, of ac sc rg found] Cons.prems(1,2)
    by (cases i) (auto simp: reg_of_simps add.assoc split: if_splits simp del: enc_item.simps)
  show ?case
  proof (cases i)
    case Nop
    then show ?thesis using IH [of ac sc rg found] by (auto simp: reg_of_simps split: if_splits)
  next
    case (Property off val)
    let ?n = "name_in strs off"
    have n: "?n \<noteq> PROP_RANGES" using Cons.prems(1) by (auto simp: Property)
    have root: "par = None \<longrightarrow> ?n \<noteq> PROP_REG \<or> val = []"
      using Cons.prems(2) by (auto simp: Property reg_of_simps split: if_splits)
    let ?ac = "if ?n = ADDRESS_CELLS then be_value val else ac" and ?sc = "if ?n = SIZE_CELLS then be_value val else sc"
      and ?rg = "if ?n = PROP_REG \<and> val \<noteq> [] then Some \<lparr>head_addr = p + 12, len = length val\<rparr> else rg"
    have val: "stored m (p + 12) val" "4 dvd p + 12" "p + 12 + length val \<le> p + length (enc_items (i # items))"
      using Cons.prems(3,4) value_stored [of m p off val] align_up_ge [of "length val" 4]
      by (simp_all add: Property enc_item_length del: enc_item.simps)
    have "visit_items strs (device_item d c) nm (SimpleDeviceNode par ac sc rg None) p None found (i # items)
        = visit_items strs (device_item d c) nm (SimpleDeviceNode par ?ac ?sc ?rg None) (p + length (enc_item i)) None
            (found \<or> match1 d c ?n val) items"
      by (simp add: Property device_item_regular [OF n root] try_bind_def del: enc_item.simps)
    then show ?thesis
      using IH [of ?ac ?sc ?rg "found \<or> match1 d c ?n val"] val
      by (auto simp: Property reg_of_simps disj_assoc split: if_splits simp del: enc_item.simps)
  qed
qed

lemma reg_of_length: "list_all (item_ok strs) items \<Longrightarrow> length (reg_of strs items) < u32_limit"
proof (induction items)
  case (Cons i items)
  then show ?case by (cases i) (auto simp: reg_of_simps u32_limit_def)
qed (simp add: reg_of_simps u32_limit_def)

lemma emit_first: "reg nd = Some r \<Longrightarrow> emit_loop m f nd None s = emit_loop m f nd (Some (len r)) s"
  by (subst (1 2) emit_loop.simps) (simp add: DeviceAddressIter_next_def)

lemma emit_regular:
  assumes "stored m h val" and "4 dvd h" and "h + length val < usize_limit" and "length val < u32_limit"
    and "plain pnd" and "address_cells pnd \<le> 2" and "size_cells pnd \<le> 2" and "0 < address_cells pnd + size_cells pnd"
    and "4 * (address_cells pnd + size_cells pnd) dvd length val"
    and "nd = SimpleDeviceNode (Some pnd) ac sc (Some \<lparr>head_addr = h, len = length val\<rparr>) None"
  shows "emit_loop m f nd None s = emitted (each f (entries_of (address_cells pnd, size_cells pnd) val) s)"
proof -
  have nd: "plain nd" "parent nd = Some pnd" "reg nd = Some \<lparr>head_addr = h, len = length val\<rparr>"
    using assms(5,10) by simp_all
  have "length val = 0 + 4 * (address_cells pnd + size_cells pnd) * (length val div (4 * (address_cells pnd + size_cells pnd)))"
    using dvd_mult_div_cancel [OF assms(9)] by simp
  from emit_each [OF assms(1-4) nd assms(6-8) this] show ?thesis
    by (simp add: emit_first [OF nd(3)] entries_of_def)
qed

definition parent_cells :: "SimpleDeviceNode option \<Rightarrow> (nat \<times> nat) option" where
  "parent_cells par = map_option (\<lambda>nd. (address_cells nd, size_cells nd)) par"

definition cells_or :: "(nat \<times> nat) option \<Rightarrow> nat \<times> nat" where
  "cells_or cells = (case cells of None \<Rightarrow> (0, 0) | Some x \<Rightarrow> x)"

lemma visit_devices:
  "stored m p (enc_tree t) \<Longrightarrow> 4 dvd p \<Longrightarrow> p + length (enc_tree t) < usize_limit \<Longrightarrow> tree_ok strs t \<Longrightarrow>
   (\<And>nd. par = Some nd \<Longrightarrow> plain nd) \<Longrightarrow> tree_regular strs d c (parent_cells par) t \<Longrightarrow>
   visit_tree strs (device_item d c) (find_node_visitor m parser d c f) par None p t s
   = emitted (each f (device_regs strs d c (cells_or (parent_cells par)) t) s)"
proof (induction t arbitrary: par p s)
  case (Tree nm items kids)
  let ?v = "find_node_visitor m parser d c f"
  let ?p1 = "p + 4 + length (enc_name nm)"
  let ?p2 = "?p1 + length (enc_items items)"
  let ?cells = "(cell_of strs ADDRESS_CELLS 2 items, cell_of strs SIZE_CELLS 1 items)"
  have st: "stored m ?p1 (enc_items items)" "stored m ?p2 (enc_kids kids)"
    using Tree.prems(1) by (simp_all add: enc_tree_kids add.assoc)
  have dvd: "4 dvd ?p1" "4 dvd ?p2"
    using Tree.prems(2) by (simp_all add: dvd_add enc_name_dvd enc_items_dvd)
  have lt: "?p2 + length (enc_kids kids) + 4 < usize_limit"
    using Tree.prems(3) by (simp add: enc_tree_kids)
  have regular: "node_regular strs d c (parent_cells par) items"
    and kids_regular: "list_all (\<lambda>(t, n). tree_regular strs d c (Some ?cells) t) kids"
    using Tree.prems(6) by simp_all
  have ranges: "values_of strs PROP_RANGES items = []" and root: "par = None \<longrightarrow> reg_of strs items = []"
    using regular by (auto simp: node_regular_def parent_cells_def)
  obtain rg where items: "visit_items strs (device_item d c) nm (new_node ?v par) ?p1 None False items
      = Some (Inr (SimpleDeviceNode par (fst ?cells) (snd ?cells) rg None, None, matches strs d c items))"
    and rg: "reg_of strs items \<noteq> [] \<longrightarrow> (\<exists>h. rg = Some \<lparr>head_addr = h, len = length (reg_of strs items)\<rparr>
       \<and> stored m h (reg_of strs items) \<and> 4 dvd h \<and> h + length (reg_of strs items) \<le> ?p2)"
    using device_items [OF ranges root st(1) dvd(1), of d c nm 2 1 None False]
    by (auto simp: find_node_visitor_def SimpleDeviceNode_new_def)
  let ?nd = "SimpleDeviceNode par (fst ?cells) (snd ?cells) rg None"
  have plain: "plain ?nd" using Tree.prems(5) by (cases par) simp_all
  have cells: "parent_cells (Some ?nd) = Some ?cells" by (simp add: parent_cells_def)
  have kids: "visit_kids strs (device_item d c) ?v ?nd None q ks s1
      = emitted (each f (concat (map (\<lambda>(t, n). device_regs strs d c ?cells t) ks)) s1)"
    if "set ks \<subseteq> set kids" "stored m q (enc_kids ks)" "4 dvd q" "q + length (enc_kids ks) < usize_limit" for ks q s1
    using that
  proof (induction ks arbitrary: q s1)
    case (Cons k ks)
    obtain t n where k: "k = (t, n)" by (cases k)
    have t: "(t, n) \<in> set kids" "t \<in> Basic_BNFs.fsts (t, n)" using Cons.prems(1) by (auto simp: k)
    have ok: "tree_ok strs t" "tree_regular strs d c (parent_cells (Some ?nd)) t"
      using Tree.prems(4) kids_regular t(1) unfolding cells by (auto simp: list_all_iff)
    have "visit_tree strs (device_item d c) ?v (Some ?nd) None q t s1
        = emitted (each f (device_regs strs d c ?cells t) s1)"
      using Tree.IH [OF t, of q "Some ?nd" s1] Cons.prems ok plain cells by (simp add: k cells_or_def)
    then show ?case
      using each_then [OF Cons.IH [of "q + length (enc_tree t) + length (enc_nops n)"], of "device_regs strs d c ?cells t" s1]
        Cons.prems enc_tree_dvd [of t]
      by (simp add: k enc_nops_length add.assoc)
  qed simp
  have calc: "(if matches strs d c items then calculate_property ?v ?nd s else Some (Inr Continue, s))
      = emitted (each f (if matches strs d c items
          then entries_of (cells_or (parent_cells par)) (reg_of strs items) else []) s)"
  proof (cases "matches strs d c items")
    case True
    obtain pnd where par: "par = Some pnd"
      using regular True by (cases par) (auto simp: node_regular_def parent_cells_def)
    have reg: "address_cells pnd \<le> 2" "size_cells pnd \<le> 2" "0 < address_cells pnd + size_cells pnd"
      "4 * (address_cells pnd + size_cells pnd) dvd length (reg_of strs items)" and ne: "reg_of strs items \<noteq> []"
      using regular True by (simp_all add: node_regular_def parent_cells_def par)
    obtain h where h: "rg = Some \<lparr>head_addr = h, len = length (reg_of strs items)\<rparr>"
      "stored m h (reg_of strs items)" "4 dvd h" "h + length (reg_of strs items) \<le> ?p2"
      using rg ne by blast
    have "emit_loop m f ?nd None s
        = emitted (each f (entries_of (address_cells pnd, size_cells pnd) (reg_of strs items)) s)"
      using h lt Tree.prems(4,5) reg by (intro emit_regular [OF h(2,3)]) (simp_all add: par reg_of_length)
    then show ?thesis
      using True by (simp add: find_node_visitor_def par parent_cells_def cells_or_def)
  qed simp
  show ?case
    using each_then [OF kids [OF subset_refl st(2) dvd(2)]] kids [OF subset_refl st(2) dvd(2)] lt calc
    by (cases "matches strs d c items") (simp_all add: items and_then_Continue)
qed

text \<open>The search, whatever its callback does.\<close>

lemma find_node_each:
  assumes "blob_at m parser strs a i t j" and "tree_good device_good strs t" and "tree_regular strs d c None t"
    and "(d = None) \<noteq> (c = None)"
  shows "find_node m parser d c f s = map_option (\<lambda>r. (Inr (), snd r)) (each f (device_regs strs d c (0, 0) t) s)"
proof -
  have st: "stored m (a + 4 * i) (enc_tree t)" "4 dvd a + 4 * i" "a + 4 * i + length (enc_tree t) < usize_limit" "tree_ok strs t"
    using assms(1) by (simp_all add: blob_at_def struct_bytes_def enc_nops_length)
  have "visit_tree strs (device_item d c) (find_node_visitor m parser d c f) None None (a + 4 * i) t s
      = emitted (each f (device_regs strs d c (cells_or (parent_cells None)) t) s)"
    using assms(3) by (intro visit_devices [OF st]) (simp_all add: parent_cells_def)
  then show ?thesis
    using devices.search_tree [OF assms(1,2), of d c f None s] assms(4)
    by (auto simp: find_node_def search_result_def cells_or_def parent_cells_def emitted_def
        option.map_comp comp_def case_prod_beta)
qed

end
