(* ===== verification/Dtb_Static.thy ===== *)
theory Dtb_Static
  imports Dtb_Search
begin

text \<open>
  \<open>find_reserved_memory_node\<close> on a device tree whose reserved regions are all static: the callback is called
  with exactly the \<open>reg\<close> entries of the children of \<open>reserved-memory\<close> nodes, in document order. The depth
  limit of the walk is kept as it is in the code: a \<open>reserved-memory\<close> node with a property sets it to one,
  and the first property of any other node lifts it again.
\<close>

section \<open>The static regions of a tree\<close>

fun has_property :: "fdt_item list \<Rightarrow> bool" where
  "has_property [] = False"
| "has_property (Nop # items) = has_property items"
| "has_property (Property off val # items) = True"

definition depth_after :: "byte list \<Rightarrow> nat option \<Rightarrow> fdt_item list \<Rightarrow> nat option" where
  "depth_after nm depth items =
     (if \<not> has_property items then depth else if nm = RESERVED_MEMORY then Some 1 else None)"

text \<open>\<open>cells\<close> are the cells of the parent, if that is a \<open>reserved-memory\<close> node.\<close>

definition cells_below :: "byte list \<Rightarrow> (nat \<times> nat) option \<Rightarrow> byte list \<Rightarrow> fdt_item list \<Rightarrow> (nat \<times> nat) option" where
  "cells_below strs cells nm items =
     (if cells = None \<and> nm = RESERVED_MEMORY \<and> has_property items
      then Some (cell_of strs ADDRESS_CELLS 2 items, cell_of strs SIZE_CELLS 1 items) else None)"

fun static_regs :: "byte list \<Rightarrow> (nat \<times> nat) option \<Rightarrow> nat option \<Rightarrow> fdt_tree \<Rightarrow> (usize \<times> usize) list" where
  "static_regs strs cells depth (Tree nm items kids) =
     (case cells of None \<Rightarrow> [] | Some c \<Rightarrow> entries_of c (reg_of strs items))
     @ (if depth_after nm depth items = Some 0 then []
        else concat (map (\<lambda>(t, n). static_regs strs (cells_below strs cells nm items)
               (map_option (\<lambda>f. f - 1) (depth_after nm depth items)) t) kids))"

definition node_static :: "byte list \<Rightarrow> (nat \<times> nat) option \<Rightarrow> fdt_item list \<Rightarrow> bool" where
  "node_static strs cells items \<longleftrightarrow>
     (case cells of
        None \<Rightarrow> True
      | Some (ac, sc) \<Rightarrow>
          values_of strs PROP_SIZE items = [] \<and> values_of strs PROP_ALIGNMENT items = []
          \<and> values_of strs PROP_ALLOC_RANGES items = [] \<and> length (values_of strs PROP_REG items) \<le> 1
          \<and> (reg_of strs items \<noteq> [] \<longrightarrow> ac \<le> 2 \<and> sc \<le> 2 \<and> 0 < ac + sc \<and> 4 * (ac + sc) dvd length (reg_of strs items)))"

fun tree_static :: "byte list \<Rightarrow> (nat \<times> nat) option \<Rightarrow> fdt_tree \<Rightarrow> bool" where
  "tree_static strs cells (Tree nm items kids) \<longleftrightarrow>
     node_static strs cells items
     \<and> list_all (\<lambda>(t, n). tree_static strs (cells_below strs cells nm items) t) kids"

section \<open>The properties of one node\<close>

lemma reserved_classify: "reserved_item (classify_node nm nd) nm name a val = reserved_item nd nm name a val"
proof -
  have "classify_node nm (classify_node nm nd) = classify_node nm nd"
    by (auto simp: classify_node_def split: ReservedMemoryNode.split option.split)
  then show ?thesis by (simp add: reserved_item_def)
qed

lemma items_classify:
  "has_property items \<Longrightarrow> visit_items strs reserved_item nm nd p depth found items
     = visit_items strs reserved_item nm (classify_node nm nd) p depth found items"
proof (induction items arbitrary: p)
  case (Cons i items)
  then show ?case by (cases i) (simp_all add: reserved_classify)
qed simp

lemma items_none:
  "\<not> has_property items \<Longrightarrow> visit_items strs reserved_item nm nd p depth found items = Some (Inr (nd, depth, found))"
proof (induction items arbitrary: p)
  case (Cons i items)
  then show ?case by (cases i) simp_all
qed simp

lemma depth_after_step [simp]:
  "depth_after nm depth [] = depth" "depth_after nm depth (Nop # items) = depth_after nm depth items"
  "depth_after nm (if nm = RESERVED_MEMORY then Some 1 else None) items
     = (if nm = RESERVED_MEMORY then Some 1 else None)"
  "depth_after nm depth (Property off val # items) = (if nm = RESERVED_MEMORY then Some 1 else None)"
  by (simp_all add: depth_after_def)

lemma items_unused:
  assumes "classify_node nm (Unused par) = Unused par" and "nm \<noteq> RESERVED_MEMORY"
  shows "visit_items strs reserved_item nm (Unused par) p depth found items
    = Some (Inr (Unused par, depth_after nm depth items, found))"
proof (induction items arbitrary: p depth)
  case (Cons i items)
  then show ?case
    using assms depth_after_step(3) [of nm items] by (cases i) (simp_all add: reserved_item_def try_bind_def)
qed simp

lemma items_parent:
  "visit_items strs reserved_item RESERVED_MEMORY (Parent ac sc) p depth found items
    = Some (Inr (Parent (cell_of strs ADDRESS_CELLS ac items) (cell_of strs SIZE_CELLS sc items),
        depth_after RESERVED_MEMORY depth items, found \<or> has_property items))"
proof (induction items arbitrary: ac sc p depth found)
  case (Cons i items)
  then show ?case
    using depth_after_step(3) [of RESERVED_MEMORY items]
    by (cases i) (simp_all add: reserved_item_def classify_node_def try_bind_def)
qed simp

text \<open>The properties of a static child: at most one \<open>reg\<close>, found where it lies.\<close>

definition static_data :: "memory \<Rightarrow> usize \<Rightarrow> byte list \<Rightarrow> ReservedMemoryData option \<Rightarrow> bool" where
  "static_data m q val dat \<longleftrightarrow>
     (\<exists>h. dat = Some (Static \<lparr>head_addr = h, len = length val\<rparr>) \<and> stored m h val \<and> 4 dvd h \<and> h + length val \<le> q)"

lemma reserved_item_child:
  assumes "name \<notin> {PROP_SIZE, PROP_ALIGNMENT, PROP_ALLOC_RANGES}" and "name = PROP_REG \<longrightarrow> dat = None"
  shows "reserved_item (Child par dat) nm name a val = Some (Inr
    (Child par (if name = PROP_REG \<and> val \<noteq> [] then Some (Static \<lparr>head_addr = a, len = length val\<rparr>) else dat),
     if nm = RESERVED_MEMORY then (True, Some 1) else (name = PROP_REG \<and> val \<noteq> [], None)))"
  using assms by (auto simp: reserved_item_def classify_node_def try_bind_def parse_child_def)

lemma items_child:
  assumes "values_of strs PROP_SIZE items = []" and "values_of strs PROP_ALIGNMENT items = []"
    and "values_of strs PROP_ALLOC_RANGES items = []"
    and "length (values_of strs PROP_REG items) \<le> 1" and "dat = None \<or> values_of strs PROP_REG items = []"
    and "stored m p (enc_items items)" and "4 dvd p"
  shows "\<exists>dat1 found1. visit_items strs reserved_item nm (Child par dat) p depth found items
      = Some (Inr (Child par dat1, depth_after nm depth items, found1)) \<and> (found \<longrightarrow> found1)
    \<and> (if reg_of strs items = [] then dat1 = dat
       else found1 \<and> static_data m (p + length (enc_items items)) (reg_of strs items) dat1)"
  using assms
proof (induction items arbitrary: dat p depth found)
  case Nil
  then show ?case by (simp add: reg_of_simps)
next
  case (Cons i items)
  have dvd: "4 dvd p + length (enc_item i)"
    using Cons.prems(7) enc_item_dvd by (rule dvd_add)
  have st: "stored m (p + length (enc_item i)) (enc_items items)"
    using Cons.prems(6) by (simp del: enc_item.simps)
  show ?case
  proof (cases i)
    case Nop
    then show ?thesis using Cons.IH [OF _ _ _ _ _ st dvd, of dat depth found] Cons.prems
      by (auto simp: reg_of_simps add.assoc split: if_splits)
  next
    case (Property off val)
    let ?n = "name_in strs off" and ?q = "p + length (enc_items (i # items))"
    have n: "?n \<notin> {PROP_SIZE, PROP_ALIGNMENT, PROP_ALLOC_RANGES}" "?n = PROP_REG \<longrightarrow> dat = None"
      using Cons.prems(1-3,5) by (auto simp: Property split: if_splits)
    let ?dat = "if ?n = PROP_REG \<and> val \<noteq> [] then Some (Static \<lparr>head_addr = p + 12, len = length val\<rparr>) else dat"
      and ?b = "nm = RESERVED_MEMORY \<or> (?n = PROP_REG \<and> val \<noteq> [])"
    have prems: "values_of strs PROP_SIZE items = []" "values_of strs PROP_ALIGNMENT items = []"
      "values_of strs PROP_ALLOC_RANGES items = []" "length (values_of strs PROP_REG items) \<le> 1"
      "?dat = None \<or> values_of strs PROP_REG items = []"
      using Cons.prems(1-5) by (auto simp: Property split: if_splits)
    have val: "?n = PROP_REG \<Longrightarrow> val \<noteq> [] \<Longrightarrow> static_data m ?q val ?dat"
      using Cons.prems(6,7) value_stored [of m p off val] align_up_ge [of "length val" 4]
      by (auto simp: static_data_def Property enc_item_length simp del: enc_item.simps)
    have "visit_items strs reserved_item nm (Child par dat) p depth found (i # items)
        = visit_items strs reserved_item nm (Child par ?dat) (p + length (enc_item i))
            (if nm = RESERVED_MEMORY then Some 1 else None) (found \<or> ?b) items"
      by (simp add: Property reserved_item_child [OF n] try_bind_def del: enc_item.simps)
    moreover have "?n = PROP_REG \<Longrightarrow> reg_of strs items = []"
      using Cons.prems(4) by (simp add: Property reg_of_def)
    ultimately show ?thesis
      using Cons.IH [OF prems st dvd, of "if nm = RESERVED_MEMORY then Some 1 else None" "found \<or> ?b"] val
        depth_after_step(3) [of nm items]
      by (auto simp: Property reg_of_simps add.assoc split: if_splits simp del: enc_item.simps depth_after_step(3))
  qed
qed

section \<open>The entries of a region\<close>

lemma read_pair_stored:
  assumes "stored m h val" and "4 dvd h" and "h + length val < usize_limit" and "4 dvd off" and "ac \<le> 2" and "sc \<le> 2"
    and "off + 4 * (ac + sc) \<le> length val"
  shows "read_pair m ac sc h off = Some (Inr (be_value (take (4 * ac) (drop off val)),
    be_value (take (4 * sc) (drop (4 * ac) (drop off val))), off + 4 * (ac + sc)))"
proof -
  let ?x = "take (4 * ac) (drop off val)" and ?y = "take (4 * sc) (drop (4 * ac) (drop off val))"
  have rest: "stored m (h + off) (drop off val)"
    using assms(1,7) by (intro stored_drop) simp_all
  have x: "stored m (h + off) ?x"
    using rest by (rule stored_take)
  have y: "stored m (h + off + 4 * ac) ?y"
    using assms(7) by (intro stored_take stored_drop [OF rest]) simp
  have "read_regs m (h + off) ac = Some (Inr (be_value ?x, 4 * ac))"
    using assms by (intro read_regs_stored [OF x]) (simp_all add: dvd_add)
  moreover have "read_regs m (h + off + 4 * ac) sc = Some (Inr (be_value ?y, 4 * sc))"
    using assms by (intro read_regs_stored [OF y]) (simp_all add: dvd_add)
  ultimately show ?thesis
    using assms(3,7) by (simp add: read_pair_def try_bind_def exec_simps algebra_simps)
qed

lemma static_loop_each:
  assumes "stored m h val" and "4 dvd h" and "h + length val < usize_limit" and "ac \<le> 2" and "sc \<le> 2"
  shows "length val = off + 4 * (ac + sc) * Suc n \<Longrightarrow> 0 < ac + sc \<Longrightarrow> 4 dvd off \<Longrightarrow>
    static_loop m f ac sc \<lparr>head_addr = h, len = length val\<rparr> off s
      = emitted (each f (reg_entries (Suc n) ac sc (drop off val)) s)"
proof (induction n arbitrary: off s)
  case 0
  have "read_pair m ac sc h off = Some (Inr (be_value (take (4 * ac) (drop off val)),
    be_value (take (4 * sc) (drop (4 * ac) (drop off val))), length val))"
    using read_pair_stored [OF assms(1-3) 0(3) assms(4,5)] 0(1) by simp
  then show ?case
    by (subst static_loop.simps) (auto split: Option.bind_splits)
next
  case (Suc n)
  let ?off = "off + 4 * (ac + sc)"
  have pair: "read_pair m ac sc h off = Some (Inr (be_value (take (4 * ac) (drop off val)),
    be_value (take (4 * sc) (drop (4 * ac) (drop off val))), ?off))"
    using Suc.prems(1) by (intro read_pair_stored [OF assms(1-3) Suc.prems(3) assms(4,5)]) simp
  have less: "?off < length val"
    using Suc.prems(1,2) by (auto simp: algebra_simps)
  have "length val = ?off + 4 * (ac + sc) * Suc n" "4 dvd ?off"
    using Suc.prems(1,3) by (simp_all add: algebra_simps)
  note IH = Suc.IH [OF this(1) Suc.prems(2) this(2)]
  have entries: "reg_entries (Suc (Suc n)) ac sc (drop off val) =
    (be_value (take (4 * ac) (drop off val)), be_value (take (4 * sc) (drop (4 * ac) (drop off val))))
    # reg_entries (Suc n) ac sc (drop ?off val)"
    by (subst reg_entries.simps(2)) (simp add: add.commute [of off])
  show ?case
    unfolding entries using less IH
    by (subst static_loop.simps) (auto simp: pair simp del: reg_entries.simps split: Option.bind_splits)
qed

lemma calculate_static:
  assumes "stored m h val" and "4 dvd h" and "h + length val < usize_limit" and "ac \<le> 2" and "sc \<le> 2"
    and "0 < ac + sc" and "4 * (ac + sc) dvd length val" and "val \<noteq> []"
  shows "calculate_reserved m f dynamic (Child (Parent ac sc) (Some (Static \<lparr>head_addr = h, len = length val\<rparr>))) s
    = emitted (each f (entries_of (ac, sc) val) s)"
proof -
  obtain k where k: "length val = 4 * (ac + sc) * k" using assms(7) by (auto elim: dvdE)
  then obtain n where n: "k = Suc n" using assms(8) by (cases k) auto
  have div: "length val div (4 * (ac + sc)) = Suc n"
    unfolding k n using assms(6) by (intro nonzero_mult_div_cancel_left) simp
  have stride: "is_multiple_of (length val) ((ac + sc) * 4)" "length val \<noteq> 0"
    using assms(6-8) by (simp_all add: is_multiple_of_def mult.commute [of _ 4])
  have "static_loop m f ac sc \<lparr>head_addr = h, len = length val\<rparr> 0 s = emitted (each f (entries_of (ac, sc) val) s)"
    using static_loop_each [OF assms(1-5), of 0 n f s] k n assms(6) by (simp add: entries_of_def div del: reg_entries.simps)
  then show ?thesis
    using stride assms(4,5) by (simp add: calculate_reserved_def assume_parent_and_get_property_def)
qed

section \<open>The whole tree\<close>

definition reserved_cells :: "ReservedMemoryNode option \<Rightarrow> (nat \<times> nat) option" where
  "reserved_cells par = (case par of Some (Parent ac sc) \<Rightarrow> Some (ac, sc) | _ \<Rightarrow> None)"

text \<open>One node: what it does before its children are visited, and what it is for them.\<close>

lemma visit_node_static:
  assumes "stored m p (enc_items items)" and "4 dvd p" and "p + length (enc_items items) < usize_limit"
    and "node_static strs (reserved_cells par) items"
  shows "\<exists>nd found. visit_items strs reserved_item nm (Unused par) p depth False items
      = Some (Inr (nd, depth_after nm depth items, found))
    \<and> reserved_cells (Some nd) = cells_below strs (reserved_cells par) nm items
    \<and> (if found then calculate_reserved m f dynamic nd s else Some (Inr Continue, s))
      = emitted (each f (case reserved_cells par of None \<Rightarrow> [] | Some c \<Rightarrow> entries_of c (reg_of strs items)) s)"
proof (cases "has_property items")
  case False
  then have "reg_of strs items = []"
    by (induction items rule: has_property.induct) (simp_all add: reg_of_simps)
  then show ?thesis
    using False by (auto simp: items_none depth_after_def cells_below_def reserved_cells_def entries_of_def split: option.split)
next
  case True
  show ?thesis
  proof (cases "reserved_cells par")
    case None
    then have par: "\<nexists>ac sc. par = Some (Parent ac sc)"
      by (auto simp: reserved_cells_def)
    show ?thesis
    proof (cases "nm = RESERVED_MEMORY")
      case nm: True
      have "classify_node nm (Unused par) = Parent 2 1"
        using par nm by (auto simp: classify_node_def split: option.split ReservedMemoryNode.split)
      then have "visit_items strs reserved_item nm (Unused par) p depth False items
          = Some (Inr (Parent (cell_of strs ADDRESS_CELLS 2 items) (cell_of strs SIZE_CELLS 1 items),
              depth_after nm depth items, True))"
        using items_classify [OF True, of strs nm "Unused par" p depth False] nm True by (simp add: items_parent)
      then show ?thesis
        using None nm True by (intro exI [of _ "Parent _ _"] exI [of _ True])
          (simp_all add: cells_below_def calculate_reserved_def reserved_cells_def)
    next
      case nm: False
      have "classify_node nm (Unused par) = Unused par"
        using par nm by (auto simp: classify_node_def split: option.split ReservedMemoryNode.split)
      from items_unused [OF this nm] show ?thesis
        using None nm by (intro exI [of _ "Unused par"] exI [of _ False])
          (simp_all add: cells_below_def reserved_cells_def)
    qed
  next
    case (Some c)
    then obtain ac sc where par: "par = Some (Parent ac sc)" and c: "c = (ac, sc)"
      by (auto simp: reserved_cells_def split: option.splits ReservedMemoryNode.splits)
    have node: "values_of strs PROP_SIZE items = []" "values_of strs PROP_ALIGNMENT items = []"
      "values_of strs PROP_ALLOC_RANGES items = []" "length (values_of strs PROP_REG items) \<le> 1"
      "reg_of strs items \<noteq> [] \<longrightarrow> ac \<le> 2 \<and> sc \<le> 2 \<and> 0 < ac + sc \<and> 4 * (ac + sc) dvd length (reg_of strs items)"
      using assms(4) by (simp_all add: node_static_def Some c)
    have "classify_node nm (Unused par) = Child (Parent ac sc) None"
      by (simp add: classify_node_def par)
    then obtain dat found where items: "visit_items strs reserved_item nm (Unused par) p depth False items
        = Some (Inr (Child (Parent ac sc) dat, depth_after nm depth items, found))"
      and dat: "if reg_of strs items = [] then dat = None
        else found \<and> static_data m (p + length (enc_items items)) (reg_of strs items) dat"
      using items_child [OF node(1-4) _ assms(1,2), of None nm "Parent ac sc" depth False]
        items_classify [OF True, of strs nm "Unused par" p depth False] by auto
    have "(if found then calculate_reserved m f dynamic (Child (Parent ac sc) dat) s else Some (Inr Continue, s))
        = emitted (each f (entries_of (ac, sc) (reg_of strs items)) s)"
    proof (cases "reg_of strs items = []")
      case True
      then show ?thesis using dat by (simp add: calculate_reserved_def entries_of_def)
    next
      case False
      then obtain h where h: "dat = Some (Static \<lparr>head_addr = h, len = length (reg_of strs items)\<rparr>)"
        "stored m h (reg_of strs items)" "4 dvd h" "h + length (reg_of strs items) < usize_limit" "found"
        using dat assms(3) by (auto simp: static_data_def)
      then show ?thesis
        using calculate_static [OF h(2-4), of ac sc f dynamic s] node(5) False by simp
    qed
    then show ?thesis
      using items Some c by (intro exI conjI) (auto simp: cells_below_def reserved_cells_def)
  qed
qed

lemma visit_static:
  "stored m p (enc_tree t) \<Longrightarrow> 4 dvd p \<Longrightarrow> p + length (enc_tree t) < usize_limit \<Longrightarrow>
   tree_static strs (reserved_cells par) t \<Longrightarrow>
   visit_tree strs reserved_item (reserved_visitor m parser f dynamic) par depth p t s
   = emitted (each f (static_regs strs (reserved_cells par) depth t) s)"
proof (induction t arbitrary: par depth p s)
  case (Tree nm items kids)
  let ?v = "reserved_visitor m parser f dynamic"
  let ?p1 = "p + 4 + length (enc_name nm)"
  let ?p2 = "?p1 + length (enc_items items)"
  let ?depth = "depth_after nm depth items" and ?cells = "cells_below strs (reserved_cells par) nm items"
  have st: "stored m ?p1 (enc_items items)" "stored m ?p2 (enc_kids kids)"
    using Tree.prems(1) by (simp_all add: enc_tree_kids add.assoc)
  have dvd: "4 dvd ?p1" "4 dvd ?p2"
    using Tree.prems(2) by (simp_all add: dvd_add enc_name_dvd enc_items_dvd)
  have lt: "?p2 + length (enc_kids kids) < usize_limit" "?p2 < usize_limit"
    using Tree.prems(3) by (simp_all add: enc_tree_kids)
  have node: "node_static strs (reserved_cells par) items" using Tree.prems(4) by simp
  obtain nd found where nd: "visit_items strs reserved_item nm (Unused par) ?p1 depth False items
      = Some (Inr (nd, ?depth, found))" "reserved_cells (Some nd) = ?cells"
    "(if found then calculate_reserved m f dynamic nd s else Some (Inr Continue, s))
      = emitted (each f (case reserved_cells par of None \<Rightarrow> [] | Some c \<Rightarrow> entries_of c (reg_of strs items)) s)"
    using visit_node_static [OF st(1) dvd(1) lt(2) node, of nm depth f dynamic s] by blast
  have kids: "visit_kids strs reserved_item ?v nd ?depth q ks s1
      = emitted (each f (if ?depth = Some 0 then []
          else concat (map (\<lambda>(t, n). static_regs strs ?cells (map_option (\<lambda>f. f - 1) ?depth) t) ks)) s1)"
    if "set ks \<subseteq> set kids" "stored m q (enc_kids ks)" "4 dvd q" "q + length (enc_kids ks) < usize_limit" for ks q s1
    using that
  proof (induction ks arbitrary: q s1)
    case (Cons k ks)
    obtain t n where k: "k = (t, n)" by (cases k)
    have t: "(t, n) \<in> set kids" "t \<in> Basic_BNFs.fsts (t, n)" using Cons.prems(1) by (auto simp: k)
    have "tree_static strs (reserved_cells (Some nd)) t"
      using Tree.prems(4) t(1) unfolding nd(2) by (auto simp: list_all_iff)
    then have "visit_tree strs reserved_item ?v (Some nd) (map_option (\<lambda>f. f - 1) ?depth) q t s1
        = emitted (each f (static_regs strs ?cells (map_option (\<lambda>f. f - 1) ?depth) t) s1)"
      using Tree.IH [OF t, of q "Some nd" "map_option (\<lambda>f. f - 1) ?depth" s1] Cons.prems nd(2) by (simp add: k)
    moreover have next_q: "4 dvd q + length (enc_tree t) + length (enc_nops n)"
      using Cons.prems(3) enc_tree_dvd [of t] by (simp add: dvd_add enc_nops_length)
    ultimately show ?case
      using each_then [OF Cons.IH [of "q + length (enc_tree t) + length (enc_nops n)"],
          of "static_regs strs ?cells (map_option (\<lambda>f. f - 1) ?depth) t" s1]
        Cons.IH [of "q + length (enc_tree t) + length (enc_nops n)" s1] Cons.prems
      by (cases "?depth = Some 0") (simp_all add: k add.assoc and_then_Continue)
  qed simp
  have init: "new_node ?v par = Unused par" "calculate_property ?v = calculate_reserved m f dynamic"
    by (simp_all add: reserved_visitor_def ReservedMemoryNode_new_def)
  show ?case
    unfolding visit_tree.simps init nd(1) static_regs.simps
    using each_then [OF kids [OF subset_refl st(2) dvd(2) lt(1)]] by (simp only: bind.bind_lunit sum.case prod.case nd(3))
qed

lemma find_reserved_each:
  assumes "blob_at m parser strs a i t j" and "tree_good reserved_good strs t" and "tree_static strs None t"
  shows "find_reserved_memory_node m parser f dynamic s
    = map_option (\<lambda>r. (Inr (), snd r)) (each f (static_regs strs None (Some 1) t) s)"
proof -
  have st: "stored m (a + 4 * i) (enc_tree t)" "4 dvd a + 4 * i" "a + 4 * i + length (enc_tree t) < usize_limit"
    using assms(1) by (simp_all add: blob_at_def struct_bytes_def enc_nops_length)
  have "visit_tree strs reserved_item (reserved_visitor m parser f dynamic) None (Some 1) (a + 4 * i) t s
      = emitted (each f (static_regs strs None (Some 1) t) s)"
    using visit_static [OF st, of strs None parser f dynamic "Some 1" s] assms(3) by (simp add: reserved_cells_def)
  then show ?thesis
    using reserved.search_tree [OF assms(1,2), of f dynamic "Some 1" s]
    by (auto simp: find_reserved_memory_node_def search_result_def emitted_def option.map_comp comp_def case_prod_beta)
qed

end
