(* ===== verification/Dtb_Generator.thy ===== *)
theory Dtb_Generator
  imports Dtb_Parser
begin

text \<open>
  \<open>DtbGenerator\<close> of \<open>src/dtb/src/lib.rs\<close>: a copy of the device tree with more entries in its memory
  reservation block. The target slice \<open>dtb\<close> is its address and its length; \<open>ptr::copy\<close> and the writes
  through the raw pointers are not bounded by it, so they are stores to the memory.
\<close>

definition ptr_copy :: "memory \<Rightarrow> usize \<Rightarrow> usize \<Rightarrow> nat \<Rightarrow> memory" where
  "ptr_copy m source destination n = store_bytes m destination (load_bytes m source n)"

definition get_required_size :: "memory \<Rightarrow> DtbParser \<Rightarrow> usize \<Rightarrow> (usize \<times> usize) option" where
  "get_required_size m parser num_of_mem_reserved = do {
     n \<leftarrow> umul num_of_mem_reserved size_of_FdtReserveEntry;
     sz \<leftarrow> uadd (get_total_size m (dtb_header parser)) n;
     Some (sz, 8)
   }"

text \<open>The loop that copies the old entries up to the terminating pair of zeros.\<close>

function copy_entries :: "memory \<Rightarrow> usize \<Rightarrow> usize \<Rightarrow> (memory \<times> usize) option" where
  "copy_entries m source destination = do {
     addr \<leftarrow> get_address m source;
     sz \<leftarrow> get_size m source;
     (if addr = 0 \<and> sz = 0 then Some (m, destination)
      else do {
        let m1 = ptr_copy m source destination size_of_FdtReserveEntry;
        source1 \<leftarrow> uadd source size_of_FdtReserveEntry;
        destination1 \<leftarrow> uadd destination size_of_FdtReserveEntry;
        copy_entries m1 source1 destination1
      })
   }"
  by pat_completeness auto
termination
  by (relation "measure (\<lambda>(m, source, destination). usize_limit - source)")
    (auto simp: size_of_FdtReserveEntry_def uadd_Some_iff)

declare copy_entries.simps [simp del]

fun write_entries :: "memory \<Rightarrow> usize \<Rightarrow> (usize \<times> usize) list \<Rightarrow> (memory \<times> usize) option" where
  "write_entries m destination [] = Some (m, destination)"
| "write_entries m destination ((addr, sz) # entries) = do {
     rust_assert (is_multiple_of destination 8);
     let m1 = write_size (write_address m destination addr) destination sz;
     destination1 \<leftarrow> uadd destination size_of_FdtReserveEntry;
     write_entries m1 destination1 entries
   }"

definition make_dtb ::
  "memory \<Rightarrow> DtbParser \<Rightarrow> usize \<Rightarrow> usize \<Rightarrow> (usize \<times> usize) list \<Rightarrow> ((string + unit) \<times> memory) option" where
  "make_dtb m parser dtb dtb_len reserved_memory = do {
     let h = dtb_header parser;
     (required, _) \<leftarrow> get_required_size m parser (length reserved_memory);
     (if dtb_len < required then Some (Inl ''dtb memory too short'', m)
      else do {
        let m = ptr_copy m (get_fdt_address h) dtb (get_memory_reservation_offset m h);
        source \<leftarrow> get_memory_reservation_start_address m h;
        destination \<leftarrow> uadd dtb (get_memory_reservation_offset m h);
        (m, destination) \<leftarrow> copy_entries m source destination;
        (m, destination) \<leftarrow> write_entries m destination (reserved_memory @ [(0, 0)]);
        struct_start \<leftarrow> get_struct_start_address m h;
        let m = ptr_copy m struct_start destination (get_struct_size m h);
        struct_start_offset \<leftarrow> usub destination dtb;
        struct_end \<leftarrow> uadd destination (get_struct_size m h);
        destination \<leftarrow> next_multiple_of struct_end 4;
        string_start \<leftarrow> get_string_start_address m h;
        let m = ptr_copy m string_start destination (get_string_size m h);
        string_start_offset \<leftarrow> usub destination dtb;
        rust_assert (is_multiple_of dtb 4);
        let m = write_struct_offset m dtb (struct_start_offset mod u32_limit);
        let m = write_string_offset m dtb (string_start_offset mod u32_limit);
        new_size \<leftarrow> uadd string_start_offset (get_string_size m h);
        let m = write_total_size m dtb (new_size mod u32_limit);
        Some (Inr (), m)
      })
   }"

end
