(* ===== verification/Dtb_Generator_Proofs.thy ===== *)
theory Dtb_Generator_Proofs
  imports Dtb_Generator Dtb_Search
begin

text \<open>
  \<open>make_dtb\<close> at work: the target holds the header, the old and the new reservation entries, the
  structure block and the strings block, and nothing outside the target changes.
\<close>

section \<open>Frames\<close>

definition same_outside :: "usize \<Rightarrow> usize \<Rightarrow> memory \<Rightarrow> memory \<Rightarrow> bool" where
  "same_outside lo hi m m' \<longleftrightarrow> (\<forall>x. x < lo \<or> hi \<le> x \<longrightarrow> m' x = m x)"

lemma same_outside_refl [simp]: "same_outside lo hi m m"
  by (simp add: same_outside_def)

lemma same_outside_trans: "same_outside lo hi m m1 \<Longrightarrow> same_outside lo hi m1 m2 \<Longrightarrow> same_outside lo hi m m2"
  by (simp add: same_outside_def)

lemma same_outside_store:
  "same_outside lo hi m m1 \<Longrightarrow> lo \<le> p \<Longrightarrow> p + length bs \<le> hi \<Longrightarrow> same_outside lo hi m (store_bytes m1 p bs)"
  by (auto simp: same_outside_def store_bytes_def)

lemma load_outside:
  "same_outside lo hi m m1 \<Longrightarrow> a + n \<le> lo \<or> hi \<le> a \<Longrightarrow> load_bytes m1 a n = load_bytes m a n"
  by (auto simp: same_outside_def load_bytes_def)

lemma stored_outside:
  "same_outside lo hi m m1 \<Longrightarrow> stored m a bs \<Longrightarrow> a + length bs \<le> lo \<or> hi \<le> a \<Longrightarrow> stored m1 a bs"
  by (simp add: stored_def load_outside)

lemma read_outside:
  "same_outside lo hi m m1 \<Longrightarrow> a + n \<le> lo \<or> hi \<le> a \<Longrightarrow> readable_read n m1 a = readable_read n m a"
  by (simp add: readable_read_def load_outside)

lemma header_outside:
  "same_outside lo hi m m1 \<Longrightarrow> a + 40 \<le> lo \<or> hi \<le> a \<Longrightarrow> header_ref m1 a = header_ref m a"
  by (auto simp: header_ref_def read_outside)

lemma stored_store [simp]: "stored (store_bytes m p bs) p bs"
  by (simp add: stored_def load_store)

lemma stored_store_other:
  "stored m a bs \<Longrightarrow> a + length bs \<le> p \<or> p + length cs \<le> a \<Longrightarrow> stored (store_bytes m p cs) a bs"
  by (auto simp: stored_nth store_bytes_def)

lemma store_append: "store_bytes (store_bytes m p xs) (p + length xs) ys = store_bytes m p (xs @ ys)"
  by (auto simp: store_bytes_def fun_eq_iff nth_append)

lemma store_nothing [simp]: "store_bytes m p [] = m"
  unfolding store_bytes_def by (rule ext) auto

section \<open>Reservation entries\<close>

definition enc_entry :: "usize \<times> usize \<Rightarrow> byte list" where
  "enc_entry e = be_bytes 8 (fst e) @ be_bytes 8 (snd e)"

definition enc_entries :: "(usize \<times> usize) list \<Rightarrow> byte list" where
  "enc_entries es = concat (map enc_entry es)"

definition entry_ok :: "usize \<times> usize \<Rightarrow> bool" where
  "entry_ok e \<longleftrightarrow> fst e < usize_limit \<and> snd e < usize_limit \<and> e \<noteq> (0, 0)"

lemma enc_entry_length [simp]: "length (enc_entry e) = 16"
  by (simp add: enc_entry_def)

lemma enc_entries_simps [simp]:
  "enc_entries [] = []" "enc_entries (e # es) = enc_entry e @ enc_entries es"
  "enc_entries (es @ fs) = enc_entries es @ enc_entries fs"
  by (simp_all add: enc_entries_def)

lemma enc_entries_length [simp]: "length (enc_entries es) = 16 * length es"
  by (induction es) simp_all

lemma entry_stored:
  assumes "stored m p (enc_entry e)" and "8 dvd p" and "p + 16 < usize_limit" and "fst e < usize_limit" and "snd e < usize_limit"
  shows "get_address m p = Some (fst e)" and "get_size m p = Some (snd e)"
proof -
  have st: "stored m p (be_bytes 8 (fst e))" "stored m (p + 8) (be_bytes 8 (snd e))"
    using assms(1) by (simp_all add: enc_entry_def)
  have "8 dvd p + 8" using assms(2) by (simp add: dvd_add)
  then show "get_address m p = Some (fst e)" "get_size m p = Some (snd e)"
    using st assms(2-5)
    by (simp_all add: get_address_def get_size_def exec_simps is_multiple_of_dvd read_stored be_value_be_bytes usize_limit_def)
qed

lemma zero_entry: "enc_entry (0, 0) = replicate 16 0"
  by code_simp

text \<open>Walking over stored entries up to the terminator.\<close>

lemma reservation_loop_stored:
  "stored m p (enc_entries (es @ [(0, 0)])) \<Longrightarrow> 8 dvd p \<Longrightarrow> p + 16 * length es + 16 < usize_limit \<Longrightarrow>
   list_all entry_ok es \<Longrightarrow> reservation_loop m f p s = map_option snd (each f es s)"
proof (induction es arbitrary: p s)
  case Nil
  then have "get_address m p = Some 0" "get_size m p = Some 0"
    using entry_stored [of m p "(0, 0)"] by (simp_all add: usize_limit_def)
  then show ?case by (subst reservation_loop.simps) simp
next
  case (Cons e es)
  have e: "get_address m p = Some (fst e)" "get_size m p = Some (snd e)" "\<not> (fst e = 0 \<and> snd e = 0)"
    using entry_stored [of m p e] Cons.prems by (simp_all add: entry_ok_def prod_eq_iff)
  have "8 dvd p + 16" using Cons.prems(2) by (simp add: dvd_add)
  then have "reservation_loop m f (p + 16) s1 = map_option snd (each f es s1)" for s1
    using Cons.IH [of "p + 16" s1] Cons.prems by simp
  then show ?case
    using e Cons.prems(3)
    by (subst reservation_loop.simps, cases e)
      (auto simp: size_of_FdtReserveEntry_def exec_simps split: Option.bind_splits)
qed

lemma copy_entries_stored:
  "stored m source (enc_entries (es @ [(0, 0)])) \<Longrightarrow> 8 dvd source \<Longrightarrow> source + 16 * length es + 16 < usize_limit \<Longrightarrow>
   list_all entry_ok es \<Longrightarrow> destination + 16 * length es < usize_limit \<Longrightarrow>
   source + 16 * length es + 16 \<le> destination \<or> destination + 16 * length es \<le> source \<Longrightarrow>
   copy_entries m source destination = Some (store_bytes m destination (enc_entries es), destination + 16 * length es)"
proof (induction es arbitrary: m source destination)
  case Nil
  then have "get_address m source = Some 0" "get_size m source = Some 0"
    using entry_stored [of m source "(0, 0)"] by (simp_all add: usize_limit_def)
  then show ?case by (subst copy_entries.simps) simp
next
  case (Cons e es)
  let ?m1 = "store_bytes m destination (enc_entry e)"
  have e: "get_address m source = Some (fst e)" "get_size m source = Some (snd e)" "\<not> (fst e = 0 \<and> snd e = 0)"
    using entry_stored [of m source e] Cons.prems by (simp_all add: entry_ok_def prod_eq_iff)
  have ld: "load_bytes m source 16 = enc_entry e"
    using Cons.prems(1) by (intro stored_load) simp_all
  have "stored ?m1 (source + 16) (enc_entries (es @ [(0, 0)]))"
    using Cons.prems(1,6) by (intro stored_store_other) (auto simp: add.assoc)
  moreover have "8 dvd source + 16" using Cons.prems(2) by (simp add: dvd_add)
  ultimately have "copy_entries ?m1 (source + 16) (destination + 16)
      = Some (store_bytes ?m1 (destination + 16) (enc_entries es), destination + 16 + 16 * length es)"
    using Cons.prems by (intro Cons.IH) auto
  then show ?case
    using e ld Cons.prems(3,5) store_append [of m destination "enc_entry e"]
    by (subst copy_entries.simps) (simp add: ptr_copy_def size_of_FdtReserveEntry_def exec_simps Let_def)
qed

lemma write_entries_stored:
  "8 dvd destination \<Longrightarrow> destination + 16 * length es < usize_limit \<Longrightarrow>
   write_entries m destination es = Some (store_bytes m destination (enc_entries es), destination + 16 * length es)"
proof (induction es arbitrary: m destination)
  case (Cons e es)
  obtain x y where xy: "e = (x, y)" by (cases e)
  have "write_size (write_address m destination x) destination y = store_bytes m destination (enc_entry e)"
    using store_append [of m destination "be_bytes 8 x" "be_bytes 8 y"]
    by (simp add: write_size_def write_address_def writable_write_def to_be_def le_bytes_swap enc_entry_def be_bytes_def xy)
  moreover have "8 dvd destination + 16" using Cons.prems(1) by (simp add: dvd_add)
  ultimately show ?case
    using Cons.IH [of "destination + 16"] Cons.prems store_append [of m destination "enc_entry e"]
    by (simp add: xy exec_simps is_multiple_of_dvd size_of_FdtReserveEntry_def Let_def)
qed simp

section \<open>The generated blob\<close>

text \<open>
  The source blob lies inside its total size, with a reservation block of the entries \<open>es\<close>; the target
  is aligned, large enough for the entries \<open>rs\<close> and apart from the source.
\<close>

definition source_ok :: "memory \<Rightarrow> Dtb \<Rightarrow> (usize \<times> usize) list \<Rightarrow> bool" where
  "source_ok m h es \<longleftrightarrow>
     (let a = dtb_address h; off = get_memory_reservation_offset m h; total = get_total_size m h in
      40 \<le> off \<and> 8 dvd a + off \<and> 4 dvd get_struct_size m h
      \<and> off + 16 * (length es + 1) + get_struct_size m h + get_string_size m h \<le> total
      \<and> from_be 4 (off_dt_struct (header_ref m a)) + get_struct_size m h \<le> total
      \<and> from_be 4 (off_dt_strings (header_ref m a)) + get_string_size m h \<le> total
      \<and> a + total < usize_limit \<and> list_all entry_ok es \<and> stored m (a + off) (enc_entries (es @ [(0, 0)])))"

definition target_ok :: "memory \<Rightarrow> Dtb \<Rightarrow> usize \<Rightarrow> usize \<Rightarrow> (usize \<times> usize) list \<Rightarrow> bool" where
  "target_ok m h dtb dtb_len rs \<longleftrightarrow>
     (let a = dtb_address h; total = get_total_size m h in
      4 dvd dtb \<and> 8 dvd dtb + get_memory_reservation_offset m h
      \<and> total + 16 * length rs \<le> dtb_len \<and> total + 16 * length rs < u32_limit
      \<and> dtb + dtb_len < usize_limit \<and> (a + total \<le> dtb \<or> dtb + dtb_len \<le> a))"

lemma getters_outside:
  assumes "header_ref m1 (dtb_address h) = header_ref m (dtb_address h)"
  shows "get_memory_reservation_offset m1 h = get_memory_reservation_offset m h" "get_total_size m1 h = get_total_size m h"
    "get_struct_size m1 h = get_struct_size m h" "get_string_size m1 h = get_string_size m h"
    "get_struct_start_address m1 h = get_struct_start_address m h" "get_string_start_address m1 h = get_string_start_address m h"
    "get_memory_reservation_start_address m1 h = get_memory_reservation_start_address m h"
  using assms
  by (simp_all add: get_memory_reservation_offset_def get_total_size_def get_struct_size_def get_string_size_def
      get_struct_start_address_def get_string_start_address_def get_memory_reservation_start_address_def)

text \<open>The three offsets written into the copied header.\<close>

definition patch_header :: "memory \<Rightarrow> usize \<Rightarrow> nat \<Rightarrow> nat \<Rightarrow> nat \<Rightarrow> memory" where
  "patch_header m dtb so sto tot = write_total_size (write_string_offset (write_struct_offset m dtb so) dtb sto) dtb tot"

lemma patch_header_store:
  "patch_header m dtb so sto tot =
     store_bytes (store_bytes (store_bytes m (dtb + 8) (be_bytes 4 so)) (dtb + 12) (be_bytes 4 sto)) (dtb + 4) (be_bytes 4 tot)"
  by (simp add: patch_header_def write_total_size_def write_string_offset_def write_struct_offset_def writable_write_def
      to_be_def le_bytes_swap be_bytes_def)

lemma patch_header_fields:
  assumes "so < u32_limit" and "sto < u32_limit" and "tot < u32_limit"
  shows "header_ref (patch_header m dtb so sto tot) dtb =
    (header_ref m dtb)\<lparr>total_size := to_be 4 tot, off_dt_struct := to_be 4 so, off_dt_strings := to_be 4 sto\<rparr>"
proof -
  let ?m = "patch_header m dtb so sto tot"
  have f: "readable_read 4 ?m (dtb + k) = readable_read 4 m (dtb + k)" if "k = 0 \<or> 16 \<le> k" for k
    using that by (intro readable_read_local) (auto simp: patch_header_store store_bytes_def)
  have "stored ?m (dtb + 4) (be_bytes 4 tot)" "stored ?m (dtb + 8) (be_bytes 4 so)" "stored ?m (dtb + 12) (be_bytes 4 sto)"
    by (auto simp: patch_header_store stored_store_other)
  then have "readable_read 4 ?m (dtb + 4) = to_be 4 tot" "readable_read 4 ?m (dtb + 8) = to_be 4 so"
    "readable_read 4 ?m (dtb + 12) = to_be 4 sto"
    by (simp_all add: readable_read_def stored_load to_be_def swap_bytes_def be_bytes_def)
  then show ?thesis
    using f [of 0] by (simp add: header_ref_def f)
qed

lemma from_be_to_be: "v < u32_limit \<Longrightarrow> from_be 4 (to_be 4 v) = v"
  by (simp add: from_be_def to_be_def swap_swap u32_limit_def)

text \<open>The memory that \<open>make_dtb\<close> leaves behind.\<close>

definition target_entries :: "memory \<Rightarrow> Dtb \<Rightarrow> usize \<Rightarrow> (usize \<times> usize) list \<Rightarrow> memory" where
  "target_entries m h dtb es =
     store_bytes (store_bytes m dtb (load_bytes m (dtb_address h) (get_memory_reservation_offset m h)))
       (dtb + get_memory_reservation_offset m h) (enc_entries es)"

lemma make_dtb_memory:
  assumes src: "source_ok m (dtb_header parser) es" and tgt: "target_ok m (dtb_header parser) dtb dtb_len rs"
    and so: "so = get_memory_reservation_offset m (dtb_header parser) + 16 * (length es + length rs + 1)"
    and struct: "get_struct_start_address m (dtb_header parser) = Some struct"
    and string: "get_string_start_address m (dtb_header parser) = Some string"
    and n: "n = get_struct_size m (dtb_header parser)" and k: "k = get_string_size m (dtb_header parser)"
  shows "make_dtb m parser dtb dtb_len rs = Some (Inr (), patch_header
    (store_bytes (store_bytes (target_entries m (dtb_header parser) dtb (es @ rs @ [(0, 0)]))
       (dtb + so) (load_bytes m struct n)) (dtb + so + n) (load_bytes m string k))
    dtb so (so + n) (so + n + k))"
proof -
  let ?h = "dtb_header parser"
  define a off total hi where "a = dtb_address ?h" and "off = get_memory_reservation_offset m ?h"
    and "total = get_total_size m ?h" and "hi = dtb + dtb_len"
  note names = a_def [symmetric] off_def [symmetric] total_def [symmetric] n [symmetric] k [symmetric]
  note s = src [unfolded source_ok_def Let_def names] and t = tgt [unfolded target_ok_def Let_def names]
  define m1 m2 m3 m4 m5 where "m1 = store_bytes m dtb (load_bytes m a off)"
    and "m2 = store_bytes m1 (dtb + off) (enc_entries es)"
    and "m3 = store_bytes m2 (dtb + off + 16 * length es) (enc_entries (rs @ [(0, 0)]))"
    and "m4 = store_bytes m3 (dtb + so) (load_bytes m struct n)"
    and "m5 = store_bytes m4 (dtb + so + n) (load_bytes m string k)"
  note ms = m1_def m2_def m3_def m4_def m5_def
  have so': "so = off + 16 * (length es + length rs + 1)" using so by (simp add: off_def)
  have fit: "so + n + k \<le> dtb_len" "so + n + k < u32_limit" "dtb + so + n + k < usize_limit" "a + total < usize_limit"
    "off + 16 * (length es + 1) + n + k \<le> total" "40 \<le> off"
    using s t by (simp_all add: so')
  have apart: "a + total \<le> dtb \<or> hi \<le> a" using t by (simp add: hi_def)
  have start: "struct = a + from_be 4 (off_dt_struct (header_ref m a))" "string = a + from_be 4 (off_dt_strings (header_ref m a))"
    using struct string by (simp_all add: get_struct_start_address_def get_string_start_address_def uadd_Some_iff a_def)
  have outs: "same_outside dtb hi m m1" "same_outside dtb hi m m2" "same_outside dtb hi m m3" "same_outside dtb hi m m4"
    "same_outside dtb hi m m5"
    using fit(1) unfolding ms hi_def by (intro same_outside_store same_outside_refl; simp add: so')+
  have hdr: "same_outside dtb hi m m' \<Longrightarrow> header_ref m' (dtb_address ?h) = header_ref m (dtb_address ?h)" for m'
    using apart fit(5,6) by (intro header_outside) (auto simp: a_def)
  note gets = getters_outside [OF hdr [OF outs(1)]] getters_outside [OF hdr [OF outs(3)]] getters_outside [OF hdr [OF outs(4)]]
    getters_outside [OF hdr [OF outs(5)]]
  have copy: "copy_entries m1 (a + off) (dtb + off) = Some (m2, dtb + off + 16 * length es)"
    unfolding m2_def
  proof (rule copy_entries_stored)
    show "stored m1 (a + off) (enc_entries (es @ [(0, 0)]))"
      using s apart fit(5) by (intro stored_outside [OF outs(1)]) auto
    show "a + off + 16 * length es + 16 \<le> dtb + off \<or> dtb + off + 16 * length es \<le> a + off"
      using apart fit(1,5) by (auto simp: hi_def so')
  qed (use s fit in \<open>simp_all add: so'\<close>)
  have "8 dvd dtb + off + 16 * length es"
    using t by (simp add: dvd_add)
  then have writes: "write_entries m2 (dtb + off + 16 * length es) (rs @ [(0, 0)]) = Some (m3, dtb + so)"
    using write_entries_stored [of "dtb + off + 16 * length es" "rs @ [(0, 0)]" m2] fit(3)
    by (simp add: m3_def so' algebra_simps)
  have loads: "load_bytes m3 struct n = load_bytes m struct n" "load_bytes m4 string k = load_bytes m string k"
    using apart s by (auto intro!: load_outside [OF outs(3)] load_outside [OF outs(4)] simp: start)
  have "8 dvd dtb + so" using t by (simp add: so' dvd_add flip: add.assoc)
  then have "4 dvd dtb + so" by (rule dvd_trans [rotated]) simp
  moreover have "4 dvd n" using s by simp
  ultimately have align: "align_up (dtb + so + n) 4 = dtb + so + n" by (simp add: align_up_def dvd_add)
  have offs: "get_memory_reservation_start_address m ?h = Some (a + off)"
    using fit(4,5) by (simp add: get_memory_reservation_start_address_def exec_simps a_def off_def get_memory_reservation_offset_def)
  have small: "length rs * 16 < usize_limit" "total + length rs * 16 < usize_limit"
    using t by (simp_all add: u32_limit_def usize_limit_def)
  have enough: "\<not> dtb_len < total + length rs * 16" using t by simp
  have req: "get_required_size m parser (length rs) = Some (total + length rs * 16, 8)"
    using small by (simp add: get_required_size_def umul_def size_of_FdtReserveEntry_def exec_simps total_def)
  have m3: "m3 = target_entries m ?h dtb (es @ rs @ [(0, 0)])"
    using store_append [of m1 "dtb + off" "enc_entries es" "enc_entries (rs @ [(0, 0)])"]
    by (simp add: ms target_entries_def a_def off_def)
  define m6 where "m6 = write_string_offset (write_struct_offset m5 dtb so) dtb (so + n)"
  have "same_outside dtb hi m m6"
    using fit(1,5,6) unfolding m6_def write_string_offset_def write_struct_offset_def writable_write_def
    by (intro same_outside_store outs(5)) (auto simp: hi_def so')
  note gets6 = getters_outside [OF hdr [OF this]]
  have m1': "ptr_copy m (get_fdt_address ?h) dtb (get_memory_reservation_offset m ?h) = m1"
    by (simp add: ptr_copy_def m1_def get_fdt_address_def a_def off_def)
  have m4': "ptr_copy m3 struct (dtb + so) n = m4" and m5': "ptr_copy m4 string (dtb + so + n) k = m5"
    by (simp_all add: ptr_copy_def m4_def [symmetric] m5_def [symmetric] loads)
  have arith: "dtb + off < usize_limit" "dtb + so + n < usize_limit" "so + n + k < usize_limit" "is_multiple_of dtb 4"
    "so mod u32_limit = so" "(so + n) mod u32_limit = so + n" "(so + n + k) mod u32_limit = so + n + k"
    using fit t by (simp_all add: so' is_multiple_of_dvd)
  have "make_dtb m parser dtb dtb_len rs = Some (Inr (), patch_header m5 dtb so (so + n) (so + n + k))"
    unfolding make_dtb_def Let_def req m1'
    using enough copy writes offs arith align
    by (simp add: gets gets6 m4' m5' struct string exec_simps m6_def [symmetric] patch_header_def
        off_def [symmetric] n [symmetric] k [symmetric])
  then show ?thesis by (simp add: m5_def m4_def m3)
qed

lemma load_piece: "load_bytes m1 a1 n = load_bytes m2 a2 n \<Longrightarrow> k + i \<le> n \<Longrightarrow> load_bytes m1 (a1 + k) i = load_bytes m2 (a2 + k) i"
proof -
  assume eq: "load_bytes m1 a1 n = load_bytes m2 a2 n" and le: "k + i \<le> n"
  have piece: "load_bytes m (a + k) i = take i (drop k (load_bytes m a n))" for m a
    using le by (intro nth_equalityI) (simp_all add: add.assoc)
  show ?thesis by (simp add: piece eq)
qed

lemma header_ref_load: "load_bytes m1 a1 40 = load_bytes m2 a2 40 \<Longrightarrow> header_ref m1 a1 = header_ref m2 a2"
  using load_piece [of m1 a1 40 m2 a2 0 4]
  by (simp add: header_ref_def readable_read_def load_piece)

text \<open>What the target holds afterwards.\<close>

lemma target_contents:
  assumes "off = get_memory_reservation_offset m h" and "40 \<le> off" and "so = off + 16 * length es"
    and "so + n + k < u32_limit" and "n = length ss" and "k = length ts"
    and "m' = patch_header (store_bytes (store_bytes (target_entries m h dtb es) (dtb + so) ss) (dtb + so + n) ts)
       dtb so (so + n) (so + n + k)"
  shows "header_ref m' dtb = (header_ref m (dtb_address h))
      \<lparr>total_size := to_be 4 (so + n + k), off_dt_struct := to_be 4 so, off_dt_strings := to_be 4 (so + n)\<rparr>"
    and "stored m' (dtb + off) (enc_entries es)" and "stored m' (dtb + so) ss" and "stored m' (dtb + so + n) ts"
    and "same_outside dtb (dtb + so + n + k) m m'"
proof -
  let ?m3 = "target_entries m h dtb es"
  let ?m5 = "store_bytes (store_bytes ?m3 (dtb + so) ss) (dtb + so + n) ts"
  have "stored ?m5 dtb (load_bytes m (dtb_address h) off)"
    using assms(1-3) by (simp add: target_entries_def stored_store_other)
  then have "load_bytes ?m5 dtb off = load_bytes m (dtb_address h) off"
    by (rule stored_load) simp
  then have "load_bytes ?m5 (dtb + 0) 40 = load_bytes m (dtb_address h + 0) 40"
    using assms(2) by (intro load_piece) simp_all
  then show "header_ref m' dtb = (header_ref m (dtb_address h))
      \<lparr>total_size := to_be 4 (so + n + k), off_dt_struct := to_be 4 so, off_dt_strings := to_be 4 (so + n)\<rparr>"
    using assms(4) header_ref_load [of ?m5 dtb m "dtb_address h"] by (simp add: assms(7) patch_header_fields)
  have patched: "same_outside (dtb + 4) (dtb + 16) ?m5 m'"
    unfolding assms(7) patch_header_store by (intro same_outside_store same_outside_refl) simp_all
  have "stored ?m5 (dtb + off) (enc_entries es)" "stored ?m5 (dtb + so) ss" "stored ?m5 (dtb + so + n) ts"
    using assms(1,3,5) by (simp_all add: target_entries_def stored_store_other)
  then show "stored m' (dtb + off) (enc_entries es)" "stored m' (dtb + so) ss" "stored m' (dtb + so + n) ts"
    using assms(2,3) by (auto intro!: stored_outside [OF patched])
  have "same_outside dtb (dtb + so + n + k) m ?m5"
    unfolding target_entries_def using assms(1,3,5,6) by (intro same_outside_store same_outside_refl) simp_all
  then show "same_outside dtb (dtb + so + n + k) m m'"
    using assms(2,3) patched by (auto simp: same_outside_def)
qed

lemma stored_prefix:
  assumes "stored m' p (load_bytes m a n)" and "stored m a bs" and "length bs \<le> n"
  shows "stored m' p bs"
proof -
  have "take (length bs) (load_bytes m a n) = bs"
    using assms(2,3) by (intro nth_equalityI) (simp_all add: stored_nth)
  then show ?thesis using stored_take [OF assms(1), of "length bs"] by simp
qed

text \<open>The parser of the copy.\<close>

definition parser_at :: "usize \<Rightarrow> DtbParser" where
  "parser_at a = \<lparr>dtb_header = \<lparr>dtb_address = a\<rparr>\<rparr>"

lemma generated:
  assumes src: "source_ok m (dtb_header parser) es" and tgt: "target_ok m (dtb_header parser) dtb dtb_len rs"
    and blob: "blob_at m parser strs a i t j" and strs: "length strs \<le> get_string_size m (dtb_header parser)"
    and init: "DtbParser_init m (dtb_address (dtb_header parser)) = Some (Inr parser)" and rs: "list_all entry_ok rs"
  shows "\<exists>m' a'. make_dtb m parser dtb dtb_len rs = Some (Inr (), m')
    \<and> same_outside dtb (dtb + dtb_len) m m'
    \<and> DtbParser_init m' dtb = Some (Inr (parser_at dtb))
    \<and> find_memory_reservation_block m' (parser_at dtb) collect [] = Some (es @ rs)
    \<and> blob_at m' (parser_at dtb) strs a' i t j"
proof -
  let ?h = "dtb_header parser"
  define off n k so where "off = get_memory_reservation_offset m ?h" and "n = get_struct_size m ?h"
    and "k = get_string_size m ?h" and "so = off + 16 * length (es @ rs @ [(0, 0)])"
  note s = src [unfolded source_ok_def Let_def off_def [symmetric] n_def [symmetric] k_def [symmetric]]
    and g = tgt [unfolded target_ok_def Let_def off_def [symmetric]]
    and b = blob [unfolded blob_at_def n_def [symmetric]]
  obtain sa where sa: "get_string_start_address m ?h = Some sa" "stored m sa strs"
    using b by (auto simp: strings_at_def split: option.splits)
  define m' where "m' = patch_header (store_bytes (store_bytes (target_entries m ?h dtb (es @ rs @ [(0, 0)]))
       (dtb + so) (load_bytes m a n)) (dtb + so + n) (load_bytes m sa k)) dtb so (so + n) (so + n + k)"
  have fit: "so + n + k \<le> dtb_len" "so + n + k < u32_limit" "40 \<le> off" "dtb + dtb_len < usize_limit"
    using s g by (simp_all add: so_def)
  have made: "make_dtb m parser dtb dtb_len rs = Some (Inr (), m')"
    unfolding m'_def using b sa(1)
    by (intro make_dtb_memory [OF src tgt]) (simp_all add: so_def off_def n_def k_def)
  note c = target_contents [OF off_def fit(3) so_def fit(2) _ _ m'_def, simplified]
  let ?hdr = "header_ref m (dtb_address ?h)"
  have gets: "get_memory_reservation_offset m' \<lparr>dtb_address = dtb\<rparr> = off" "get_struct_size m' \<lparr>dtb_address = dtb\<rparr> = n"
    "get_struct_start_address m' \<lparr>dtb_address = dtb\<rparr> = Some (dtb + so)"
    "get_string_start_address m' \<lparr>dtb_address = dtb\<rparr> = Some (dtb + so + n)"
    "get_memory_reservation_start_address m' \<lparr>dtb_address = dtb\<rparr> = Some (dtb + off)"
    using c(1) fit
    by (simp_all add: get_memory_reservation_offset_def get_struct_size_def get_struct_start_address_def
        get_string_start_address_def get_memory_reservation_start_address_def from_be_to_be exec_simps
        off_def [unfolded get_memory_reservation_offset_def] n_def [unfolded get_struct_size_def] so_def)
  have "DtbParser_init m' dtb = Some (Inr (parser_at dtb))"
    using init g c(1)
    by (auto simp: DtbParser_init_def Dtb_new_def try_bind_def parser_at_def is_multiple_of_dvd exec_simps Let_def
        split: if_splits bind_splits)
  moreover have "find_memory_reservation_block m' (parser_at dtb) collect [] = Some (es @ rs)"
    using c(2) g s rs fit reservation_loop_stored [of m' "dtb + off" "es @ rs" collect "[]"]
    by (simp add: find_memory_reservation_block_def parser_at_def gets so_def add.assoc)
  moreover have "blob_at m' (parser_at dtb) strs (dtb + so) i t j"
  proof -
    have "8 dvd dtb + so" using g by (simp add: so_def dvd_add flip: add.assoc)
    then have "4 dvd dtb + so" by (rule dvd_trans [rotated]) simp
    moreover have "stored m' (dtb + so) (struct_bytes i t j)" "stored m' (dtb + so + n) strs"
      using stored_prefix [OF c(3)] stored_prefix [OF c(4) sa(2)] b strs by (simp_all add: k_def)
    ultimately show ?thesis
      using b fit strs by (simp add: blob_at_def parser_at_def gets strings_at_def k_def)
  qed
  moreover have "same_outside dtb (dtb + dtb_len) m m'"
    using c(5) fit(1) by (auto simp: same_outside_def)
  ultimately show ?thesis using made by blast
qed

end
