(* ===== verification/Dtb_Blob.thy ===== *)
theory Dtb_Blob
  imports Dtb_Generator_Proofs
begin

text \<open>
  A whole device tree blob as bytes: header, memory reservation block, structure block and strings block one
  behind the other, the layout that the specification of the format gives. Wherever these bytes lie
  in memory, the parser accepts them and finds the entries, the tree and the names.
\<close>

definition flat_blob :: "(usize \<times> usize) list \<Rightarrow> nat \<Rightarrow> fdt_tree \<Rightarrow> nat \<Rightarrow> byte list \<Rightarrow> byte list" where
  "flat_blob es i t j strs =
     (let so = 40 + 16 * (length es + 1); sb = struct_bytes i t j in
      concat (map (be_bytes 4) [DTB_HEADER_MAGIC, so + length sb + length strs, so, so + length sb, 40, 17, 16, 0,
        length strs, length sb])
      @ enc_entries (es @ [(0, 0)]) @ sb @ strs)"

definition blob_size :: "(usize \<times> usize) list \<Rightarrow> nat \<Rightarrow> fdt_tree \<Rightarrow> nat \<Rightarrow> byte list \<Rightarrow> nat" where
  "blob_size es i t j strs = 40 + 16 * (length es + 1) + length (struct_bytes i t j) + length strs"

lemma struct_bytes_dvd: "4 dvd length (struct_bytes i t j)"
  using enc_tree_dvd [of t] by (simp add: struct_bytes_def enc_nops_length dvd_add)

lemma flat_blob_pieces:
  assumes "stored m a (flat_blob es i t j strs)"
  defines "so \<equiv> 40 + 16 * (length es + 1)" and "n \<equiv> length (struct_bytes i t j)"
  shows "stored m a (be_bytes 4 DTB_HEADER_MAGIC)" "stored m (a + 4) (be_bytes 4 (blob_size es i t j strs))"
    "stored m (a + 8) (be_bytes 4 so)" "stored m (a + 12) (be_bytes 4 (so + n))"
    "stored m (a + 16) (be_bytes 4 40)" "stored m (a + 24) (be_bytes 4 16)"
    "stored m (a + 32) (be_bytes 4 (length strs))" "stored m (a + 36) (be_bytes 4 n)"
    "stored m (a + 40) (enc_entries (es @ [(0, 0)]))" "stored m (a + so) (struct_bytes i t j)" "stored m (a + so + n) strs"
  using assms(1)
  by (simp_all add: flat_blob_def blob_size_def Let_def so_def n_def ac_simps)

text \<open>Everything the parser and the generator ask of a device tree.\<close>

lemma flat_blob_ok:
  assumes "stored m a (flat_blob es i t j strs)" and "8 dvd a" and "blob_size es i t j strs < u32_limit"
    and "a + blob_size es i t j strs < usize_limit" and "list_all entry_ok es" and "tree_ok strs t"
  shows "DtbParser_init m a = Some (Inr (parser_at a))" and "DtbParser_get_size m (parser_at a) = blob_size es i t j strs"
    and "source_ok m (dtb_header (parser_at a)) es"
    and "blob_at m (parser_at a) strs (a + 40 + 16 * (length es + 1)) i t j"
proof -
  let ?so = "40 + 16 * (length es + 1)" and ?n = "length (struct_bytes i t j)"
  note pieces = flat_blob_pieces [OF assms(1)]
  have lt: "?so < 2 ^ 32" "?so + ?n < 2 ^ 32" "length strs < 2 ^ 32" "?n < 2 ^ 32" "blob_size es i t j strs < 2 ^ 32"
    using assms(3) by (simp_all add: blob_size_def u32_limit_def)
  then have fields: "from_be 4 (magic (header_ref m a)) = DTB_HEADER_MAGIC"
    "from_be 4 (last_comp_version (header_ref m a)) = 16"
    "get_total_size m \<lparr>dtb_address = a\<rparr> = blob_size es i t j strs"
    "get_memory_reservation_offset m \<lparr>dtb_address = a\<rparr> = 40"
    "get_struct_size m \<lparr>dtb_address = a\<rparr> = ?n" "get_string_size m \<lparr>dtb_address = a\<rparr> = length strs"
    "from_be 4 (off_dt_struct (header_ref m a)) = ?so"
    "from_be 4 (off_dt_strings (header_ref m a)) = ?so + ?n"
    using pieces
    by (simp_all add: header_ref_def get_total_size_def get_memory_reservation_offset_def get_struct_size_def
        get_string_size_def read_stored be_value_be_bytes DTB_HEADER_MAGIC_def del: mult_Suc_right)
  have dvd: "4 dvd a" using assms(2) by (rule dvd_trans [rotated]) simp
  have so: "8 dvd ?so" by presburger
  then have "8 dvd a + ?so" using assms(2) by (rule dvd_add [rotated])
  then have "4 dvd a + ?so" by (rule dvd_trans [rotated]) simp
  show "DtbParser_init m a = Some (Inr (parser_at a))"
    using fields dvd
    by (simp add: DtbParser_init_def Dtb_new_def try_bind_def parser_at_def is_multiple_of_def exec_simps DTB_VERSION_def Let_def)
  show "DtbParser_get_size m (parser_at a) = blob_size es i t j strs"
    using fields by (simp add: DtbParser_get_size_def parser_at_def)
  show "source_ok m (dtb_header (parser_at a)) es"
    using fields pieces(9) assms(2,4,5) struct_bytes_dvd [of i t j]
    by (simp add: source_ok_def parser_at_def Let_def blob_size_def dvd_add)
  show "blob_at m (parser_at a) strs (a + 40 + 16 * (length es + 1)) i t j"
    using fields pieces(10,11) assms(4,6) \<open>4 dvd a + ?so\<close>
    by (simp add: blob_at_def parser_at_def strings_at_def get_struct_start_address_def get_string_start_address_def
        exec_simps blob_size_def add.assoc)
qed

end
