(* ===== verification/Dtb_Spec.thy ===== *)
theory Dtb_Spec
  imports Dtb_Blob
begin

text \<open>
  The properties of the device tree parser and generator, with a small device tree in memory: one
  reservation, a root with one cell for addresses and sizes, and a memory node.
\<close>

section \<open>A device tree in memory\<close>

definition demo_strs :: "byte list" where
  "demo_strs = ADDRESS_CELLS @ 0 # SIZE_CELLS @ 0 # PROP_DEVICE_NAME @ 0 # PROP_REG @ [0]"

definition demo_tree :: fdt_tree where
  "demo_tree = Tree [] [Property 0 (be_bytes 4 1), Nop, Property 15 (be_bytes 4 1)]
     [(Tree (str_bytes ''memory@80'')
        [Property 27 (str_bytes ''memory'' @ [0]), Property 39 [0, 0, 0, 0x80, 0, 0, 0, 0x20]] [], 1)]"

definition demo_memory :: memory where
  "demo_memory = store_bytes (\<lambda>_. 0) 4096 (flat_blob [(0x1000, 0x100)] 1 demo_tree 0 demo_strs)"

lemma demo_stored: "stored demo_memory 4096 (flat_blob [(0x1000, 0x100)] 1 demo_tree 0 demo_strs)"
  by (simp add: demo_memory_def)

lemma demo_size: "blob_size [(0x1000, 0x100)] 1 demo_tree 0 demo_strs = 235"
  by code_simp

lemma demo_names:
  "name_in demo_strs 0 = ADDRESS_CELLS" "name_in demo_strs 15 = SIZE_CELLS" "name_in demo_strs 27 = PROP_DEVICE_NAME"
  "name_in demo_strs 39 = PROP_REG"
  "0 \<in> set (drop 0 demo_strs)" "0 \<in> set (drop 15 demo_strs)" "0 \<in> set (drop 27 demo_strs)" "0 \<in> set (drop 39 demo_strs)"
  by code_simp+

lemma demo_utf8:
  "valid_utf8 ADDRESS_CELLS" "valid_utf8 SIZE_CELLS" "valid_utf8 PROP_DEVICE_NAME" "valid_utf8 PROP_REG"
  "str_ok (str_bytes ''memory@80'')" "str_ok []"
  by code_simp+

lemma demo_tree_ok: "tree_ok demo_strs demo_tree"
  using demo_names demo_utf8 by (simp add: demo_tree_def u32_limit_def str_bytes_def)

lemma demo_device:
  "tree_good device_good demo_strs demo_tree" "tree_good reserved_good demo_strs demo_tree"
  "tree_regular demo_strs (Some (str_bytes ''memory'')) None None demo_tree"
  "device_regs demo_strs (Some (str_bytes ''memory'')) None (0, 0) demo_tree = [(0x80, 0x20)]"
  by code_simp+

lemma demo_dtb_ok:
  "DtbParser_init demo_memory 4096 = Some (Inr (parser_at 4096))" "DtbParser_get_size demo_memory (parser_at 4096) = 235"
  "source_ok demo_memory (dtb_header (parser_at 4096)) [(0x1000, 0x100)]"
  "blob_at demo_memory (parser_at 4096) demo_strs 4168 1 demo_tree 0"
  using flat_blob_ok [OF demo_stored] demo_size demo_tree_ok
  by (simp_all add: u32_limit_def usize_limit_def entry_ok_def)

lemmas demo_blob_at = demo_dtb_ok(4)

lemma demo_header:
  "get_memory_reservation_offset demo_memory \<lparr>dtb_address = 4096\<rparr> = 40" "get_total_size demo_memory \<lparr>dtb_address = 4096\<rparr> = 235"
  "get_string_size demo_memory \<lparr>dtb_address = 4096\<rparr> = length demo_strs"
  using flat_blob_pieces(5,7) [OF demo_stored] demo_dtb_ok(2) demo_size
  by (simp_all add: get_memory_reservation_offset_def get_string_size_def DtbParser_get_size_def parser_at_def
      header_ref_def read_stored be_value_be_bytes blob_size_def)

lemma demo_target: "target_ok demo_memory (dtb_header (parser_at 4096)) 8192 251 [(0x2000, 0x40)]"
  using demo_header by (simp add: target_ok_def parser_at_def u32_limit_def usize_limit_def)

section \<open>Properties\<close>

text \<open>
  C10. \<open>find_node\<close> on a well-formed device tree returns \<open>Ok\<close> and calls its callback with exactly the
  address and size pairs of the \<open>reg\<close> properties of the nodes whose \<open>device_type\<close> or
  \<open>compatible\<close> matches, in document order, each read with the \<open>#address-cells\<close> and \<open>#size-cells\<close> of its parent,
  up to the first call that answers \<open>Break\<close>; a callback that panics makes it panic. This holds of every
  callback, for trees without \<open>ranges\<close> in which every matching node has a \<open>reg\<close> of whole entries.
\<close>

theorem find_node_reports_devices:
  assumes "blob_at m parser strs a i t j" and "tree_good device_good strs t" and "tree_regular strs d c None t"
    and "(d = None) \<noteq> (c = None)"
  shows "find_node m parser d c f s = map_option (\<lambda>r. (Inr (), snd r)) (each f (device_regs strs d c (0, 0) t) s)"
  using assms by (rule find_node_each)

theorem find_node_reports_devices_witness:
  "find_node demo_memory (parser_at 4096) (Some (str_bytes ''memory'')) None collect [] = Some (Inr (), [(0x80, 0x20)])"
  using find_node_reports_devices [OF demo_blob_at demo_device(1,3), of collect "[]"] demo_device(4) by (simp add: collect_def)

text \<open>
  C11. \<open>find_reserved_memory_node\<close> implements a recursion over the tree, whatever its callbacks do: on a
  stored tree the walk over the structure block visits the nodes in document order, skips what the depth
  limit cuts off, stops at a \<open>Break\<close> or an error and otherwise ends behind the tree at \<open>FDT_END\<close>.
\<close>

theorem find_reserved_memory_node_refines:
  assumes "blob_at m parser strs a i t j" and "tree_good reserved_good strs t"
  shows "find_reserved_memory_node m parser f dynamic s =
    search_result (visit_tree strs reserved_item (reserved_visitor m parser f dynamic) None (Some 1) (a + 4 * i) t s)"
  using reserved.search_tree [OF assms, of f dynamic "Some 1" s] by (simp add: find_reserved_memory_node_def)

theorem find_reserved_memory_node_refines_witness:
  "find_reserved_memory_node demo_memory (parser_at 4096) collect (\<lambda>sz al range s. Some (Inl (), s)) [] =
    search_result (visit_tree demo_strs reserved_item
      (reserved_visitor demo_memory (parser_at 4096) collect (\<lambda>sz al range s. Some (Inl (), s))) None (Some 1) 4172 demo_tree [])"
  using find_reserved_memory_node_refines [OF demo_blob_at demo_device(2), of collect "\<lambda>sz al range s. Some (Inl (), s)" "[]"]
  by simp

text \<open>
  C33. \<open>skip_node\<close> ends on every encoded tree, without a panic, and leaves the pointer exactly behind it.
\<close>

theorem skip_node_consumes_tree:
  assumes "stored m p (enc_tree t)" and "tree_ok strs t" and "4 dvd p" and "p + length (enc_tree t) < usize_limit"
  shows "skip_node m p = Some (Inr (p + length (enc_tree t)))"
  using assms by (rule skip_node_stored)

theorem skip_node_consumes_tree_witness: "skip_node demo_memory 4172 = Some (Inr 4284)"
proof -
  have len: "length (enc_tree demo_tree) = 112" by code_simp
  have "stored demo_memory 4172 (enc_tree demo_tree)"
    using flat_blob_pieces(10) [OF demo_stored] by (simp add: struct_bytes_def)
  from skip_node_consumes_tree [OF this demo_tree_ok] show ?thesis
    by (simp add: len usize_limit_def)
qed

text \<open>
  C9. The copy that \<open>make_dtb\<close> writes is a device tree again: it is accepted by the parser, its memory
  reservation block lists the old entries followed by the new ones, it holds the same tree with the
  same names, and nothing outside the target slice has changed.
\<close>

theorem make_dtb_preserves_tree:
  assumes "source_ok m (dtb_header parser) es" and "target_ok m (dtb_header parser) dtb dtb_len rs"
    and "blob_at m parser strs a i t j" and "length strs \<le> get_string_size m (dtb_header parser)"
    and "DtbParser_init m (dtb_address (dtb_header parser)) = Some (Inr parser)" and "list_all entry_ok rs"
  shows "\<exists>m' a'. make_dtb m parser dtb dtb_len rs = Some (Inr (), m')
    \<and> (\<forall>x. x < dtb \<or> dtb + dtb_len \<le> x \<longrightarrow> m' x = m x)
    \<and> DtbParser_init m' dtb = Some (Inr (parser_at dtb))
    \<and> find_memory_reservation_block m' (parser_at dtb) collect [] = Some (es @ rs)
    \<and> blob_at m' (parser_at dtb) strs a' i t j"
  using generated [OF assms] by (simp add: same_outside_def)

theorem make_dtb_preserves_tree_witness:
  "\<exists>m' a'. make_dtb demo_memory (parser_at 4096) 8192 251 [(0x2000, 0x40)] = Some (Inr (), m')
    \<and> find_memory_reservation_block m' (parser_at 8192) collect [] = Some [(0x1000, 0x100), (0x2000, 0x40)]
    \<and> blob_at m' (parser_at 8192) demo_strs a' 1 demo_tree 0"
proof -
  have "length demo_strs \<le> get_string_size demo_memory (dtb_header (parser_at 4096))"
    using demo_header(3) by (simp add: parser_at_def)
  moreover have "DtbParser_init demo_memory (dtb_address (dtb_header (parser_at 4096))) = Some (Inr (parser_at 4096))"
    using demo_dtb_ok(1) by (simp add: parser_at_def)
  moreover have "list_all entry_ok [(0x2000, 0x40)]"
    by (simp add: entry_ok_def usize_limit_def)
  ultimately show ?thesis
    using make_dtb_preserves_tree [OF demo_dtb_ok(3) demo_target demo_blob_at] by auto
qed

end
