(* ===== verification/Intrusive_List.thy ===== *)
theory Intrusive_List
  imports Prelude
begin

text \<open>
  The intrusive linked list, \<open>src/intrusive_linked_list/src/lib.rs\<close>. A node is a block of memory
  whose first word is the \<open>next\<close> field; \<open>links\<close> gives that word for every address, with
  \<^term>\<open>None\<close> for the null niche of \<open>Option<NonNull<_>>\<close>. The list itself is the \<open>next\<close> field of a
  head that is not a node.

  The traversals are partial functions: on a cyclic chain they do not return, which is \<^term>\<open>None\<close>
  like a panic. The lemmas show that on a chain they return and implement the list operations.
\<close>

type_synonym links = "usize \<Rightarrow> usize option"

type_synonym link = "usize option"

definition list_new :: link where
  "list_new = None"

definition list_is_none :: "link \<Rightarrow> bool" where
  "list_is_none head = (head = None)"

text \<open>\<open>NonNull::new_unchecked\<close>: its precondition is checked in a debug build.\<close>

definition new_unchecked :: "usize \<Rightarrow> usize option" where
  "new_unchecked ptr = do { rust_assert (ptr \<noteq> 0); Some ptr }"

definition list_push :: "links \<Rightarrow> link \<Rightarrow> usize \<Rightarrow> (links \<times> link) option" where
  "list_push m head ptr = do {
     node \<leftarrow> new_unchecked ptr;
     Some (m(node := head), Some node)
   }"

partial_function (option) last_node :: "links \<Rightarrow> usize \<Rightarrow> usize option" where
  "last_node m node = (case m node of None \<Rightarrow> Some node | Some nx \<Rightarrow> last_node m nx)"

definition list_push_back :: "links \<Rightarrow> link \<Rightarrow> usize \<Rightarrow> (links \<times> link) option" where
  "list_push_back m head ptr = do {
     node \<leftarrow> new_unchecked ptr;
     let m1 = m(node := None);
     (case head of
        None \<Rightarrow> Some (m1, Some node)
      | Some first \<Rightarrow> do {
          l \<leftarrow> last_node m1 first;
          Some (m1(l := Some node), head)
        })
   }"

definition list_pop :: "links \<Rightarrow> link \<Rightarrow> usize option \<times> link" where
  "list_pop m head = (case head of None \<Rightarrow> (None, None) | Some node \<Rightarrow> (Some node, m node))"

partial_function (option) remove_loop :: "links \<Rightarrow> usize \<Rightarrow> usize \<Rightarrow> (bool \<times> links) option" where
  "remove_loop m node ptr =
     (case m node of
        None \<Rightarrow> Some (False, m)
      | Some nx \<Rightarrow> if nx = ptr then Some (True, m(node := m nx)) else remove_loop m nx ptr)"

definition list_remove_if :: "links \<Rightarrow> link \<Rightarrow> usize \<Rightarrow> (bool \<times> links \<times> link) option" where
  "list_remove_if m head ptr =
     (case head of
        None \<Rightarrow> Some (False, m, head)
      | Some node \<Rightarrow>
          if node = ptr then Some (True, m, m node)
          else do {
            (found, m1) \<leftarrow> remove_loop m node ptr;
            Some (found, m1, head)
          })"

partial_function (option) sort_position :: "links \<Rightarrow> usize \<Rightarrow> usize \<Rightarrow> usize option" where
  "sort_position m prev ptr =
     (case m prev of
        None \<Rightarrow> Some prev
      | Some current \<Rightarrow> if ptr < current then Some prev else sort_position m current ptr)"

definition list_add_with_sort :: "links \<Rightarrow> link \<Rightarrow> usize \<Rightarrow> (links \<times> link) option" where
  "list_add_with_sort m head ptr = do {
     node \<leftarrow> new_unchecked ptr;
     (case head of
        None \<Rightarrow> Some (m(node := head), Some node)
      | Some first \<Rightarrow>
          if ptr < first then Some (m(node := head), Some node)
          else do {
            prev \<leftarrow> sort_position m first ptr;
            Some ((m(node := m prev))(prev := Some node), head)
          })
   }"

partial_function (option) size_loop :: "links \<Rightarrow> link \<Rightarrow> nat \<Rightarrow> nat option" where
  "size_loop m node counter =
     (case node of
        None \<Rightarrow> Some counter
      | Some p \<Rightarrow> Option.bind (uadd counter 1) (size_loop m (m p)))"

definition list_size :: "links \<Rightarrow> link \<Rightarrow> nat option" where
  "list_size m head = size_loop m head 0"

definition list_get_next :: "link \<Rightarrow> link" where
  "list_get_next head = head"

section \<open>Chains\<close>

text \<open>The chain from a link visits the nodes \<open>xs\<close> in this order.\<close>

fun path :: "links \<Rightarrow> link \<Rightarrow> usize list \<Rightarrow> bool" where
  "path m h [] \<longleftrightarrow> h = None"
| "path m h (x # xs) \<longleftrightarrow> h = Some x \<and> path m (m x) xs"

definition chain :: "links \<Rightarrow> link \<Rightarrow> usize list \<Rightarrow> bool" where
  "chain m h xs \<longleftrightarrow> path m h xs \<and> distinct xs"

lemma path_cong: "\<forall>x \<in> set xs. m' x = m x \<Longrightarrow> path m' h xs = path m h xs"
  by (induction xs arbitrary: h) auto

lemma path_fresh [simp]: "p \<notin> set xs \<Longrightarrow> path (m(p := v)) h xs = path m h xs"
  by (rule path_cong) auto

lemma path_append:
  "path m h (xs @ ys) \<longleftrightarrow>
     (if xs = [] then path m h ys
      else path (m(last xs := None)) h xs \<and> path m (m (last xs)) ys)"
  if "distinct xs"
  using that
proof (induction xs arbitrary: h)
  case (Cons x xs)
  show ?case
  proof (cases "xs = []")
    case False
    then have "x \<noteq> last xs" using Cons.prems last_in_set by force
    with False Cons show ?thesis by auto
  qed simp
qed simp

lemma chain_frame: "chain m h xs \<Longrightarrow> \<forall>x \<in> set xs. m' x = m x \<Longrightarrow> chain m' h xs"
  using path_cong [of xs m' m h] by (simp add: chain_def)

lemma path_last: "path m h (ys @ [y]) \<Longrightarrow> m y = None"
  by (induction ys arbitrary: h) auto

lemma chain_empty_iff: "chain m h xs \<Longrightarrow> list_is_none h \<longleftrightarrow> xs = []"
  by (cases xs) (auto simp: chain_def list_is_none_def)

text \<open>Redirecting the last link of a chain.\<close>

lemma path_relink:
  assumes "distinct (xs @ [x])" and "path (m(x := None)) h (xs @ [x])" and "path m' (m' x) ys"
    and "\<forall>y \<in> set xs. m' y = m y"
  shows "path m' h (xs @ x # ys)"
  using assms
proof (induction xs arbitrary: h)
  case (Cons z zs)
  have "m' z = (m(x := None)) z" using Cons.prems(1,4) by auto
  then show ?case using Cons by auto
qed auto

section \<open>The operations on chains\<close>

lemma list_push_ok:
  assumes "chain m h xs" and "p \<notin> set xs" and "p \<noteq> 0"
  shows "\<exists>m' h'. list_push m h p = Some (m', h') \<and> chain m' h' (p # xs)
     \<and> (\<forall>q. q \<noteq> p \<longrightarrow> m' q = m q)"
  using assms by (simp add: list_push_def new_unchecked_def rust_assert_def chain_def)

lemma list_pop_ok:
  assumes "chain m h (x # xs)"
  shows "list_pop m h = (Some x, m x)" and "chain m (m x) xs"
  using assms by (auto simp: list_pop_def chain_def)

lemma list_pop_empty: "chain m h [] \<Longrightarrow> list_pop m h = (None, None)"
  by (simp add: chain_def list_pop_def)

lemma last_node_path:
  "path m (Some x) (xs @ [y]) \<Longrightarrow> last_node m x = Some y"
proof (induction xs arbitrary: x)
  case Nil
  then show ?case by (subst last_node.simps) simp
next
  case (Cons z zs)
  then have "x = z" "path m (m x) (zs @ [y])" by auto
  moreover from this(2) obtain w where "m x = Some w" by (cases zs) auto
  ultimately show ?case using Cons.IH [of w] by (subst last_node.simps) simp
qed

lemma list_push_back_ok:
  assumes "chain m h xs" and "p \<notin> set xs" and "p \<noteq> 0"
  shows "\<exists>m' h'. list_push_back m h p = Some (m', h') \<and> chain m' h' (xs @ [p])
     \<and> (\<forall>q. q \<notin> insert p (set xs) \<longrightarrow> m' q = m q)"
proof (cases xs rule: rev_cases)
  case Nil
  then show ?thesis
    using assms by (simp add: list_push_back_def new_unchecked_def rust_assert_def chain_def)
next
  case (snoc ys y)
  let ?m = "m(p := None)"
  obtain x where h: "h = Some x" using assms(1) snoc by (cases ys) (auto simp: chain_def)
  have ne: "p \<noteq> y" "p \<notin> set ys" using assms(2) snoc by auto
  have path: "path ?m (Some x) (ys @ [y])" using assms(1,2) snoc h by (simp add: chain_def)
  then have last: "last_node ?m x = Some y" by (rule last_node_path)
  have "y \<notin> set ys" using assms(1) snoc by (simp add: chain_def)
  have pn: "path (?m(y := None)) (Some x) (ys @ [y])"
    using path path_last [OF path] by (simp add: fun_upd_idem)
  have dy: "distinct (ys @ [y])" using assms(1) snoc by (simp add: chain_def)
  have pp: "path (?m(y := Some p)) ((?m(y := Some p)) y) [p]" using ne by simp
  have fr: "\<forall>z \<in> set ys. (?m(y := Some p)) z = ?m z" using \<open>y \<notin> set ys\<close> by auto
  have "path (?m(y := Some p)) (Some x) (ys @ y # [p])" by (rule path_relink [OF dy pn pp fr])
  then have "chain (?m(y := Some p)) h (xs @ [p])" using assms snoc h by (simp add: chain_def)
  moreover have "list_push_back m h p = Some (?m(y := Some p), h)"
    using h last assms(3) by (simp add: list_push_back_def new_unchecked_def rust_assert_def)
  ultimately show ?thesis using snoc by auto
qed

lemma remove_loop_path:
  assumes "path m (m x) xs" and "distinct (x # xs)"
  shows "\<exists>m'. remove_loop m x p = Some (p \<in> set xs, m') \<and> path m' (m' x) (remove1 p xs)
     \<and> (\<forall>q. q \<notin> set (x # xs) \<longrightarrow> m' q = m q)"
  using assms
proof (induction xs arbitrary: x)
  case Nil
  then show ?case by (subst remove_loop.simps) auto
next
  case (Cons z zs)
  have mx: "m x = Some z" and pz: "path m (m z) zs" using Cons.prems(1) by auto
  show ?case
  proof (cases "z = p")
    case True
    have "path (m(x := m z)) (m z) zs" using pz Cons.prems(2) by simp
    then show ?thesis using True mx by (subst remove_loop.simps) auto
  next
    case False
    obtain m' where m': "remove_loop m z p = Some (p \<in> set zs, m')" "path m' (m' z) (remove1 p zs)"
      "\<forall>q. q \<notin> set (z # zs) \<longrightarrow> m' q = m q"
      using Cons.IH [OF pz] Cons.prems(2) by auto
    have "m' x = Some z" using m'(3) mx Cons.prems(2) by auto
    then show ?thesis using m' False mx by (subst remove_loop.simps) auto
  qed
qed

lemma list_remove_if_ok:
  assumes "chain m h xs"
  shows "\<exists>m' h'. list_remove_if m h p = Some (p \<in> set xs, m', h') \<and> chain m' h' (remove1 p xs)
     \<and> (\<forall>q. q \<notin> set xs \<longrightarrow> m' q = m q)"
proof (cases xs)
  case Nil
  then show ?thesis using assms by (auto simp: list_remove_if_def chain_def)
next
  case (Cons x xs')
  have c: "h = Some x" "path m (m x) xs'" "distinct (x # xs')" using assms Cons by (auto simp: chain_def)
  show ?thesis
  proof (cases "x = p")
    case True
    then show ?thesis using c Cons by (auto simp: list_remove_if_def chain_def)
  next
    case False
    obtain m' where "remove_loop m x p = Some (p \<in> set xs', m')" "path m' (m' x) (remove1 p xs')"
      "\<forall>q. q \<notin> set (x # xs') \<longrightarrow> m' q = m q"
      using remove_loop_path [OF c(2,3)] by blast
    then show ?thesis using c Cons False distinct_remove1
      by (auto simp: list_remove_if_def chain_def notin_set_remove1)
  qed
qed

text \<open>Where the new node goes: behind every leading node that is not greater.\<close>

definition sorted_at :: "usize \<Rightarrow> usize list \<Rightarrow> usize list" where
  "sorted_at p xs = takeWhile (\<lambda>x. x \<le> p) xs @ p # dropWhile (\<lambda>x. x \<le> p) xs"

lemma sorted_at_set [simp]: "set (sorted_at p xs) = insert p (set xs)"
  unfolding sorted_at_def by (metis Un_insert_right list.simps(15) set_append takeWhile_dropWhile_id)

lemma sorted_at_insort: "p \<notin> set xs \<Longrightarrow> sorted_at p xs = insort p xs"
  by (induction xs) (auto simp: sorted_at_def)

lemma sort_position_path:
  assumes "path m (m x) xs"
  shows "sort_position m x p = Some (last (x # takeWhile (\<lambda>x. x \<le> p) xs))"
  using assms by (induction xs arbitrary: x; subst sort_position.simps) auto

lemma list_add_with_sort_ok:
  assumes c: "chain m h xs" and p: "p \<notin> set xs" "p \<noteq> 0"
  shows "\<exists>m' h'. list_add_with_sort m h p = Some (m', h') \<and> chain m' h' (insort p xs)
     \<and> (\<forall>q. q \<notin> insert p (set xs) \<longrightarrow> m' q = m q)"
proof (cases "xs = [] \<or> p < hd xs")
  case True
  then have "insort p xs = p # xs" by (cases xs) auto
  then show ?thesis
    using True c p
    by (cases xs) (auto simp: list_add_with_sort_def new_unchecked_def rust_assert_def chain_def)
next
  case False
  then obtain x xs' where xs: "xs = x # xs'" and le: "x \<le> p" by (cases xs) auto
  define as where "as = takeWhile (\<lambda>x. x \<le> p) xs"
  define bs where "bs = dropWhile (\<lambda>x. x \<le> p) xs"
  have split: "xs = as @ bs" and ne: "as \<noteq> []" using xs le by (auto simp: as_def bs_def)
  have h: "h = Some x" and path: "path m (m x) xs'" using c xs by (auto simp: chain_def)
  have as_x: "as = x # takeWhile (\<lambda>x. x \<le> p) xs'" using xs le by (simp add: as_def)
  have pos: "sort_position m x p = Some (last as)" using sort_position_path [OF path] as_x by simp
  let ?l = "last as"
  let ?m = "(m(p := m ?l))(?l := Some p)"
  have d: "distinct (as @ bs)" using c split by (simp add: chain_def)
  have la: "?l \<in> set as" using ne by simp
  then have l: "?l \<in> set as" "?l \<noteq> p" "?l \<notin> set bs" "p \<notin> set as" "p \<notin> set bs"
    using p(1) split d by auto
  have two: "path (m(?l := None)) h as" "path m (m ?l) bs"
    using c split ne d by (auto simp: chain_def path_append)
  have eq: "butlast as @ [?l] = as" using ne by simp
  have da: "distinct (butlast as @ [?l])" using d eq by simp
  have "path ?m h (butlast as @ ?l # (p # bs))"
  proof (rule path_relink [OF da])
    show "path (m(?l := None)) h (butlast as @ [?l])" using two(1) eq by simp
    show "path ?m (?m ?l) (p # bs)" using two(2) l by simp
    show "\<forall>y \<in> set (butlast as). ?m y = m y" using da l(4) by (auto dest: in_set_butlastD)
  qed
  then have "path ?m h (as @ p # bs)" using ne by (metis append_butlast_last_id append.assoc append_Cons append_Nil)
  moreover have "as @ p # bs = insort p xs" using sorted_at_insort [OF p(1)] by (simp add: sorted_at_def as_def bs_def)
  moreover have "distinct (insort p xs)" using c p by (simp add: chain_def distinct_insort)
  ultimately have "chain ?m h (insort p xs)" by (simp add: chain_def)
  moreover have "list_add_with_sort m h p = Some (?m, h)"
    using h pos p(2) le by (simp add: list_add_with_sort_def new_unchecked_def rust_assert_def)
  ultimately show ?thesis using l split by auto
qed

lemma size_loop_path:
  "path m h xs \<Longrightarrow> n + length xs < usize_limit \<Longrightarrow> size_loop m h n = Some (n + length xs)"
proof (induction xs arbitrary: h n)
  case Nil
  then show ?case by (subst size_loop.simps) simp
next
  case (Cons x xs)
  then show ?case by (subst size_loop.simps) (simp add: uadd_def)
qed

lemma list_size_ok: "chain m h xs \<Longrightarrow> length xs < usize_limit \<Longrightarrow> list_size m h = Some (length xs)"
  using size_loop_path [of m h xs 0] by (simp add: list_size_def chain_def)

end
