(* ===== verification/Range_List.thy ===== *)
theory Range_List
  imports Prelude
begin

text \<open>
  The range list allocator, \<open>src/allocator/src/range_list_allocator.rs\<close>: two arrays of memory
  regions, the free ones and the reserved ones, each with its used size and its capacity.

  The definitions follow the source function by function on the arrays themselves (\<open>copy_within\<close>,
  indices, \<open>u32\<close> sizes); the debug assertions and every overflow are panics. The lemmas show that
  the arrays implement sorted lists of disjoint regions (\<^verbatim>\<open>regions_ok\<close>) and that each operation
  has its set-level meaning on the addresses covered (\<^verbatim>\<open>cover\<close>).
\<close>

section \<open>Data\<close>

record MemoryRegions =
  address :: usize
  mr_size :: usize

definition from_parts :: "usize \<Rightarrow> usize \<Rightarrow> MemoryRegions" where
  "from_parts a s = \<lparr>address = a, mr_size = s\<rparr>"

definition region_end :: "MemoryRegions \<Rightarrow> usize option" where
  "region_end r = uadd (address r) (mr_size r)"

datatype RegionData =
    Global "MemoryRegions list"
  | Heap usize "MemoryRegions list"

fun deref :: "RegionData \<Rightarrow> MemoryRegions list" where
  "deref (Global rs) = rs"
| "deref (Heap p rs) = rs"

fun deref_mut :: "RegionData \<Rightarrow> MemoryRegions list \<Rightarrow> RegionData" where
  "deref_mut (Global _) rs = Global rs"
| "deref_mut (Heap p _) rs = Heap p rs"

record MemoryBlock =
  regions :: RegionData
  reserved_regions :: RegionData
  region_size :: nat
  reserved_region_size :: nat
  region_capacity :: nat
  reserved_region_capacity :: nat
  allocatable :: bool

definition zero_region :: MemoryRegions where
  "zero_region = \<lparr>address = 0, mr_size = 0\<rparr>"

definition MemoryBlock_init :: MemoryBlock where
  "MemoryBlock_init =
     \<lparr>regions = Global (replicate 128 zero_region),
      reserved_regions = Global (replicate 128 zero_region),
      region_size = 0, reserved_region_size = 0,
      region_capacity = 128, reserved_region_capacity = 128,
      allocatable = False\<rparr>"

definition is_finalized :: "MemoryBlock \<Rightarrow> bool" where
  "is_finalized mb = allocatable mb"

section \<open>Adding a region\<close>

definition insert_region ::
  "MemoryRegions list \<Rightarrow> nat \<Rightarrow> nat \<Rightarrow> MemoryRegions \<Rightarrow> (MemoryRegions list \<times> nat) option" where
  "insert_region rs n insertion_point r = do {
     _ \<leftarrow> (if 0 < insertion_point then do {
             pre \<leftarrow> slice_get rs (insertion_point - 1);
             e \<leftarrow> region_end pre;
             rust_assert (e \<le> address r)
           } else Some ());
     _ \<leftarrow> (if insertion_point < n then do {
             nx \<leftarrow> slice_get rs insertion_point;
             e \<leftarrow> region_end r;
             rust_assert (e \<le> address nx)
           } else Some ());
     rs1 \<leftarrow> copy_within rs insertion_point n (insertion_point + 1);
     rs2 \<leftarrow> slice_set rs1 insertion_point r;
     n1 \<leftarrow> u32_add n 1;
     Some (rs2, n1)
   }"

definition add_and_merge_region ::
  "MemoryRegions list \<Rightarrow> nat \<Rightarrow> nat \<Rightarrow> MemoryRegions \<Rightarrow> (MemoryRegions list \<times> nat) option" where
  "add_and_merge_region rs n x r = do {
     pre_region_overlaps \<leftarrow>
       (if 0 < x then do {
          pre \<leftarrow> slice_get rs (x - 1);
          e \<leftarrow> region_end pre;
          Some (address r \<le> e)
        } else Some False);
     next_region_overlaps \<leftarrow>
       (if x < n then do {
          nx \<leftarrow> slice_get rs x;
          e \<leftarrow> region_end r;
          Some (address nx \<le> e)
        } else Some False);
     (case (pre_region_overlaps, next_region_overlaps) of
        (False, False) \<Rightarrow> insert_region rs n x r
      | (True, False) \<Rightarrow> do {
          pre \<leftarrow> slice_get rs (x - 1);
          new_end \<leftarrow> region_end r;
          pre_region_end \<leftarrow> region_end pre;
          (if pre_region_end < new_end then do {
             s \<leftarrow> usub new_end (address pre);
             rs1 \<leftarrow> slice_set rs (x - 1) (pre\<lparr>mr_size := s\<rparr>);
             Some (rs1, n)
           } else Some (rs, n))
        }
      | (False, True) \<Rightarrow> do {
          nx \<leftarrow> slice_get rs x;
          old_end \<leftarrow> region_end nx;
          new_end \<leftarrow> region_end r;
          s \<leftarrow> usub (max old_end new_end) (address r);
          rs1 \<leftarrow> slice_set rs x \<lparr>address = address r, mr_size = s\<rparr>;
          Some (rs1, n)
        }
      | (True, True) \<Rightarrow> do {
          nx \<leftarrow> slice_get rs x;
          pre \<leftarrow> slice_get rs (x - 1);
          pre_end \<leftarrow> region_end pre;
          r_end \<leftarrow> region_end r;
          nx_end \<leftarrow> region_end nx;
          s \<leftarrow> usub (max (max pre_end r_end) nx_end) (address pre);
          rs1 \<leftarrow> slice_set rs (x - 1) (pre\<lparr>mr_size := s\<rparr>);
          rs2 \<leftarrow> copy_within rs1 (x + 1) n x;
          rs3 \<leftarrow> slice_set rs2 (n - 1) zero_region;
          Some (rs3, n - 1)
        })
   }"

text \<open>The branch of \<open>add_region_internal\<close> in which the binary search found the address.\<close>

definition grow_region ::
  "MemoryRegions list \<Rightarrow> nat \<Rightarrow> nat \<Rightarrow> MemoryRegions \<Rightarrow> (MemoryRegions list \<times> nat) option" where
  "grow_region rs n x r = do {
     cur \<leftarrow> slice_get rs x;
     (if mr_size cur < mr_size r then
        (if x + 1 < n then do {
           nx \<leftarrow> slice_get rs (x + 1);
           e \<leftarrow> uadd (address r) (mr_size r);
           (if address nx \<le> e then do {
              ne \<leftarrow> uadd (address nx) (mr_size nx);
              s \<leftarrow> usub (max e ne) (address cur);
              rs1 \<leftarrow> slice_set rs x (cur\<lparr>mr_size := s\<rparr>);
              rs2 \<leftarrow> copy_within rs1 (x + 2) n (x + 1);
              rs3 \<leftarrow> slice_set rs2 (n - 1) zero_region;
              Some (rs3, n - 1)
            } else do {
              rs1 \<leftarrow> slice_set rs x (cur\<lparr>mr_size := mr_size r\<rparr>);
              Some (rs1, n)
            })
         } else do {
           rs1 \<leftarrow> slice_set rs x (cur\<lparr>mr_size := mr_size r\<rparr>);
           Some (rs1, n)
         })
      else Some (rs, n))
   }"

definition add_region_slice ::
  "MemoryRegions list \<Rightarrow> nat \<Rightarrow> nat \<Rightarrow> MemoryRegions
     \<Rightarrow> ((string + unit) \<times> MemoryRegions list \<times> nat) option" where
  "add_region_slice rs n capacity r = do {
     n1 \<leftarrow> u32_add n 1;
     (if capacity < n1 then Some (Inl ''region size overflow'', rs, n)
      else do {
        valid_regions \<leftarrow> slice_range rs 0 n;
        (rs', n') \<leftarrow> (case binary_search_by_key valid_regions (address r) address of
            Inr x \<Rightarrow> grow_region rs n x r
          | Inl x \<Rightarrow> add_and_merge_region rs n x r);
        Some (Inr (), rs', n')
      })
   }"

definition add_region_internal ::
  "MemoryBlock \<Rightarrow> bool \<Rightarrow> MemoryRegions \<Rightarrow> ((string + unit) \<times> MemoryBlock) option" where
  "add_region_internal mb is_reserved r =
     (if is_reserved then do {
        (res, rs, n) \<leftarrow> add_region_slice (deref (reserved_regions mb)) (reserved_region_size mb)
                          (reserved_region_capacity mb) r;
        Some (res, mb\<lparr>reserved_regions := deref_mut (reserved_regions mb) rs,
                      reserved_region_size := n\<rparr>)
      } else do {
        (res, rs, n) \<leftarrow> add_region_slice (deref (regions mb)) (region_size mb)
                          (region_capacity mb) r;
        Some (res, mb\<lparr>regions := deref_mut (regions mb) rs, region_size := n\<rparr>)
      })"

definition add_region :: "MemoryBlock \<Rightarrow> MemoryRegions \<Rightarrow> ((string + unit) \<times> MemoryBlock) option" where
  "add_region mb r = add_region_internal mb False r"

definition add_reserved_region ::
  "MemoryBlock \<Rightarrow> MemoryRegions \<Rightarrow> ((string + unit) \<times> MemoryBlock) option" where
  "add_reserved_region mb r = add_region_internal mb True r"

section \<open>Dynamic reservations\<close>

text \<open>
  The end of the reserved region before \<open>region_start\<close> (or at it) and the start of the next one,
  as the two arms of the \<open>match\<close> compute them.
\<close>

definition reserved_around :: "MemoryRegions list \<Rightarrow> usize \<Rightarrow> (usize \<times> usize) option" where
  "reserved_around rsv region_start =
     (case binary_search_by_key rsv region_start address of
        Inr i \<Rightarrow> do {
          cur \<leftarrow> slice_get rsv i;
          prev_end \<leftarrow> region_end cur;
          Some (prev_end, if i + 1 < length rsv then address (rsv ! (i + 1)) else usize_MAX)
        }
      | Inl i \<Rightarrow> do {
          prev_end \<leftarrow> (if 0 < i then do { p \<leftarrow> slice_get rsv (i - 1); region_end p } else Some 0);
          Some (prev_end, if i < length rsv then address (rsv ! i) else usize_MAX)
        })"

datatype dyn_outcome = NextRegion | ReturnNone | Found usize

text \<open>
  The candidate start inside one free region: the range checks that come first in the inner loop.
\<close>

definition dyn_candidate ::
  "usize \<Rightarrow> usize \<Rightarrow> (usize \<times> usize) option \<Rightarrow> usize \<Rightarrow> usize \<Rightarrow> dyn_outcome option" where
  "dyn_candidate sz alignment alloc_range reg_addr reg_end =
     (case alloc_range of
        Some (range_start, range_size) \<Rightarrow> do {
          range_end \<leftarrow> uadd range_start range_size;
          (if range_end < reg_addr then Some ReturnNone
           else if reg_end < range_start then Some NextRegion
           else do {
             region_start \<leftarrow> next_multiple_of (max reg_addr range_start) alignment;
             e \<leftarrow> uadd region_start sz;
             Some (if range_end < e then NextRegion else Found region_start)
           })
        }
      | None \<Rightarrow> do {
          region_start \<leftarrow> next_multiple_of reg_addr alignment;
          Some (Found region_start)
        })"

lemma dyn_candidate_ge:
  "dyn_candidate sz al rng a e = Some (Found s) \<Longrightarrow> a \<le> s"
  using align_up_ge [of a al] align_up_ge [of "max a (fst (the rng))" al]
  by (auto simp: dyn_candidate_def next_multiple_of_Some_iff Option.bind_eq_Some_conv
      split: option.splits if_splits)

text \<open>The inner \<open>loop\<close>: the region is narrowed until the candidate fits or the region is given up.\<close>

function dyn_search ::
  "MemoryRegions list \<Rightarrow> usize \<Rightarrow> usize \<Rightarrow> (usize \<times> usize) option \<Rightarrow> usize \<Rightarrow> usize
     \<Rightarrow> dyn_outcome option" where
  "dyn_search rsv sz alignment alloc_range reg_addr reg_end =
     (case dyn_candidate sz alignment alloc_range reg_addr reg_end of
        None \<Rightarrow> None
      | Some NextRegion \<Rightarrow> Some NextRegion
      | Some ReturnNone \<Rightarrow> Some ReturnNone
      | Some (Found region_start) \<Rightarrow>
          (case uadd region_start sz of
             None \<Rightarrow> None
           | Some cand_end \<Rightarrow>
               if reg_end < cand_end then Some NextRegion
               else (case reserved_around rsv region_start of
                   None \<Rightarrow> None
                 | Some (prev_end, next_start) \<Rightarrow>
                     if region_start < prev_end \<or> next_start < cand_end then
                       (let reg_addr' = max reg_addr prev_end; reg_end' = min reg_end next_start
                        in if reg_end' \<le> reg_addr' then Some NextRegion
                           else dyn_search rsv sz alignment alloc_range reg_addr' reg_end')
                     else Some (Found region_start))))"
  by pat_completeness auto
termination
proof (relation "measure (\<lambda>(rsv, sz, al, rng, a, e). e - a)")
  fix rsv :: "MemoryRegions list" and sz al :: usize and rng :: "(usize \<times> usize) option"
    and a e s c p q a' e' :: usize and res :: dyn_outcome and ps :: "usize \<times> usize"
  assume cand: "dyn_candidate sz al rng a e = Some res" "res = Found s"
    and "uadd s sz = Some c" "\<not> e < c" "s < p \<or> q < c"
    and "a' = max a p" "e' = min e q" "\<not> e' \<le> a'"
  moreover from cand have "a \<le> s" by (auto dest: dyn_candidate_ge)
  ultimately show "((rsv, sz, al, rng, a', e'), rsv, sz, al, rng, a, e)
      \<in> measure (\<lambda>(rsv, sz, al, rng, a, e). e - a)"
    by (auto simp: uadd_Some_iff)
qed simp

declare dyn_search.simps [simp del]

text \<open>The loop over the free regions; \<^term>\<open>None :: usize option\<close> is \<open>Ok(None)\<close>.\<close>

fun dyn_regions ::
  "MemoryRegions list \<Rightarrow> usize \<Rightarrow> usize \<Rightarrow> (usize \<times> usize) option \<Rightarrow> MemoryRegions list
     \<Rightarrow> usize option option" where
  "dyn_regions rsv sz alignment alloc_range [] = Some None"
| "dyn_regions rsv sz alignment alloc_range (g # gs) = do {
     g_end \<leftarrow> region_end g;
     out \<leftarrow> dyn_search rsv sz alignment alloc_range (address g) g_end;
     (case out of
        NextRegion \<Rightarrow> dyn_regions rsv sz alignment alloc_range gs
      | ReturnNone \<Rightarrow> Some None
      | Found s \<Rightarrow> Some (Some s))
   }"

definition add_reserved_region_dynamic ::
  "MemoryBlock \<Rightarrow> usize \<Rightarrow> usize option \<Rightarrow> (usize \<times> usize) option
     \<Rightarrow> ((string + usize option) \<times> MemoryBlock) option" where
  "add_reserved_region_dynamic mb sz align alloc_range =
     (if allocatable mb then Some (Inl ''allocator already finalized'', mb)
      else if sz = 0 then Some (Inr None, mb)
      else do {
        let alignment = max (case align of None \<Rightarrow> 1 | Some a \<Rightarrow> a) 1;
        free \<leftarrow> slice_range (deref (regions mb)) 0 (region_size mb);
        rsv \<leftarrow> slice_range (deref (reserved_regions mb)) 0 (reserved_region_size mb);
        out \<leftarrow> dyn_regions rsv sz alignment alloc_range free;
        (case out of
           None \<Rightarrow> Some (Inr None, mb)
         | Some region_start \<Rightarrow> do {
             (res, mb') \<leftarrow> add_region_internal mb True \<lparr>address = region_start, mr_size = sz\<rparr>;
             (case res of
                Inl e \<Rightarrow> Some (Inl e, mb')
              | Inr _ \<Rightarrow> Some (Inr (Some region_start), mb'))
           })
      })"

section \<open>Finalisation\<close>

text \<open>The inner \<open>while\<close>: the first region that does not end before the reserved region.\<close>

function advance_region_idx :: "MemoryRegions list \<Rightarrow> nat \<Rightarrow> usize \<Rightarrow> nat \<Rightarrow> nat option" where
  "advance_region_idx rs n a idx =
     (if idx < n then
        (case slice_get rs idx of
           None \<Rightarrow> None
         | Some g \<Rightarrow> (case region_end g of
               None \<Rightarrow> None
             | Some e \<Rightarrow> if e \<le> a then advance_region_idx rs n a (idx + 1) else Some idx))
      else Some idx)"
  by pat_completeness auto
termination
  by (relation "measure (\<lambda>(rs, n, a, idx). n - idx)") auto

declare advance_region_idx.simps [simp del]

text \<open>The four ways to take one reserved region out of the region that contains it.\<close>

definition subtract_reserved ::
  "MemoryRegions list \<Rightarrow> nat \<Rightarrow> nat \<Rightarrow> nat \<Rightarrow> MemoryRegions
     \<Rightarrow> ((string + unit) \<times> MemoryRegions list \<times> nat \<times> nat) option" where
  "subtract_reserved rs n capacity idx rsv = do {
     g \<leftarrow> slice_get rs idx;
     g_end \<leftarrow> region_end g;
     rsv_end \<leftarrow> region_end rsv;
     (case (address g = address rsv, g_end = rsv_end) of
        (True, True) \<Rightarrow> do {
          rs1 \<leftarrow> copy_within rs (idx + 1) n idx;
          n1 \<leftarrow> usub n 1;
          Some (Inr (), rs1, n1, idx)
        }
      | (True, False) \<Rightarrow> do {
          a \<leftarrow> uadd (address g) (mr_size rsv);
          s \<leftarrow> usub (mr_size g) (mr_size rsv);
          rs1 \<leftarrow> slice_set rs idx \<lparr>address = a, mr_size = s\<rparr>;
          Some (Inr (), rs1, n, idx)
        }
      | (False, True) \<Rightarrow> do {
          s \<leftarrow> usub (mr_size g) (mr_size rsv);
          rs1 \<leftarrow> slice_set rs idx (g\<lparr>mr_size := s\<rparr>);
          Some (Inr (), rs1, n, idx)
        }
      | (False, False) \<Rightarrow>
          (if capacity < n + 1
           then Some (Inl ''region buffer overflow after splitting'', rs, n, idx)
           else do {
             s \<leftarrow> usub (address rsv) (address g);
             rs1 \<leftarrow> slice_set rs idx (g\<lparr>mr_size := s\<rparr>);
             s2 \<leftarrow> usub g_end rsv_end;
             rs2 \<leftarrow> copy_within rs1 (idx + 1) n (idx + 2);
             rs3 \<leftarrow> slice_set rs2 (idx + 1) \<lparr>address = rsv_end, mr_size = s2\<rparr>;
             n1 \<leftarrow> u32_add n 1;
             Some (Inr (), rs3, n1, idx + 1)
           }))
   }"

text \<open>The loop over the reserved regions.\<close>

fun check_loop ::
  "MemoryRegions list \<Rightarrow> nat \<Rightarrow> nat \<Rightarrow> nat \<Rightarrow> MemoryRegions list
     \<Rightarrow> ((string + unit) \<times> MemoryRegions list \<times> nat) option" where
  "check_loop rs n capacity idx [] = Some (Inr (), rs, n)"
| "check_loop rs n capacity idx (rsv # rest) = do {
     idx1 \<leftarrow> advance_region_idx rs n (address rsv) idx;
     (if idx1 = n
      then Some (Inl ''invalid reserved region: located outside of all available regions'', rs, n)
      else do {
        g \<leftarrow> slice_get rs idx1;
        not_contained \<leftarrow>
          (if address rsv < address g then Some True
           else do { rsv_end \<leftarrow> region_end rsv; g_end \<leftarrow> region_end g; Some (g_end < rsv_end) });
        (if not_contained
         then Some (Inl ''the memory region is smaller than the reserved region'', rs, n)
         else do {
           (res, rs1, n1, idx2) \<leftarrow> subtract_reserved rs n capacity idx1 rsv;
           (case res of
              Inl e \<Rightarrow> Some (Inl e, rs1, n1)
            | Inr _ \<Rightarrow> check_loop rs1 n1 capacity idx2 rest)
         })
      })
   }"

definition MAX_REGIONS :: nat where
  "MAX_REGIONS = 120"

definition check_regions :: "MemoryBlock \<Rightarrow> ((string + unit) \<times> MemoryBlock) option" where
  "check_regions mb =
     (if MAX_REGIONS < region_size mb \<or> MAX_REGIONS < reserved_region_size mb
      then Some (Inl ''memory regions and reserved regions are too big'', mb)
      else if reserved_region_size mb = 0 then Some (Inr (), mb\<lparr>allocatable := True\<rparr>)
      else do {
        rsv \<leftarrow> slice_range (deref (reserved_regions mb)) 0 (reserved_region_size mb);
        (res, rs, n) \<leftarrow> check_loop (deref (regions mb)) (region_size mb) (region_capacity mb) 0 rsv;
        (case res of
           Inl e \<Rightarrow> Some (Inl e, mb\<lparr>regions := deref_mut (regions mb) rs, region_size := n\<rparr>)
         | Inr _ \<Rightarrow> Some (Inr (),
             mb\<lparr>regions := deref_mut (regions mb) rs, region_size := n,
                reserved_regions := Global (replicate 128 zero_region),
                reserved_region_size := 0, allocatable := True\<rparr>))
      })"

section \<open>Allocation\<close>

definition add_reserved_alloc_record ::
  "MemoryBlock \<Rightarrow> usize \<Rightarrow> usize \<Rightarrow> MemoryBlock option" where
  "add_reserved_alloc_record mb a sz = do {
     valid \<leftarrow> slice_range (deref (reserved_regions mb)) 0 (reserved_region_size mb);
     let insertion_point = search_index (binary_search_by_key valid a address);
     (rs, n) \<leftarrow> add_and_merge_region (deref (reserved_regions mb)) (reserved_region_size mb)
                  insertion_point \<lparr>address = a, mr_size = sz\<rparr>;
     Some (mb\<lparr>reserved_regions := deref_mut (reserved_regions mb) rs, reserved_region_size := n\<rparr>)
   }"

text \<open>The body of the loop for the region that fits: the free array after the carving.\<close>

definition carve_region ::
  "MemoryRegions list \<Rightarrow> nat \<Rightarrow> nat \<Rightarrow> usize \<Rightarrow> usize \<Rightarrow> usize
     \<Rightarrow> (MemoryRegions list \<times> nat) option" where
  "carve_region rs n i addr_multiple sz alignment = do {
     g \<leftarrow> slice_get rs i;
     end_addr \<leftarrow> region_end g;
     (rs1, n1, i1) \<leftarrow>
       (if \<not> is_multiple_of (address g) alignment then do {
          s \<leftarrow> usub addr_multiple (address g);
          rsa \<leftarrow> copy_within rs i n (i + 1);
          rsb \<leftarrow> slice_set rsa i \<lparr>address = address g, mr_size = s\<rparr>;
          h \<leftarrow> slice_get rsb (i + 1);
          s2 \<leftarrow> usub (mr_size h) s;
          rsc \<leftarrow> slice_set rsb (i + 1) \<lparr>address = addr_multiple, mr_size = s2\<rparr>;
          n1 \<leftarrow> u32_add n 1;
          Some (rsc, n1, i + 1)
        } else Some (rs, n, i));
     new_addr \<leftarrow> uadd addr_multiple sz;
     h \<leftarrow> slice_get rs1 i1;
     h_end \<leftarrow> region_end h;
     (if new_addr = h_end then do {
        rs2 \<leftarrow> copy_within rs1 (i1 + 1) n1 i1;
        n2 \<leftarrow> usub n1 1;
        Some (rs2, n2)
      } else do {
        s \<leftarrow> usub end_addr new_addr;
        rs2 \<leftarrow> slice_set rs1 i1 \<lparr>address = new_addr, mr_size = s\<rparr>;
        Some (rs2, n1)
      })
   }"

function alloc_loop ::
  "MemoryBlock \<Rightarrow> usize \<Rightarrow> usize \<Rightarrow> nat \<Rightarrow> nat \<Rightarrow> (usize option \<times> MemoryBlock) option" where
  "alloc_loop mb sz alignment i n =
     (if n \<le> i then Some (None, mb)
      else (case slice_get (deref (regions mb)) i of
          None \<Rightarrow> None
        | Some g \<Rightarrow>
          (case next_multiple_of (address g) alignment of
             None \<Rightarrow> None
           | Some addr_multiple \<Rightarrow>
             (case (region_end g, uadd addr_multiple sz) of
                (Some g_end, Some cand_end) \<Rightarrow>
                  if cand_end \<le> g_end then do {
                    (rs, n1) \<leftarrow> carve_region (deref (regions mb)) (region_size mb) i addr_multiple
                                  sz alignment;
                    mb1 \<leftarrow> add_reserved_alloc_record
                             (mb\<lparr>regions := deref_mut (regions mb) rs, region_size := n1\<rparr>)
                             addr_multiple sz;
                    Some (Some addr_multiple, mb1)
                  } else alloc_loop mb sz alignment (i + 1) n
              | _ \<Rightarrow> None))))"
  by pat_completeness auto
termination
  by (relation "measure (\<lambda>(mb, sz, al, i, n). n - i)") auto

declare alloc_loop.simps [simp del]

definition allocate_region_internal ::
  "MemoryBlock \<Rightarrow> usize \<Rightarrow> usize \<Rightarrow> (usize option \<times> MemoryBlock) option" where
  "allocate_region_internal mb sz alignment = alloc_loop mb sz alignment 0 (region_size mb)"

text \<open>
  The size of a \<open>MemoryRegions\<close> in memory. \<open>raw\<close> below is what the memory at an address holds, read
  as a \<open>MemoryRegions\<close>, before the allocator writes it: the unused slots of a heap buffer.
\<close>

definition size_of_MemoryRegions :: usize where
  "size_of_MemoryRegions = 16"

definition heap_slice ::
  "(usize \<Rightarrow> MemoryRegions) \<Rightarrow> usize \<Rightarrow> MemoryRegions list \<Rightarrow> nat \<Rightarrow> RegionData" where
  "heap_slice raw p used capacity =
     Heap p (used @ map (\<lambda>i. raw (p + i * size_of_MemoryRegions)) [length used..<capacity])"

definition overflow_wrapping ::
  "(usize \<Rightarrow> MemoryRegions) \<Rightarrow> MemoryBlock \<Rightarrow> MemoryBlock option" where
  "overflow_wrapping raw mb = do {
     total \<leftarrow> u32_add (region_capacity mb) (reserved_region_capacity mb);
     twice \<leftarrow> umul total 2;
     allocate_size \<leftarrow> umul twice size_of_MemoryRegions;
     (out, mb1) \<leftarrow> allocate_region_internal mb allocate_size 4096;
     new_region \<leftarrow> out;
     new_regions_capacity \<leftarrow> u32_mul (region_capacity mb1) 2;
     new_reserved_capacity \<leftarrow> u32_mul (reserved_region_capacity mb1) 2;
     off \<leftarrow> umul new_regions_capacity size_of_MemoryRegions;
     new_reserved_ptr \<leftarrow> uadd new_region off;
     used \<leftarrow> slice_range (deref (regions mb1)) 0 (region_size mb1);
     rused \<leftarrow> slice_range (deref (reserved_regions mb1)) 0 (reserved_region_size mb1);
     Some (mb1\<lparr>regions := heap_slice raw new_region used new_regions_capacity,
               reserved_regions := heap_slice raw new_reserved_ptr rused new_reserved_capacity,
               region_capacity := new_regions_capacity,
               reserved_region_capacity := new_reserved_capacity\<rparr>)
   }"

definition ensure_overflow_headroom ::
  "(usize \<Rightarrow> MemoryRegions) \<Rightarrow> MemoryBlock \<Rightarrow> MemoryBlock option" where
  "ensure_overflow_headroom raw mb = do {
     a \<leftarrow> u32_add (region_size mb) 10;
     no_headroom \<leftarrow>
       (if region_capacity mb < a then Some True
        else do { b \<leftarrow> u32_add (reserved_region_size mb) 10; Some (reserved_region_capacity mb < b) });
     (if no_headroom then overflow_wrapping raw mb else Some mb)
   }"

definition remove_slot :: "MemoryRegions list \<Rightarrow> nat \<Rightarrow> nat \<Rightarrow> (MemoryRegions list \<times> nat) option" where
  "remove_slot rs n i = do {
     rs1 \<leftarrow> copy_within rs (i + 1) n i;
     rs2 \<leftarrow> slice_set rs1 (n - 1) zero_region;
     Some (rs2, n - 1)
   }"

definition remove_reserved_slice ::
  "MemoryRegions list \<Rightarrow> nat \<Rightarrow> usize \<Rightarrow> usize \<Rightarrow> (MemoryRegions list \<times> nat) option" where
  "remove_reserved_slice rs n addr sz = do {
     valid \<leftarrow> slice_range rs 0 n;
     (case binary_search_by_key valid addr address of
        Inr i \<Rightarrow> do {
          g \<leftarrow> slice_get rs i;
          (if sz < mr_size g then do {
             a \<leftarrow> uadd (address g) sz;
             rs1 \<leftarrow> slice_set rs i \<lparr>address = a, mr_size = mr_size g - sz\<rparr>;
             Some (rs1, n)
           } else remove_slot rs n i)
        }
      | Inl x \<Rightarrow>
          (if x = 0 then Some (rs, n)
           else do {
             let i = x - 1;
             g \<leftarrow> slice_get rs i;
             g_end \<leftarrow> region_end g;
             dealloc_end \<leftarrow> uadd addr sz;
             (if address g \<le> addr \<and> dealloc_end \<le> g_end then
                (case (addr = address g, dealloc_end = g_end) of
                   (True, True) \<Rightarrow> remove_slot rs n i
                 | (True, False) \<Rightarrow> do {
                     a \<leftarrow> uadd (address g) sz;
                     s \<leftarrow> usub (mr_size g) sz;
                     rs1 \<leftarrow> slice_set rs i \<lparr>address = a, mr_size = s\<rparr>;
                     Some (rs1, n)
                   }
                 | (False, True) \<Rightarrow> do {
                     s \<leftarrow> usub addr (address g);
                     rs1 \<leftarrow> slice_set rs i (g\<lparr>mr_size := s\<rparr>);
                     Some (rs1, n)
                   }
                 | (False, False) \<Rightarrow> do {
                     s \<leftarrow> usub addr (address g);
                     rs1 \<leftarrow> slice_set rs i (g\<lparr>mr_size := s\<rparr>);
                     rs2 \<leftarrow> copy_within rs1 (i + 1) n (i + 2);
                     s2 \<leftarrow> usub g_end dealloc_end;
                     rs3 \<leftarrow> slice_set rs2 (i + 1) \<lparr>address = dealloc_end, mr_size = s2\<rparr>;
                     n1 \<leftarrow> u32_add n 1;
                     Some (rs3, n1)
                   })
              else Some (rs, n))
           }))
   }"

definition remove_reserved_alloc_record ::
  "MemoryBlock \<Rightarrow> usize \<Rightarrow> usize \<Rightarrow> MemoryBlock option" where
  "remove_reserved_alloc_record mb addr sz =
     (if sz = 0 then Some mb
      else do {
        (rs, n) \<leftarrow> remove_reserved_slice (deref (reserved_regions mb)) (reserved_region_size mb)
                     addr sz;
        Some (mb\<lparr>reserved_regions := deref_mut (reserved_regions mb) rs,
                 reserved_region_size := n\<rparr>)
      })"

definition add_free_region_merge :: "MemoryBlock \<Rightarrow> usize \<Rightarrow> usize \<Rightarrow> MemoryBlock option" where
  "add_free_region_merge mb a sz = do {
     valid \<leftarrow> slice_range (deref (regions mb)) 0 (region_size mb);
     let insertion_point = search_index (binary_search_by_key valid a address);
     (rs, n) \<leftarrow> add_and_merge_region (deref (regions mb)) (region_size mb) insertion_point
                  \<lparr>address = a, mr_size = sz\<rparr>;
     Some (mb\<lparr>regions := deref_mut (regions mb) rs, region_size := n\<rparr>)
   }"

text \<open>\<open>core::alloc::Layout\<close>.\<close>

record Layout =
  layout_size :: usize
  layout_align :: usize

text \<open>What its constructors check: the alignment is a power of two.\<close>

definition layout_ok :: "Layout \<Rightarrow> bool" where
  "layout_ok l \<longleftrightarrow> (\<exists>k. layout_align l = 2 ^ k)"

definition allocate_region ::
  "(usize \<Rightarrow> MemoryRegions) \<Rightarrow> MemoryBlock \<Rightarrow> Layout \<Rightarrow> (usize option \<times> MemoryBlock) option" where
  "allocate_region raw mb layout =
     (if \<not> allocatable mb then Some (None, mb)
      else do {
        mb1 \<leftarrow> ensure_overflow_headroom raw mb;
        allocate_region_internal mb1 (layout_size layout) (layout_align layout)
      })"

definition deallocate_region ::
  "(usize \<Rightarrow> MemoryRegions) \<Rightarrow> MemoryBlock \<Rightarrow> usize \<Rightarrow> Layout \<Rightarrow> MemoryBlock option" where
  "deallocate_region raw mb ptr layout =
     (if \<not> allocatable mb then Some mb
      else if layout_size layout = 0 then Some mb
      else do {
        mb1 \<leftarrow> ensure_overflow_headroom raw mb;
        mb2 \<leftarrow> remove_reserved_alloc_record mb1 ptr (layout_size layout);
        add_free_region_merge mb2 ptr (layout_size layout)
      })"

definition trim_for_boot ::
  "(usize \<Rightarrow> MemoryRegions) \<Rightarrow> MemoryBlock \<Rightarrow> usize
     \<Rightarrow> ((string + (usize \<times> usize) list) \<times> MemoryBlock) option" where
  "trim_for_boot raw mb reserve_bytes =
     (if \<not> allocatable mb then Some (Inl ''allocator not allocatable'', mb)
      else do {
        mb1 \<leftarrow> ensure_overflow_headroom raw mb;
        (out, mb2) \<leftarrow> allocate_region_internal mb1 reserve_bytes 1;
        (case out of
           None \<Rightarrow> Some (Inl ''allocation failed'', mb2)
         | Some a \<Rightarrow> do {
             let vec = map (\<lambda>r. (address r, mr_size r))
                         (take (reserved_region_size mb2) (deref (reserved_regions mb2)));
             let mb3 = mb2\<lparr>regions := Global (replicate 128 zero_region), region_size := 0,
                            region_capacity := 128, allocatable := True\<rparr>;
             mb4 \<leftarrow> remove_reserved_alloc_record mb3 a reserve_bytes;
             mb5 \<leftarrow> add_free_region_merge mb4 a reserve_bytes;
             Some (Inr vec, mb5)
           })
      })"

end
