(* ===== verification/Buddy.thy ===== *)
theory Buddy
  imports Intrusive_List Range_List
begin

text \<open>
  The buddy allocator, \<open>src/allocator/src/buddy_allocator.rs\<close>: one intrusive free list per block
  size. The record holds the heads of the free lists and, in \<open>links\<close>, the first words of the free
  blocks. \<open>alloc_heap\<close> is the function that fetches a block of \<open>MAX_ALLOCATABLE_BYTES\<close> from the
  range list allocator; it changes the state \<open>'h\<close> of that allocator. The const generic
  \<open>MAX_ALLOCATABLE_BYTES\<close> is the first argument of the operations.
\<close>

section \<open>Powers of two\<close>

text \<open>\<open>usize::trailing_zeros\<close>.\<close>

function trailing_zeros :: "usize \<Rightarrow> nat" where
  "trailing_zeros n =
     (if n = 0 then 64 else if odd n then 0 else Suc (trailing_zeros (n div 2)))"
  by pat_completeness auto
termination
  by (relation "measure id") (auto intro!: div_less_dividend)

declare trailing_zeros.simps [simp del]

text \<open>\<open>usize::next_power_of_two\<close>: panics when the result does not fit.\<close>

function power_from :: "nat \<Rightarrow> nat \<Rightarrow> nat" where
  "power_from p n = (if n \<le> p \<or> p = 0 then p else power_from (2 * p) n)"
  by pat_completeness auto
termination
  by (relation "measure (\<lambda>(p, n). n - p)") auto

declare power_from.simps [simp del]

definition next_power_of_two :: "usize \<Rightarrow> usize option" where
  "next_power_of_two n = (let p = power_from 1 n in if p < usize_limit then Some p else None)"

section \<open>The allocator\<close>

definition MINIMUM_ALLOCATABLE_BYTES :: usize where
  "MINIMUM_ALLOCATABLE_BYTES = 8"

definition LEVELS :: "usize \<Rightarrow> nat" where
  "LEVELS max_bytes = trailing_zeros max_bytes - trailing_zeros MINIMUM_ALLOCATABLE_BYTES + 1"

definition level2size :: "nat \<Rightarrow> usize" where
  "level2size level = 2 ^ (level + trailing_zeros MINIMUM_ALLOCATABLE_BYTES)"

definition size2level :: "usize \<Rightarrow> nat option" where
  "size2level sz = usub (trailing_zeros sz) (trailing_zeros MINIMUM_ALLOCATABLE_BYTES)"

definition size2level_next_power :: "usize \<Rightarrow> nat option" where
  "size2level_next_power sz = do { p \<leftarrow> next_power_of_two sz; size2level p }"

record 'h BuddyAllocator =
  free_heads :: "link list"
  links :: links
  alloc_heap :: "('h \<Rightarrow> (usize option \<times> 'h) option) option"
  total_size :: usize
  allocated_bytes :: usize

definition buddy_new ::
  "usize \<Rightarrow> links \<Rightarrow> ('h \<Rightarrow> (usize option \<times> 'h) option) option \<Rightarrow> 'h BuddyAllocator" where
  "buddy_new max_bytes m heap_allocator =
     \<lparr>free_heads = replicate (LEVELS max_bytes) list_new, links = m, alloc_heap = heap_allocator,
      total_size = 0, allocated_bytes = 0\<rparr>"

definition change_allocator ::
  "'h BuddyAllocator \<Rightarrow> ('h \<Rightarrow> (usize option \<times> 'h) option) option \<Rightarrow> 'h BuddyAllocator" where
  "change_allocator b heap_allocator = b\<lparr>alloc_heap := heap_allocator\<rparr>"

text \<open>The method call \<open>self.free_list[level].op(ptr)\<close> for the three operations that add a node.\<close>

definition at_level ::
  "(links \<Rightarrow> link \<Rightarrow> usize \<Rightarrow> (links \<times> link) option) \<Rightarrow> 'h BuddyAllocator \<Rightarrow> nat \<Rightarrow> usize
     \<Rightarrow> 'h BuddyAllocator option" where
  "at_level ins b level ptr = do {
     head \<leftarrow> slice_get (free_heads b) level;
     (m, head') \<leftarrow> ins (links b) head ptr;
     Some (b\<lparr>links := m, free_heads := (free_heads b)[level := head']\<rparr>)
   }"

text \<open>\<open>self.free_list[level].pop().unwrap()\<close>.\<close>

definition pop_level :: "'h BuddyAllocator \<Rightarrow> nat \<Rightarrow> (usize \<times> 'h BuddyAllocator) option" where
  "pop_level b level = do {
     head \<leftarrow> slice_get (free_heads b) level;
     let (out, head') = list_pop (links b) head;
     block \<leftarrow> out;
     Some (block, b\<lparr>free_heads := (free_heads b)[level := head']\<rparr>)
   }"

text \<open>The loop of \<open>set_memory\<close>.\<close>

fun set_memory_loop :: "usize \<Rightarrow> 'h BuddyAllocator \<Rightarrow> usize \<Rightarrow> nat \<Rightarrow> 'h BuddyAllocator option" where
  "set_memory_loop max_bytes b ptr 0 = Some b"
| "set_memory_loop max_bytes b ptr (Suc n) = do {
     b1 \<leftarrow> at_level list_push_back b (LEVELS max_bytes - 1) ptr;
     ptr1 \<leftarrow> uadd ptr max_bytes;
     set_memory_loop max_bytes b1 ptr1 n
   }"

definition set_memory :: "usize \<Rightarrow> 'h BuddyAllocator \<Rightarrow> usize \<Rightarrow> usize \<Rightarrow> 'h BuddyAllocator option" where
  "set_memory max_bytes b ptr sz = do {
     t \<leftarrow> uadd (total_size b) sz;
     set_memory_loop max_bytes (b\<lparr>total_size := t\<rparr>) ptr (drop_bit (trailing_zeros max_bytes) sz)
   }"

text \<open>\<open>while free_level < LEVELS && self.free_list[free_level].is_none()\<close>.\<close>

function find_free_level :: "usize \<Rightarrow> 'h BuddyAllocator \<Rightarrow> nat \<Rightarrow> nat option" where
  "find_free_level max_bytes b free_level =
     (if free_level < LEVELS max_bytes then
        (case slice_get (free_heads b) free_level of
           None \<Rightarrow> None
         | Some head \<Rightarrow>
             if list_is_none head then find_free_level max_bytes b (free_level + 1)
             else Some free_level)
      else Some free_level)"
  by pat_completeness auto
termination
  by (relation "measure (\<lambda>(max_bytes, b, l). LEVELS max_bytes - l)") auto

declare find_free_level.simps [simp del]

text \<open>\<open>for i in (level + 1..=free_level).rev()\<close>: split the larger blocks down to \<open>level\<close>.\<close>

fun split_down :: "'h BuddyAllocator \<Rightarrow> nat \<Rightarrow> nat \<Rightarrow> 'h BuddyAllocator option" where
  "split_down b level 0 = Some b"
| "split_down b level (Suc i) =
     (if Suc i \<le> level then Some b
      else do {
        (block, b1) \<leftarrow> pop_level b (Suc i);
        half \<leftarrow> uadd block (level2size i);
        b2 \<leftarrow> at_level list_push b1 i half;
        b3 \<leftarrow> at_level list_push b2 i block;
        split_down b3 level i
      })"

definition buddy_alloc ::
  "usize \<Rightarrow> 'h BuddyAllocator \<Rightarrow> 'h \<Rightarrow> Layout
     \<Rightarrow> ((string + usize) \<times> 'h BuddyAllocator \<times> 'h) option" where
  "buddy_alloc max_bytes b h layout = do {
     let required_size = max (max (layout_size layout) (layout_align layout)) MINIMUM_ALLOCATABLE_BYTES;
     level \<leftarrow> size2level_next_power required_size;
     free_level \<leftarrow> find_free_level max_bytes b level;
     (refill, b1, h1, free_level1) \<leftarrow>
       (if free_level = LEVELS max_bytes then
          (case alloc_heap b of
             Some allocator \<Rightarrow> do {
               (out, h1) \<leftarrow> allocator h;
               (case out of
                  None \<Rightarrow> Some (Inl ''failed to allocate memory from heap'', b, h1, free_level)
                | Some new_heap \<Rightarrow> do {
                    b1 \<leftarrow> set_memory max_bytes b new_heap max_bytes;
                    Some (Inr (), b1, h1, LEVELS max_bytes - 1)
                  })
             }
           | None \<Rightarrow> Some (Inl ''out of memory'', b, h, free_level))
        else Some (Inr (), b, h, free_level));
     (case refill of
        Inl e \<Rightarrow> Some (Inl e, b1, h1)
      | Inr _ \<Rightarrow> do {
          b2 \<leftarrow> split_down b1 level free_level1;
          (ptr, b3) \<leftarrow> pop_level b2 level;
          p \<leftarrow> next_power_of_two required_size;
          a \<leftarrow> uadd (allocated_bytes b3) p;
          Some (Inr ptr, b3\<lparr>allocated_bytes := a\<rparr>, h1)
        })
   }"

text \<open>The \<open>while level + 1 < LEVELS\<close> loop of \<open>dealloc\<close>.\<close>

function dealloc_loop ::
  "usize \<Rightarrow> 'h BuddyAllocator \<Rightarrow> usize \<Rightarrow> nat \<Rightarrow> 'h BuddyAllocator option" where
  "dealloc_loop max_bytes b ptr level =
     (if level + 1 < LEVELS max_bytes then
        (case (if is_multiple_of ptr (level2size (level + 1)) then uadd ptr (level2size level)
               else usub ptr (level2size level)) of
           None \<Rightarrow> None
         | Some buddy_addr \<Rightarrow>
           (case slice_get (free_heads b) level of
              None \<Rightarrow> None
            | Some head \<Rightarrow>
              (case list_remove_if (links b) head buddy_addr of
                 None \<Rightarrow> None
               | Some (found, m, head') \<Rightarrow>
                   if found then
                     dealloc_loop max_bytes
                       (b\<lparr>links := m, free_heads := (free_heads b)[level := head']\<rparr>)
                       (min ptr buddy_addr) (level + 1)
                   else at_level list_add_with_sort
                       (b\<lparr>links := m, free_heads := (free_heads b)[level := head']\<rparr>) level ptr)))
      else at_level list_push_back b level ptr)"
  by pat_completeness auto
termination
  by (relation "measure (\<lambda>(max_bytes, b, ptr, level). LEVELS max_bytes - level)") auto

declare dealloc_loop.simps [simp del]

definition buddy_dealloc ::
  "usize \<Rightarrow> 'h BuddyAllocator \<Rightarrow> usize \<Rightarrow> Layout \<Rightarrow> 'h BuddyAllocator option" where
  "buddy_dealloc max_bytes b ptr layout = do {
     let required_size = max (layout_size layout) MINIMUM_ALLOCATABLE_BYTES;
     level \<leftarrow> size2level_next_power required_size;
     p \<leftarrow> next_power_of_two required_size;
     a \<leftarrow> usub (allocated_bytes b) p;
     dealloc_loop max_bytes (b\<lparr>allocated_bytes := a\<rparr>) ptr level
   }"

end
