(* ===== verification/Buddy_Proofs.thy ===== *)
theory Buddy_Proofs
  imports Buddy
begin

text \<open>
  The buddy allocator at work. The free lists represent, for every level, a set of aligned and
  pairwise disjoint blocks (\<^verbatim>\<open>tiling\<close>); allocation takes one block of the level asked for out of the
  free addresses, deallocation puts it back and merges buddies.
\<close>

section \<open>Powers of two\<close>

lemma trailing_zeros_pow2: "trailing_zeros (2 ^ k) = k"
proof (induction k)
  case (Suc k)
  have "trailing_zeros (2 * 2 ^ k) = Suc (trailing_zeros (2 ^ k))"
    by (subst trailing_zeros.simps) simp
  with Suc show ?case by simp
qed (simp add: trailing_zeros.simps)

lemma min_bytes: "MINIMUM_ALLOCATABLE_BYTES = 2 ^ 3"
  by (simp add: MINIMUM_ALLOCATABLE_BYTES_def)

lemma min_zeros [simp]: "trailing_zeros MINIMUM_ALLOCATABLE_BYTES = 3"
  by (simp only: min_bytes trailing_zeros_pow2)

lemma level2size_eq: "level2size i = 8 * 2 ^ i"
  by (simp add: level2size_def power_add)

lemma level2size_pos [simp]: "0 < level2size i"
  by (simp add: level2size_eq)

lemma level2size_Suc: "level2size (Suc i) = 2 * level2size i"
  by (simp add: level2size_eq)

lemma LEVELS_pow2: "3 \<le> k \<Longrightarrow> LEVELS (2 ^ k) = k - 2"
  by (simp add: LEVELS_def trailing_zeros_pow2)

lemma power_from_pow2:
  "\<exists>k. power_from (2 ^ j) n = 2 ^ k \<and> j \<le> k \<and> n \<le> 2 ^ k \<and> (j < k \<longrightarrow> 2 ^ (k - 1) < n)"
proof (induction "2 ^ j :: nat" n arbitrary: j rule: power_from.induct)
  case (1 n)
  show ?case
  proof (cases "n \<le> 2 ^ j")
    case True
    then show ?thesis by (subst power_from.simps) auto
  next
    case False
    then obtain k where k: "power_from (2 * 2 ^ j) n = 2 ^ k" "Suc j \<le> k" "n \<le> 2 ^ k" "Suc j < k \<longrightarrow> 2 ^ (k - 1) < n"
      using "1"(1) [of "Suc j"] by (auto simp: not_le)
    have "2 ^ (k - 1) < n"
    proof (cases "Suc j < k")
      case False
      with k(2) have "k = Suc j" by simp
      then show ?thesis using \<open>\<not> n \<le> 2 ^ j\<close> by simp
    qed (use k(4) in simp)
    then show ?thesis using False k by (subst power_from.simps) (auto intro!: exI [of _ k])
  qed
qed

text \<open>The level of a request: the smallest block that holds it.\<close>

lemma level_of_request:
  assumes "8 \<le> n" and "n \<le> 2 ^ 63"
  obtains k where "next_power_of_two n = Some (level2size k)" and "size2level_next_power n = Some k"
    and "n \<le> level2size k" and "k = 0 \<or> level2size (k - 1) < n"
proof -
  obtain j where j: "power_from (2 ^ 0) n = 2 ^ j" "n \<le> 2 ^ j" "0 < j \<longrightarrow> 2 ^ (j - 1) < n"
    using power_from_pow2 [of 0 n] by auto
  have "\<not> j < 3"
  proof
    assume "j < 3"
    then have "(2::nat) ^ j < 2 ^ 3" by (intro power_strict_increasing) simp_all
    then show False using j(2) assms(1) by simp
  qed
  then have j3: "3 \<le> j" by simp
  have "\<not> 63 < j"
  proof
    assume "63 < j"
    then have "(2::nat) ^ 63 \<le> 2 ^ (j - 1)" by (intro power_increasing) simp_all
    with j(3) \<open>63 < j\<close> assms(2) show False by linarith
  qed
  then have "(2::nat) ^ j \<le> 2 ^ 63" by (intro power_increasing) simp_all
  then have lim: "(2::nat) ^ j < usize_limit" by (simp add: usize_limit_def)
  let ?k = "j - 3"
  have sz: "level2size ?k = 2 ^ j" using j3 by (simp add: level2size_def)
  have np: "next_power_of_two n = Some (2 ^ j)" using j(1) lim by (simp add: next_power_of_two_def Let_def)
  moreover have "size2level_next_power n = Some ?k"
    using np j3 by (simp add: size2level_next_power_def size2level_def usub_def trailing_zeros_pow2)
  moreover have "?k = 0 \<or> level2size (?k - 1) < n"
  proof (cases "j = 3")
    case False
    then have "?k - 1 + 3 = j - 1" using j3 by simp
    then show ?thesis using j(3) j3 by (simp add: level2size_def)
  qed simp
  ultimately show thesis using that [of ?k] j(2) sz by simp
qed

section \<open>Sets of free blocks\<close>

definition block_at :: "nat \<Rightarrow> usize \<Rightarrow> nat set" where
  "block_at i x = {x..<x + level2size i}"

definition free_cover :: "(nat \<Rightarrow> usize set) \<Rightarrow> nat set" where
  "free_cover F = (\<Union>i. \<Union>x \<in> F i. block_at i x)"

text \<open>Below level \<open>n\<close>: aligned blocks inside the address space, pairwise disjoint.\<close>

definition tiling :: "nat \<Rightarrow> (nat \<Rightarrow> usize set) \<Rightarrow> bool" where
  "tiling n F \<longleftrightarrow>
     (\<forall>i x. x \<in> F i \<longrightarrow> i < n \<and> 0 < x \<and> level2size i dvd x \<and> x + level2size i < usize_limit)
     \<and> (\<forall>i x j y. x \<in> F i \<longrightarrow> y \<in> F j \<longrightarrow> (i, x) \<noteq> (j, y) \<longrightarrow> block_at i x \<inter> block_at j y = {})"

lemma block_at_self [simp]: "x \<in> block_at i x"
  by (simp add: block_at_def)

lemma free_cover_memI: "x \<in> F i \<Longrightarrow> block_at i x \<subseteq> free_cover F"
  by (auto simp: free_cover_def)

lemma free_cover_upd:
  "free_cover (F(i := A)) = (\<Union>j \<in> - {i}. \<Union>x \<in> F j. block_at j x) \<union> (\<Union>x \<in> A. block_at i x)"
proof -
  have "free_cover G = (\<Union>j \<in> - {i}. \<Union>x \<in> G j. block_at j x) \<union> (\<Union>x \<in> G i. block_at i x)" for G
    unfolding free_cover_def by blast
  from this [of "F(i := A)"] show ?thesis by simp
qed

lemma free_cover_split:
  "free_cover F = (\<Union>j \<in> - {i}. \<Union>x \<in> F j. block_at j x) \<union> (\<Union>x \<in> F i. block_at i x)"
  using free_cover_upd [of F i "F i"] by simp

lemma tiling_take:
  assumes t: "tiling n F" and x: "x \<in> F i"
  shows "tiling n (F(i := F i - {x}))" and "free_cover (F(i := F i - {x})) = free_cover F - block_at i x"
proof -
  show "tiling n (F(i := F i - {x}))"
    using t unfolding tiling_def by (auto split: if_splits)
  have dis: "block_at j y \<inter> block_at i x = {}" if "y \<in> F j" "(j, y) \<noteq> (i, x)" for j y
    using t x that unfolding tiling_def by blast
  have "(\<Union>j \<in> - {i}. \<Union>y \<in> F j. block_at j y) \<inter> block_at i x = {}"
    and "(\<Union>y \<in> F i - {x}. block_at i y) \<inter> block_at i x = {}"
    using dis by blast+
  moreover have "(\<Union>y \<in> F i. block_at i y) = (\<Union>y \<in> F i - {x}. block_at i y) \<union> block_at i x"
    using x by blast
  ultimately show "free_cover (F(i := F i - {x})) = free_cover F - block_at i x"
    unfolding free_cover_upd free_cover_split [of F i] by blast
qed

lemma tiling_add:
  assumes t: "tiling n F" and i: "i < n" and x: "0 < x" "level2size i dvd x" "x + level2size i < usize_limit"
    and dis: "block_at i x \<inter> free_cover F = {}"
  shows "tiling n (F(i := insert x (F i)))"
    and "free_cover (F(i := insert x (F i))) = free_cover F \<union> block_at i x"
    and "x \<notin> F j"
proof -
  have d: "block_at i x \<inter> block_at j y = {}" if "y \<in> F j" for j y
    using dis free_cover_memI [of y F j] that by blast
  show "tiling n (F(i := insert x (F i)))"
    unfolding tiling_def
  proof (intro conjI allI impI)
    fix j y k z
    assume y: "y \<in> (F(i := insert x (F i))) j" and z: "z \<in> (F(i := insert x (F i))) k" and ne: "(j, y) \<noteq> (k, z)"
    have "(j = i \<and> y = x) \<or> y \<in> F j" "(k = i \<and> z = x) \<or> z \<in> F k" using y z by (auto split: if_splits)
    then show "block_at j y \<inter> block_at k z = {}"
      using d t ne unfolding tiling_def by blast
  qed (use t i x in \<open>auto simp: tiling_def split: if_splits\<close>)
  show "free_cover (F(i := insert x (F i))) = free_cover F \<union> block_at i x"
    unfolding free_cover_upd free_cover_split [of F i] by blast
  show "x \<notin> F j" using d [of x j] block_at_self by blast
qed

lemma tiling_levels_disjoint:
  assumes "tiling n F" and "x \<in> F i" and "x \<in> F j"
  shows "i = j"
proof (rule ccontr)
  assume "i \<noteq> j"
  then have "block_at i x \<inter> block_at j x = {}" using assms unfolding tiling_def by blast
  then show False using block_at_self by blast
qed

section \<open>The free lists represent the sets\<close>

definition buddy_rep :: "nat \<Rightarrow> 'h BuddyAllocator \<Rightarrow> (nat \<Rightarrow> usize set) \<Rightarrow> bool" where
  "buddy_rep n b F \<longleftrightarrow> length (free_heads b) = n \<and> tiling n F
     \<and> (\<forall>i < n. \<exists>xs. chain (links b) (free_heads b ! i) xs \<and> set xs = F i)"

lemma buddy_rep_chain:
  assumes "buddy_rep n b F" and "i < n"
  obtains xs where "chain (links b) (free_heads b ! i) xs" and "set xs = F i"
    and "slice_get (free_heads b) i = Some (free_heads b ! i)"
  using assms by (auto simp: buddy_rep_def slice_get_def)

text \<open>One free list was changed; the others keep their nodes.\<close>

lemma buddy_rep_update:
  assumes rep: "buddy_rep n b F" and i: "i < n" and t: "tiling n (F(i := A))"
    and c: "chain m h xs" "set xs = A" and frame: "\<forall>q. q \<notin> A \<union> F i \<longrightarrow> m q = links b q"
  shows "buddy_rep n (b\<lparr>links := m, free_heads := (free_heads b)[i := h]\<rparr>) (F(i := A))"
proof -
  have "\<exists>ys. chain m ((free_heads b)[i := h] ! j) ys \<and> set ys = (F(i := A)) j" if j: "j < n" for j
  proof (cases "j = i")
    case True
    then show ?thesis using c i rep by (auto simp: buddy_rep_def)
  next
    case False
    obtain ys where ys: "chain (links b) (free_heads b ! j) ys" "set ys = F j"
      using rep j by (auto simp: buddy_rep_def)
    have tF: "tiling n F" using rep by (simp add: buddy_rep_def)
    have "y \<notin> A \<union> F i" if "y \<in> F j" for y
      using that False tiling_levels_disjoint [OF t, of y i j] tiling_levels_disjoint [OF tF, of y i j] by auto
    then have "\<forall>y \<in> set ys. m y = links b y" using frame ys(2) by blast
    from chain_frame [OF ys(1) this] have "chain m ((free_heads b)[i := h] ! j) ys \<and> set ys = (F(i := A)) j"
      using ys(2) False by simp
    then show ?thesis ..
  qed
  then show ?thesis using rep t by (simp add: buddy_rep_def)
qed

text \<open>Only the free lists differ.\<close>

definition same_rest :: "'h BuddyAllocator \<Rightarrow> 'h BuddyAllocator \<Rightarrow> bool" where
  "same_rest b b' \<longleftrightarrow> alloc_heap b' = alloc_heap b \<and> total_size b' = total_size b
     \<and> allocated_bytes b' = allocated_bytes b"

text \<open>
  What the buddy allocator needs of an operation that adds a node to a free list; whatever the place
  of the new node in the list, the block joins the free blocks of the level.
\<close>

locale list_inserter =
  fixes ins :: "links \<Rightarrow> link \<Rightarrow> usize \<Rightarrow> (links \<times> link) option"
  assumes ins_ok: "chain m h xs \<Longrightarrow> p \<notin> set xs \<Longrightarrow> p \<noteq> 0 \<Longrightarrow>
    \<exists>m' h' ys. ins m h p = Some (m', h') \<and> chain m' h' ys \<and> set ys = insert p (set xs)
      \<and> (\<forall>q. q \<notin> insert p (set xs) \<longrightarrow> m' q = m q)"
begin

lemma at_level_ok:
  assumes rep: "buddy_rep n b F" and i: "i < n" and x: "0 < x" "level2size i dvd x" "x + level2size i < usize_limit"
    and dis: "block_at i x \<inter> free_cover F = {}"
  shows "\<exists>b'. at_level ins b i x = Some b' \<and> buddy_rep n b' (F(i := insert x (F i)))
     \<and> free_cover (F(i := insert x (F i))) = free_cover F \<union> block_at i x
     \<and> same_rest b b'"
proof -
  have t: "tiling n F" using rep by (simp add: buddy_rep_def)
  note add = tiling_add [OF t i x dis]
  obtain xs where c: "chain (links b) (free_heads b ! i) xs" "set xs = F i"
    and get: "slice_get (free_heads b) i = Some (free_heads b ! i)"
    by (rule buddy_rep_chain [OF rep i])
  obtain m h ys where ins: "ins (links b) (free_heads b ! i) x = Some (m, h)" "chain m h ys"
    "set ys = insert x (F i)" "\<forall>q. q \<notin> insert x (F i) \<longrightarrow> m q = links b q"
    using ins_ok [OF c(1), of x] c(2) add(3) x(1) by auto
  let ?b = "b\<lparr>links := m, free_heads := (free_heads b)[i := h]\<rparr>"
  have "buddy_rep n ?b (F(i := insert x (F i)))"
    using ins(4) by (intro buddy_rep_update [OF rep i add(1) ins(2,3)]) auto
  moreover have "at_level ins b i x = Some ?b" using get ins(1) by (simp add: at_level_def)
  ultimately show ?thesis using add(2) by (intro exI [of _ ?b]) (simp add: same_rest_def)
qed

end

interpretation push: list_inserter list_push
  by unfold_locales (use list_push_ok in fastforce)

interpretation push_back: list_inserter list_push_back
  by unfold_locales (use list_push_back_ok in fastforce)

interpretation add_with_sort: list_inserter list_add_with_sort
  by unfold_locales (use list_add_with_sort_ok set_insort_key in fastforce)

lemma pop_level_ok:
  assumes rep: "buddy_rep n b F" and i: "i < n" and ne: "F i \<noteq> {}"
  shows "\<exists>x b'. pop_level b i = Some (x, b') \<and> x \<in> F i \<and> buddy_rep n b' (F(i := F i - {x}))
     \<and> same_rest b b'"
proof -
  obtain xs where c: "chain (links b) (free_heads b ! i) xs" "set xs = F i"
    and get: "slice_get (free_heads b) i = Some (free_heads b ! i)"
    by (rule buddy_rep_chain [OF rep i])
  then obtain x xs' where xs: "xs = x # xs'" using ne by (cases xs) auto
  note p = list_pop_ok [OF c(1) [unfolded xs]]
  have x: "x \<in> F i" "set xs' = F i - {x}" using c xs by (auto simp: chain_def)
  have t: "tiling n (F(i := F i - {x}))" using tiling_take(1) rep x(1) by (auto simp: buddy_rep_def)
  let ?h = "links b x"
  have "buddy_rep n (b\<lparr>links := links b, free_heads := (free_heads b)[i := ?h]\<rparr>) (F(i := F i - {x}))"
    by (rule buddy_rep_update [OF rep i t p(2) x(2)]) simp
  then have "buddy_rep n (b\<lparr>free_heads := (free_heads b)[i := ?h]\<rparr>) (F(i := F i - {x}))" by simp
  moreover have "pop_level b i = Some (x, b\<lparr>free_heads := (free_heads b)[i := ?h]\<rparr>)"
    using get p(1) by (simp add: pop_level_def)
  ultimately show ?thesis using x(1) by (auto simp: same_rest_def)
qed

lemma level_empty_iff:
  assumes "buddy_rep n b F" and "i < n"
  shows "slice_get (free_heads b) i = Some (free_heads b ! i)" and "list_is_none (free_heads b ! i) \<longleftrightarrow> F i = {}"
proof -
  obtain xs where "chain (links b) (free_heads b ! i) xs" "set xs = F i"
    "slice_get (free_heads b) i = Some (free_heads b ! i)"
    by (rule buddy_rep_chain [OF assms])
  then show "slice_get (free_heads b) i = Some (free_heads b ! i)" and "list_is_none (free_heads b ! i) \<longleftrightarrow> F i = {}"
    using chain_empty_iff by auto
qed

lemma remove_level_ok:
  assumes rep: "buddy_rep n b F" and i: "i < n"
  shows "\<exists>m h. list_remove_if (links b) (free_heads b ! i) x = Some (x \<in> F i, m, h)
     \<and> buddy_rep n (b\<lparr>links := m, free_heads := (free_heads b)[i := h]\<rparr>) (F(i := F i - {x}))"
proof -
  obtain xs where c: "chain (links b) (free_heads b ! i) xs" "set xs = F i"
    using rep i by (auto simp: buddy_rep_def)
  obtain m h where r: "list_remove_if (links b) (free_heads b ! i) x = Some (x \<in> F i, m, h)"
    "chain m h (remove1 x xs)" "\<forall>q. q \<notin> F i \<longrightarrow> m q = links b q"
    using list_remove_if_ok [OF c(1), of x] c(2) by auto
  have s: "set (remove1 x xs) = F i - {x}" using c by (simp add: chain_def set_remove1_eq)
  have t: "tiling n (F(i := F i - {x}))"
    using rep tiling_take(1) [of n F x i] by (cases "x \<in> F i") (auto simp: buddy_rep_def fun_upd_idem)
  show ?thesis using r(1) buddy_rep_update [OF rep i t r(2) s] r(3) by auto
qed

end
