(* ===== verification/Buddy_Alloc.thy ===== *)
theory Buddy_Alloc
  imports Buddy_Proofs
begin

text \<open>
  The operations of the buddy allocator on the sets of free blocks that its lists represent.
\<close>

lemma find_free_level_ok:
  assumes rep: "buddy_rep (LEVELS mx) b F" and "level \<le> LEVELS mx"
  shows "\<exists>l. find_free_level mx b level = Some l \<and> level \<le> l \<and> l \<le> LEVELS mx
     \<and> (\<forall>j. level \<le> j \<and> j < l \<longrightarrow> F j = {}) \<and> (l < LEVELS mx \<longrightarrow> F l \<noteq> {})"
  using assms(2)
proof (induction "LEVELS mx - level" arbitrary: level)
  case 0
  then show ?case by (subst find_free_level.simps) auto
next
  case (Suc k)
  then have lt: "level < LEVELS mx" by simp
  note e = level_empty_iff [OF rep lt]
  show ?case
  proof (cases "F level = {}")
    case True
    obtain l where l: "find_free_level mx b (level + 1) = Some l" "level + 1 \<le> l" "l \<le> LEVELS mx"
      "\<forall>j. level + 1 \<le> j \<and> j < l \<longrightarrow> F j = {}" "l < LEVELS mx \<longrightarrow> F l \<noteq> {}"
      using Suc.hyps(1) [of "level + 1"] Suc.hyps(2) lt by (metis Suc_eq_plus1 Suc_leI diff_Suc_Suc Suc_diff_Suc nat.inject)
    have "\<forall>j. level \<le> j \<and> j < l \<longrightarrow> F j = {}" using l(4) True by (metis Suc_eq_plus1 not_less_eq_eq le_antisym)
    moreover have "find_free_level mx b level = Some l" using l(1) e True lt by (subst find_free_level.simps) simp
    ultimately show ?thesis using l by auto
  next
    case False
    then show ?thesis using e lt by (subst find_free_level.simps) auto
  qed
qed

lemma halves:
  "block_at (Suc i) x = block_at i x \<union> block_at i (x + level2size i)"
  "block_at i x \<inter> block_at i (x + level2size i) = {}"
  by (auto simp: block_at_def level2size_Suc)

lemma split_down_ok:
  assumes "buddy_rep n b F" and "i < n" and "level \<le> i" and "F i \<noteq> {}"
  shows "\<exists>b' F'. split_down b level i = Some b' \<and> buddy_rep n b' F' \<and> free_cover F' = free_cover F
     \<and> F' level \<noteq> {} \<and> same_rest b b'"
  using assms
proof (induction i arbitrary: b F)
  case 0
  then show ?case by (intro exI [of _ b] exI [of _ F]) (simp add: same_rest_def)
next
  case (Suc i)
  show ?case
  proof (cases "Suc i \<le> level")
    case True
    have "split_down b level (Suc i) = Some b" using True by simp
    moreover have "level = Suc i" using True Suc.prems(3) by simp
    ultimately show ?thesis using Suc.prems(1,4) by (intro exI [of _ b] exI [of _ F]) (simp add: same_rest_def)
  next
    case False
    obtain x b1 where p: "pop_level b (Suc i) = Some (x, b1)" "x \<in> F (Suc i)"
      "buddy_rep n b1 (F(Suc i := F (Suc i) - {x}))" "same_rest b b1"
      using pop_level_ok [OF Suc.prems(1,2,4)] by blast
    define F1 where "F1 = F(Suc i := F (Suc i) - {x})"
    have t: "tiling n F" using Suc.prems(1) by (simp add: buddy_rep_def)
    have x: "0 < x" "level2size (Suc i) dvd x" "x + level2size (Suc i) < usize_limit"
      using t p(2) unfolding tiling_def by blast+
    have c1: "free_cover F1 = free_cover F - block_at (Suc i) x"
      using tiling_take(2) [OF t p(2)] by (simp add: F1_def)
    have dvd: "level2size i dvd x" using x(2) by (simp add: level2size_Suc dvd_mult_right)
    have lim: "x + level2size i + level2size i < usize_limit" using x(3) by (simp add: level2size_Suc)
    have i: "i < n" using Suc.prems(2) by simp
    have half: "0 < x + level2size i" "level2size i dvd x + level2size i"
      using x(1) dvd by simp_all
    have d2: "block_at i (x + level2size i) \<inter> free_cover F1 = {}" using c1 halves(1) by blast
    obtain b2 where b2: "at_level list_push b1 i (x + level2size i) = Some b2"
      "buddy_rep n b2 (F1(i := insert (x + level2size i) (F1 i)))"
      "free_cover (F1(i := insert (x + level2size i) (F1 i))) = free_cover F1 \<union> block_at i (x + level2size i)"
      "same_rest b1 b2"
      using push.at_level_ok [OF p(3) [folded F1_def] i half lim d2] by blast
    define F2 where "F2 = F1(i := insert (x + level2size i) (F1 i))"
    have d3: "block_at i x \<inter> free_cover F2 = {}"
      using b2(3) c1 halves [of i x] unfolding F2_def by blast
    have lim2: "x + level2size i < usize_limit" using lim by linarith
    obtain b3 where b3: "at_level list_push b2 i x = Some b3"
      "buddy_rep n b3 (F2(i := insert x (F2 i)))"
      "free_cover (F2(i := insert x (F2 i))) = free_cover F2 \<union> block_at i x"
      "same_rest b2 b3"
      using push.at_level_ok [OF b2(2) [folded F2_def] i x(1) dvd lim2 d3] by blast
    have cov: "free_cover (F2(i := insert x (F2 i))) = free_cover F"
      using b3(3) b2(3) c1 halves(1) [of i x] free_cover_memI [of x F "Suc i", OF p(2)] unfolding F2_def by blast
    have "level \<le> i" using False by simp
    then obtain b' F' where "split_down b3 level i = Some b'" "buddy_rep n b' F'"
      "free_cover F' = free_cover F" "F' level \<noteq> {}" "same_rest b3 b'"
      using Suc.IH [OF b3(2) i] cov by fastforce
    moreover have "uadd x (level2size i) = Some (x + level2size i)" using lim2 by (simp add: uadd_def)
    moreover have "same_rest b b'"
      using calculation(5) b3(4) b2(4) p(4) by (simp add: same_rest_def)
    ultimately show ?thesis using p(1) b2(1) b3(1) False by auto
  qed
qed

text \<open>Taking a block of the level asked for, once some list at or above it is not empty.\<close>

lemma take_block_ok:
  assumes rep: "buddy_rep n b F" and l: "l < n" "level \<le> l" "F l \<noteq> {}"
  shows "\<exists>b2 p b3 F'. split_down b level l = Some b2 \<and> pop_level b2 level = Some (p, b3)
     \<and> buddy_rep n b3 F' \<and> free_cover F' = free_cover F - block_at level p
     \<and> block_at level p \<subseteq> free_cover F \<and> level2size level dvd p \<and> 0 < p \<and> p + level2size level < usize_limit
     \<and> same_rest b b3"
proof -
  obtain b2 F2 where s: "split_down b level l = Some b2" "buddy_rep n b2 F2" "free_cover F2 = free_cover F"
    "F2 level \<noteq> {}" "same_rest b b2"
    using split_down_ok [OF rep l] by blast
  have lev: "level < n" using l by simp
  obtain p b3 where p: "pop_level b2 level = Some (p, b3)" "p \<in> F2 level"
    "buddy_rep n b3 (F2(level := F2 level - {p}))" "same_rest b2 b3"
    using pop_level_ok [OF s(2) lev s(4)] by blast
  have t: "tiling n F2" using s(2) by (simp add: buddy_rep_def)
  have "level2size level dvd p" "0 < p" "p + level2size level < usize_limit"
    using t p(2) unfolding tiling_def by blast+
  moreover have "same_rest b b3"
    using p(4) s(5) by (simp add: same_rest_def)
  ultimately show ?thesis
    using s p tiling_take(2) [OF t p(2)] free_cover_memI [of p F2 level, OF p(2)] by auto
qed

section \<open>Deallocation\<close>

lemma buddy_address:
  fixes x :: nat
  assumes "level2size i dvd x" and "0 < x"
  shows "level2size (Suc i) dvd x \<or> (level2size i \<le> x \<and> level2size (Suc i) dvd x - level2size i)"
proof -
  obtain k where k: "x = level2size i * k" using assms(1) by (elim dvdE)
  show ?thesis
  proof (cases "even k")
    case True
    then show ?thesis using k by (auto simp: level2size_Suc elim!: evenE)
  next
    case False
    then obtain j where "k = 2 * j + 1" by (elim oddE)
    then have "x = level2size (Suc i) * j + level2size i" using k by (simp add: level2size_Suc algebra_simps)
    then show ?thesis by simp
  qed
qed

lemma dealloc_loop_ok:
  assumes "buddy_rep (LEVELS mx) b F" and "level < LEVELS mx"
    and "0 < x" and "level2size level dvd x" and "x + level2size level < usize_limit"
    and "block_at level x \<inter> free_cover F = {}"
  shows "\<exists>b' F'. dealloc_loop mx b x level = Some b' \<and> buddy_rep (LEVELS mx) b' F'
     \<and> free_cover F' = free_cover F \<union> block_at level x
     \<and> same_rest b b'"
  using assms
proof (induction "LEVELS mx - level" arbitrary: b F x level)
  case 0
  then show ?case by simp
next
  case (Suc k)
  note rep = Suc.prems(1)
  show ?case
  proof (cases "level + 1 < LEVELS mx")
    case False
    then have "dealloc_loop mx b x level = at_level list_push_back b level x"
      by (subst dealloc_loop.simps) simp
    then show ?thesis using push_back.at_level_ok [OF Suc.prems] by auto
  next
    case True
    let ?s = "level2size level"
    define y where "y = (if level2size (Suc level) dvd x then x + ?s else x - ?s)"
    have y: "(if is_multiple_of x (level2size (level + 1)) then uadd x ?s else usub x ?s) = Some y"
      using buddy_address [OF Suc.prems(4,3)] Suc.prems(5)
      by (auto simp: y_def is_multiple_of_dvd uadd_def usub_def)
    note get = level_empty_iff(1) [OF rep Suc.prems(2)]
    obtain m h where rm: "list_remove_if (links b) (free_heads b ! level) y = Some (y \<in> F level, m, h)"
      "buddy_rep (LEVELS mx) (b\<lparr>links := m, free_heads := (free_heads b)[level := h]\<rparr>) (F(level := F level - {y}))"
      using remove_level_ok [OF rep Suc.prems(2)] by blast
    let ?b = "b\<lparr>links := m, free_heads := (free_heads b)[level := h]\<rparr>"
    show ?thesis
    proof (cases "y \<in> F level")
      case no: False
      then have repF: "buddy_rep (LEVELS mx) ?b F" using rm(2) by (simp add: fun_upd_idem)
      have eq: "dealloc_loop mx b x level = at_level list_add_with_sort ?b level x"
        using True y get rm(1) no by (subst dealloc_loop.simps) simp
      obtain b' where b': "at_level list_add_with_sort ?b level x = Some b'"
        "buddy_rep (LEVELS mx) b' (F(level := insert x (F level)))"
        "free_cover (F(level := insert x (F level))) = free_cover F \<union> block_at level x"
        "same_rest ?b b'"
        using add_with_sort.at_level_ok [OF repF Suc.prems(2-6)] by blast
      have "same_rest b b'" using b'(4) by (simp add: same_rest_def)
      then show ?thesis using eq b' by metis
    next
      case yes: True
      define F1 where "F1 = F(level := F level - {y})"
      have t: "tiling (LEVELS mx) F" using rep by (simp add: buddy_rep_def)
      have yF: "0 < y" "y + ?s < usize_limit" using t yes unfolding tiling_def by blast+
      have c1: "free_cover F1 = free_cover F - block_at level y" "block_at level y \<subseteq> free_cover F"
        using tiling_take(2) [OF t yes] free_cover_memI [of y F level, OF yes] by (simp_all add: F1_def)
      define z where "z = min x y"
      have z: "block_at (Suc level) z = block_at level x \<union> block_at level y \<and> 0 < z
        \<and> level2size (Suc level) dvd z \<and> z + level2size (Suc level) < usize_limit"
      proof (cases "level2size (Suc level) dvd x")
        case True
        then have "y = x + ?s" "z = x" by (simp_all add: y_def z_def)
        then show ?thesis using True halves(1) [of level x] Suc.prems(3) yF by (simp add: level2size_Suc)
      next
        case False
        then have "?s \<le> x" "level2size (Suc level) dvd x - ?s" using buddy_address [OF Suc.prems(4,3)] by auto
        moreover from False have "y = x - ?s" "z = x - ?s" by (simp_all add: y_def z_def)
        ultimately show ?thesis using halves(1) [of level "x - ?s"] Suc.prems(5) yF
          by (auto simp: level2size_Suc)
      qed
      have d: "block_at (Suc level) z \<inter> free_cover F1 = {}" using z c1 Suc.prems(6) by blast
      have eq: "dealloc_loop mx b x level = dealloc_loop mx ?b z (Suc level)"
        using True y get rm(1) yes by (subst dealloc_loop.simps) (simp add: z_def)
      have k: "k = LEVELS mx - Suc level" "Suc level < LEVELS mx" using Suc.hyps(2) True by simp_all
      obtain b' F' where b': "dealloc_loop mx ?b z (Suc level) = Some b'" "buddy_rep (LEVELS mx) b' F'"
        "free_cover F' = free_cover F1 \<union> block_at (Suc level) z"
        "same_rest ?b b'"
        using Suc.hyps(1) [OF k(1) rm(2) [folded F1_def] k(2) _ _ _ d] z by blast
      have "free_cover F' = free_cover F \<union> block_at level x" using b'(3) c1 z by blast
      moreover have "same_rest b b'" using b'(4) by (simp add: same_rest_def)
      ultimately show ?thesis using eq b' by metis
    qed
  qed
qed

section \<open>Adding memory\<close>

lemma top_level:
  assumes "mx = 2 ^ k" and "3 \<le> k"
  shows "0 < LEVELS mx" and "level2size (LEVELS mx - Suc 0) = mx" and "trailing_zeros mx = k"
  using assms by (simp_all add: LEVELS_pow2 level2size_def trailing_zeros_pow2)

lemma set_memory_loop_ok:
  assumes mx: "mx = 2 ^ k" "3 \<le> k" and "buddy_rep (LEVELS mx) b F" and "0 < x" and "mx dvd x"
    and "x + n * mx < usize_limit" and "{x..<x + n * mx} \<inter> free_cover F = {}"
  shows "\<exists>b' F'. set_memory_loop mx b x n = Some b' \<and> buddy_rep (LEVELS mx) b' F' \<and> same_rest b b'
     \<and> free_cover F' = free_cover F \<union> {x..<x + n * mx}
     \<and> F (LEVELS mx - Suc 0) \<subseteq> F' (LEVELS mx - Suc 0) \<and> (0 < n \<longrightarrow> x \<in> F' (LEVELS mx - Suc 0))"
  using assms(3-)
proof (induction n arbitrary: b F x)
  case 0
  then show ?case by (intro exI [of _ b] exI [of _ F]) (simp add: same_rest_def)
next
  case (Suc n)
  note top = top_level [OF mx]
  have top_lt: "LEVELS mx - Suc 0 < LEVELS mx" using top(1) by simp
  have blk: "block_at (LEVELS mx - Suc 0) x = {x..<x + mx}" by (simp add: block_at_def top(2))
  have all: "{x..<x + Suc n * mx} = {x..<x + mx} \<union> {x + mx..<x + mx + n * mx}" by auto
  have pre: "level2size (LEVELS mx - Suc 0) dvd x" "x + level2size (LEVELS mx - Suc 0) < usize_limit"
    "block_at (LEVELS mx - Suc 0) x \<inter> free_cover F = {}"
    using Suc.prems(3-5) all top(2) blk by auto
  obtain b1 where b1: "at_level list_push_back b (LEVELS mx - Suc 0) x = Some b1"
    "buddy_rep (LEVELS mx) b1 (F(LEVELS mx - Suc 0 := insert x (F (LEVELS mx - Suc 0))))"
    "free_cover (F(LEVELS mx - Suc 0 := insert x (F (LEVELS mx - Suc 0)))) = free_cover F \<union> {x..<x + mx}" "same_rest b b1"
    using push_back.at_level_ok [OF Suc.prems(1) top_lt Suc.prems(2) pre] blk by auto
  have d: "{x + mx..<x + mx + n * mx} \<inter> free_cover (F(LEVELS mx - Suc 0 := insert x (F (LEVELS mx - Suc 0)))) = {}"
    using Suc.prems(5) b1(3) all by auto
  obtain b' F' where "set_memory_loop mx b1 (x + mx) n = Some b'" "buddy_rep (LEVELS mx) b' F'" "same_rest b1 b'"
    "free_cover F' = free_cover F \<union> {x..<x + Suc n * mx}"
    "insert x (F (LEVELS mx - Suc 0)) \<subseteq> F' (LEVELS mx - Suc 0)"
    using Suc.IH [OF b1(2) _ _ _ d] Suc.prems(2-4) b1(3) all by fastforce
  moreover have "uadd x mx = Some (x + mx)" using Suc.prems(4) by (simp add: uadd_def)
  ultimately show ?case using b1(1,4) by (auto simp: same_rest_def)
qed

lemma set_memory_ok:
  assumes mx: "mx = 2 ^ k" "3 \<le> k" and rep: "buddy_rep (LEVELS mx) b F" and x: "0 < x" "mx dvd x"
    and lim: "x + n * mx < usize_limit" "total_size b + n * mx < usize_limit"
    and dis: "{x..<x + n * mx} \<inter> free_cover F = {}"
  shows "\<exists>b' F'. set_memory mx b x (n * mx) = Some b' \<and> buddy_rep (LEVELS mx) b' F'
     \<and> free_cover F' = free_cover F \<union> {x..<x + n * mx} \<and> alloc_heap b' = alloc_heap b
     \<and> total_size b' = total_size b + n * mx \<and> allocated_bytes b' = allocated_bytes b
     \<and> (0 < n \<longrightarrow> F' (LEVELS mx - Suc 0) \<noteq> {})"
proof -
  let ?b = "b\<lparr>total_size := total_size b + n * mx\<rparr>"
  have "buddy_rep (LEVELS mx) ?b F" using rep by (simp add: buddy_rep_def)
  from set_memory_loop_ok [OF mx this x lim(1) dis] obtain b' F' where b':
    "set_memory_loop mx ?b x n = Some b'" "buddy_rep (LEVELS mx) b' F'" "same_rest ?b b'"
    "free_cover F' = free_cover F \<union> {x..<x + n * mx}" "0 < n \<longrightarrow> F' (LEVELS mx - Suc 0) \<noteq> {}" by blast
  have "drop_bit (trailing_zeros mx) (n * mx) = n"
    using mx(1) by (simp add: trailing_zeros_pow2 drop_bit_eq_div)
  then have "set_memory mx b x (n * mx) = Some b'" using lim(2) b'(1) by (simp add: set_memory_def uadd_def)
  then show ?thesis using b' by (auto simp: same_rest_def)
qed

section \<open>Allocation\<close>

definition required_bytes :: "Layout \<Rightarrow> usize" where
  "required_bytes l = max (max (layout_size l) (layout_align l)) MINIMUM_ALLOCATABLE_BYTES"

lemma request_level:
  assumes mx: "mx = 2 ^ k" "3 \<le> k" "k \<le> 63" and l: "layout_ok l" "required_bytes l \<le> mx"
  obtains level where "next_power_of_two (required_bytes l) = Some (level2size level)"
    and "size2level_next_power (required_bytes l) = Some level" and "level < LEVELS mx"
    and "layout_size l \<le> level2size level" and "layout_align l dvd level2size level"
proof -
  have "(2::nat) ^ k \<le> 2 ^ 63" using mx(3) by (intro power_increasing) simp_all
  then have r: "8 \<le> required_bytes l" "required_bytes l \<le> 2 ^ 63"
    using l(2) mx(1) by (simp_all add: required_bytes_def MINIMUM_ALLOCATABLE_BYTES_def)
  obtain v where v: "next_power_of_two (required_bytes l) = Some (level2size v)"
    "size2level_next_power (required_bytes l) = Some v" "required_bytes l \<le> level2size v"
    "v = 0 \<or> level2size (v - 1) < required_bytes l"
    by (rule level_of_request [OF r])
  have "v < LEVELS mx"
  proof (cases "v = 0")
    case False
    then have "(2::nat) ^ (v - 1 + 3) < 2 ^ k" using v(4) l(2) mx(1) by (simp add: level2size_def)
    then have "v - 1 + 3 < k" using power_less_imp_less_exp [of 2 "v - 1 + 3" k] by simp
    then show ?thesis using mx by (simp add: LEVELS_pow2)
  qed (use top_level(1) [OF mx(1,2)] in simp)
  moreover have "layout_align l dvd level2size v"
  proof -
    obtain a where a: "layout_align l = 2 ^ a" using l(1) by (auto simp: layout_ok_def)
    have "(2::nat) ^ a \<le> 2 ^ (v + 3)" using v(3) a by (simp add: required_bytes_def level2size_def)
    then have "a \<le> v + 3" by (simp add: power_increasing_iff)
    then show ?thesis by (simp add: a level2size_def le_imp_power_dvd)
  qed
  ultimately show thesis using that v by (simp add: required_bytes_def)
qed

text \<open>
  The free addresses the allocation may use: those of the free lists or, when the lists have nothing
  large enough, the block that \<open>alloc_heap\<close> fetched.
\<close>

definition refill_ok :: "usize \<Rightarrow> nat set \<Rightarrow> usize \<Rightarrow> bool" where
  "refill_ok mx used new \<longleftrightarrow> 0 < new \<and> mx dvd new \<and> new + mx < usize_limit \<and> {new..<new + mx} \<inter> used = {}"

text \<open>The end of \<open>alloc\<close>, once a free list at a level that is high enough is not empty.\<close>

definition finish_alloc :: "'h BuddyAllocator \<Rightarrow> Layout \<Rightarrow> nat \<Rightarrow> nat \<Rightarrow> 'h \<Rightarrow> ((string + usize) \<times> 'h BuddyAllocator \<times> 'h) option" where
  "finish_alloc b l level i h = do {
     b2 \<leftarrow> split_down b level i;
     (ptr, b3) \<leftarrow> pop_level b2 level;
     p \<leftarrow> next_power_of_two (required_bytes l);
     a \<leftarrow> uadd (allocated_bytes b3) p;
     Some (Inr ptr, b3\<lparr>allocated_bytes := a\<rparr>, h)
   }"

lemma finish_alloc_ok:
  assumes lv: "next_power_of_two (required_bytes l) = Some (level2size level)" "layout_align l dvd level2size level"
    and g: "buddy_rep n b G" "i < n" "level \<le> i" "G i \<noteq> {}"
    and room: "allocated_bytes b + level2size level < usize_limit \<or> finish_alloc b l level i h \<noteq> None"
  shows "\<exists>p b' F'. finish_alloc b l level i h = Some (Inr p, b', h) \<and> buddy_rep n b' F' \<and> layout_align l dvd p
    \<and> alloc_heap b' = alloc_heap b \<and> 0 < p \<and> level2size level dvd p \<and> p + level2size level < usize_limit
    \<and> block_at level p \<subseteq> free_cover G \<and> free_cover F' = free_cover G - block_at level p"
proof -
  obtain b2 p b3 F' where t: "split_down b level i = Some b2" "pop_level b2 level = Some (p, b3)"
    "buddy_rep n b3 F'" "free_cover F' = free_cover G - block_at level p"
    "block_at level p \<subseteq> free_cover G" "level2size level dvd p" "same_rest b b3" "0 < p"
    "p + level2size level < usize_limit"
    using take_block_ok [OF g] by blast
  let ?b = "b3\<lparr>allocated_bytes := allocated_bytes b + level2size level\<rparr>"
  have u: "uadd (allocated_bytes b3) (level2size level) = (if allocated_bytes b + level2size level < usize_limit
      then Some (allocated_bytes b + level2size level) else None)"
    using t(7) by (simp add: same_rest_def uadd_def)
  have "finish_alloc b l level i h = Some (Inr p, ?b, h)"
    using room u t(1,2) lv(1) by (auto simp: finish_alloc_def split: if_splits)
  moreover have "buddy_rep n ?b F'" using t(3) by (simp add: buddy_rep_def)
  ultimately show ?thesis
    using t(4-9) dvd_trans [OF lv(2) t(6)] by (intro exI [of _ p] exI [of _ ?b] exI [of _ F']) (simp add: same_rest_def)
qed

text \<open>The three ways through \<open>alloc\<close>: from a free list, without memory, and after the heap gave a block.\<close>

lemma buddy_alloc_paths:
  assumes "size2level_next_power (required_bytes l) = Some level" and "find_free_level mx b level = Some fl"
  shows "fl < LEVELS mx \<Longrightarrow> buddy_alloc mx b h l = finish_alloc b l level fl h"
    and "\<lbrakk>fl = LEVELS mx; alloc_heap b = Some f; f h = None\<rbrakk> \<Longrightarrow> buddy_alloc mx b h l = None"
    and "\<lbrakk>fl = LEVELS mx; alloc_heap b = Some f; f h = Some (None, h1)\<rbrakk> \<Longrightarrow>
      buddy_alloc mx b h l = Some (Inl ''failed to allocate memory from heap'', b, h1)"
    and "\<lbrakk>fl = LEVELS mx; alloc_heap b = Some f; f h = Some (Some new, h1)\<rbrakk> \<Longrightarrow>
      buddy_alloc mx b h l = (case set_memory mx b new mx of None \<Rightarrow> None | Some b1 \<Rightarrow> finish_alloc b1 l level (LEVELS mx - Suc 0) h1)"
  using assms
  by (simp_all add: buddy_alloc_def finish_alloc_def required_bytes_def [symmetric] split: option.splits)

lemma buddy_alloc_ok:
  assumes mx: "mx = 2 ^ k" "3 \<le> k" "k \<le> 63" and l: "layout_ok l" "required_bytes l \<le> mx"
    and rep: "buddy_rep (LEVELS mx) b F"
    and room: "(allocated_bytes b + mx < usize_limit \<and> total_size b + mx < usize_limit \<and> f h \<noteq> None)
      \<or> buddy_alloc mx b h l \<noteq> None"
    and heap: "alloc_heap b = Some f" "\<forall>new h1. f h = Some (Some new, h1) \<longrightarrow> refill_ok mx (free_cover F) new"
  shows "\<exists>level res b' h' F' new. buddy_alloc mx b h l = Some (res, b', h') \<and> buddy_rep (LEVELS mx) b' F'
     \<and> alloc_heap b' = alloc_heap b
     \<and> ((h' = h \<and> new = {}) \<or> (f h = Some (None, h') \<and> new = {}) \<or> (\<exists>n. f h = Some (Some n, h') \<and> new = {n..<n + mx}))
     \<and> (case res of
         Inl e \<Rightarrow> f h = Some (None, h') \<and> free_cover F' = free_cover F
       | Inr p \<Rightarrow> size2level_next_power (required_bytes l) = Some level
           \<and> layout_align l dvd p \<and> layout_size l \<le> level2size level
           \<and> 0 < p \<and> level2size level dvd p \<and> p + level2size level < usize_limit
           \<and> block_at level p \<subseteq> free_cover F \<union> new
           \<and> free_cover F' = (free_cover F \<union> new) - block_at level p)"
proof -
  obtain level where lv: "next_power_of_two (required_bytes l) = Some (level2size level)"
    "size2level_next_power (required_bytes l) = Some level" "level < LEVELS mx"
    "layout_size l \<le> level2size level" "layout_align l dvd level2size level"
    by (rule request_level [OF mx l])
  have "level2size level \<le> level2size (LEVELS mx - Suc 0)"
    unfolding level2size_def using lv(3) by (intro power_increasing) simp_all
  then have room1: "allocated_bytes b + level2size level < usize_limit \<or> buddy_alloc mx b h l \<noteq> None"
    using room top_level(2) [OF mx(1,2)] by (simp only:) linarith
  obtain fl where fl: "find_free_level mx b level = Some fl" "level \<le> fl" "fl \<le> LEVELS mx" "fl < LEVELS mx \<longrightarrow> F fl \<noteq> {}"
    using find_free_level_ok [OF rep less_imp_le [OF lv(3)]] by blast
  note path = buddy_alloc_paths [where h = h, OF lv(2) fl(1)] and finish = finish_alloc_ok [OF lv(1,5)]
  show ?thesis
  proof (cases "fl < LEVELS mx")
    case True
    with finish [OF rep True fl(2) fl(4) [rule_format, OF True], of h] room1 path(1)
    obtain p b' F' where "buddy_alloc mx b h l = Some (Inr p, b', h)" "buddy_rep (LEVELS mx) b' F'"
      "layout_align l dvd p" "alloc_heap b' = alloc_heap b" "0 < p" "level2size level dvd p" "p + level2size level < usize_limit"
      "block_at level p \<subseteq> free_cover F" "free_cover F' = free_cover F - block_at level p" by auto
    then show ?thesis
      using lv(2,4) by (intro exI [of _ level] exI [of _ "Inr p"] exI [of _ b'] exI [of _ h] exI [of _ F'] exI [of _ "{}"]) simp
  next
    case False
    then have fle: "fl = LEVELS mx" using fl(3) by simp
    then have "f h \<noteq> None" using path(2) [OF fle heap(1)] room by blast
    then consider (empty) h1 where "f h = Some (None, h1)" | (new) new h1 where "f h = Some (Some new, h1)"
      by (metis not_None_eq surj_pair)
    then show ?thesis
    proof cases
      case empty
      then show ?thesis
        using rep path(3) [OF fle heap(1) empty] by (intro exI [of _ level] exI [of _ "Inl ''failed to allocate memory from heap''"]
            exI [of _ b] exI [of _ h1] exI [of _ F] exI [of _ "{}"]) simp
    next
      case new
      note eq = path(4) [OF fle heap(1) new]
      have n: "refill_ok mx (free_cover F) new" using heap(2) new by blast
      have "total_size b + mx < usize_limit \<or> set_memory mx b new mx \<noteq> None" using room eq by (auto split: option.splits)
      then have room2: "total_size b + mx < usize_limit" by (auto simp: set_memory_def uadd_def split: if_splits)
      obtain b1 F1 where s: "set_memory mx b new mx = Some b1" "buddy_rep (LEVELS mx) b1 F1"
        "free_cover F1 = free_cover F \<union> {new..<new + mx}" "allocated_bytes b1 = allocated_bytes b"
        "alloc_heap b1 = alloc_heap b" "F1 (LEVELS mx - Suc 0) \<noteq> {}"
        using set_memory_ok [OF mx(1,2) rep, of new 1] n room2 by (auto simp: refill_ok_def)
      have i: "LEVELS mx - Suc 0 < LEVELS mx" "level \<le> LEVELS mx - Suc 0" using lv(3) by simp_all
      from finish [OF s(2) i s(6), of h1] room1 eq s(1,4)
      obtain p b' F' where "buddy_alloc mx b h l = Some (Inr p, b', h1)" "buddy_rep (LEVELS mx) b' F'"
        "layout_align l dvd p" "alloc_heap b' = alloc_heap b1" "0 < p" "level2size level dvd p" "p + level2size level < usize_limit"
        "block_at level p \<subseteq> free_cover F \<union> {new..<new + mx}"
        "free_cover F' = (free_cover F \<union> {new..<new + mx}) - block_at level p"
        by (auto simp: s(3))
      then show ?thesis
        using lv(2,4) new s(5) by (intro exI [of _ level] exI [of _ "Inr p"] exI [of _ b'] exI [of _ h1] exI [of _ F']
            exI [of _ "{new..<new + mx}"]) simp
    qed
  qed
qed

section \<open>Deallocation by layout\<close>

lemma level2size_mono_iff: "level2size i \<le> level2size j \<longleftrightarrow> i \<le> j"
  by (simp add: level2size_eq)

lemma level2size_dvd: "i \<le> j \<Longrightarrow> level2size i dvd level2size j"
  by (simp add: level2size_eq le_imp_power_dvd)

lemma block_at_mono: "i \<le> j \<Longrightarrow> block_at i x \<subseteq> block_at j x"
  using level2size_mono_iff [of i j] by (auto simp: block_at_def)

text \<open>
  \<open>dealloc\<close> computes the level from the size alone, so it may be below the level of the block that
  \<open>alloc\<close> handed out.
\<close>

lemma buddy_dealloc_ok:
  assumes mx: "mx = 2 ^ k" "3 \<le> k" "k \<le> 63" and l: "layout_ok l" "required_bytes l \<le> mx"
    and rep: "buddy_rep (LEVELS mx) b F"
    and level: "size2level_next_power (required_bytes l) = Some level"
    and p: "0 < p" "level2size level dvd p" "p + level2size level < usize_limit"
    and dis: "block_at level p \<inter> free_cover F = {}"
  shows "\<exists>d. d \<le> level \<and> layout_size l \<le> level2size d
     \<and> size2level_next_power (max (layout_size l) MINIMUM_ALLOCATABLE_BYTES) = Some d
     \<and> (if level2size d \<le> allocated_bytes b
         then \<exists>b' F'. buddy_dealloc mx b p l = Some b' \<and> buddy_rep (LEVELS mx) b' F'
            \<and> free_cover F' = free_cover F \<union> block_at d p \<and> alloc_heap b' = alloc_heap b
         else buddy_dealloc mx b p l = None)"
proof -
  obtain v where v: "next_power_of_two (required_bytes l) = Some (level2size v)"
    "size2level_next_power (required_bytes l) = Some v" "v < LEVELS mx"
    by (rule request_level [OF mx l])
  then have lv: "level < LEVELS mx" "next_power_of_two (required_bytes l) = Some (level2size level)"
    using level by simp_all
  let ?r = "max (layout_size l) MINIMUM_ALLOCATABLE_BYTES"
  have rl: "?r \<le> required_bytes l" by (simp add: required_bytes_def)
  have "(2::nat) ^ k \<le> 2 ^ 63" using mx(3) by (intro power_increasing) simp_all
  then have big: "8 \<le> ?r" "?r \<le> 2 ^ 63" "8 \<le> required_bytes l" "required_bytes l \<le> 2 ^ 63"
    using l(2) mx(1) rl by (simp_all add: MINIMUM_ALLOCATABLE_BYTES_def)
  obtain d where d: "next_power_of_two ?r = Some (level2size d)" "size2level_next_power ?r = Some d"
    "?r \<le> level2size d" "d = 0 \<or> level2size (d - 1) < ?r"
    by (rule level_of_request [OF big(1,2)])
  obtain w where "size2level_next_power (required_bytes l) = Some w" "required_bytes l \<le> level2size w"
    by (rule level_of_request [OF big(3,4)])
  then have le: "?r \<le> level2size level" using level rl by simp
  have dl: "d \<le> level"
  proof (cases "d = 0")
    case False
    then have "level2size (d - 1) < ?r" using d(4) by blast
    then have "level2size (d - 1) < level2size level" using le by (rule less_le_trans)
    then show ?thesis using level2size_mono_iff [of level "d - 1"] by simp
  qed simp
  have pd: "level2size d dvd p" "p + level2size d < usize_limit" "block_at d p \<inter> free_cover F = {}" "d < LEVELS mx"
    using dl p(3) dvd_trans [OF level2size_dvd [OF dl] p(2)] level2size_mono_iff [of d level]
      block_at_mono [OF dl, of p] dis lv(1) by auto
  show ?thesis
  proof (cases "level2size d \<le> allocated_bytes b")
    case True
    let ?b = "b\<lparr>allocated_bytes := allocated_bytes b - level2size d\<rparr>"
    have "buddy_rep (LEVELS mx) ?b F" using rep by (simp add: buddy_rep_def)
    from dealloc_loop_ok [OF this pd(4) p(1) pd(1-3)] obtain b' F' where
      "dealloc_loop mx ?b p d = Some b'" "buddy_rep (LEVELS mx) b' F'"
      "free_cover F' = free_cover F \<union> block_at d p" "same_rest ?b b'" by blast
    moreover have "buddy_dealloc mx b p l = dealloc_loop mx ?b p d"
      using d True by (simp add: buddy_dealloc_def usub_def)
    ultimately show ?thesis using True dl d(2,3) by (auto simp: same_rest_def)
  next
    case False
    then have "buddy_dealloc mx b p l = None" using d by (simp add: buddy_dealloc_def usub_def)
    then show ?thesis using False dl d(2,3) by auto
  qed
qed

text \<open>The accounting after a successful allocation covers the block.\<close>

lemma buddy_alloc_accounts:
  assumes "buddy_alloc mx b h l = Some (Inr p, b', h')" and "next_power_of_two (required_bytes l) = Some q"
  shows "q \<le> allocated_bytes b'"
  using assms
  by (auto simp: buddy_alloc_def Let_def required_bytes_def [symmetric] Option.bind_eq_Some_conv uadd_Some_iff
      split: if_splits option.splits sum.splits)

end
