(* ===== verification/Range_List_Proofs.thy ===== *)
theory Range_List_Proofs
  imports Range_List
begin

text \<open>
  The range list allocator at work: the arrays hold sorted lists of disjoint regions, and every
  operation adds or takes away the addresses it says it does.
\<close>

section \<open>Regions as sets of addresses\<close>

definition fin :: "MemoryRegions \<Rightarrow> nat" where
  "fin r = address r + mr_size r"

definition span :: "MemoryRegions \<Rightarrow> nat set" where
  "span r = {address r..<fin r}"

definition cover :: "MemoryRegions list \<Rightarrow> nat set" where
  "cover rs = (\<Union>r \<in> set rs. span r)"

definition before :: "MemoryRegions \<Rightarrow> MemoryRegions \<Rightarrow> bool" where
  "before a b \<longleftrightarrow> address a < address b \<and> fin a \<le> address b"

definition regions_ok :: "MemoryRegions list \<Rightarrow> bool" where
  "regions_ok rs \<longleftrightarrow> sorted_wrt before rs \<and> (\<forall>r \<in> set rs. fin r < usize_limit)"

definition nonempty :: "MemoryRegions list \<Rightarrow> bool" where
  "nonempty rs \<longleftrightarrow> (\<forall>r \<in> set rs. address r < fin r)"

lemma nonempty_simps [simp]:
  "nonempty []" "nonempty (r # rs) \<longleftrightarrow> address r < fin r \<and> nonempty rs"
  "nonempty (xs @ ys) \<longleftrightarrow> nonempty xs \<and> nonempty ys"
  by (auto simp: nonempty_def)

lemma cover_simps [simp]:
  "cover [] = {}" "cover (r # rs) = span r \<union> cover rs" "cover (xs @ ys) = cover xs \<union> cover ys"
  by (auto simp: cover_def)

lemma regions_ok_append:
  "regions_ok (xs @ ys) \<longleftrightarrow> regions_ok xs \<and> regions_ok ys \<and> (\<forall>x \<in> set xs. \<forall>y \<in> set ys. before x y)"
  by (auto simp: regions_ok_def sorted_wrt_append)

lemma regions_ok_Cons:
  "regions_ok (x # xs) \<longleftrightarrow> fin x < usize_limit \<and> regions_ok xs \<and> (\<forall>y \<in> set xs. before x y)"
  by (auto simp: regions_ok_def)

lemma regions_ok_Nil [simp]: "regions_ok []"
  by (simp add: regions_ok_def)

lemmas regions_ok_simps = regions_ok_append regions_ok_Cons regions_ok_Nil

lemma region_end_ok [exec_simps]: "fin r < usize_limit \<Longrightarrow> region_end r = Some (fin r)"
  by (simp add: region_end_def fin_def uadd_def)

lemma region_end_Some_iff: "region_end r = Some e \<longleftrightarrow> fin r < usize_limit \<and> e = fin r"
  by (auto simp: region_end_def fin_def uadd_def)

lemma fin_simps [simp]:
  "fin \<lparr>address = a, mr_size = s\<rparr> = a + s" "fin (r\<lparr>mr_size := s\<rparr>) = address r + s"
  by (simp_all add: fin_def)

lemma address_le_fin [simp]: "address r \<le> fin r"
  by (simp add: fin_def)

lemma before_trans: "before a b \<Longrightarrow> before b c \<Longrightarrow> before a c"
  by (auto simp: before_def fin_def)

lemma regions_ok_sorted: "regions_ok rs \<Longrightarrow> sorted (map address rs)"
  unfolding regions_ok_def by (simp add: sorted_map) (metis (mono_tags, lifting) before_def
      less_imp_le_nat sorted_wrt_mono_rel)

section \<open>Adding a region to a list\<close>

text \<open>
  What the arrays must hold after a region was added between \<open>as\<close> and \<open>bs\<close>, and after a region
  with the same address as \<open>c\<close> was added.
\<close>

definition merge_at ::
  "MemoryRegions list \<Rightarrow> MemoryRegions list \<Rightarrow> MemoryRegions \<Rightarrow> MemoryRegions list" where
  "merge_at as bs r =
     (let pre = (as \<noteq> [] \<and> address r \<le> fin (last as));
          nxt = (bs \<noteq> [] \<and> address (hd bs) \<le> fin r)
      in if pre \<and> nxt then
           butlast as @ (last as)\<lparr>mr_size := max (max (fin (last as)) (fin r)) (fin (hd bs))
              - address (last as)\<rparr> # tl bs
         else if pre then
           butlast as @ (last as)\<lparr>mr_size := max (fin (last as)) (fin r) - address (last as)\<rparr> # bs
         else if nxt then
           as @ \<lparr>address = address r, mr_size = max (fin (hd bs)) (fin r) - address r\<rparr> # tl bs
         else as @ r # bs)"

definition grow_at ::
  "MemoryRegions list \<Rightarrow> MemoryRegions \<Rightarrow> MemoryRegions list \<Rightarrow> MemoryRegions
     \<Rightarrow> MemoryRegions list" where
  "grow_at as c bs r =
     (if mr_size r \<le> mr_size c then as @ c # bs
      else if bs \<noteq> [] \<and> address (hd bs) \<le> fin r then
        as @ c\<lparr>mr_size := max (fin r) (fin (hd bs)) - address c\<rparr> # tl bs
      else as @ c\<lparr>mr_size := mr_size r\<rparr> # bs)"

text \<open>The region reaches over the start of at most one region that lies after its own start.\<close>

definition reaches_one :: "MemoryRegions list \<Rightarrow> MemoryRegions \<Rightarrow> bool" where
  "reaches_one rs r \<longleftrightarrow>
     length (filter (\<lambda>q. address r < address q \<and> address q < fin r) rs) \<le> 1"

lemma sorted_filter_le1:
  assumes "sorted_wrt before (b # bs)" and "address r < address b"
    and "length (filter (\<lambda>q. address r < address q \<and> address q < fin r) (b # bs)) \<le> 1"
  shows "\<forall>q \<in> set bs. fin r \<le> address q"
proof
  fix q assume q: "q \<in> set bs"
  show "fin r \<le> address q"
  proof (rule ccontr)
    assume lt: "\<not> fin r \<le> address q"
    from assms(1) q have "before b q" by simp
    with lt assms(2) have b: "address r < address b \<and> address b < fin r"
      and q': "address r < address q \<and> address q < fin r"
      by (auto simp: before_def)
    from q q' have "q \<in> set (filter (\<lambda>q. address r < address q \<and> address q < fin r) bs)"
      by simp
    then have "0 < length (filter (\<lambda>q. address r < address q \<and> address q < fin r) bs)"
      by (metis length_pos_if_in_set)
    with assms(3) b show False by simp
  qed
qed

lemma reaches_one_tl:
  assumes "regions_ok (as @ bs)" and "reaches_one (as @ bs) r" and "\<forall>b \<in> set bs. address r < address b"
  shows "\<forall>q \<in> set (tl bs). fin r \<le> address q"
proof (cases bs)
  case (Cons b bs')
  have "sorted_wrt before (b # bs')"
    using assms(1) Cons by (simp add: regions_ok_def sorted_wrt_append)
  moreover have "length (filter (\<lambda>q. address r < address q \<and> address q < fin r) (b # bs')) \<le> 1"
    using assms(2) unfolding reaches_one_def filter_append length_append Cons by linarith
  ultimately show ?thesis
    using sorted_filter_le1 [of b bs' r] assms(3) Cons by simp
qed simp

lemma merge_at_shapes:
  "merge_at [] [] r = [r]"
  "merge_at [] (b # bs) r =
     (if address b \<le> fin r then \<lparr>address = address r, mr_size = max (fin b) (fin r) - address r\<rparr> # bs
      else r # b # bs)"
  "merge_at (as @ [a]) [] r =
     (if address r \<le> fin a then as @ [a\<lparr>mr_size := max (fin a) (fin r) - address a\<rparr>]
      else as @ [a, r])"
  "merge_at (as @ [a]) (b # bs) r =
     (if address r \<le> fin a then
        (if address b \<le> fin r
         then as @ a\<lparr>mr_size := max (max (fin a) (fin r)) (fin b) - address a\<rparr> # bs
         else as @ a\<lparr>mr_size := max (fin a) (fin r) - address a\<rparr> # b # bs)
      else if address b \<le> fin r
        then as @ a # \<lparr>address = address r, mr_size = max (fin b) (fin r) - address r\<rparr> # bs
        else as @ a # r # b # bs)"
  by (simp_all add: merge_at_def Let_def)

lemma merge_at_nonempty:
  assumes "nonempty as" and "nonempty bs" and "address r < fin r"
    and "\<forall>a \<in> set as. address a < address r" and "\<forall>b \<in> set bs. address r < address b"
  shows "nonempty (merge_at as bs r)"
  using assms
  by (cases as rule: rev_cases; cases bs) (auto simp: merge_at_shapes less_max_iff_disj)

text \<open>A merged region covers what it was merged from.\<close>

lemma span_merge_pre:
  "address a \<le> address r \<Longrightarrow> address r \<le> fin a \<Longrightarrow>
     span (a\<lparr>mr_size := max (fin a) (fin r) - address a\<rparr>) = span a \<union> span r"
  by (auto simp: span_def fin_def)

lemma span_merge_next:
  "address r \<le> address b \<Longrightarrow> address b \<le> fin r \<Longrightarrow>
     span \<lparr>address = address r, mr_size = max (fin b) (fin r) - address r\<rparr> = span b \<union> span r"
  by (auto simp: span_def fin_def)

lemma span_merge_both:
  "address a \<le> address r \<Longrightarrow> address r \<le> fin a \<Longrightarrow> address r \<le> address b \<Longrightarrow> address b \<le> fin r \<Longrightarrow>
     span (a\<lparr>mr_size := max (max (fin a) (fin r)) (fin b) - address a\<rparr>) = span a \<union> span r \<union> span b"
  by (auto simp: span_def fin_def)

lemma merge_at_cover:
  assumes "\<forall>a \<in> set as. address a < address r" and "\<forall>b \<in> set bs. address r < address b"
  shows "cover (merge_at as bs r) = cover (as @ bs) \<union> span r"
  using assms
  by (cases as rule: rev_cases; cases bs)
    (auto simp: merge_at_shapes span_merge_pre span_merge_next span_merge_both less_imp_le_nat)

lemma merge_at_ok:
  assumes ok: "regions_ok (as @ bs)" and r: "fin r < usize_limit"
    and lo: "\<forall>a \<in> set as. address a < address r" and hi: "\<forall>b \<in> set bs. address r < address b"
    and tl: "\<forall>b \<in> set (tl bs). fin r \<le> address b"
  shows "regions_ok (merge_at as bs r)"
proof (cases as rule: rev_cases)
  case Nil
  with assms show ?thesis
    by (cases bs) (auto simp: merge_at_shapes regions_ok_simps before_def)
next
  case (snoc as' a)
  have r_le: "address r \<le> fin r" and a_le: "address a \<le> fin a" by simp_all
  show ?thesis
  proof (cases bs)
    case Nil
    with snoc assms show ?thesis
      by (auto simp: merge_at_shapes regions_ok_simps before_def)
  next
    case (Cons b bs')
    have ok': "regions_ok as'" "regions_ok bs'" "fin a < usize_limit" "fin b < usize_limit"
      "before a b" "\<forall>x \<in> set as'. before x a \<and> before x b" "\<forall>y \<in> set bs'. before a y \<and> before b y"
      "\<forall>x \<in> set as'. \<forall>y \<in> set bs'. before x y"
      using ok snoc Cons by (auto simp: regions_ok_simps)
    have lim: "address a < address r" "address r < address b" "\<forall>y \<in> set bs'. fin r \<le> address y"
      "\<forall>x \<in> set as'. address x < address r" "\<forall>y \<in> set bs'. address r < address y"
      using snoc Cons lo hi tl by auto
    show ?thesis
      unfolding snoc Cons merge_at_shapes
      using ok' lim r r_le a_le by (auto simp: regions_ok_simps before_def)
  qed
qed

lemma grow_at_cover:
  assumes "address c = address r" and "\<forall>b \<in> set bs. before c b"
  shows "cover (grow_at as c bs r) = cover (as @ c # bs) \<union> span r"
  using assms by (cases bs) (auto simp: grow_at_def before_def span_def fin_def)

lemma grow_at_ok:
  assumes ok: "regions_ok (as @ c # bs)" and r: "fin r < usize_limit" and eq: "address c = address r"
    and tl: "\<forall>b \<in> set (tl bs). fin r \<le> address b"
  shows "regions_ok (grow_at as c bs r)"
proof -
  have f: "address c + mr_size r = fin r" using eq by (simp add: fin_def)
  show ?thesis
    using assms f address_le_fin [of r]
    by (cases bs) (auto simp: grow_at_def regions_ok_simps before_def)
qed

section \<open>The arrays implement the lists\<close>

lemma holds_get:
  assumes "holds buf n (as @ x # bs)" and "i = length as"
  shows "slice_get buf i = Some x"
  using assms holds_split [OF assms(1)] by (auto simp: slice_get_def)

lemma holds_set:
  assumes "holds buf n (as @ x # bs)" and "i = length as"
  shows "slice_set buf i y = Some (buf[i := y])" and "holds (buf[i := y]) n (as @ y # bs)"
proof -
  have "i < length buf" using assms by (auto simp: holds_def)
  then show "slice_set buf i y = Some (buf[i := y])" by (rule slice_set_ok)
  show "holds (buf[i := y]) n (as @ y # bs)" by (rule holds_update [OF assms])
qed

lemma insert_region_refines:
  assumes buf: "holds buf n (as @ bs)" and room: "n < length buf" and u32: "n + 1 < u32_limit"
    and pre: "as \<noteq> [] \<Longrightarrow> fin (last as) \<le> address r \<and> fin (last as) < usize_limit"
    and nxt: "bs \<noteq> [] \<Longrightarrow> fin r \<le> address (hd bs) \<and> fin r < usize_limit"
  shows "\<exists>buf'. insert_region buf n (length as) r = Some (buf', n + 1)
     \<and> holds buf' (n + 1) (as @ r # bs) \<and> length buf' = length buf"
proof -
  have n: "n = length as + length bs" using buf by (simp add: holds_def)
  have c1: "(if 0 < length as then do {
             pre \<leftarrow> slice_get buf (length as - 1); e \<leftarrow> region_end pre;
             rust_assert (e \<le> address r) } else Some ()) = Some ()"
  proof (cases as rule: rev_cases)
    case (snoc as' a)
    then have "slice_get buf (length as - 1) = Some a"
      using holds_get [of buf n as' a bs "length as'"] buf by simp
    then show ?thesis using snoc pre by (simp add: exec_simps)
  qed simp
  have c2: "(if length as < n then do {
             nx \<leftarrow> slice_get buf (length as); e \<leftarrow> region_end r;
             rust_assert (e \<le> address nx) } else Some ()) = Some ()"
  proof (cases bs)
    case (Cons b bs')
    then have "slice_get buf (length as) = Some b"
      using holds_get [of buf n as b bs' "length as"] buf by simp
    then show ?thesis using Cons nxt by (simp add: exec_simps)
  qed (simp add: n)
  obtain buf1 where b1: "copy_within buf (length as) n (length as + 1) = Some buf1"
    and l1: "length buf1 = length buf" and h1: "holds (buf1[length as := r]) (Suc n) (as @ r # bs)"
    using insert_slot [OF buf room, of r] by blast
  have "length as < length buf1" using l1 room n by simp
  then show ?thesis
    unfolding insert_region_def c1 c2 using b1 h1 l1 u32 by (simp add: exec_simps)
qed

lemma merge_pre_refines:
  assumes buf: "holds buf n (as @ a # bs)" and "address a \<le> address r"
    and "fin a < usize_limit" and "fin r < usize_limit"
  shows "\<exists>buf'. do {
          pre \<leftarrow> slice_get buf (length as);
          new_end \<leftarrow> region_end r;
          pre_region_end \<leftarrow> region_end pre;
          (if pre_region_end < new_end then do {
             s \<leftarrow> usub new_end (address pre);
             rs1 \<leftarrow> slice_set buf (length as) (pre\<lparr>mr_size := s\<rparr>);
             Some (rs1, n)
           } else Some (buf, n))
        } = Some (buf', n)
     \<and> holds buf' n (as @ a\<lparr>mr_size := max (fin a) (fin r) - address a\<rparr> # bs)
     \<and> length buf' = length buf"
proof (cases "fin a < fin r")
  case True
  have "address a \<le> fin r" using assms(2) address_le_fin [of r] by linarith
  with True show ?thesis
    using holds_get [OF buf refl] holds_set [OF buf refl] assms by (simp add: exec_simps max_def)
next
  case False
  have "a\<lparr>mr_size := max (fin a) (fin r) - address a\<rparr> = a"
    using False by (simp add: max_def fin_def)
  with False show ?thesis
    using holds_get [OF buf refl] buf assms by (simp add: exec_simps)
qed

lemma merge_both_refines:
  assumes buf: "holds buf n (as @ a # b # bs)" and "address a \<le> v"
  shows "\<exists>buf'. do {
          s \<leftarrow> usub v (address a);
          rs1 \<leftarrow> slice_set buf (length as) (a\<lparr>mr_size := s\<rparr>);
          rs2 \<leftarrow> copy_within rs1 (Suc (Suc (length as))) n (Suc (length as));
          rs3 \<leftarrow> slice_set rs2 (n - 1) zero_region;
          Some (rs3, n - 1)
        } = Some (buf', n - 1)
     \<and> holds buf' (n - 1) (as @ a\<lparr>mr_size := v - address a\<rparr> # bs) \<and> length buf' = length buf"
proof -
  let ?a = "a\<lparr>mr_size := v - address a\<rparr>"
  have h: "holds (buf[length as := ?a]) n ((as @ [?a]) @ b # bs)"
    using holds_set(2) [OF buf refl, of ?a] by simp
  obtain buf1 where b1: "copy_within (buf[length as := ?a]) (Suc (Suc (length as))) n (Suc (length as)) = Some buf1"
    and l1: "length buf1 = length buf"
    and h1: "holds (buf1[n - 1 := zero_region]) (n - 1) ((as @ [?a]) @ bs)"
    using delete_slot [OF h, of zero_region] by auto
  have "n - 1 < length buf1" using buf l1 by (auto simp: holds_def)
  then show ?thesis
    using holds_set(1) [OF buf refl, of ?a] b1 h1 l1 assms(2) by (simp add: exec_simps)
qed

lemma merge_next_refines:
  assumes buf: "holds buf n (as @ b # bs)" and "address r \<le> address b"
    and "fin b < usize_limit" and "fin r < usize_limit"
  shows "\<exists>buf'. do {
          nx \<leftarrow> slice_get buf (length as);
          old_end \<leftarrow> region_end nx;
          new_end \<leftarrow> region_end r;
          s \<leftarrow> usub (max old_end new_end) (address r);
          rs1 \<leftarrow> slice_set buf (length as) \<lparr>address = address r, mr_size = s\<rparr>;
          Some (rs1, n)
        } = Some (buf', n)
     \<and> holds buf' n (as @ \<lparr>address = address r, mr_size = max (fin b) (fin r) - address r\<rparr> # bs)
     \<and> length buf' = length buf"
proof -
  have "address r \<le> max (fin b) (fin r)" by (simp add: le_max_iff_disj)
  then show ?thesis
    using holds_get [OF buf refl] holds_set [OF buf refl] assms by (simp add: exec_simps)
qed

text \<open>
  \<open>add_and_merge_region\<close> on the array is \<^const>\<open>merge_at\<close> on the list it holds, without a panic.
\<close>

text \<open>Without a region on the left, and with one.\<close>

lemma add_and_merge_first:
  assumes buf: "holds buf n bs" and room: "n < length buf" and u32: "n + 1 < u32_limit"
    and ok: "regions_ok bs" and r: "fin r < usize_limit" and hi: "\<forall>b \<in> set bs. address r \<le> address b"
  shows "\<exists>buf'. add_and_merge_region buf n 0 r = Some (buf', length (merge_at [] bs r))
     \<and> holds buf' (length (merge_at [] bs r)) (merge_at [] bs r) \<and> length buf' = length buf"
proof -
  have n: "n = length bs" using buf by (simp add: holds_def)
  show ?thesis
  proof (cases bs)
    case bs: Nil
    then show ?thesis
      using insert_region_refines [of buf n "[]" "[]" r] buf room u32 n
      by (simp add: add_and_merge_region_def merge_at_shapes)
  next
    case (Cons b bs')
    have b: "fin b < usize_limit" "address r \<le> address b"
      using ok hi Cons by (auto simp: regions_ok_simps)
    have g: "slice_get buf 0 = Some b" using holds_get [of buf n "[]" b bs' 0] buf Cons by simp
    show ?thesis
    proof (cases "address b \<le> fin r")
      case True
      then show ?thesis
        using merge_next_refines [of buf n "[]" b bs' r] buf Cons b r g n
        by (simp add: add_and_merge_region_def merge_at_shapes exec_simps)
    next
      case False
      then show ?thesis
        using insert_region_refines [of buf n "[]" bs r] buf room u32 Cons b r g n
        by (simp add: add_and_merge_region_def merge_at_shapes exec_simps)
    qed
  qed
qed

lemma add_and_merge_behind:
  assumes buf: "holds buf n (as @ bs)" and room: "n < length buf" and u32: "n + 1 < u32_limit" and snoc: "as = as' @ [a]"
    and ok: "regions_ok (as @ bs)" and r: "fin r < usize_limit"
    and lo: "\<forall>a \<in> set as. address a < address r" and hi: "\<forall>b \<in> set bs. address r \<le> address b"
  shows "\<exists>buf'. add_and_merge_region buf n (length as) r = Some (buf', length (merge_at as bs r))
     \<and> holds buf' (length (merge_at as bs r)) (merge_at as bs r) \<and> length buf' = length buf"
proof -
  have n: "n = length as + length bs" using buf by (simp add: holds_def)
  have r_le: "address r \<le> fin r" by simp
  have a: "fin a < usize_limit" "address a \<le> address r"
    using ok lo snoc by (auto simp: regions_ok_simps)
  have ga: "slice_get buf (length as') = Some a"
    using holds_get [of buf n as' a bs "length as'"] buf snoc by simp
  show ?thesis
  proof (cases bs)
    case Nil
    show ?thesis
    proof (cases "address r \<le> fin a")
      case True
      then show ?thesis
        using merge_pre_refines [of buf n as' a "[]" r] buf snoc Nil a r ga n
        by (simp add: add_and_merge_region_def merge_at_shapes region_end_ok split del: if_split cong: if_cong)
    next
      case False
      then show ?thesis
        using insert_region_refines [of buf n as "[]" r] buf room u32 snoc Nil a r ga n
        by (simp add: add_and_merge_region_def merge_at_shapes exec_simps)
    qed
  next
    case (Cons b bs')
    have b: "fin b < usize_limit" "address r \<le> address b"
      using ok hi snoc Cons by (auto simp: regions_ok_simps)
    have gb: "slice_get buf (Suc (length as')) = Some b"
      using holds_get [of buf n as b bs' "length as"] buf snoc Cons by simp
    let ?v = "max (max (fin a) (fin r)) (fin b)"
    have v: "address a \<le> ?v" using a(2) r_le by linarith
    show ?thesis
    proof (cases "address r \<le> fin a"; cases "address b \<le> fin r")
      assume "address r \<le> fin a" and "address b \<le> fin r"
      then show ?thesis
        using merge_both_refines [of buf n as' a b bs' ?v] buf snoc Cons a b r ga gb n v
        by (simp add: add_and_merge_region_def merge_at_shapes exec_simps)
    next
      assume "address r \<le> fin a" and "\<not> address b \<le> fin r"
      then show ?thesis
        using merge_pre_refines [of buf n as' a "b # bs'" r] buf snoc Cons a b r ga gb n
        by (simp add: add_and_merge_region_def merge_at_shapes region_end_ok split del: if_split cong: if_cong)
    next
      assume "\<not> address r \<le> fin a" and "address b \<le> fin r"
      then show ?thesis
        using merge_next_refines [of buf n as b bs' r] buf snoc Cons a b r ga gb n
        by (simp add: add_and_merge_region_def merge_at_shapes exec_simps)
    next
      assume "\<not> address r \<le> fin a" and "\<not> address b \<le> fin r"
      then show ?thesis
        using insert_region_refines [of buf n as bs r] buf room u32 snoc Cons a b r ga gb n
        by (simp add: add_and_merge_region_def merge_at_shapes exec_simps)
    qed
  qed
qed

lemma add_and_merge_refines:
  assumes buf: "holds buf n (as @ bs)" and room: "n < length buf" and u32: "n + 1 < u32_limit"
    and ok: "regions_ok (as @ bs)" and r: "fin r < usize_limit"
    and lo: "\<forall>a \<in> set as. address a < address r" and hi: "\<forall>b \<in> set bs. address r \<le> address b"
  shows "\<exists>buf'. add_and_merge_region buf n (length as) r = Some (buf', length (merge_at as bs r))
     \<and> holds buf' (length (merge_at as bs r)) (merge_at as bs r) \<and> length buf' = length buf"
proof (cases as rule: rev_cases)
  case Nil
  with add_and_merge_first [of buf n bs r] assms show ?thesis by simp
next
  case (snoc as' a)
  from add_and_merge_behind [OF buf room u32 snoc ok r lo hi] show ?thesis .
qed

lemma grow_region_refines:
  assumes buf: "holds buf n (as @ c # bs)" and ok: "regions_ok (as @ c # bs)"
    and r: "fin r < usize_limit" and eq: "address c = address r"
  shows "\<exists>buf'. grow_region buf n (length as) r = Some (buf', length (grow_at as c bs r))
     \<and> holds buf' (length (grow_at as c bs r)) (grow_at as c bs r) \<and> length buf' = length buf"
proof -
  have n: "n = Suc (length as + length bs)" using buf by (simp add: holds_def)
  have gc: "slice_get buf (length as) = Some c" by (rule holds_get [OF buf refl])
  note set_c = holds_set [OF buf refl, of "c\<lparr>mr_size := mr_size r\<rparr>"]
  have r_end: "uadd (address r) (mr_size r) = Some (fin r)"
    using r by (simp add: uadd_def fin_def)
  show ?thesis
  proof (cases "mr_size r \<le> mr_size c")
    case True
    then show ?thesis using gc buf n by (simp add: grow_region_def grow_at_def)
  next
    case False
    show ?thesis
    proof (cases bs)
      case Nil
      with False show ?thesis using gc set_c n by (simp add: grow_region_def grow_at_def)
    next
      case (Cons b bs')
      have buf2: "holds buf n ((as @ [c]) @ b # bs')" using buf Cons by simp
      have gb: "slice_get buf (Suc (length as)) = Some b" using holds_get [OF buf2] by simp
      have b_end: "uadd (address b) (mr_size b) = Some (fin b)"
        using ok Cons by (auto simp: regions_ok_simps uadd_def fin_def)
      have v: "address c \<le> max (fin r) (fin b)" using eq by (simp add: le_max_iff_disj)
      show ?thesis
      proof (cases "address b \<le> fin r")
        case True
        with False v show ?thesis
          using gc gb r_end b_end n Cons merge_both_refines [of buf n as c b bs' "max (fin r) (fin b)"] buf
          by (simp add: grow_region_def grow_at_def)
      next
        case False2: False
        with False show ?thesis
          using gc gb r_end set_c n Cons by (simp add: grow_region_def grow_at_def)
      qed
    qed
  qed
qed

text \<open>
  One call of \<open>add_region_internal\<close> on one of the two arrays: the region's addresses are added, the
  list stays sorted and disjoint, nothing panics.
\<close>

lemma add_region_slice_ok:
  assumes buf: "holds buf n xs" and ok: "regions_ok xs" and r: "fin r < usize_limit"
    and reach: "reaches_one xs r" and room: "n < cap" "cap \<le> length buf" "cap < u32_limit"
  shows "\<exists>buf' ys. add_region_slice buf n cap r = Some (Inr (), buf', length ys)
     \<and> holds buf' (length ys) ys \<and> regions_ok ys \<and> cover ys = cover xs \<union> span r
     \<and> length buf' = length buf \<and> length ys \<le> Suc n
     \<and> (address r < fin r \<and> nonempty xs \<longrightarrow> nonempty ys)"
proof -
  have n1: "n + 1 < u32_limit" and room': "n < length buf" and len: "n = length xs"
    using room buf by (auto simp: holds_def)
  have range: "slice_range buf 0 n = Some xs" by (rule slice_range_holds [OF buf])
  show ?thesis
  proof (rule binary_search_split [OF regions_ok_sorted [OF ok], of "address r"])
    fix as c bs
    assume xs: "xs = as @ c # bs" and eq: "address c = address r"
      and s: "binary_search_by_key xs (address r) address = Inr (length as)"
    have "\<forall>b \<in> set bs. address r < address b"
      using ok eq by (auto simp: xs regions_ok_simps before_def)
    then have tl: "\<forall>b \<in> set (tl bs). fin r \<le> address b"
      using reaches_one_tl [of "as @ [c]" bs r] ok reach by (simp add: xs)
    have bc: "\<forall>b \<in> set bs. before c b" using ok by (auto simp: xs regions_ok_simps)
    have sz: "length (grow_at as c bs r) \<le> Suc n" using len xs by (cases bs) (auto simp: grow_at_def)
    have pos: "address r < fin r \<and> nonempty xs \<longrightarrow> nonempty (grow_at as c bs r)"
      using eq by (cases bs) (auto simp: xs grow_at_def less_max_iff_disj)
    show ?thesis
      using grow_region_refines [OF buf [unfolded xs] ok [unfolded xs] r eq]
        grow_at_ok [OF ok [unfolded xs] r eq tl] grow_at_cover [OF eq bc, of as] range s n1 room(1) sz pos
      by (auto simp: add_region_slice_def exec_simps xs)
  next
    fix as bs
    assume xs: "xs = as @ bs"
      and s: "binary_search_by_key xs (address r) address = Inl (length as)"
      and lo: "\<forall>a \<in> set as. address a < address r" and hi: "\<forall>b \<in> set bs. address r < address b"
    have tl: "\<forall>b \<in> set (tl bs). fin r \<le> address b"
      using reaches_one_tl [of as bs r] ok reach hi by (simp add: xs)
    have hi': "\<forall>b \<in> set bs. address r \<le> address b" using hi by auto
    have sz: "length (merge_at as bs r) \<le> Suc n"
      using len xs by (cases as rule: rev_cases; cases bs) (auto simp: merge_at_shapes)
    have pos: "address r < fin r \<and> nonempty xs \<longrightarrow> nonempty (merge_at as bs r)"
      using merge_at_nonempty [of as bs r] lo hi by (simp add: xs)
    show ?thesis
      using add_and_merge_refines [OF buf [unfolded xs] room' n1 ok [unfolded xs] r lo hi']
        merge_at_ok [OF ok [unfolded xs] r lo hi tl] merge_at_cover [OF lo hi] range s n1 room(1) sz pos
      by (auto simp: add_region_slice_def exec_simps xs)
  qed
qed

section \<open>The invariant of the allocator\<close>

definition free_list :: "MemoryBlock \<Rightarrow> MemoryRegions list" where
  "free_list mb = take (region_size mb) (deref (regions mb))"

definition reserved_list :: "MemoryBlock \<Rightarrow> MemoryRegions list" where
  "reserved_list mb = take (reserved_region_size mb) (deref (reserved_regions mb))"

definition buffer_ok :: "RegionData \<Rightarrow> nat \<Rightarrow> nat \<Rightarrow> bool" where
  "buffer_ok d n cap \<longleftrightarrow> n \<le> cap \<and> cap \<le> length (deref d) \<and> cap < u32_limit \<and> regions_ok (take n (deref d))"

definition block_ok :: "MemoryBlock \<Rightarrow> bool" where
  "block_ok mb \<longleftrightarrow> buffer_ok (regions mb) (region_size mb) (region_capacity mb)
     \<and> buffer_ok (reserved_regions mb) (reserved_region_size mb) (reserved_region_capacity mb)
     \<and> (\<not> allocatable mb \<longrightarrow> reserved_region_capacity mb = 128)"

lemma deref_deref_mut [simp]: "deref (deref_mut d rs) = rs"
  by (cases d) simp_all

lemma buffer_ok_holds: "buffer_ok d n cap \<Longrightarrow> holds (deref d) n (take n (deref d))"
  by (auto simp: buffer_ok_def holds_def)

lemma buffer_okI:
  "holds rs n xs \<Longrightarrow> regions_ok xs \<Longrightarrow> n \<le> cap \<Longrightarrow> cap \<le> length rs \<Longrightarrow> cap < u32_limit \<Longrightarrow>
     buffer_ok (deref_mut d rs) n cap"
  by (auto simp: buffer_ok_def holds_def)

lemma block_okD:
  assumes "block_ok mb"
  shows "holds (deref (regions mb)) (region_size mb) (free_list mb)"
    and "holds (deref (reserved_regions mb)) (reserved_region_size mb) (reserved_list mb)"
    and "regions_ok (free_list mb)" and "regions_ok (reserved_list mb)"
  using assms by (auto simp: block_ok_def free_list_def reserved_list_def buffer_ok_def holds_def)

lemma MemoryBlock_init_ok: "block_ok MemoryBlock_init"
  by (simp add: block_ok_def MemoryBlock_init_def buffer_ok_def u32_limit_def)

lemma add_region_ok:
  assumes mb: "block_ok mb" and r: "fin r < usize_limit" and reach: "reaches_one (free_list mb) r"
    and room: "region_size mb < region_capacity mb"
  shows "\<exists>mb'. add_region mb r = Some (Inr (), mb') \<and> block_ok mb'
     \<and> cover (free_list mb') = cover (free_list mb) \<union> span r
     \<and> reserved_list mb' = reserved_list mb \<and> allocatable mb' = allocatable mb
     \<and> region_capacity mb' = region_capacity mb \<and> region_size mb' \<le> Suc (region_size mb)
     \<and> (address r < fin r \<and> nonempty (free_list mb) \<longrightarrow> nonempty (free_list mb'))"
proof -
  have b: "buffer_ok (regions mb) (region_size mb) (region_capacity mb)"
    using mb by (simp add: block_ok_def)
  obtain buf' ys where add: "add_region_slice (deref (regions mb)) (region_size mb) (region_capacity mb) r
        = Some (Inr (), buf', length ys)" and h: "holds buf' (length ys) ys"
    and y: "regions_ok ys" "cover ys = cover (free_list mb) \<union> span r" "length buf' = length (deref (regions mb))"
      "length ys \<le> Suc (region_size mb)"
      "address r < fin r \<and> nonempty (free_list mb) \<longrightarrow> nonempty ys"
    using add_region_slice_ok [OF block_okD(1,3) [OF mb] r reach room] b
    by (auto simp: buffer_ok_def)
  let ?mb = "mb\<lparr>regions := deref_mut (regions mb) buf', region_size := length ys\<rparr>"
  have eq: "add_region mb r = Some (Inr (), ?mb)"
    using add by (simp add: add_region_def add_region_internal_def)
  have "buffer_ok (deref_mut (regions mb) buf') (length ys) (region_capacity mb)"
    using buffer_okI [OF h y(1)] b y(3,4) room by (simp add: buffer_ok_def)
  then have "block_ok ?mb" using mb by (simp add: block_ok_def)
  moreover have "free_list ?mb = ys" using h by (simp add: free_list_def holds_def)
  moreover have "reserved_list ?mb = reserved_list mb" by (simp add: reserved_list_def)
  ultimately show ?thesis using eq y by simp
qed

lemma add_reserved_region_ok:
  assumes mb: "block_ok mb" and r: "fin r < usize_limit" and reach: "reaches_one (reserved_list mb) r"
    and room: "reserved_region_size mb < reserved_region_capacity mb"
  shows "\<exists>mb'. add_reserved_region mb r = Some (Inr (), mb') \<and> block_ok mb'
     \<and> cover (reserved_list mb') = cover (reserved_list mb) \<union> span r
     \<and> free_list mb' = free_list mb \<and> allocatable mb' = allocatable mb
     \<and> reserved_region_capacity mb' = reserved_region_capacity mb
     \<and> reserved_region_size mb' \<le> Suc (reserved_region_size mb)
     \<and> (address r < fin r \<and> nonempty (reserved_list mb) \<longrightarrow> nonempty (reserved_list mb'))"
proof -
  have b: "buffer_ok (reserved_regions mb) (reserved_region_size mb) (reserved_region_capacity mb)"
    using mb by (simp add: block_ok_def)
  obtain buf' ys where add: "add_region_slice (deref (reserved_regions mb)) (reserved_region_size mb)
        (reserved_region_capacity mb) r = Some (Inr (), buf', length ys)" and h: "holds buf' (length ys) ys"
    and y: "regions_ok ys" "cover ys = cover (reserved_list mb) \<union> span r"
      "length buf' = length (deref (reserved_regions mb))" "length ys \<le> Suc (reserved_region_size mb)"
      "address r < fin r \<and> nonempty (reserved_list mb) \<longrightarrow> nonempty ys"
    using add_region_slice_ok [OF block_okD(2,4) [OF mb] r reach room] b
    by (auto simp: buffer_ok_def)
  let ?mb = "mb\<lparr>reserved_regions := deref_mut (reserved_regions mb) buf', reserved_region_size := length ys\<rparr>"
  have eq: "add_reserved_region mb r = Some (Inr (), ?mb)"
    using add by (simp add: add_reserved_region_def add_region_internal_def)
  have "buffer_ok (deref_mut (reserved_regions mb) buf') (length ys) (reserved_region_capacity mb)"
    using buffer_okI [OF h y(1)] b y(3,4) room by (simp add: buffer_ok_def)
  then have "block_ok ?mb" using mb by (simp add: block_ok_def)
  moreover have "reserved_list ?mb = ys" using h by (simp add: reserved_list_def holds_def)
  moreover have "free_list ?mb = free_list mb" by (simp add: free_list_def)
  ultimately show ?thesis using eq y by simp
qed

end
