(* ===== verification/Range_List_Check.thy ===== *)
theory Range_List_Check
  imports Range_List_Proofs
begin

text \<open>
  Finalisation of the range list allocator, \<open>check_regions\<close> of
  \<open>src/allocator/src/range_list_allocator.rs\<close>: the reserved regions are taken out of the free ones.
  The loop over the array is first shown to compute a recursive function on lists, and that function
  is then shown to be the difference of the covered sets.
\<close>

section \<open>Subtraction on lists\<close>

definition contained :: "MemoryRegions \<Rightarrow> MemoryRegions \<Rightarrow> bool" where
  "contained r g \<longleftrightarrow> address g \<le> address r \<and> fin r \<le> fin g"

text \<open>What is left of \<open>g\<close> after the reserved region \<open>r\<close>.\<close>

definition tail_of :: "MemoryRegions \<Rightarrow> MemoryRegions \<Rightarrow> MemoryRegions" where
  "tail_of g r = \<lparr>address = fin r, mr_size = fin g - fin r\<rparr>"

definition head_of :: "MemoryRegions \<Rightarrow> MemoryRegions \<Rightarrow> MemoryRegions" where
  "head_of g r = g\<lparr>mr_size := address r - address g\<rparr>"

lemma contained_le:
  "contained r g \<Longrightarrow> address g \<le> fin r \<and> address r \<le> fin g"
  by (auto simp: contained_def fin_def)

fun subtract :: "MemoryRegions list \<Rightarrow> MemoryRegions list \<Rightarrow> MemoryRegions list option" where
  "subtract gs [] = Some gs"
| "subtract [] (r # rs) = None"
| "subtract (g # gs) (r # rs) =
     (if fin g \<le> address r then map_option ((#) g) (subtract gs (r # rs))
      else if \<not> contained r g then None
      else if address g = address r \<and> fin g = fin r then subtract gs rs
      else if address g = address r then subtract (tail_of g r # gs) rs
      else if fin g = fin r then subtract (head_of g r # gs) rs
      else map_option ((#) (head_of g r)) (subtract (tail_of g r # gs) rs))"

lemma piece_simps [simp]:
  "address (tail_of g r) = fin r" "fin r \<le> fin g \<Longrightarrow> fin (tail_of g r) = fin g"
  "address (head_of g r) = address g" "address g \<le> address r \<Longrightarrow> fin (head_of g r) = address r"
  by (simp_all add: tail_of_def head_of_def)

lemma span_pieces:
  "contained r g \<Longrightarrow> span (head_of g r) = {address g..<address r}"
  "contained r g \<Longrightarrow> span (tail_of g r) = {fin r..<fin g}"
  by (auto simp: contained_def span_def)

lemma regions_ok_tail:
  "regions_ok (g # gs) \<Longrightarrow> contained r g \<Longrightarrow> fin r < fin g \<Longrightarrow> regions_ok (tail_of g r # gs)"
  by (auto simp: regions_ok_Cons contained_def before_def)

lemma regions_ok_head:
  "regions_ok (g # gs) \<Longrightarrow> contained r g \<Longrightarrow> regions_ok (head_of g r # gs)"
  using contained_le [of r g] by (fastforce simp: regions_ok_Cons contained_def before_def)

lemma later_disjoint:
  assumes "regions_ok (r # rs)" and "y < fin r \<or> y < address r"
  shows "y \<notin> cover rs"
  using assms address_le_fin [of r]
  by (force simp: regions_ok_Cons before_def cover_def span_def)

text \<open>
  Taking the first reservation out of the first region: what is left of the region is its tail, its head, or both, and the later
  regions are not touched.
\<close>

lemma cover_minus_first:
  assumes gs: "\<forall>x \<in> cover gs. fin g \<le> x" and rs: "\<forall>y \<in> cover rs. fin r \<le> y" and c: "contained r g"
  shows "address g = address r \<Longrightarrow> cover (g # gs) - cover (r # rs) = cover (tail_of g r # gs) - cover rs"
    and "address g < address r \<Longrightarrow> fin g = fin r \<Longrightarrow> cover (g # gs) - cover (r # rs) = cover (head_of g r # gs) - cover rs"
    and "address g < address r \<Longrightarrow> fin r < fin g \<Longrightarrow>
      cover (g # gs) - cover (r # rs) = span (head_of g r) \<union> (cover (tail_of g r # gs) - cover rs)"
proof -
  have cc: "address g \<le> address r" "fin r \<le> fin g" "address r \<le> fin r" using c by (simp_all add: contained_def)
  show "cover (g # gs) - cover (r # rs) = cover (tail_of g r # gs) - cover rs" if "address g = address r"
    using that gs span_pieces [OF c] cc order_trans [OF cc(3)] by (auto simp: span_def)
  show "cover (g # gs) - cover (r # rs) = cover (head_of g r # gs) - cover rs" if "address g < address r" "fin g = fin r"
  proof (rule set_eqI)
    fix x
    show "x \<in> cover (g # gs) - cover (r # rs) \<longleftrightarrow> x \<in> cover (head_of g r # gs) - cover rs"
      using that gs [rule_format, of x] span_pieces [OF c] cc rs [rule_format, of x] less_le_trans [of x "address r" "fin r"]
      by (auto simp: span_def not_le)
  qed
  show "cover (g # gs) - cover (r # rs) = span (head_of g r) \<union> (cover (tail_of g r # gs) - cover rs)"
    if "address g < address r" "fin r < fin g"
  proof (rule set_eqI)
    fix x
    show "x \<in> cover (g # gs) - cover (r # rs) \<longleftrightarrow> x \<in> span (head_of g r) \<union> (cover (tail_of g r # gs) - cover rs)"
      using that gs [rule_format, of x] span_pieces [OF c] cc rs [rule_format, of x]
        less_le_trans [of x "address r" "fin r"] le_trans [of "address r" "fin r" x]
      by (auto simp: span_def not_le)
  qed
qed

lemma subtract_cover:
  assumes "regions_ok gs" and "regions_ok rs" and "subtract gs rs = Some ys"
  shows "regions_ok ys \<and> cover ys = cover gs - cover rs
     \<and> (\<forall>y \<in> set ys. \<forall>g. (\<forall>x \<in> set gs. before g x) \<longrightarrow> before g y)"
  using assms
proof (induction gs rs arbitrary: ys rule: subtract.induct)
  case (3 g gs r rs)
  note ok = "3.prems"(1,2)
  have rs: "regions_ok rs" using ok by (simp add: regions_ok_Cons)
  have gs: "regions_ok gs" and g: "\<forall>y \<in> set gs. before g y" using ok by (simp_all add: regions_ok_Cons)
  have after: "\<forall>x \<in> cover gs. fin g \<le> x" using g by (force simp: cover_def span_def before_def)
  have r_le: "address r \<le> fin r" by simp
  have later: "\<forall>y \<in> cover rs. fin r \<le> y"
    using later_disjoint [OF ok(2)] by (meson not_le)
  show ?case
  proof (cases "fin g \<le> address r")
    case True
    then obtain zs where z: "subtract gs (r # rs) = Some zs" "ys = g # zs"
      using "3.prems"(3) by auto
    have disj: "span g \<inter> cover (r # rs) = {}"
      using True later_disjoint [OF ok(2)] by (auto simp: span_def)
    from "3.IH"(1) [OF True gs ok(2) z(1)] g z(2) ok(1) disj show ?thesis
      by (auto simp: regions_ok_Cons)
  next
    case False
    then have c: "contained r g" using "3.prems"(3) by (auto split: if_splits)
    then have cc: "address g \<le> address r" "fin r \<le> fin g" by (simp_all add: contained_def)
    show ?thesis
    proof (cases "address g = address r \<and> fin g = fin r")
      case True
      then have z: "subtract gs rs = Some ys" using "3.prems"(3) False c by simp
      have "cover (g # gs) - cover (r # rs) = cover gs - cover rs"
        using True after by (auto simp: span_def)
      with "3.IH"(2) [OF False _ True gs rs z] c show ?thesis by auto
    next
      case F1: False
      show ?thesis
      proof (cases "address g = address r")
        case True
        then have z: "subtract (tail_of g r # gs) rs = Some ys" and lt: "fin r < fin g"
          using "3.prems"(3) False c F1 cc by auto
        note cover_minus_first(1) [OF after later c True]
        moreover have "before h (tail_of g r)" if "before h g" for h
          using that True order_trans [OF _ r_le] less_le_trans [OF _ r_le] by (auto simp: before_def)
        ultimately show ?thesis
          using "3.IH"(3) [OF False _ F1 True regions_ok_tail [OF ok(1) c lt] rs z] c by auto
      next
        case F2: False
        then have lt: "address g < address r" using cc by simp
        show ?thesis
        proof (cases "fin g = fin r")
          case True
          then have z: "subtract (head_of g r # gs) rs = Some ys" using "3.prems"(3) False c F1 F2 by auto
          note cover_minus_first(2) [OF after later c lt True]
          moreover have "before h (head_of g r)" if "before h g" for h
            using that by (simp add: before_def)
          ultimately show ?thesis
            using "3.IH"(4) [OF False _ F1 F2 True regions_ok_head [OF ok(1) c] rs z] c by auto
        next
          case F3: False
          then have lt2: "fin r < fin g" using cc by simp
          from F3 obtain zs where z: "subtract (tail_of g r # gs) rs = Some zs" "ys = head_of g r # zs"
            using "3.prems"(3) False c F1 F2 by auto
          note IH = "3.IH"(5) [OF False _ F1 F2 F3 regions_ok_tail [OF ok(1) c lt2] rs z(1)]
          note cover_minus_first(3) [OF after later c lt lt2]
          moreover have "\<forall>x \<in> set (tail_of g r # gs). before (head_of g r) x"
            using g lt cc contained_le [OF c] less_le_trans [OF lt r_le]
            by (auto simp: before_def intro: le_trans)
          moreover have "before h (tail_of g r) \<and> before h (head_of g r)" if "before h g" for h
            using that cc less_le_trans [OF lt r_le] by (auto simp: before_def)
          moreover have "fin (head_of g r) < usize_limit"
            using ok(1) cc contained_le [OF c] by (auto simp: regions_ok_Cons)
          ultimately show ?thesis
            using IH c z(2) by (auto simp: regions_ok_Cons)
        qed
      qed
    qed
  qed
qed auto

text \<open>The subtraction succeeds exactly when each reserved region lies inside one free region.\<close>

lemma contained_trans: "contained r g' \<Longrightarrow> contained g' g \<Longrightarrow> contained r g"
  by (auto simp: contained_def)

lemma contained_pieces:
  "contained r g \<Longrightarrow> contained (tail_of g r) g" "contained r g \<Longrightarrow> contained (head_of g r) g"
  using contained_le [of r g] by (simp_all add: contained_def)

lemma subtract_Some_contained:
  assumes "subtract gs rs = Some ys" and "r \<in> set rs"
  shows "\<exists>g \<in> set gs. contained r g"
  using assms
proof (induction gs rs arbitrary: ys rule: subtract.induct)
  case (3 g gs r' rs)
  have piece: "\<exists>h \<in> set (g # gs). contained r h" if "\<exists>h \<in> set (p # gs). contained r h" "contained p g" for p
    using that contained_trans by auto
  show ?case
  proof (cases "fin g \<le> address r'")
    case True
    with "3.prems"(1) obtain zs where z: "subtract gs (r' # rs) = Some zs" by auto
    show ?thesis using "3.IH"(1) [OF True z "3.prems"(2)] by auto
  next
    case False
    with "3.prems"(1) have c: "contained r' g" by (auto split: if_splits)
    show ?thesis
    proof (cases "r = r'")
      case True
      with c show ?thesis by auto
    next
      case ne: False
      then have r: "r \<in> set rs" using "3.prems"(2) by simp
      consider (1) "address g = address r' \<and> fin g = fin r'" "subtract gs rs = Some ys"
        | (2) "\<not> (address g = address r' \<and> fin g = fin r')" "address g = address r'" "subtract (tail_of g r' # gs) rs = Some ys"
        | (3) "\<not> (address g = address r' \<and> fin g = fin r')" "address g \<noteq> address r'" "fin g = fin r'" "subtract (head_of g r' # gs) rs = Some ys"
        | (4) zs where "\<not> (address g = address r' \<and> fin g = fin r')" "address g \<noteq> address r'" "fin g \<noteq> fin r'" "subtract (tail_of g r' # gs) rs = Some zs"
        using "3.prems"(1) False c by (auto split: if_splits)
      then show ?thesis
      proof cases
        case 1
        then show ?thesis using "3.IH"(2) [OF False _ 1(1) 1(2) r] c by auto
      next
        case 2
        then show ?thesis
          using "3.IH"(3) [OF False _ 2(1,2,3) r] c piece [OF _ contained_pieces(1) [OF c]] by auto
      next
        case 3
        then show ?thesis
          using "3.IH"(4) [OF False _ 3(1-4) r] c piece [OF _ contained_pieces(2) [OF c]] by auto
      next
        case 4
        then show ?thesis
          using "3.IH"(5) [OF False _ 4(1-4) r] c piece [OF _ contained_pieces(1) [OF c]] by auto
      qed
    qed
  qed
qed auto

lemma subtract_total:
  assumes "regions_ok gs" and "regions_ok rs" and "nonempty rs"
    and "\<forall>r \<in> set rs. \<exists>g \<in> set gs. contained r g"
  shows "\<exists>ys. subtract gs rs = Some ys"
  using assms
proof (induction gs rs rule: subtract.induct)
  case (3 g gs r rs)
  note ok = "3.prems"(1,2)
  have rs: "regions_ok rs" "nonempty rs" and gs: "regions_ok gs"
    using ok "3.prems"(3) by (simp_all add: regions_ok_Cons)
  have later: "address q < fin q \<and> fin r \<le> address q" if "q \<in> set rs" for q
    using that ok(2) rs(2) by (auto simp: regions_ok_Cons before_def nonempty_def)
  have gnext: "fin g \<le> address h" if "h \<in> set gs" for h
    using that ok(1) by (simp add: regions_ok_Cons before_def)
  have split: "\<forall>q \<in> set rs. \<exists>h \<in> set (p @ gs). contained q h"
    if "\<And>q. q \<in> set rs \<Longrightarrow> contained q g \<Longrightarrow> \<exists>h \<in> set p. contained q h" for p
    using that "3.prems"(4) by fastforce
  show ?case
  proof (cases "fin g \<le> address r")
    case True
    have "\<forall>q \<in> set (r # rs). \<exists>h \<in> set gs. contained q h"
    proof
      fix q assume q: "q \<in> set (r # rs)"
      then have "address r \<le> address q" "address q < fin q"
        using later "3.prems"(3) order_trans [OF address_le_fin] by (auto simp: less_imp_le_nat)
      with True have "\<not> contained q g" by (auto simp: contained_def)
      with q "3.prems"(4) show "\<exists>h \<in> set gs. contained q h" by auto
    qed
    with "3.IH"(1) [OF True gs ok(2) "3.prems"(3)] show ?thesis using True by auto
  next
    case False
    have "address r < fin r" using "3.prems"(3) by simp
    have c: "contained r g"
    proof (rule ccontr)
      assume "\<not> contained r g"
      with "3.prems"(4) obtain h where h: "h \<in> set gs" "contained r h" by auto
      then have "fin g \<le> address r" using gnext by (force simp: contained_def)
      with False show False by simp
    qed
    have tail: "contained q (tail_of g r)" if "q \<in> set rs" "contained q g" for q
      using that later [OF that(1)] c by (simp add: contained_def)
    show ?thesis
    proof (cases "address g = address r \<and> fin g = fin r")
      case True
      have "\<not> contained q g" if "q \<in> set rs" for q
        using later [OF that] True by (auto simp: contained_def)
      then have "\<forall>q \<in> set rs. \<exists>h \<in> set ([] @ gs). contained q h" by (intro split) blast
      then show ?thesis using "3.IH"(2) [OF False _ True gs rs] True False c by simp
    next
      case F1: False
      show ?thesis
      proof (cases "fin g = fin r")
        case True
        with F1 have ne: "address g \<noteq> address r" by simp
        have "\<not> contained q g" if "q \<in> set rs" for q
          using later [OF that] True by (auto simp: contained_def)
        then have "\<forall>q \<in> set rs. \<exists>h \<in> set ([head_of g r] @ gs). contained q h" by (intro split) blast
        then show ?thesis
          using "3.IH"(4) [OF False _ F1 ne True regions_ok_head [OF ok(1) c] rs] True False F1 c ne by simp
      next
        case F2: False
        then have lt: "fin r < fin g" using c by (simp add: contained_def)
        have "\<forall>q \<in> set rs. \<exists>h \<in> set ([tail_of g r] @ gs). contained q h"
          using tail by (intro split) auto
        then show ?thesis
          using "3.IH"(3) [OF False _ F1 _ regions_ok_tail [OF ok(1) c lt] rs]
            "3.IH"(5) [OF False _ F1 _ F2 regions_ok_tail [OF ok(1) c lt] rs] False F1 F2 c
          by (cases "address g = address r") auto
      qed
    qed
  qed
qed auto

lemma subtract_nonempty:
  "subtract gs rs = Some ys \<Longrightarrow> nonempty gs \<Longrightarrow> nonempty ys"
proof (induction gs rs arbitrary: ys rule: subtract.induct)
  case (3 g gs r rs)
  from "3.prems" show ?case
    by (simp split: if_splits) (auto simp: contained_def "3.IH")
qed auto

lemma subtract_length:
  "subtract gs rs = Some ys \<Longrightarrow> length ys \<le> length gs + length rs"
proof (induction gs rs arbitrary: ys rule: subtract.induct)
  case (3 g gs r rs)
  from "3.prems" show ?case
    by (simp split: if_splits) (use "3.IH" in fastforce)+
qed auto

section \<open>The loop on the array\<close>

lemma advance_skips:
  assumes "holds buf n (ds @ gs)" and "regions_ok (ds @ gs)" and "idx = length ds"
  shows "advance_region_idx buf n a idx
     = Some (length ds + length (takeWhile (\<lambda>g. fin g \<le> a) gs))"
  using assms
proof (induction gs arbitrary: ds idx)
  case Nil
  then show ?case by (subst advance_region_idx.simps) (auto simp: holds_def)
next
  case (Cons g gs)
  have n: "length ds < n" using Cons.prems(1) by (simp add: holds_def)
  have get: "slice_get buf (length ds) = Some g" by (rule holds_get [OF Cons.prems(1) refl])
  have e: "region_end g = Some (fin g)"
    using Cons.prems(2) by (simp add: regions_ok_simps exec_simps)
  have step: "advance_region_idx buf n a idx =
      (if fin g \<le> a then advance_region_idx buf n a (idx + 1) else Some idx)"
    using n get e Cons.prems(3) by (subst advance_region_idx.simps) simp
  have "advance_region_idx buf n a (idx + 1)
      = Some (length ds + 1 + length (takeWhile (\<lambda>g. fin g \<le> a) gs))"
    using Cons.IH [of "ds @ [g]" "idx + 1"] Cons.prems by simp
  then show ?case
    unfolding step using Cons.prems(3) by simp
qed

lemma subtract_skip:
  "\<forall>g \<in> set ks. fin g \<le> address r \<Longrightarrow>
     subtract (ks @ gs) (r # rs) = map_option ((@) ks) (subtract gs (r # rs))"
  by (induction ks; cases "subtract gs (r # rs)") auto

lemma insert_after:
  assumes "holds buf n (as @ g # bs)" and "n < length buf"
  shows "\<exists>buf'. copy_within (buf[length as := g']) (Suc (length as)) n (Suc (Suc (length as))) = Some buf'
     \<and> length buf' = length buf
     \<and> holds (buf'[Suc (length as) := r]) (Suc n) (as @ g' # r # bs)"
  using insert_slot [of "buf[length as := g']" n "as @ [g']" bs r] holds_set(2) [OF assms(1) refl, of g'] assms(2)
  by auto

text \<open>One reserved region taken out of the region that contains it, in its four forms.\<close>

definition cut_result where
  "cut_result buf n cap ds g gs r buf' ps qs \<longleftrightarrow>
     subtract_reserved buf n cap (length ds) r
        = Some (Inr (), buf', length (ds @ ps @ qs @ gs), length (ds @ ps))
     \<and> holds buf' (length (ds @ ps @ qs @ gs)) (ds @ ps @ qs @ gs) \<and> length buf' = length buf
     \<and> length (ps @ qs) \<le> 2
     \<and> (\<forall>rs. fin g \<le> address r \<or> subtract (g # gs) (r # rs) = map_option ((@) ps) (subtract (qs @ gs) rs))"

lemma map_option_append_Nil [simp]: "map_option ((@) []) x = x"
  by (cases x) auto

lemma map_option_Cons: "map_option ((#) a) x = map_option ((@) [a]) x"
  by (cases x) auto

lemma subtract_reserved_refines:
  assumes buf: "holds buf n (ds @ g # gs)" and ok: "regions_ok (ds @ g # gs)"
    and r: "contained r g" and room: "n < cap" "cap \<le> length buf" "cap < u32_limit"
  shows "\<exists>buf' ps qs. cut_result buf n cap ds g gs r buf' ps qs"
proof -
  have n: "n = Suc (length ds + length gs)" using buf by (simp add: holds_def)
  have get: "slice_get buf (length ds) = Some g" by (rule holds_get [OF buf refl])
  have fg: "fin g < usize_limit" using ok by (simp add: regions_ok_simps)
  have fr: "fin r < usize_limit" using fg r by (simp add: contained_def)
  have c: "address g \<le> address r" "fin r \<le> fin g" using r by (simp_all add: contained_def)
  note ends = region_end_ok [OF fg] region_end_ok [OF fr]
  note setg = holds_set [OF buf refl]
  show ?thesis
  proof (cases "address g = address r")
    case eq: True
    show ?thesis
    proof (cases "fin g = fin r")
      case True
      obtain buf1 where "copy_within buf (length ds + 1) n (length ds) = Some buf1"
        "length buf1 = length buf" "holds buf1 (n - 1) (ds @ gs)"
        using delete_slot [OF buf, of zero_region] by blast
      then have "cut_result buf n cap ds g gs r buf1 [] []"
        using get ends eq True n r by (simp add: cut_result_def subtract_reserved_def exec_simps)
      then show ?thesis by blast
    next
      case False
      have "uadd (address g) (mr_size r) = Some (fin r)"
        using eq fr by (simp add: uadd_def fin_def)
      moreover have "usub (mr_size g) (mr_size r) = Some (fin g - fin r)"
        using eq c by (simp add: usub_def fin_def)
      ultimately have "cut_result buf n cap ds g gs r (buf[length ds := tail_of g r]) [] [tail_of g r]"
        using get ends eq False n r setg [of "tail_of g r"]
        by (simp add: cut_result_def subtract_reserved_def tail_of_def)
      then show ?thesis by blast
    qed
  next
    case ne: False
    show ?thesis
    proof (cases "fin g = fin r")
      case True
      have "usub (mr_size g) (mr_size r) = Some (address r - address g)"
        using True c by (simp add: usub_def fin_def)
      then have "cut_result buf n cap ds g gs r (buf[length ds := head_of g r]) [] [head_of g r]"
        using get ends ne True n r setg [of "head_of g r"]
        by (simp add: cut_result_def subtract_reserved_def head_of_def)
      then show ?thesis by blast
    next
      case False
      have nb: "n < length buf" using room by simp
      obtain buf1 where b1: "copy_within (buf[length ds := head_of g r]) (Suc (length ds)) n (Suc (Suc (length ds))) = Some buf1"
        and l1: "length buf1 = length buf"
        and h1: "holds (buf1[Suc (length ds) := tail_of g r]) (Suc n) (ds @ head_of g r # tail_of g r # gs)"
        using insert_after [OF buf nb, of "head_of g r" "tail_of g r"] by auto
      have "Suc (length ds) < length buf1" using l1 room n by simp
      then have "cut_result buf n cap ds g gs r (buf1[Suc (length ds) := tail_of g r]) [head_of g r] [tail_of g r]"
        using get ends ne False n r c room setg(1) [of "head_of g r"] b1 h1 l1
        by (simp add: cut_result_def subtract_reserved_def exec_simps head_of_def [symmetric]
            tail_of_def [symmetric] map_option_Cons)
      then show ?thesis by blast
    qed
  qed
qed

lemma cut_regions_ok:
  assumes "cut_result buf n cap ds g gs r buf' ps qs" and "regions_ok (ds @ g # gs)"
    and "regions_ok [r]" and "\<not> fin g \<le> address r"
  shows "regions_ok (ds @ ps @ qs @ gs)"
proof -
  have "subtract (g # gs) [r] = Some (ps @ qs @ gs)"
    using assms(1,4) by (auto simp: cut_result_def)
  moreover have "regions_ok (g # gs)" using assms(2) by (simp add: regions_ok_append)
  ultimately have "regions_ok (ps @ qs @ gs)"
    and "\<forall>y \<in> set (ps @ qs @ gs). \<forall>d. (\<forall>x \<in> set (g # gs). before d x) \<longrightarrow> before d y"
    using subtract_cover assms(3) by blast+
  then show ?thesis
    using assms(2) regions_ok_append [of ds "g # gs"] regions_ok_append [of ds "ps @ qs @ gs"] by blast
qed

text \<open>The loop computes \<^const>\<open>subtract\<close>; where that has no value it stops with an error.\<close>

lemma check_loop_refines:
  assumes "holds buf n (ds @ gs)" and "regions_ok (ds @ gs)" and "regions_ok rs"
    and "n + length rs \<le> cap" and "cap \<le> length buf" and "cap < u32_limit"
  shows "case subtract gs rs of
       Some ys \<Rightarrow> \<exists>buf'. check_loop buf n cap (length ds) rs = Some (Inr (), buf', length (ds @ ys))
         \<and> holds buf' (length (ds @ ys)) (ds @ ys) \<and> length buf' = length buf
     | None \<Rightarrow> \<exists>e buf' n'. check_loop buf n cap (length ds) rs = Some (Inl e, buf', n')"
  using assms
proof (induction rs arbitrary: buf n ds gs)
  case Nil
  then show ?case by (auto simp: holds_def)
next
  case (Cons r rs)
  define ks where "ks = takeWhile (\<lambda>g. fin g \<le> address r) gs"
  define rest where "rest = dropWhile (\<lambda>g. fin g \<le> address r) gs"
  have gs: "gs = ks @ rest" by (simp add: ks_def rest_def)
  have skip: "subtract gs (r # rs) = map_option ((@) ks) (subtract rest (r # rs))"
    unfolding gs by (rule subtract_skip) (auto simp: ks_def dest: set_takeWhileD)
  have adv: "advance_region_idx buf n (address r) (length ds) = Some (length (ds @ ks))"
    using advance_skips [OF Cons.prems(1,2) refl] by (simp add: ks_def)
  have n: "n = length (ds @ ks @ rest)" using Cons.prems(1) by (simp add: holds_def gs)
  show ?case
  proof (cases rest)
    case Nil
    then show ?thesis using skip adv n by simp
  next
    case rest: (Cons g gs')
    have nle: "\<not> fin g \<le> address r"
      using rest hd_dropWhile [of "\<lambda>g. fin g \<le> address r" gs] by (simp add: rest_def)
    have buf: "holds buf n ((ds @ ks) @ g # gs')" and ok: "regions_ok ((ds @ ks) @ g # gs')"
      using Cons.prems(1,2) gs rest by simp_all
    have get: "slice_get buf (length (ds @ ks)) = Some g" by (rule holds_get [OF buf refl])
    have fg: "region_end g = Some (fin g)" and fr: "region_end r = Some (fin r)"
      using ok Cons.prems(3) by (simp_all add: regions_ok_simps exec_simps)
    show ?thesis
    proof (cases "contained r g")
      case False
      then have "address r < address g \<or> fin g < fin r" by (auto simp: contained_def)
      then show ?thesis using False skip adv n rest nle get fg fr by (auto simp: contained_def)
    next
      case True
      then have c: "\<not> address r < address g" "\<not> fin g < fin r" by (simp_all add: contained_def)
      have lt: "n < cap" using Cons.prems(4) by simp
      obtain buf' ps qs where cut: "cut_result buf n cap (ds @ ks) g gs' r buf' ps qs"
        using subtract_reserved_refines [OF buf ok True lt Cons.prems(5,6)] by blast
      have h: "holds buf' (length ((ds @ ks) @ ps @ qs @ gs')) ((ds @ ks @ ps) @ qs @ gs')"
        and l: "length buf' = length buf" and two: "length (ps @ qs) \<le> 2"
        and sub: "subtract (g # gs') (r # rs) = map_option ((@) ps) (subtract (qs @ gs') rs)"
        and step: "subtract_reserved buf n cap (length (ds @ ks)) r
            = Some (Inr (), buf', length ((ds @ ks) @ ps @ qs @ gs'), length ((ds @ ks) @ ps))"
        using cut nle by (auto simp: cut_result_def)
      have ok': "regions_ok ((ds @ ks @ ps) @ qs @ gs')"
        using cut_regions_ok [OF cut ok _ nle] Cons.prems(3) by (simp add: regions_ok_Cons)
      have eq: "check_loop buf n cap (length ds) (r # rs)
          = check_loop buf' (length ((ds @ ks) @ ps @ qs @ gs')) cap (length (ds @ ks @ ps)) rs"
        using adv get fg fr c step n rest by simp
      have "length ((ds @ ks) @ ps @ qs @ gs') + length rs \<le> cap"
        using Cons.prems(4) two n rest by simp
      then have "case subtract (qs @ gs') rs of
           Some ys \<Rightarrow> \<exists>buf2. check_loop buf n cap (length ds) (r # rs)
               = Some (Inr (), buf2, length ((ds @ ks @ ps) @ ys))
             \<and> holds buf2 (length ((ds @ ks @ ps) @ ys)) ((ds @ ks @ ps) @ ys) \<and> length buf2 = length buf
         | None \<Rightarrow> \<exists>e b n'. check_loop buf n cap (length ds) (r # rs) = Some (Inl e, b, n')"
        using Cons.IH [OF h ok'] Cons.prems(3,5,6) l unfolding eq
        by (cases "subtract (qs @ gs') rs") (simp_all add: regions_ok_Cons)
      then show ?thesis
        unfolding skip rest sub by (cases "subtract (qs @ gs') rs") auto
    qed
  qed
qed

section \<open>\<open>check_regions\<close>\<close>

lemma check_regions_ok:
  assumes mb: "block_ok mb" and fresh: "\<not> allocatable mb"
    and small: "region_size mb \<le> MAX_REGIONS" "reserved_region_size mb \<le> MAX_REGIONS"
    and room: "region_size mb + reserved_region_size mb \<le> region_capacity mb"
    and rsv: "nonempty (reserved_list mb)"
    and inside: "\<forall>r \<in> set (reserved_list mb). \<exists>g \<in> set (free_list mb). contained r g"
  shows "\<exists>mb'. check_regions mb = Some (Inr (), mb') \<and> block_ok mb' \<and> allocatable mb'
     \<and> cover (free_list mb') = cover (free_list mb) - cover (reserved_list mb)
     \<and> reserved_list mb' = [] \<and> region_capacity mb' = region_capacity mb
     \<and> region_size mb' \<le> region_size mb + reserved_region_size mb
     \<and> reserved_region_capacity mb' = reserved_region_capacity mb
     \<and> (nonempty (free_list mb) \<longrightarrow> nonempty (free_list mb'))"
proof (cases "reserved_region_size mb = 0")
  case True
  then have "check_regions mb = Some (Inr (), mb\<lparr>allocatable := True\<rparr>)"
    using small by (simp add: check_regions_def)
  with mb True show ?thesis
    by (auto simp: block_ok_def free_list_def reserved_list_def)
next
  case False
  obtain ys where ys: "subtract (free_list mb) (reserved_list mb) = Some ys"
    using subtract_total [OF block_okD(3,4) [OF mb] rsv inside] by blast
  have b: "buffer_ok (regions mb) (region_size mb) (region_capacity mb)"
    using mb by (simp add: block_ok_def)
  have len: "length (reserved_list mb) = reserved_region_size mb" "length (free_list mb) = region_size mb"
    using block_okD(1,2) [OF mb] by (simp_all add: holds_def)
  obtain buf where run: "check_loop (deref (regions mb)) (region_size mb) (region_capacity mb) 0 (reserved_list mb)
      = Some (Inr (), buf, length ys)"
    and h: "holds buf (length ys) ys" and l: "length buf = length (deref (regions mb))"
    using check_loop_refines [of "deref (regions mb)" "region_size mb" "[]" "free_list mb"
        "reserved_list mb" "region_capacity mb"] block_okD [OF mb] room ys b
    by (auto simp: len buffer_ok_def)
  let ?mb = "mb\<lparr>regions := deref_mut (regions mb) buf, region_size := length ys,
      reserved_regions := Global (replicate 128 zero_region), reserved_region_size := 0, allocatable := True\<rparr>"
  have eq: "check_regions mb = Some (Inr (), ?mb)"
    using False small run slice_range_holds [OF block_okD(2) [OF mb]] by (simp add: check_regions_def)
  note sub = subtract_cover [OF block_okD(3,4) [OF mb] ys]
  have "buffer_ok (deref_mut (regions mb) buf) (length ys) (region_capacity mb)"
    using buffer_okI [OF h] sub b l subtract_length [OF ys] room by (simp add: buffer_ok_def len)
  moreover have "buffer_ok (Global (replicate 128 zero_region)) 0 (reserved_region_capacity mb)"
    using mb fresh by (simp add: block_ok_def buffer_ok_def)
  ultimately have "block_ok ?mb" by (simp add: block_ok_def)
  moreover have "free_list ?mb = ys" using h by (simp add: free_list_def holds_def)
  ultimately show ?thesis
    using eq sub subtract_length [OF ys] subtract_nonempty [OF ys] by (simp add: reserved_list_def len)
qed

text \<open>The other way round: a reserved region outside every free region is reported, not subtracted.\<close>

lemma check_regions_rejects:
  assumes mb: "block_ok mb" and small: "region_size mb \<le> MAX_REGIONS" "reserved_region_size mb \<le> MAX_REGIONS"
    and room: "region_size mb + reserved_region_size mb \<le> region_capacity mb"
    and r: "r \<in> set (reserved_list mb)" "\<forall>g \<in> set (free_list mb). \<not> contained r g"
  shows "\<exists>e mb'. check_regions mb = Some (Inl e, mb') \<and> allocatable mb' = allocatable mb"
proof -
  have ys: "subtract (free_list mb) (reserved_list mb) = None"
    using subtract_Some_contained [OF _ r(1)] r(2) by (cases "subtract (free_list mb) (reserved_list mb)") blast+
  have b: "buffer_ok (regions mb) (region_size mb) (region_capacity mb)"
    using mb by (simp add: block_ok_def)
  have len: "length (reserved_list mb) = reserved_region_size mb" "length (free_list mb) = region_size mb"
    using block_okD(1,2) [OF mb] by (simp_all add: holds_def)
  have "0 < length (reserved_list mb)" using r(1) by (cases "reserved_list mb") auto
  then have pos: "reserved_region_size mb \<noteq> 0" by (simp add: len)
  obtain e buf n' where run: "check_loop (deref (regions mb)) (region_size mb) (region_capacity mb) 0 (reserved_list mb)
      = Some (Inl e, buf, n')"
    using check_loop_refines [of "deref (regions mb)" "region_size mb" "[]" "free_list mb"
        "reserved_list mb" "region_capacity mb"] block_okD [OF mb] room ys b
    by (auto simp: len buffer_ok_def)
  then show ?thesis
    using pos small slice_range_holds [OF block_okD(2) [OF mb]] by (simp add: check_regions_def)
qed

end
