(* ===== verification/Range_List_Alloc.thy ===== *)
theory Range_List_Alloc
  imports Range_List_Check
begin

text \<open>
  Allocation and deallocation on the finalised range list allocator: the free and the reserved
  addresses stay apart, an allocation moves an aligned interval from the free to the reserved
  addresses and a deallocation moves it back.
\<close>

section \<open>Carving an aligned interval out of a free region\<close>

text \<open>The interval from \<open>a\<close> to \<open>e\<close> is taken out of \<open>g\<close>; empty rests are dropped.\<close>

definition carve_at :: "MemoryRegions \<Rightarrow> nat \<Rightarrow> nat \<Rightarrow> MemoryRegions list" where
  "carve_at g a e =
     (if address g = a then [] else [\<lparr>address = address g, mr_size = a - address g\<rparr>])
     @ (if e = fin g then [] else [\<lparr>address = e, mr_size = fin g - e\<rparr>])"

lemma carve_at_cover:
  assumes "address g \<le> a" and "a \<le> e" and "e \<le> fin g"
  shows "cover (carve_at g a e) = span g - {a..<e}" and "nonempty (carve_at g a e)"
  using assms by (auto simp: carve_at_def cover_def span_def nonempty_def)

lemma carve_at_ok:
  assumes ok: "regions_ok (as @ g # bs)" and le: "address g \<le> a" "a < e" "e \<le> fin g"
  shows "regions_ok (as @ carve_at g a e @ bs)"
  using assms by (fastforce simp: carve_at_def regions_ok_simps before_def)

lemma cover_apart:
  assumes "regions_ok (as @ g # bs)"
  shows "cover as \<inter> span g = {}" and "cover bs \<inter> span g = {}"
  using assms by (force simp: regions_ok_simps before_def cover_def span_def)+

lemma carve_cover:
  assumes "regions_ok (as @ g # bs)" and "address g \<le> a" and "a \<le> e" and "e \<le> fin g"
  shows "cover (as @ carve_at g a e @ bs) = cover (as @ g # bs) - {a..<e}"
proof -
  have "{a..<e} \<subseteq> span g" using assms by (auto simp: span_def)
  then show ?thesis
    using cover_apart [OF assms(1)] carve_at_cover(1) [OF assms(2-4)] by auto
qed

lemma carve_region_refines:
  assumes buf: "holds buf n (as @ g # bs)" and room: "n < length buf" "n + 1 < u32_limit"
    and g: "fin g < usize_limit" and al: "0 < al"
    and A: "A = align_up (address g) al" and fit: "A + sz \<le> fin g"
  shows "\<exists>buf'. carve_region buf n (length as) A sz al
        = Some (buf', length (as @ carve_at g A (A + sz) @ bs))
     \<and> holds buf' (length (as @ carve_at g A (A + sz) @ bs)) (as @ carve_at g A (A + sz) @ bs)
     \<and> length buf' = length buf"
proof -
  have ge: "address g \<le> A" by (simp add: A align_up_ge)
  have al_iff: "is_multiple_of (address g) al \<longleftrightarrow> address g = A"
  proof
    assume "is_multiple_of (address g) al"
    then show "address g = A" using al by (simp add: A align_up_def is_multiple_of_def)
  next
    assume "address g = A"
    then show "is_multiple_of (address g) al"
      using al align_up_dvd [OF al, of "address g"] by (simp add: A is_multiple_of_dvd)
  qed
  have n: "n = Suc (length as + length bs)" using buf by (simp add: holds_def)
  define cut where "cut = (\<lambda>(buf1 :: MemoryRegions list) n1 i1. do {
     h \<leftarrow> slice_get buf1 i1;
     h_end \<leftarrow> region_end h;
     (if A + sz = h_end then do {
        rs2 \<leftarrow> copy_within buf1 (i1 + 1) n1 i1;
        n2 \<leftarrow> usub n1 1;
        Some (rs2, n2)
      } else do {
        s \<leftarrow> usub (fin g) (A + sz);
        rs2 \<leftarrow> slice_set buf1 i1 \<lparr>address = A + sz, mr_size = s\<rparr>;
        Some (rs2, n1)
      })})"
  have tail: "\<exists>buf'. cut buf1 n1 (length cs)
        = Some (buf', length (cs @ (if A + sz = fin g then [] else [\<lparr>address = A + sz, mr_size = fin g - (A + sz)\<rparr>]) @ bs))
     \<and> holds buf' (length (cs @ (if A + sz = fin g then [] else [\<lparr>address = A + sz, mr_size = fin g - (A + sz)\<rparr>]) @ bs))
         (cs @ (if A + sz = fin g then [] else [\<lparr>address = A + sz, mr_size = fin g - (A + sz)\<rparr>]) @ bs)
     \<and> length buf' = length buf1"
    if h: "holds buf1 n1 (cs @ h # bs)" "fin h = fin g" for buf1 n1 cs h
  proof -
    have n1: "n1 = Suc (length cs + length bs)" using h(1) by (simp add: holds_def)
    obtain buf2 where del: "copy_within buf1 (length cs + 1) n1 (length cs) = Some buf2"
      "length buf2 = length buf1" "holds buf2 (n1 - 1) (cs @ bs)"
      using delete_slot [OF h(1)] by blast
    have get: "slice_get buf1 (length cs) = Some h" by (rule holds_get [OF h(1) refl])
    have "region_end h = Some (fin g)" using g h(2) by (simp add: region_end_ok)
    then show ?thesis
      using get del n1 fit holds_set [OF h(1) refl, of "\<lparr>address = A + sz, mr_size = fin g - (A + sz)\<rparr>"]
      by (simp add: cut_def exec_simps)
  qed
  have get: "slice_get buf (length as) = Some g" by (rule holds_get [OF buf refl])
  have ends: "region_end g = Some (fin g)" "uadd A sz = Some (A + sz)"
    using g fit by (simp_all add: region_end_ok uadd_def)
  show ?thesis
  proof (cases "address g = A")
    case True
    have "carve_region buf n (length as) A sz al = cut buf n (length as)"
      using get ends al_iff True by (simp add: carve_region_def cut_def)
    then show ?thesis
      using tail [OF buf refl] True by (simp add: carve_at_def)
  next
    case False
    let ?p = "\<lparr>address = address g, mr_size = A - address g\<rparr>"
    let ?h = "\<lparr>address = A, mr_size = mr_size g - (A - address g)\<rparr>"
    obtain buf1 where ins: "copy_within buf (length as) n (length as + 1) = Some buf1"
      "length buf1 = length buf" "holds (buf1[length as := ?p]) (Suc n) (as @ ?p # g # bs)"
      using insert_slot [OF buf room(1)] by blast
    let ?b = "buf1[length as := ?p]"
    have h1: "holds ?b (Suc n) ((as @ [?p]) @ g # bs)" using ins(3) by simp
    have setp: "slice_set buf1 (length as) ?p = Some ?b"
      using ins(2) room n by (simp add: slice_set_def)
    have getg: "slice_get ?b (length as + 1) = Some g"
      using holds_get [OF h1 refl] by simp
    have h2: "slice_set ?b (length as + 1) ?h = Some (?b[length as + 1 := ?h])"
      "holds (?b[length as + 1 := ?h]) (Suc n) ((as @ [?p]) @ ?h # bs)"
      using holds_set [OF h1, of "length as + 1" ?h] by simp_all
    have sub: "usub A (address g) = Some (A - address g)"
      "usub (mr_size g) (A - address g) = Some (mr_size g - (A - address g))"
      "u32_add n 1 = Some (Suc n)"
      using ge fit room(2) by (auto simp: usub_def u32_add_def fin_def)
    have fh: "fin ?h = fin g" using ge fit by (simp add: fin_def)
    have "carve_region buf n (length as) A sz al
        = cut (?b[length as + 1 := ?h]) (Suc n) (length (as @ [?p]))"
      using get ends al_iff False sub ins(1) setp getg h2(1) by (simp add: carve_region_def cut_def)
    then show ?thesis
      using tail [OF h2(2) fh] False ins(2) by (simp add: carve_at_def)
  qed
qed

section \<open>Adding an interval that is disjoint from the list\<close>

text \<open>No two neighbours of the list touch, so every covered interval lies inside one region.\<close>

definition separated :: "MemoryRegions list \<Rightarrow> bool" where
  "separated rs \<longleftrightarrow> sorted_wrt (\<lambda>a b. fin a < address b) rs"

lemma separated_append:
  "separated (xs @ ys) \<longleftrightarrow> separated xs \<and> separated ys \<and> (\<forall>x \<in> set xs. \<forall>y \<in> set ys. fin x < address y)"
  by (auto simp: separated_def sorted_wrt_append)

lemma separated_Cons:
  "separated (x # xs) \<longleftrightarrow> separated xs \<and> (\<forall>y \<in> set xs. fin x < address y)"
  by (auto simp: separated_def)

lemma separated_Nil [simp]: "separated []"
  by (simp add: separated_def)

lemmas separated_simps = separated_append separated_Cons separated_Nil

lemma disjoint_region_side:
  assumes "nonempty xs" and "address r < fin r" and "cover xs \<inter> span r = {}" and "x \<in> set xs"
  shows "(address x < address r \<longrightarrow> fin x \<le> address r) \<and> (address r \<le> address x \<longrightarrow> fin r \<le> address x \<and> address r < address x)"
proof -
  have x: "address x < fin x" using assms(1,4) by (simp add: nonempty_def)
  have d: "span x \<inter> span r = {}" using assms(3,4) by (auto simp: cover_def)
  have "address r \<notin> span x" and "address x \<notin> span r"
    using d x assms(2) by (auto simp: span_def)
  then show ?thesis using x assms(2) by (auto simp: span_def)
qed

lemma merge_at_separated:
  assumes sep: "separated (as @ bs)"
    and lo: "\<forall>a \<in> set as. fin a \<le> address r \<and> address a < address r"
    and hi: "\<forall>b \<in> set bs. fin r \<le> address b \<and> address r < address b"
    and ne: "nonempty (as @ bs)"
  shows "separated (merge_at as bs r)"
proof -
  have near: "\<forall>a \<in> set (butlast as). fin a < address r" "\<forall>b \<in> set (tl bs). fin r < address b"
    using assms by (cases as rule: rev_cases; cases bs; fastforce simp: separated_simps nonempty_def)+
  show ?thesis
    using assms near
    by (cases as rule: rev_cases; cases bs) (auto simp: merge_at_shapes separated_simps)
qed

lemma search_absent:
  assumes "regions_ok xs" and "\<forall>x \<in> set xs. address x \<noteq> a"
  obtains as bs where "xs = as @ bs" and "search_index (binary_search_by_key xs a address) = length as"
    and "\<forall>x \<in> set as. address x < a" and "\<forall>x \<in> set bs. a < address x"
  using assms by (rule_tac binary_search_split [OF regions_ok_sorted, of xs a])
    (auto simp: search_index_def)

lemma merge_disjoint_ok:
  assumes buf: "holds buf n xs" and room: "n < length buf" "n + 1 < u32_limit"
    and ok: "regions_ok xs" and ne: "nonempty xs" and r: "fin r < usize_limit" "address r < fin r"
    and dis: "cover xs \<inter> span r = {}"
  shows "\<exists>buf' ys. add_and_merge_region buf n (search_index (binary_search_by_key xs (address r) address)) r
        = Some (buf', length ys)
     \<and> holds buf' (length ys) ys \<and> length buf' = length buf \<and> regions_ok ys \<and> nonempty ys
     \<and> cover ys = cover xs \<union> span r \<and> length ys \<le> Suc n \<and> (separated xs \<longrightarrow> separated ys)"
proof -
  note side = disjoint_region_side [OF ne r(2) dis]
  have "\<forall>x \<in> set xs. address x \<noteq> address r" using side by fastforce
  then obtain as bs where xs: "xs = as @ bs"
    and at: "search_index (binary_search_by_key xs (address r) address) = length as"
    and lo: "\<forall>x \<in> set as. address x < address r" and hi: "\<forall>x \<in> set bs. address r < address x"
    by (rule search_absent [OF ok])
  have lo': "\<forall>x \<in> set as. fin x \<le> address r \<and> address x < address r"
    and hi': "\<forall>x \<in> set bs. fin r \<le> address x \<and> address r < address x"
    using side lo hi xs by auto
  then have tl: "\<forall>b \<in> set (tl bs). fin r \<le> address b" by (cases bs) auto
  let ?ys = "merge_at as bs r"
  have "\<forall>b \<in> set bs. address r \<le> address b" using hi by auto
  then obtain buf' where m: "add_and_merge_region buf n (length as) r = Some (buf', length ?ys)"
    "holds buf' (length ?ys) ?ys" "length buf' = length buf"
    using add_and_merge_refines [of buf n as bs r] buf room ok r(1) lo xs by blast
  have "length ?ys \<le> Suc n"
    using buf xs by (cases as rule: rev_cases; cases bs) (auto simp: merge_at_shapes holds_def)
  moreover have "regions_ok ?ys" using merge_at_ok ok r(1) lo hi tl xs by blast
  moreover have "nonempty ?ys" using merge_at_nonempty ne r(2) lo hi xs by simp
  moreover have "cover ?ys = cover xs \<union> span r" using merge_at_cover [OF lo hi] xs by simp
  moreover have "separated xs \<longrightarrow> separated ?ys"
    using merge_at_separated [OF _ lo' hi'] ne xs by simp
  ultimately show ?thesis using m at by metis
qed

section \<open>The invariant of the finalised allocator\<close>

definition alloc_ok :: "MemoryBlock \<Rightarrow> bool" where
  "alloc_ok mb \<longleftrightarrow> block_ok mb \<and> allocatable mb \<and> nonempty (free_list mb) \<and> nonempty (reserved_list mb)
     \<and> separated (reserved_list mb) \<and> cover (free_list mb) \<inter> cover (reserved_list mb) = {}
     \<and> region_size mb < region_capacity mb \<and> reserved_region_size mb < reserved_region_capacity mb
     \<and> 2 \<le> region_capacity mb \<and> 2 \<le> reserved_region_capacity mb"

lemma alloc_okD:
  assumes "alloc_ok mb"
  shows "holds (deref (regions mb)) (region_size mb) (free_list mb)"
    and "holds (deref (reserved_regions mb)) (reserved_region_size mb) (reserved_list mb)"
    and "regions_ok (free_list mb)" and "regions_ok (reserved_list mb)"
    and "nonempty (free_list mb)" and "nonempty (reserved_list mb)"
    and "region_size mb < length (deref (regions mb))"
    and "reserved_region_size mb < length (deref (reserved_regions mb))"
    and "region_size mb + 1 < u32_limit" and "reserved_region_size mb + 1 < u32_limit"
    and "cover (free_list mb) \<inter> cover (reserved_list mb) = {}"
  using assms block_okD [of mb] by (auto simp: alloc_ok_def block_ok_def buffer_ok_def)

lemma add_reserved_alloc_record_ok:
  assumes mb: "block_ok mb" and ne: "nonempty (reserved_list mb)" and sep: "separated (reserved_list mb)"
    and room: "reserved_region_size mb < reserved_region_capacity mb"
    and sz: "0 < sz" "a + sz < usize_limit" and dis: "cover (reserved_list mb) \<inter> {a..<a + sz} = {}"
  shows "\<exists>mb'. add_reserved_alloc_record mb a sz = Some mb' \<and> block_ok mb' \<and> free_list mb' = free_list mb
     \<and> nonempty (reserved_list mb') \<and> separated (reserved_list mb')
     \<and> cover (reserved_list mb') = cover (reserved_list mb) \<union> {a..<a + sz}
     \<and> mb' = mb\<lparr>reserved_regions := reserved_regions mb', reserved_region_size := reserved_region_size mb'\<rparr>
     \<and> reserved_region_size mb' \<le> Suc (reserved_region_size mb)"
proof -
  let ?r = "\<lparr>address = a, mr_size = sz\<rparr>"
  have b: "buffer_ok (reserved_regions mb) (reserved_region_size mb) (reserved_region_capacity mb)"
    using mb by (simp add: block_ok_def)
  have l: "reserved_region_size mb < length (deref (reserved_regions mb))" "reserved_region_size mb + 1 < u32_limit"
    using b room by (auto simp: buffer_ok_def)
  have sp: "span ?r = {a..<a + sz}" by (simp add: span_def)
  obtain buf' ys where run: "add_and_merge_region (deref (reserved_regions mb)) (reserved_region_size mb)
        (search_index (binary_search_by_key (reserved_list mb) a address)) ?r = Some (buf', length ys)"
    and h: "holds buf' (length ys) ys" "length buf' = length (deref (reserved_regions mb))"
    and y: "regions_ok ys" "nonempty ys" "cover ys = cover (reserved_list mb) \<union> span ?r"
      "length ys \<le> Suc (reserved_region_size mb)" "separated ys"
    using merge_disjoint_ok [OF block_okD(2) [OF mb] l block_okD(4) [OF mb] ne, of ?r] sz dis sep sp by auto
  let ?mb = "mb\<lparr>reserved_regions := deref_mut (reserved_regions mb) buf', reserved_region_size := length ys\<rparr>"
  have eq: "add_reserved_alloc_record mb a sz = Some ?mb"
    using run slice_range_holds [OF block_okD(2) [OF mb]] by (simp add: add_reserved_alloc_record_def)
  have "buffer_ok (deref_mut (reserved_regions mb) buf') (length ys) (reserved_region_capacity mb)"
    using buffer_okI [OF h(1) y(1)] b h(2) y(4) room by (simp add: buffer_ok_def)
  then have "block_ok ?mb" using mb by (simp add: block_ok_def)
  moreover have "reserved_list ?mb = ys" using h by (simp add: reserved_list_def holds_def)
  moreover have "free_list ?mb = free_list mb" by (simp add: free_list_def)
  ultimately show ?thesis using eq y sp by (intro exI [of _ ?mb]) simp
qed

lemma add_free_region_merge_ok:
  assumes mb: "block_ok mb" and ne: "nonempty (free_list mb)"
    and room: "region_size mb < region_capacity mb"
    and sz: "0 < sz" "a + sz < usize_limit" and dis: "cover (free_list mb) \<inter> {a..<a + sz} = {}"
  shows "\<exists>mb'. add_free_region_merge mb a sz = Some mb' \<and> block_ok mb' \<and> reserved_list mb' = reserved_list mb
     \<and> nonempty (free_list mb') \<and> cover (free_list mb') = cover (free_list mb) \<union> {a..<a + sz}
     \<and> mb' = mb\<lparr>regions := regions mb', region_size := region_size mb'\<rparr>
     \<and> region_size mb' \<le> Suc (region_size mb)"
proof -
  let ?r = "\<lparr>address = a, mr_size = sz\<rparr>"
  have b: "buffer_ok (regions mb) (region_size mb) (region_capacity mb)"
    using mb by (simp add: block_ok_def)
  have l: "region_size mb < length (deref (regions mb))" "region_size mb + 1 < u32_limit"
    using b room by (auto simp: buffer_ok_def)
  have sp: "span ?r = {a..<a + sz}" by (simp add: span_def)
  obtain buf' ys where run: "add_and_merge_region (deref (regions mb)) (region_size mb)
        (search_index (binary_search_by_key (free_list mb) a address)) ?r = Some (buf', length ys)"
    and h: "holds buf' (length ys) ys" "length buf' = length (deref (regions mb))"
    and y: "regions_ok ys" "nonempty ys" "cover ys = cover (free_list mb) \<union> span ?r"
      "length ys \<le> Suc (region_size mb)"
    using merge_disjoint_ok [OF block_okD(1) [OF mb] l block_okD(3) [OF mb] ne, of ?r] sz dis sp by auto
  let ?mb = "mb\<lparr>regions := deref_mut (regions mb) buf', region_size := length ys\<rparr>"
  have eq: "add_free_region_merge mb a sz = Some ?mb"
    using run slice_range_holds [OF block_okD(1) [OF mb]] by (simp add: add_free_region_merge_def)
  have "buffer_ok (deref_mut (regions mb) buf') (length ys) (region_capacity mb)"
    using buffer_okI [OF h(1) y(1)] b h(2) y(4) room by (simp add: buffer_ok_def)
  then have "block_ok ?mb" using mb by (simp add: block_ok_def)
  moreover have "free_list ?mb = ys" using h by (simp add: free_list_def holds_def)
  moreover have "reserved_list ?mb = reserved_list mb" by (simp add: reserved_list_def)
  ultimately show ?thesis using eq y sp by (intro exI [of _ ?mb]) simp
qed

section \<open>Allocation\<close>

definition fits :: "usize \<Rightarrow> usize \<Rightarrow> MemoryRegions \<Rightarrow> bool" where
  "fits sz al g \<longleftrightarrow> align_up (address g) al + sz \<le> fin g"

text \<open>The candidate addresses of the search do not leave the address space.\<close>

definition no_wrap :: "usize \<Rightarrow> usize \<Rightarrow> MemoryRegions \<Rightarrow> bool" where
  "no_wrap sz al g \<longleftrightarrow> align_up (address g) al + sz < usize_limit"

lemma fits_no_wrap: "fits sz al g \<Longrightarrow> fin g < usize_limit \<Longrightarrow> no_wrap sz al g"
  by (simp add: fits_def no_wrap_def)

lemma alloc_loop_skip:
  assumes "holds (deref (regions mb)) n (as @ cs @ bs)" and "regions_ok (as @ cs @ bs)"
    and "0 < al" and "\<forall>c \<in> set cs. \<not> fits sz al c \<and> no_wrap sz al c"
  shows "alloc_loop mb sz al (length as) n = alloc_loop mb sz al (length (as @ cs)) n"
  using assms
proof (induction cs arbitrary: as)
  case (Cons c cs)
  have n: "length as < n" using Cons.prems(1) by (simp add: holds_def)
  have get: "slice_get (deref (regions mb)) (length as) = Some c"
    using holds_get [of _ n as c "cs @ bs"] Cons.prems(1) by simp
  have c: "fin c < usize_limit" "\<not> fits sz al c" "no_wrap sz al c"
    using Cons.prems(2,4) by (simp_all add: regions_ok_simps)
  have "alloc_loop mb sz al (length as) n = alloc_loop mb sz al (length (as @ [c])) n"
    using n get c Cons.prems(3)
    by (subst alloc_loop.simps) (simp add: no_wrap_def fits_def exec_simps)
  also have "\<dots> = alloc_loop mb sz al (length ((as @ [c]) @ cs)) n"
    using Cons.IH [of "as @ [c]"] Cons.prems by simp
  finally show ?case by simp
qed simp

lemma alloc_loop_wraps:
  assumes "holds (deref (regions mb)) n (as @ c # bs)" and "0 < al" and "fin c < usize_limit" and "\<not> no_wrap sz al c"
  shows "alloc_loop mb sz al (length as) n = None"
proof -
  have n: "length as < n" using assms(1) by (simp add: holds_def)
  have get: "slice_get (deref (regions mb)) (length as) = Some c" by (rule holds_get [OF assms(1) refl])
  show ?thesis
  proof (cases "next_multiple_of (address c) al")
    case None
    with n get show ?thesis by (subst alloc_loop.simps) simp
  next
    case (Some m)
    then have "uadd m sz = None" using assms(4) by (simp add: next_multiple_of_Some_iff no_wrap_def uadd_def)
    with Some n get assms(3) show ?thesis by (subst alloc_loop.simps) (simp add: exec_simps)
  qed
qed

text \<open>What a successful allocation of \<open>sz\<close> bytes at \<open>a\<close> does to the allocator.\<close>

definition allocated :: "MemoryBlock \<Rightarrow> nat \<Rightarrow> usize \<Rightarrow> usize \<Rightarrow> MemoryBlock \<Rightarrow> bool" where
  "allocated mb al a sz mb' \<longleftrightarrow>
     al dvd a \<and> {a..<a + sz} \<subseteq> cover (free_list mb) \<and> a + sz < usize_limit
     \<and> cover (free_list mb') = cover (free_list mb) - {a..<a + sz}
     \<and> cover (reserved_list mb') = cover (reserved_list mb) \<union> {a..<a + sz}
     \<and> region_capacity mb' = region_capacity mb
     \<and> reserved_region_capacity mb' = reserved_region_capacity mb
     \<and> region_size mb' \<le> Suc (region_size mb)
     \<and> reserved_region_size mb' \<le> Suc (reserved_region_size mb)"

text \<open>The invariant up to the room left in the tables, which one allocation may use up.\<close>

definition tables_ok :: "MemoryBlock \<Rightarrow> bool" where
  "tables_ok mb \<longleftrightarrow> block_ok mb \<and> allocatable mb \<and> nonempty (free_list mb) \<and> nonempty (reserved_list mb)
     \<and> separated (reserved_list mb) \<and> cover (free_list mb) \<inter> cover (reserved_list mb) = {}
     \<and> 2 \<le> region_capacity mb \<and> 2 \<le> reserved_region_capacity mb"

lemma alloc_ok_tables:
  "alloc_ok mb \<longleftrightarrow> tables_ok mb \<and> region_size mb < region_capacity mb
     \<and> reserved_region_size mb < reserved_region_capacity mb"
  by (auto simp: alloc_ok_def tables_ok_def)

lemma alloc_at_ok:
  assumes mb: "alloc_ok mb" and fl: "free_list mb = as @ g # bs" and fit: "fits sz al g"
    and al: "0 < al" and sz: "0 < sz"
  shows "\<exists>mb'. alloc_loop mb sz al (length as) (region_size mb) = Some (Some (align_up (address g) al), mb')
     \<and> tables_ok mb' \<and> allocated mb al (align_up (address g) al) sz mb'"
proof -
  define A where "A = align_up (address g) al"
  define ys where "ys = as @ carve_at g A (A + sz) @ bs"
  have buf: "holds (deref (regions mb)) (region_size mb) (as @ g # bs)"
    and ok: "regions_ok (as @ g # bs)" using alloc_okD(1,3) [OF mb] fl by simp_all
  have g: "fin g < usize_limit" using ok by (simp add: regions_ok_simps)
  have le: "address g \<le> A" "A + sz \<le> fin g" "A < A + sz"
    using fit sz by (simp_all add: fits_def A_def align_up_ge)
  obtain buf' where run: "carve_region (deref (regions mb)) (region_size mb) (length as) A sz al = Some (buf', length ys)"
    and h: "holds buf' (length ys) ys" "length buf' = length (deref (regions mb))"
    using carve_region_refines [OF buf alloc_okD(7,9) [OF mb] g al A_def le(2)] unfolding ys_def by blast
  have y: "regions_ok ys" "cover ys = cover (free_list mb) - {A..<A + sz}" "nonempty ys"
    using carve_at_ok [OF ok le(1,3,2)] carve_cover [OF ok le(1) _ le(2)] carve_at_cover(2) [OF le(1) _ le(2)]
      alloc_okD(5) [OF mb] fl by (simp_all add: ys_def)
  have ly: "length ys \<le> Suc (region_size mb)" using buf by (simp add: ys_def carve_at_def holds_def)
  let ?mb = "mb\<lparr>regions := deref_mut (regions mb) buf', region_size := length ys\<rparr>"
  have b: "buffer_ok (regions mb) (region_size mb) (region_capacity mb)"
    using mb by (simp add: alloc_ok_def block_ok_def)
  have "buffer_ok (deref_mut (regions mb) buf') (length ys) (region_capacity mb)"
    using buffer_okI [OF h(1) y(1)] b h(2) ly mb by (simp add: buffer_ok_def alloc_ok_def)
  then have bok: "block_ok ?mb" using mb by (simp add: alloc_ok_def block_ok_def)
  have lists: "free_list ?mb = ys" "reserved_list ?mb = reserved_list mb"
    using h(1) by (simp_all add: free_list_def reserved_list_def holds_def)
  have sub: "{A..<A + sz} \<subseteq> cover (free_list mb)" using le fl by (auto simp: span_def)
  then have dis: "cover (reserved_list ?mb) \<inter> {A..<A + sz} = {}"
    using alloc_okD(11) [OF mb] lists by auto
  have ne: "nonempty (reserved_list ?mb)" "separated (reserved_list ?mb)"
    and room: "reserved_region_size ?mb < reserved_region_capacity ?mb" and lim: "A + sz < usize_limit"
    using mb lists le(2) g by (simp_all add: alloc_ok_def)
  obtain mb' where rsv: "add_reserved_alloc_record ?mb A sz = Some mb'" "block_ok mb'" "free_list mb' = ys"
    "nonempty (reserved_list mb')" "separated (reserved_list mb')"
    "cover (reserved_list mb') = cover (reserved_list mb) \<union> {A..<A + sz}"
    "mb' = ?mb\<lparr>reserved_regions := reserved_regions mb', reserved_region_size := reserved_region_size mb'\<rparr>"
    "reserved_region_size mb' \<le> Suc (reserved_region_size mb)"
    using add_reserved_alloc_record_ok [OF bok ne room sz lim dis] lists by auto
  have fields: "region_capacity mb' = region_capacity mb" "allocatable mb'"
    "reserved_region_capacity mb' = reserved_region_capacity mb" "region_size mb' = length ys"
    using mb by (subst rsv(7), simp add: alloc_ok_def)+
  have "alloc_loop mb sz al (length as) (region_size mb) = Some (Some A, mb')"
    using holds_get [OF buf refl] buf g al le lim run rsv(1)
    by (subst alloc_loop.simps) (simp add: exec_simps A_def holds_def)
  moreover have "tables_ok mb'"
    using rsv fields y mb by (auto simp: tables_ok_def alloc_ok_def)
  moreover have "allocated mb al A sz mb'"
    using rsv fields y ly sub lim align_up_dvd [OF al] by (simp add: allocated_def A_def)
  ultimately show ?thesis by (auto simp: A_def)
qed

lemma first_fit_split:
  assumes "\<exists>x \<in> set xs. P x"
  obtains as g bs where "xs = as @ g # bs" and "\<forall>a \<in> set as. \<not> P a" and "P g"
  using split_list_first_prop [OF assms] by blast

text \<open>First fit, without a panic, when no candidate leaves the address space.\<close>

lemma allocate_region_internal_total:
  assumes mb: "alloc_ok mb" and al: "0 < al" and sz: "0 < sz"
    and wrap: "\<forall>g \<in> set (free_list mb). no_wrap sz al g"
  shows "if \<exists>g \<in> set (free_list mb). fits sz al g
     then \<exists>a mb'. allocate_region_internal mb sz al = Some (Some a, mb') \<and> tables_ok mb' \<and> allocated mb al a sz mb'
     else allocate_region_internal mb sz al = Some (None, mb)"
proof (cases "\<exists>g \<in> set (free_list mb). fits sz al g")
  case True
  then obtain as g bs where s: "free_list mb = as @ g # bs" "\<forall>a \<in> set as. \<not> fits sz al a" "fits sz al g"
    by (rule first_fit_split)
  have "alloc_loop mb sz al 0 (region_size mb) = alloc_loop mb sz al (length as) (region_size mb)"
    using alloc_loop_skip [of mb "region_size mb" "[]" as "g # bs" al sz] alloc_okD(1,3) [OF mb] s wrap al
    by simp
  with True alloc_at_ok [OF mb s(1,3) al sz] show ?thesis
    by (auto simp: allocate_region_internal_def)
next
  case False
  have "alloc_loop mb sz al 0 (region_size mb) = alloc_loop mb sz al (length (free_list mb)) (region_size mb)"
    using alloc_loop_skip [of mb "region_size mb" "[]" "free_list mb" "[]" al sz] alloc_okD(1,3) [OF mb]
      False wrap al by simp
  moreover have "alloc_loop mb sz al (region_size mb) (region_size mb) = Some (None, mb)"
    by (subst alloc_loop.simps) simp
  moreover have "length (free_list mb) = region_size mb" using alloc_okD(1) [OF mb] by (simp add: holds_def)
  ultimately show ?thesis using False by (simp add: allocate_region_internal_def)
qed

text \<open>Whenever the search returns, it has allocated or left the allocator alone.\<close>

lemma allocate_region_internal_sound:
  assumes mb: "alloc_ok mb" and al: "0 < al" and sz: "0 < sz"
    and run: "allocate_region_internal mb sz al = Some (out, mb')"
  shows "case out of None \<Rightarrow> mb' = mb \<and> (\<forall>g \<in> set (free_list mb). \<not> fits sz al g)
     | Some a \<Rightarrow> tables_ok mb' \<and> allocated mb al a sz mb'"
proof (cases "\<exists>g \<in> set (free_list mb). fits sz al g \<or> \<not> no_wrap sz al g")
  case True
  then obtain as g bs where s: "free_list mb = as @ g # bs"
      "\<forall>a \<in> set as. \<not> (fits sz al a \<or> \<not> no_wrap sz al a)" "fits sz al g \<or> \<not> no_wrap sz al g"
    by (rule first_fit_split)
  have eq: "alloc_loop mb sz al 0 (region_size mb) = alloc_loop mb sz al (length as) (region_size mb)"
    using alloc_loop_skip [of mb "region_size mb" "[]" as "g # bs" al sz] alloc_okD(1,3) [OF mb] s al by auto
  have g: "fin g < usize_limit" using alloc_okD(3) [OF mb] s by (simp add: regions_ok_simps)
  have "fits sz al g"
    using alloc_loop_wraps [of mb "region_size mb" as g bs al sz] alloc_okD(1) [OF mb] s al g run eq
    by (auto simp: allocate_region_internal_def)
  from alloc_at_ok [OF mb s(1) this al sz] show ?thesis
    using run eq by (auto simp: allocate_region_internal_def)
next
  case False
  then show ?thesis
    using allocate_region_internal_total [OF mb al sz] run by (auto split: if_splits)
qed

end
