(* ===== verification/Range_List_Dealloc.thy ===== *)
theory Range_List_Dealloc
  imports Range_List_Alloc
begin

text \<open>
  Growing the tables of the range list allocator, deallocation, and the public operations
  \<open>allocate_region\<close> and \<open>deallocate_region\<close>.
\<close>

section \<open>Growing the tables\<close>

text \<open>The addresses \<open>I\<close> went from the free to the reserved ones.\<close>

definition moved :: "MemoryBlock \<Rightarrow> nat set \<Rightarrow> MemoryBlock \<Rightarrow> bool" where
  "moved mb I mb' \<longleftrightarrow> I \<subseteq> cover (free_list mb) \<and> cover (free_list mb') = cover (free_list mb) - I
     \<and> cover (reserved_list mb') = cover (reserved_list mb) \<union> I"

lemma moved_refl: "moved mb {} mb"
  by (simp add: moved_def)

lemma moved_trans: "moved mb I mb1 \<Longrightarrow> moved mb1 J mb2 \<Longrightarrow> moved mb (I \<union> J) mb2"
  by (auto simp: moved_def)

lemma allocated_moved: "allocated mb al a sz mb' \<Longrightarrow> moved mb {a..<a + sz} mb'"
  by (simp add: moved_def allocated_def)

definition roomy :: "MemoryBlock \<Rightarrow> bool" where
  "roomy mb \<longleftrightarrow> region_size mb + 1 < region_capacity mb
     \<and> reserved_region_size mb + 1 < reserved_region_capacity mb"

lemma buffer_ok_heap_slice:
  assumes "buffer_ok d n cap" and "cap \<le> cap'" and "cap' < u32_limit"
  shows "buffer_ok (heap_slice raw p (take n (deref d)) cap') n cap'"
    and "take n (deref (heap_slice raw p (take n (deref d)) cap')) = take n (deref d)"
  using assms by (auto simp: buffer_ok_def heap_slice_def)

lemma slice_range_take: "n \<le> length xs \<Longrightarrow> slice_range xs 0 n = Some (take n xs)"
  by (simp add: slice_range_def)

lemma overflow_wrapping_ok:
  assumes mb: "alloc_ok mb" and run: "overflow_wrapping raw mb = Some mb'"
  shows "alloc_ok mb' \<and> roomy mb' \<and> (\<exists>I. moved mb I mb')"
proof -
  let ?sz = "(region_capacity mb + reserved_region_capacity mb) * 2 * size_of_MemoryRegions"
  have pos: "0 < ?sz" using mb by (simp add: alloc_ok_def size_of_MemoryRegions_def)
  obtain a mb1 where al: "allocate_region_internal mb ?sz 4096 = Some (Some a, mb1)"
    and rest: "do {
        c \<leftarrow> u32_mul (region_capacity mb1) 2;
        rc \<leftarrow> u32_mul (reserved_region_capacity mb1) 2;
        off \<leftarrow> umul c size_of_MemoryRegions;
        p \<leftarrow> uadd a off;
        used \<leftarrow> slice_range (deref (regions mb1)) 0 (region_size mb1);
        rused \<leftarrow> slice_range (deref (reserved_regions mb1)) 0 (reserved_region_size mb1);
        Some (mb1\<lparr>regions := heap_slice raw a used c, reserved_regions := heap_slice raw p rused rc,
          region_capacity := c, reserved_region_capacity := rc\<rparr>) } = Some mb'"
    using run by (auto simp: overflow_wrapping_def u32_add_def umul_def Option.bind_eq_Some_conv split: if_splits)
  have t: "tables_ok mb1" and al': "allocated mb 4096 a ?sz mb1"
    using allocate_region_internal_sound [OF mb _ pos al] by simp_all
  have b: "buffer_ok (regions mb1) (region_size mb1) (region_capacity mb1)"
    "buffer_ok (reserved_regions mb1) (reserved_region_size mb1) (reserved_region_capacity mb1)"
    using t by (simp_all add: tables_ok_def block_ok_def)
  obtain p where caps: "region_capacity mb1 * 2 < u32_limit" "reserved_region_capacity mb1 * 2 < u32_limit"
    and mb': "mb' = mb1\<lparr>regions := heap_slice raw a (free_list mb1) (region_capacity mb1 * 2),
       reserved_regions := heap_slice raw p (reserved_list mb1) (reserved_region_capacity mb1 * 2),
       region_capacity := region_capacity mb1 * 2, reserved_region_capacity := reserved_region_capacity mb1 * 2\<rparr>"
    using rest b
    by (auto simp: u32_mul_def umul_def uadd_def Option.bind_eq_Some_conv slice_range_take free_list_def
        reserved_list_def buffer_ok_def split: if_splits)
  note h = buffer_ok_heap_slice [OF b(1) _ caps(1)] buffer_ok_heap_slice [OF b(2) _ caps(2)]
  have lists: "free_list mb' = free_list mb1" "reserved_list mb' = reserved_list mb1"
    using h(2,4) by (simp_all add: mb' free_list_def reserved_list_def)
  have room: "roomy mb'"
    using mb al' by (simp add: mb' roomy_def alloc_ok_def allocated_def)
  have "block_ok mb'"
    using h(1,3) t by (simp add: mb' block_ok_def free_list_def reserved_list_def tables_ok_def)
  then have "alloc_ok mb'"
    using t lists room by (simp add: alloc_ok_def tables_ok_def roomy_def) (simp add: mb')
  moreover have "moved mb {a..<a + ?sz} mb'"
    using allocated_moved [OF al'] lists by (simp add: moved_def)
  ultimately show ?thesis using room by blast
qed

definition headroom :: "MemoryBlock \<Rightarrow> bool" where
  "headroom mb \<longleftrightarrow> region_size mb + 10 \<le> region_capacity mb
     \<and> reserved_region_size mb + 10 \<le> reserved_region_capacity mb"

lemma ensure_overflow_headroom_id:
  assumes "alloc_ok mb" and "headroom mb"
  shows "ensure_overflow_headroom raw mb = Some mb"
  using assms
  by (simp add: ensure_overflow_headroom_def headroom_def u32_add_def alloc_ok_def block_ok_def buffer_ok_def)

lemma ensure_overflow_headroom_ok:
  assumes mb: "alloc_ok mb" and run: "ensure_overflow_headroom raw mb = Some mb'"
  shows "alloc_ok mb' \<and> roomy mb' \<and> (\<exists>I. moved mb I mb' \<and> (headroom mb \<longrightarrow> I = {}))"
proof (cases "headroom mb")
  case True
  then have "mb' = mb" using ensure_overflow_headroom_id [OF mb] run by simp
  then show ?thesis using mb True moved_refl by (auto simp: headroom_def roomy_def)
next
  case False
  then have "overflow_wrapping raw mb = Some mb'"
    using run by (auto simp: ensure_overflow_headroom_def headroom_def u32_add_def split: if_splits)
  then show ?thesis using overflow_wrapping_ok [OF mb] False by blast
qed

text \<open>The tables can grow as long as some free region holds the new, twice as large tables.\<close>

lemma overflow_wrapping_total:
  assumes mb: "alloc_ok mb"
    and caps: "region_capacity mb + reserved_region_capacity mb < 2 ^ 31"
    and fit: "\<exists>g \<in> set (free_list mb). fits ((region_capacity mb + reserved_region_capacity mb) * 32) 4096 g"
    and wrap: "\<forall>g \<in> set (free_list mb). no_wrap ((region_capacity mb + reserved_region_capacity mb) * 32) 4096 g"
  shows "\<exists>mb'. overflow_wrapping raw mb = Some mb'"
proof -
  let ?sz = "(region_capacity mb + reserved_region_capacity mb) * 32"
  have pos: "0 < ?sz" using mb by (simp add: alloc_ok_def)
  obtain a mb1 where al: "allocate_region_internal mb ?sz 4096 = Some (Some a, mb1)"
    "tables_ok mb1" "allocated mb 4096 a ?sz mb1"
    using allocate_region_internal_total [OF mb _ pos wrap] fit by auto
  have c: "region_capacity mb1 = region_capacity mb" "reserved_region_capacity mb1 = reserved_region_capacity mb"
    "a + ?sz < usize_limit"
    using al(3) by (simp_all add: allocated_def)
  have sums: "u32_add (region_capacity mb) (reserved_region_capacity mb) = Some (region_capacity mb + reserved_region_capacity mb)"
    "umul (region_capacity mb + reserved_region_capacity mb) 2 = Some ((region_capacity mb + reserved_region_capacity mb) * 2)"
    "umul ((region_capacity mb + reserved_region_capacity mb) * 2) size_of_MemoryRegions = Some ?sz"
    "u32_mul (region_capacity mb) 2 = Some (region_capacity mb * 2)"
    "u32_mul (reserved_region_capacity mb) 2 = Some (reserved_region_capacity mb * 2)"
    "umul (region_capacity mb * 2) size_of_MemoryRegions = Some (region_capacity mb * 32)"
    "uadd a (region_capacity mb * 32) = Some (a + region_capacity mb * 32)"
    using caps c(3)
    by (simp_all add: u32_add_def u32_mul_def umul_def uadd_def u32_limit_def usize_limit_def size_of_MemoryRegions_def)
  have "region_size mb1 \<le> length (deref (regions mb1))" "reserved_region_size mb1 \<le> length (deref (reserved_regions mb1))"
    using al(2) by (auto simp: tables_ok_def block_ok_def buffer_ok_def)
  then show ?thesis
    using sums al(1) c by (simp add: overflow_wrapping_def slice_range_take)
qed

section \<open>Taking an interval out of the reserved list\<close>

lemma covered_interval_inside:
  assumes sep: "separated rs" and sub: "{a..<e} \<subseteq> cover rs" and lt: "a < e"
  obtains as g bs where "rs = as @ g # bs" and "address g \<le> a" and "e \<le> fin g"
proof -
  obtain g where g: "g \<in> set rs" "a \<in> span g" using sub lt by (fastforce simp: cover_def)
  then obtain as bs where rs: "rs = as @ g # bs" by (meson split_list)
  have "e \<le> fin g"
  proof (rule ccontr)
    assume "\<not> e \<le> fin g"
    then have "fin g \<in> {a..<e}" using g(2) by (simp add: span_def)
    then obtain h where h: "h \<in> set rs" "fin g \<in> span h" using sub by (auto simp: cover_def)
    consider "h \<in> set as" | "h = g" | "h \<in> set bs" using h(1) rs by auto
    then show False
    proof cases
      case 1
      then have "fin h < address g" using sep rs by (simp add: separated_simps)
      with h(2) show False using address_le_fin [of g] by (simp add: span_def)
    next
      case 2
      with h(2) show False by (simp add: span_def)
    next
      case 3
      then have "fin g < address h" using sep rs by (simp add: separated_simps)
      with h(2) show False by (simp add: span_def)
    qed
  qed
  with rs g(2) show ?thesis using that by (simp add: span_def)
qed

lemma carve_at_separated:
  assumes "separated (as @ g # bs)" and "address g \<le> a" "a < e" "e \<le> fin g"
  shows "separated (as @ carve_at g a e @ bs)"
  using assms by (fastforce simp: carve_at_def separated_simps)

lemma remove_slot_refines:
  assumes "holds buf n (as @ g # bs)"
  shows "\<exists>buf'. remove_slot buf n (length as) = Some (buf', length (as @ bs))
     \<and> holds buf' (length (as @ bs)) (as @ bs) \<and> length buf' = length buf"
proof -
  obtain buf1 where c: "copy_within buf (length as + 1) n (length as) = Some buf1" "length buf1 = length buf"
    "holds (buf1[n - 1 := zero_region]) (n - 1) (as @ bs)"
    using delete_slot [OF assms] by blast
  have n: "n = Suc (length as + length bs)" "n \<le> length buf" using assms by (auto simp: holds_def)
  then have "slice_set buf1 (n - 1) zero_region = Some (buf1[n - 1 := zero_region])"
    using c(2) by (simp add: slice_set_def)
  then show ?thesis using c n by (simp add: remove_slot_def)
qed

lemma search_inside:
  assumes ok: "regions_ok (as @ g # bs)" and g: "address g \<le> a" "a < fin g"
  shows "binary_search_by_key (as @ g # bs) a address
     = (if address g = a then Inr (length as) else Inl (length (as @ [g])))"
proof -
  define ks where "ks = map address (as @ g # bs)"
  have sorted: "sorted ks" using regions_ok_sorted [OF ok] by (simp add: ks_def)
  have low: "ks ! j < a" if "j < length as" for j
  proof -
    have "ks ! j = address (as ! j)" using that by (simp add: ks_def nth_append)
    moreover have "before (as ! j) g" using that ok by (simp add: regions_ok_simps)
    ultimately show ?thesis using g by (simp add: before_def)
  qed
  have high: "a < ks ! j" if "length as < j" "j < length ks" for j
  proof -
    have "ks ! j = address (bs ! (j - Suc (length as)))" using that by (simp add: ks_def nth_append)
    moreover have "bs ! (j - Suc (length as)) \<in> set bs" using that by (simp add: ks_def)
    ultimately show ?thesis using ok g by (fastforce simp: regions_ok_simps before_def)
  qed
  have mid: "ks ! length as = address g" "length as < length ks" by (simp_all add: ks_def nth_append)
  show ?thesis
  proof (cases "binary_search_keys ks a")
    case (Inr i)
    note b = binary_search_keys_Inr [OF sorted Inr]
    have "i = length as" using low high b by (metis less_irrefl_nat linorder_neqE_nat)
    then show ?thesis using Inr b mid by (simp add: binary_search_by_key_def ks_def)
  next
    case (Inl i)
    note b = binary_search_keys_Inl [OF sorted Inl]
    have "length as < i" using b(3) [rule_format, of "length as"] mid g(1) by (metis leD leI)
    moreover have "\<not> length as + 1 < i"
      using b(1,2) high [of "length as + 1"] by force
    ultimately have "i = length as + 1" by simp
    moreover have "address g \<noteq> a" using b(2) \<open>length as < i\<close> mid by force
    ultimately show ?thesis using Inl by (simp add: binary_search_by_key_def ks_def)
  qed
qed

lemma resized: "\<lparr>address = address g, mr_size = s\<rparr> = g\<lparr>mr_size := s\<rparr>"
  by simp

lemma remove_reserved_slice_refines:
  assumes buf: "holds buf n (as @ g # bs)" and room: "n < length buf" "n + 1 < u32_limit"
    and ok: "regions_ok (as @ g # bs)" and sz: "0 < sz" and inside: "address g \<le> a" "a + sz \<le> fin g"
  shows "\<exists>buf'. remove_reserved_slice buf n a sz = Some (buf', length (as @ carve_at g a (a + sz) @ bs))
     \<and> holds buf' (length (as @ carve_at g a (a + sz) @ bs)) (as @ carve_at g a (a + sz) @ bs)
     \<and> length buf' = length buf"
proof -
  have g: "fin g < usize_limit" using ok by (simp add: regions_ok_simps)
  have n: "n = Suc (length as + length bs)" using buf by (simp add: holds_def)
  have get: "slice_get buf (length as) = Some g" by (rule holds_get [OF buf refl])
  have lim: "uadd a sz = Some (a + sz)" "region_end g = Some (fin g)"
    using inside(2) g by (simp_all add: uadd_def region_end_ok)
  note search = search_inside [OF ok inside(1)]
  note range = slice_range_holds [OF buf]
  note setg = holds_set [OF buf refl]
  have lt: "a < fin g" using inside sz by simp
  consider (whole) "address g = a" "fin g = a + sz" | (front) "address g = a" "a + sz < fin g"
    | (rear) "address g < a" "fin g = a + sz" | (middle) "address g < a" "a + sz < fin g"
    using inside by linarith
  then show ?thesis
  proof cases
    case whole
    then have "\<not> sz < mr_size g" by (simp add: fin_def)
    then have "remove_reserved_slice buf n a sz = remove_slot buf n (length as)"
      using search [OF lt] whole get range by (simp add: remove_reserved_slice_def)
    then show ?thesis using remove_slot_refines [OF buf] whole by (simp add: carve_at_def)
  next
    case front
    then have "sz < mr_size g" "mr_size g - sz = fin g - (a + sz)" by (simp_all add: fin_def)
    then show ?thesis
      using search [OF lt] front get range lim setg n by (simp add: remove_reserved_slice_def carve_at_def)
  next
    case rear
    then show ?thesis
      using search [OF lt] get range lim setg n
      by (simp add: remove_reserved_slice_def carve_at_def exec_simps Let_def resized)
  next
    case middle
    let ?g = "g\<lparr>mr_size := a - address g\<rparr>" and ?t = "\<lparr>address = a + sz, mr_size = fin g - (a + sz)\<rparr>"
    obtain buf' where c: "copy_within (buf[length as := ?g]) (Suc (length as)) n (Suc (Suc (length as))) = Some buf'"
      "length buf' = length buf" "holds (buf'[Suc (length as) := ?t]) (Suc n) (as @ ?g # ?t # bs)"
      using insert_after [OF buf room(1)] by blast
    have "slice_set buf' (Suc (length as)) ?t = Some (buf'[Suc (length as) := ?t])"
      using c(2) room n by (simp add: slice_set_def)
    then have "remove_reserved_slice buf n a sz = Some (buf'[Suc (length as) := ?t], Suc n)"
      using search [OF lt] middle get range lim setg c(1) room
      by (simp add: remove_reserved_slice_def exec_simps Let_def)
    moreover have "as @ carve_at g a (a + sz) @ bs = as @ ?g # ?t # bs"
      using middle by (simp add: carve_at_def)
    ultimately show ?thesis using c n by simp
  qed
qed

lemma remove_reserved_alloc_record_ok:
  assumes mb: "block_ok mb" and ne: "nonempty (reserved_list mb)" and sep: "separated (reserved_list mb)"
    and room: "reserved_region_size mb < reserved_region_capacity mb"
    and sz: "0 < sz" and sub: "{a..<a + sz} \<subseteq> cover (reserved_list mb)"
  shows "\<exists>mb'. remove_reserved_alloc_record mb a sz = Some mb' \<and> block_ok mb' \<and> free_list mb' = free_list mb
     \<and> nonempty (reserved_list mb') \<and> separated (reserved_list mb')
     \<and> cover (reserved_list mb') = cover (reserved_list mb) - {a..<a + sz}
     \<and> mb' = mb\<lparr>reserved_regions := reserved_regions mb', reserved_region_size := reserved_region_size mb'\<rparr>
     \<and> reserved_region_size mb' \<le> Suc (reserved_region_size mb)"
proof -
  have "a < a + sz" using sz by simp
  then obtain as g bs where rs: "reserved_list mb = as @ g # bs" and g: "address g \<le> a" "a + sz \<le> fin g"
    by (rule covered_interval_inside [OF sep sub])
  define ys where "ys = as @ carve_at g a (a + sz) @ bs"
  have b: "buffer_ok (reserved_regions mb) (reserved_region_size mb) (reserved_region_capacity mb)"
    using mb by (simp add: block_ok_def)
  have l: "reserved_region_size mb < length (deref (reserved_regions mb))" "reserved_region_size mb + 1 < u32_limit"
    using b room by (auto simp: buffer_ok_def)
  have h0: "holds (deref (reserved_regions mb)) (reserved_region_size mb) (as @ g # bs)"
    and ok: "regions_ok (as @ g # bs)"
    using block_okD(2,4) [OF mb] rs by simp_all
  obtain buf' where run: "remove_reserved_slice (deref (reserved_regions mb)) (reserved_region_size mb) a sz
       = Some (buf', length ys)" and h: "holds buf' (length ys) ys" "length buf' = length (deref (reserved_regions mb))"
    using remove_reserved_slice_refines [OF h0 l ok sz g] unfolding ys_def by blast
  have y: "regions_ok ys" "cover ys = cover (reserved_list mb) - {a..<a + sz}" "nonempty ys" "separated ys"
    using carve_at_ok [OF ok g(1) _ g(2)] carve_cover [OF ok g(1) _ g(2)] carve_at_cover(2) [OF g(1) _ g(2)]
      carve_at_separated [of as g bs a "a + sz"] sz g ne sep rs by (simp_all add: ys_def)
  have ly: "length ys \<le> Suc (reserved_region_size mb)" using h0 by (simp add: ys_def carve_at_def holds_def)
  let ?mb = "mb\<lparr>reserved_regions := deref_mut (reserved_regions mb) buf', reserved_region_size := length ys\<rparr>"
  have eq: "remove_reserved_alloc_record mb a sz = Some ?mb"
    using run sz by (simp add: remove_reserved_alloc_record_def)
  have "buffer_ok (deref_mut (reserved_regions mb) buf') (length ys) (reserved_region_capacity mb)"
    using buffer_okI [OF h(1) y(1)] b h(2) ly room by (simp add: buffer_ok_def)
  then have "block_ok ?mb" using mb by (simp add: block_ok_def)
  moreover have "reserved_list ?mb = ys" using h by (simp add: reserved_list_def holds_def)
  moreover have "free_list ?mb = free_list mb" by (simp add: free_list_def)
  ultimately show ?thesis using eq y ly by (intro exI [of _ ?mb]) simp
qed

section \<open>The public operations\<close>

lemma roomy_after:
  assumes "tables_ok mb'" and "roomy mb" and "region_capacity mb' = region_capacity mb"
    and "reserved_region_capacity mb' = reserved_region_capacity mb"
    and "region_size mb' \<le> Suc (region_size mb)" and "reserved_region_size mb' \<le> Suc (reserved_region_size mb)"
  shows "alloc_ok mb'"
  using assms by (simp add: alloc_ok_tables roomy_def)

lemma allocate_region_ok:
  assumes mb: "alloc_ok mb" and l: "0 < layout_align l" "0 < layout_size l"
    and run: "allocate_region raw mb l = Some (out, mb')"
  shows "alloc_ok mb' \<and> (\<exists>I mb1. moved mb I mb1 \<and> (headroom mb \<longrightarrow> I = {} \<and> mb1 = mb)
     \<and> (case out of
         None \<Rightarrow> mb' = mb1 \<and> (\<forall>g \<in> set (free_list mb1). \<not> fits (layout_size l) (layout_align l) g)
       | Some a \<Rightarrow> layout_align l dvd a \<and> a + layout_size l < usize_limit \<and> moved mb1 {a..<a + layout_size l} mb'))"
proof -
  obtain mb1 where e: "ensure_overflow_headroom raw mb = Some mb1"
    and i: "allocate_region_internal mb1 (layout_size l) (layout_align l) = Some (out, mb')"
    using run mb by (auto simp: allocate_region_def alloc_ok_def Option.bind_eq_Some_conv)
  obtain I where I: "alloc_ok mb1" "roomy mb1" "moved mb I mb1" "headroom mb \<longrightarrow> I = {}"
    using ensure_overflow_headroom_ok [OF mb e] by blast
  have same: "headroom mb \<longrightarrow> mb1 = mb" using ensure_overflow_headroom_id [OF mb] e by auto
  note s = allocate_region_internal_sound [OF I(1) l i]
  show ?thesis
  proof (cases out)
    case None
    then show ?thesis using s I same by auto
  next
    case (Some a)
    then have t: "tables_ok mb'" "allocated mb1 (layout_align l) a (layout_size l) mb'" using s by simp_all
    then have "alloc_ok mb'" using roomy_after [OF t(1) I(2)] by (simp add: allocated_def)
    moreover have "moved mb1 {a..<a + layout_size l} mb'" using allocated_moved [OF t(2)] .
    ultimately show ?thesis using I same Some t(2) by (auto simp: allocated_def)
  qed
qed

lemma deallocate_region_ok:
  assumes mb: "alloc_ok mb" and sz: "0 < layout_size l" "p + layout_size l < usize_limit"
    and sub: "{p..<p + layout_size l} \<subseteq> cover (reserved_list mb)"
    and e: "ensure_overflow_headroom raw mb = Some mb1"
  shows "\<exists>mb'. deallocate_region raw mb p l = Some mb' \<and> alloc_ok mb' \<and> alloc_ok mb1
     \<and> cover (reserved_list mb') = cover (reserved_list mb1) - {p..<p + layout_size l}
     \<and> cover (free_list mb') = cover (free_list mb1) \<union> {p..<p + layout_size l}"
proof -
  let ?I = "{p..<p + layout_size l}"
  obtain I where mb1: "alloc_ok mb1" "roomy mb1" "moved mb I mb1"
    using ensure_overflow_headroom_ok [OF mb e] by blast
  have sub1: "?I \<subseteq> cover (reserved_list mb1)" using sub mb1(3) by (auto simp: moved_def)
  have t1: "block_ok mb1" "nonempty (reserved_list mb1)" "separated (reserved_list mb1)"
    "reserved_region_size mb1 < reserved_region_capacity mb1"
    using mb1(1) by (simp_all add: alloc_ok_def)
  obtain mb2 where r: "remove_reserved_alloc_record mb1 p (layout_size l) = Some mb2" "block_ok mb2"
    "free_list mb2 = free_list mb1" "nonempty (reserved_list mb2)" "separated (reserved_list mb2)"
    "cover (reserved_list mb2) = cover (reserved_list mb1) - ?I"
    "mb2 = mb1\<lparr>reserved_regions := reserved_regions mb2, reserved_region_size := reserved_region_size mb2\<rparr>"
    "reserved_region_size mb2 \<le> Suc (reserved_region_size mb1)"
    using remove_reserved_alloc_record_ok [OF t1 sz(1) sub1] by auto
  have f2: "allocatable mb2" "region_size mb2 = region_size mb1" "region_capacity mb2 = region_capacity mb1"
    "reserved_region_capacity mb2 = reserved_region_capacity mb1"
    using mb1(1) by (subst r(7), simp add: alloc_ok_def)+
  have t2: "nonempty (free_list mb2)" "region_size mb2 < region_capacity mb2" "cover (free_list mb2) \<inter> ?I = {}"
    using mb1(1) r(3) f2 sub1 by (auto simp: alloc_ok_def)
  obtain mb3 where a: "add_free_region_merge mb2 p (layout_size l) = Some mb3" "block_ok mb3"
    "reserved_list mb3 = reserved_list mb2" "nonempty (free_list mb3)"
    "cover (free_list mb3) = cover (free_list mb2) \<union> ?I"
    "mb3 = mb2\<lparr>regions := regions mb3, region_size := region_size mb3\<rparr>"
    "region_size mb3 \<le> Suc (region_size mb2)"
    using add_free_region_merge_ok [OF r(2) t2(1,2) sz t2(3)] by auto
  have f3: "allocatable mb3" "region_capacity mb3 = region_capacity mb1"
    "reserved_region_capacity mb3 = reserved_region_capacity mb1" "reserved_region_size mb3 = reserved_region_size mb2"
    using f2 by (subst a(6), simp)+
  have "cover (free_list mb3) \<inter> cover (reserved_list mb3) = {}"
    using mb1(1) r(3,6) a(3,5) by (auto simp: alloc_ok_def)
  then have "tables_ok mb3" using mb1(1) r a f3 by (simp add: tables_ok_def alloc_ok_def)
  then have "alloc_ok mb3"
    using mb1(2) f2 f3 r(8) a(7) by (intro roomy_after) simp_all
  moreover have "deallocate_region raw mb p l = Some mb3"
    using mb sz e r(1) a(1) by (simp add: deallocate_region_def alloc_ok_def)
  ultimately show ?thesis using mb1(1) r(3,6) a(3,5) by auto
qed

end
