(* ===== verification/Range_List_Dyn.thy ===== *)
theory Range_List_Dyn
  imports Range_List_Dealloc
begin

text \<open>
  Dynamic reservations of the range list allocator (\<open>add_reserved_region_dynamic\<close>): what is
  reserved is free, aligned, in the range asked for and apart from everything reserved before.
\<close>

section \<open>The neighbours of a candidate\<close>

lemma split_disjoint:
  assumes "\<forall>x \<in> set as. fin x \<le> s" and "\<forall>x \<in> set bs. e \<le> address x"
  shows "cover (as @ bs) \<inter> {s..<e} = {}"
proof -
  have "span x \<inter> {s..<e} = {}" if "x \<in> set (as @ bs)" for x
    using assms that by (force simp: span_def)
  then show ?thesis by (auto simp: cover_def)
qed

lemma reserved_around_disjoint:
  assumes ok: "regions_ok rsv" and ne: "nonempty rsv"
    and run: "reserved_around rsv s = Some (p, q)" and apart: "p \<le> s" "e \<le> q"
  shows "cover rsv \<inter> {s..<e} = {}"
proof (rule binary_search_split [OF regions_ok_sorted [OF ok], of s])
  fix as x bs
  assume "rsv = as @ x # bs" "address x = s" "binary_search_by_key rsv s address = Inr (length as)"
  then have "fin x \<le> s" "address x = s" "s < fin x"
    using run apart ne by (auto simp: reserved_around_def slice_get_def region_end_Some_iff Option.bind_eq_Some_conv)
  then show ?thesis by simp
next
  fix as bs
  assume s: "rsv = as @ bs" "binary_search_by_key rsv s address = Inl (length as)"
    "\<forall>a \<in> set as. address a < s" "\<forall>b \<in> set bs. s < address b"
  have lo: "\<forall>x \<in> set as. fin x \<le> s"
  proof (cases as rule: rev_cases)
    case (snoc as' a)
    then have "fin a \<le> s"
      using run s(1,2) apart by (auto simp: reserved_around_def slice_get_def region_end_Some_iff nth_append
          Option.bind_eq_Some_conv split: if_splits)
    moreover have "\<forall>x \<in> set as'. fin x \<le> address a"
      using ok s(1) snoc by (simp add: regions_ok_simps before_def)
    ultimately show ?thesis using snoc address_le_fin [of a]
      by (metis (no_types) Un_iff empty_iff empty_set insertE list.simps(15) order.trans set_append)
  qed simp
  have hi: "\<forall>x \<in> set bs. e \<le> address x"
  proof (cases bs)
    case (Cons b bs')
    then have "e \<le> address b"
      using run s(1,2) apart by (auto simp: reserved_around_def nth_append Option.bind_eq_Some_conv split: if_splits)
    moreover have "\<forall>x \<in> set bs'. address b \<le> address x"
      using ok s(1) Cons by (auto simp: regions_ok_simps before_def)
    ultimately show ?thesis using Cons by fastforce
  qed simp
  show ?thesis using split_disjoint [OF lo hi] s(1) by simp
qed

section \<open>The search\<close>

definition in_range :: "(usize \<times> usize) option \<Rightarrow> nat \<Rightarrow> nat \<Rightarrow> bool" where
  "in_range rng s e = (case rng of None \<Rightarrow> True | Some (a, n) \<Rightarrow> a \<le> s \<and> e \<le> a + n)"

lemma dyn_candidate_sound:
  assumes "dyn_candidate sz al rng a e = Some (Found s)" and "0 < al"
  shows "a \<le> s" and "al dvd s" and "in_range rng s (s + sz)"
proof -
  show "a \<le> s" using assms(1) by (rule dyn_candidate_ge)
  have m: "\<And>x. al dvd align_up x al" using align_up_dvd [OF assms(2)] .
  have ge: "\<And>x y. y \<le> align_up (max x y) al" using align_up_ge max.bounded_iff by blast
  show "al dvd s" and "in_range rng s (s + sz)"
    using assms(1) m ge
    by (auto simp: dyn_candidate_def in_range_def next_multiple_of_Some_iff Option.bind_eq_Some_conv uadd_Some_iff
        split: option.splits if_splits)
qed

lemma dyn_search_sound:
  assumes "dyn_search rsv sz al rng a e = Some (Found s)" and "0 < al"
    and "regions_ok rsv" and "nonempty rsv"
  shows "a \<le> s \<and> s + sz \<le> e \<and> al dvd s \<and> in_range rng s (s + sz) \<and> cover rsv \<inter> {s..<s + sz} = {}
     \<and> s + sz < usize_limit"
  using assms
proof (induction rsv sz al rng a e rule: dyn_search.induct)
  case (1 rsv sz al rng a e)
  from "1.prems"(1) obtain t c p q where t: "dyn_candidate sz al rng a e = Some (Found t)"
      "uadd t sz = Some c" "\<not> e < c" "reserved_around rsv t = Some (p, q)"
    and rest: "(if t < p \<or> q < c then
         (if min e q \<le> max a p then Some NextRegion
          else dyn_search rsv sz al rng (max a p) (min e q))
       else Some (Found t)) = Some (Found s)"
    by (subst (asm) dyn_search.simps)
      (auto simp: Let_def split: option.splits dyn_outcome.splits if_splits prod.splits)
  show ?case
  proof (cases "t < p \<or> q < c")
    case False
    with rest t have s: "t = s" "c = s + sz" "c < usize_limit" by (auto simp: uadd_Some_iff)
    then show ?thesis
      using t False dyn_candidate_sound [OF t(1) "1.prems"(2)]
        reserved_around_disjoint [OF "1.prems"(3,4) t(4), of c] by auto
  next
    case True
    then have "dyn_search rsv sz al rng (max a p) (min e q) = Some (Found s)" "\<not> min e q \<le> max a p"
      using rest by (auto split: if_splits)
    then have "max a p \<le> s \<and> s + sz \<le> min e q \<and> al dvd s \<and> in_range rng s (s + sz)
        \<and> cover rsv \<inter> {s..<s + sz} = {} \<and> s + sz < usize_limit"
      using "1.IH" [OF t(1) refl t(2,3,4) refl True refl refl] "1.prems"(2-4) by blast
    then show ?thesis by simp
  qed
qed

lemma dyn_regions_sound:
  assumes "dyn_regions rsv sz al rng gs = Some (Some s)" and "0 < al" and "regions_ok rsv" and "nonempty rsv"
  shows "\<exists>g \<in> set gs. address g \<le> s \<and> s + sz \<le> fin g \<and> al dvd s \<and> in_range rng s (s + sz)
     \<and> cover rsv \<inter> {s..<s + sz} = {} \<and> s + sz < usize_limit"
  using assms(1)
proof (induction gs)
  case (Cons g gs)
  from Cons.prems obtain out where "region_end g = Some (fin g)"
    and out: "dyn_search rsv sz al rng (address g) (fin g) = Some out"
    and rest: "(case out of NextRegion \<Rightarrow> dyn_regions rsv sz al rng gs
        | ReturnNone \<Rightarrow> Some None | Found s \<Rightarrow> Some (Some s)) = Some (Some s)"
    by (auto simp: Option.bind_eq_Some_conv region_end_Some_iff)
  then show ?case
    using Cons.IH dyn_search_sound [OF _ assms(2-4), of sz rng "address g" "fin g" s]
    by (cases out) auto
qed simp

lemma add_region_slice_full:
  assumes "add_region_slice rs n cap r = Some (Inr (), rs', n')"
  shows "n < cap"
  using assms by (auto simp: add_region_slice_def u32_add_def split: if_splits)

lemma add_region_internal_full:
  assumes "add_region_internal mb True r = Some (Inr (), mb')"
  shows "reserved_region_size mb < reserved_region_capacity mb"
  using assms by (auto simp: add_region_internal_def Option.bind_eq_Some_conv dest: add_region_slice_full)

lemma disjoint_reaches_one:
  assumes "nonempty xs" and "cover xs \<inter> span r = {}"
  shows "reaches_one xs r"
proof -
  have "\<not> (address r < address q \<and> address q < fin r)" if "q \<in> set xs" for q
    using assms that by (force simp: nonempty_def cover_def span_def)
  then have "filter (\<lambda>q. address r < address q \<and> address q < fin r) xs = []" by (auto simp: filter_empty_conv)
  then show ?thesis unfolding reaches_one_def by simp
qed


lemma add_reserved_region_dynamic_ok:
  assumes mb: "block_ok mb" and ne: "nonempty (reserved_list mb)"
    and run: "add_reserved_region_dynamic mb sz al rng = Some (Inr (Some s), mb')"
  shows "block_ok mb' \<and> nonempty (reserved_list mb') \<and> \<not> allocatable mb'
     \<and> {s..<s + sz} \<subseteq> cover (free_list mb) \<and> cover (reserved_list mb) \<inter> {s..<s + sz} = {}
     \<and> (case al of None \<Rightarrow> True | Some a \<Rightarrow> a dvd s \<or> a = 0) \<and> in_range rng s (s + sz)
     \<and> free_list mb' = free_list mb
     \<and> cover (reserved_list mb') = cover (reserved_list mb) \<union> {s..<s + sz}"
proof -
  let ?al = "max (case al of None \<Rightarrow> 1 | Some a \<Rightarrow> a) 1"
  let ?r = "\<lparr>address = s, mr_size = sz\<rparr>"
  have range: "slice_range (deref (regions mb)) 0 (region_size mb) = Some (free_list mb)"
    "slice_range (deref (reserved_regions mb)) 0 (reserved_region_size mb) = Some (reserved_list mb)"
    by (rule slice_range_holds [OF block_okD(1) [OF mb]], rule slice_range_holds [OF block_okD(2) [OF mb]])
  have pos: "0 < sz" "\<not> allocatable mb"
    and found: "dyn_regions (reserved_list mb) sz ?al rng (free_list mb) = Some (Some s)"
    and add: "add_region_internal mb True ?r = Some (Inr (), mb')"
    using run range
    by (auto simp: add_reserved_region_dynamic_def Let_def Option.bind_eq_Some_conv split: if_splits option.splits sum.splits)
  have al_pos: "0 < ?al" by (simp add: less_max_iff_disj)
  obtain g where g: "g \<in> set (free_list mb)" "address g \<le> s" "s + sz \<le> fin g" "?al dvd s" "in_range rng s (s + sz)"
    "cover (reserved_list mb) \<inter> {s..<s + sz} = {}" "s + sz < usize_limit"
    using dyn_regions_sound [OF found al_pos block_okD(4) [OF mb] ne] by blast
  have sp: "span ?r = {s..<s + sz}" by (simp add: span_def)
  have reach: "reaches_one (reserved_list mb) ?r" using disjoint_reaches_one [OF ne] g(6) sp by simp
  have "fin ?r < usize_limit" using g(7) by simp
  from add_reserved_region_ok [OF mb this reach add_region_internal_full [OF add]]
  have "block_ok mb' \<and> cover (reserved_list mb') = cover (reserved_list mb) \<union> {s..<s + sz}
      \<and> free_list mb' = free_list mb \<and> allocatable mb' = allocatable mb \<and> nonempty (reserved_list mb')"
    using add ne pos sp by (auto simp: add_reserved_region_def)
  moreover have "{s..<s + sz} \<subseteq> cover (free_list mb)" using g(1-3) by (force simp: cover_def span_def)
  moreover have "case al of None \<Rightarrow> True | Some a \<Rightarrow> a dvd s \<or> a = 0"
    using g(4) by (cases al) (auto simp: max_def le_Suc_eq split: if_splits)
  ultimately show ?thesis using g(5,6) pos by simp
qed

end
