(* ===== verification/Range_List_Spec.thy ===== *)
theory Range_List_Spec
  imports Range_List_Dyn
begin

text \<open>
  The contract of the range list allocator towards its clients. A locale states what a client may
  rely on, its lemmas follow the blocks a client holds, and the finalised allocator is an
  interpretation. The properties of the component are stated at the end.
\<close>

section \<open>The contract of an allocator of address intervals\<close>

definition block_span :: "usize \<times> Layout \<Rightarrow> nat set" where
  "block_span b = {fst b..<fst b + layout_size (snd b)}"

text \<open>
  The blocks a client holds: what the allocator set aside for each of them (\<open>span_of\<close>, at least the
  block itself) lies inside what it gave away and is disjoint from that of the other blocks.
  \<open>shaped\<close> is what the allocator remembers of a block it handed out, such as its alignment.
\<close>

definition live_ok ::
  "(usize \<times> Layout \<Rightarrow> nat set) \<Rightarrow> (usize \<times> Layout \<Rightarrow> bool) \<Rightarrow> nat set \<Rightarrow> (usize \<times> Layout) list \<Rightarrow> bool" where
  "live_ok span_of shaped owned live \<longleftrightarrow>
     sorted_wrt (\<lambda>b c. span_of b \<inter> span_of c = {}) live
     \<and> (\<forall>b \<in> set live. block_span b \<subseteq> span_of b \<and> span_of b \<subseteq> owned \<and> shaped b
          \<and> layout_align (snd b) dvd fst b \<and> layout_ok (snd b) \<and> 0 < layout_size (snd b))"

lemma live_ok_simps:
  "live_ok sp sh owned []"
  "live_ok sp sh owned (b # live) \<longleftrightarrow> live_ok sp sh owned live \<and> block_span b \<subseteq> sp b \<and> sp b \<subseteq> owned \<and> sh b
     \<and> layout_align (snd b) dvd fst b \<and> layout_ok (snd b) \<and> 0 < layout_size (snd b)
     \<and> (\<forall>c \<in> set live. sp b \<inter> sp c = {})"
  by (auto simp: live_ok_def)

lemma live_ok_mono: "live_ok sp sh owned live \<Longrightarrow> owned \<subseteq> owned' \<Longrightarrow> live_ok sp sh owned' live"
  by (fastforce simp: live_ok_def)

lemma live_ok_span: "live_ok sp sh owned live \<Longrightarrow> b \<in> set live \<Longrightarrow> sp b \<subseteq> owned"
  by (simp add: live_ok_def)

lemma live_ok_remove:
  assumes "live_ok sp sh owned live" and "b \<in> set live"
  shows "live_ok sp sh (owned - sp b) (remove1 b live)"
  using assms
proof (induction live)
  case (Cons c live)
  show ?case
  proof (cases "b = c")
    case True
    have "live_ok sp sh (owned - sp b) live"
      using Cons.prems(1) True unfolding live_ok_def by auto
    then show ?thesis using True by simp
  next
    case False
    then have "live_ok sp sh (owned - sp b) (remove1 b live)" using Cons by (simp add: live_ok_simps)
    moreover have "sp c \<inter> sp b = {}" using Cons.prems False by (auto simp: live_ok_simps)
    moreover have "set (remove1 b live) \<subseteq> set live" by (rule set_remove1_subset)
    ultimately show ?thesis using Cons.prems(1) False by (auto simp: live_ok_simps)
  qed
qed simp

locale interval_allocator =
  fixes inv :: "'s \<Rightarrow> bool"
    and owned :: "'s \<Rightarrow> nat set"
    and span_of :: "usize \<times> Layout \<Rightarrow> nat set"
    and shaped :: "usize \<times> Layout \<Rightarrow> bool"
    and alloc :: "'s \<Rightarrow> Layout \<Rightarrow> (usize option \<times> 's) option"
    and dealloc :: "'s \<Rightarrow> usize \<Rightarrow> Layout \<Rightarrow> 's option"
  assumes alloc_inv: "inv s \<Longrightarrow> layout_ok l \<Longrightarrow> 0 < layout_size l \<Longrightarrow>
        alloc s l = Some (out, s') \<Longrightarrow> inv s' \<and> owned s \<subseteq> owned s'"
    and alloc_block: "inv s \<Longrightarrow> layout_ok l \<Longrightarrow> 0 < layout_size l \<Longrightarrow>
        alloc s l = Some (Some a, s') \<Longrightarrow>
        layout_align l dvd a \<and> block_span (a, l) \<subseteq> span_of (a, l) \<and> shaped (a, l)
        \<and> span_of (a, l) \<inter> owned s = {} \<and> span_of (a, l) \<subseteq> owned s'"
    and dealloc_inv: "inv s \<Longrightarrow> layout_ok l \<Longrightarrow> 0 < layout_size l \<Longrightarrow> shaped (p, l) \<Longrightarrow>
        span_of (p, l) \<subseteq> owned s \<Longrightarrow>
        dealloc s p l = Some s' \<Longrightarrow> inv s' \<and> owned s - span_of (p, l) \<subseteq> owned s'"
begin

lemma alloc_live:
  assumes "inv s" and "live_ok span_of shaped (owned s) live" and "layout_ok l" and "0 < layout_size l"
    and "alloc s l = Some (Some a, s')"
  shows "inv s' \<and> live_ok span_of shaped (owned s') ((a, l) # live)"
proof -
  have "inv s'" "owned s \<subseteq> owned s'" using alloc_inv [OF assms(1,3,4,5)] by auto
  moreover have b: "layout_align l dvd a" "block_span (a, l) \<subseteq> span_of (a, l)" "shaped (a, l)"
      "span_of (a, l) \<inter> owned s = {}" "span_of (a, l) \<subseteq> owned s'"
    using alloc_block [OF assms(1,3,4,5)] by auto
  moreover have "\<forall>c \<in> set live. span_of (a, l) \<inter> span_of c = {}"
    using live_ok_span [OF assms(2)] b(4) by blast
  ultimately show ?thesis using live_ok_mono [OF assms(2)] assms(3,4) by (simp add: live_ok_simps)
qed

lemma alloc_fails_live:
  assumes "inv s" and "live_ok span_of shaped (owned s) live" and "layout_ok l" and "0 < layout_size l"
    and "alloc s l = Some (None, s')"
  shows "inv s' \<and> live_ok span_of shaped (owned s') live"
  using alloc_inv [OF assms(1,3,4,5)] live_ok_mono [OF assms(2)] by blast

lemma dealloc_live:
  assumes "inv s" and "live_ok span_of shaped (owned s) live" and "(p, l) \<in> set live" and "dealloc s p l = Some s'"
  shows "inv s' \<and> live_ok span_of shaped (owned s') (remove1 (p, l) live)"
proof -
  have "0 < layout_size l" "layout_ok l" "shaped (p, l)" using assms(2,3) by (auto simp: live_ok_def)
  then have "inv s'" "owned s - span_of (p, l) \<subseteq> owned s'"
    using dealloc_inv [OF assms(1) _ _ _ live_ok_span [OF assms(2,3)] assms(4)] by auto
  then show ?thesis using live_ok_mono [OF live_ok_remove [OF assms(2,3)]] by blast
qed

end

lemma layout_ok_pos: "layout_ok l \<Longrightarrow> 0 < layout_align l"
  by (auto simp: layout_ok_def)

lemma reserved_limit:
  assumes "alloc_ok mb" and "x \<in> cover (reserved_list mb)"
  shows "x + 1 < usize_limit"
proof -
  obtain g where "g \<in> set (reserved_list mb)" "x < fin g" using assms(2) by (auto simp: cover_def span_def)
  then show ?thesis using alloc_okD(4) [OF assms(1)] by (auto simp: regions_ok_def)
qed

lemma reserved_block_limit:
  assumes "alloc_ok mb" and "0 < layout_size l" and "block_span (p, l) \<subseteq> cover (reserved_list mb)"
  shows "p + layout_size l < usize_limit"
proof -
  have "p + layout_size l - 1 \<in> block_span (p, l)" using assms(2) by (auto simp: block_span_def)
  then show ?thesis using reserved_limit [OF assms(1), of "p + layout_size l - 1"] assms(2,3) by auto
qed

text \<open>The finalised range list allocator, whatever the unwritten memory \<open>raw\<close> holds.\<close>

interpretation rl: interval_allocator alloc_ok "\<lambda>mb. cover (reserved_list mb)" block_span
  "\<lambda>(a, l). layout_align l dvd a" "allocate_region raw" "deallocate_region raw"
proof
  fix mb l out mb'
  assume "alloc_ok mb" "layout_ok l" "0 < layout_size l" "allocate_region raw mb l = Some (out, mb')"
  then have a: "alloc_ok mb" "0 < layout_align l" "0 < layout_size l" "allocate_region raw mb l = Some (out, mb')"
    using layout_ok_pos by auto
  show "alloc_ok mb' \<and> cover (reserved_list mb) \<subseteq> cover (reserved_list mb')"
    using allocate_region_ok [OF a] by (cases out) (auto simp: moved_def)
next
  fix mb l a mb'
  assume "alloc_ok mb" "layout_ok l" "0 < layout_size l" "allocate_region raw mb l = Some (Some a, mb')"
  then have a: "alloc_ok mb" "0 < layout_align l" "0 < layout_size l" "allocate_region raw mb l = Some (Some a, mb')"
    using layout_ok_pos by auto
  show "layout_align l dvd a \<and> block_span (a, l) \<subseteq> block_span (a, l) \<and> (case (a, l) of (a, l) \<Rightarrow> layout_align l dvd a)
      \<and> block_span (a, l) \<inter> cover (reserved_list mb) = {}
      \<and> block_span (a, l) \<subseteq> cover (reserved_list mb')"
    using allocate_region_ok [OF a] alloc_okD(11) [OF a(1)] by (auto simp: moved_def block_span_def)
next
  fix mb l p mb'
  assume a: "alloc_ok mb" "0 < layout_size l" "block_span (p, l) \<subseteq> cover (reserved_list mb)"
    "deallocate_region raw mb p l = Some mb'"
  obtain mb1 where e: "ensure_overflow_headroom raw mb = Some mb1"
    using a(1,2,4) by (auto simp: deallocate_region_def alloc_ok_def Option.bind_eq_Some_conv)
  have "\<exists>I. moved mb I mb1" using ensure_overflow_headroom_ok [OF a(1) e] by blast
  then show "alloc_ok mb' \<and> cover (reserved_list mb) - block_span (p, l) \<subseteq> cover (reserved_list mb')"
    using deallocate_region_ok [OF a(1,2) reserved_block_limit [OF a(1-3)] _ e] a(3,4)
    by (auto simp: block_span_def moved_def)
qed

section \<open>Runs of a client\<close>

text \<open>
  A client of the finalised allocator allocates, fails to allocate, or gives back one of the blocks
  it holds.
\<close>

inductive client_run ::
  "(usize \<Rightarrow> MemoryRegions) \<Rightarrow> MemoryBlock \<Rightarrow> MemoryBlock \<Rightarrow> (usize \<times> Layout) list \<Rightarrow> bool"
  for raw :: "usize \<Rightarrow> MemoryRegions" and mb0 :: MemoryBlock where
  start: "client_run raw mb0 mb0 []"
| alloc: "client_run raw mb0 mb live \<Longrightarrow> layout_ok l \<Longrightarrow> 0 < layout_size l \<Longrightarrow>
     allocate_region raw mb l = Some (Some a, mb') \<Longrightarrow> client_run raw mb0 mb' ((a, l) # live)"
| fail: "client_run raw mb0 mb live \<Longrightarrow> layout_ok l \<Longrightarrow> 0 < layout_size l \<Longrightarrow>
     allocate_region raw mb l = Some (None, mb') \<Longrightarrow> client_run raw mb0 mb' live"
| dealloc: "client_run raw mb0 mb live \<Longrightarrow> (p, l) \<in> set live \<Longrightarrow>
     deallocate_region raw mb p l = Some mb' \<Longrightarrow> client_run raw mb0 mb' (remove1 (p, l) live)"

text \<open>A small finalised allocator the witnesses below run on: two free regions, one reserved.\<close>

definition demo :: MemoryBlock where
  "demo = MemoryBlock_init\<lparr>
     regions := Global ([\<lparr>address = 4100, mr_size = 60\<rparr>, \<lparr>address = 8192, mr_size = 65536\<rparr>] @ replicate 126 zero_region),
     region_size := 2,
     reserved_regions := Global (\<lparr>address = 4160, mr_size = 100\<rparr> # replicate 127 zero_region),
     reserved_region_size := 1, allocatable := True\<rparr>"

lemma demo_simps [simp]:
  "free_list demo = [\<lparr>address = 4100, mr_size = 60\<rparr>, \<lparr>address = 8192, mr_size = 65536\<rparr>]"
  "reserved_list demo = [\<lparr>address = 4160, mr_size = 100\<rparr>]"
  "region_size demo = 2" "reserved_region_size demo = 1"
  "region_capacity demo = 128" "reserved_region_capacity demo = 128" "allocatable demo"
  by (simp_all add: demo_def free_list_def reserved_list_def MemoryBlock_init_def numeral_2_eq_2)

lemma demo_block_ok: "block_ok demo"
proof -
  have "regions_ok (free_list demo)" "regions_ok (reserved_list demo)"
    by (simp_all add: regions_ok_simps before_def usize_limit_def)
  then show ?thesis
    unfolding block_ok_def buffer_ok_def
    by (simp add: free_list_def reserved_list_def) (simp add: demo_def MemoryBlock_init_def u32_limit_def)
qed

lemma demo_ok: "alloc_ok demo"
  using demo_block_ok by (auto simp: alloc_ok_def separated_simps span_def)

lemma demo_headroom: "headroom demo"
  by (simp add: headroom_def)

section \<open>Properties\<close>

text \<open>
  C6. However a client allocates and deallocates, the blocks it holds are pairwise disjoint, aligned
  as asked and inside the reserved addresses, and the allocator keeps its invariant: both tables
  sorted, free and reserved addresses apart, room in the tables.
\<close>

theorem client_blocks_disjoint:
  assumes "client_run raw mb0 mb live" and "alloc_ok mb0"
  shows "alloc_ok mb \<and> live_ok block_span (\<lambda>(a, l). layout_align l dvd a) (cover (reserved_list mb)) live"
  using assms
proof (induction rule: client_run.induct)
  case start
  then show ?case by (simp add: live_ok_simps)
next
  case (alloc mb live l a mb')
  then show ?case using rl.alloc_live by blast
next
  case (fail mb live l mb')
  then show ?case using rl.alloc_fails_live by blast
next
  case (dealloc mb live p l mb')
  then show ?case using rl.dealloc_live by blast
qed

lemma allocate_region_total:
  assumes mb: "alloc_ok mb" and room: "headroom mb" and l: "0 < layout_align l" "0 < layout_size l"
    and wrap: "\<forall>g \<in> set (free_list mb). no_wrap (layout_size l) (layout_align l) g"
  shows "if \<exists>g \<in> set (free_list mb). fits (layout_size l) (layout_align l) g
     then \<exists>a mb'. allocate_region raw mb l = Some (Some a, mb') \<and> alloc_ok mb'
        \<and> layout_align l dvd a \<and> a + layout_size l < usize_limit \<and> moved mb {a..<a + layout_size l} mb'
     else allocate_region raw mb l = Some (None, mb)"
proof -
  have eq: "allocate_region raw mb l = allocate_region_internal mb (layout_size l) (layout_align l)"
    using mb ensure_overflow_headroom_id [OF mb room] by (simp add: allocate_region_def alloc_ok_def)
  note run = allocate_region_internal_total [OF mb l wrap]
  show ?thesis
  proof (cases "\<exists>g \<in> set (free_list mb). fits (layout_size l) (layout_align l) g")
    case True
    then obtain a mb' where "allocate_region raw mb l = Some (Some a, mb')" using run eq by auto
    then show ?thesis using True allocate_region_ok [OF mb l, of raw "Some a" mb'] room by auto
  next
    case False
    then show ?thesis using run eq by simp
  qed
qed

lemma demo_alloc:
  "\<exists>a mb'. allocate_region raw demo \<lparr>layout_size = 64, layout_align = 16\<rparr> = Some (Some a, mb')
     \<and> alloc_ok mb' \<and> moved demo {a..<a + 64} mb'"
  using allocate_region_total [OF demo_ok demo_headroom, of "\<lparr>layout_size = 64, layout_align = 16\<rparr>" raw]
  by (auto simp: no_wrap_def fits_def align_up_def usize_limit_def)

theorem client_blocks_disjoint_witness:
  "\<exists>mb a. client_run (\<lambda>_. zero_region) demo mb [(a, \<lparr>layout_size = 64, layout_align = 16\<rparr>)] \<and> 16 dvd a
     \<and> alloc_ok mb"
proof -
  let ?l = "\<lparr>layout_size = 64, layout_align = 16\<rparr>"
  obtain a mb where "allocate_region (\<lambda>_. zero_region) demo ?l = Some (Some a, mb)" using demo_alloc by blast
  moreover have "layout_ok ?l" by (auto simp: layout_ok_def intro!: exI [of _ 4])
  ultimately have run: "client_run (\<lambda>_. zero_region) demo mb [(a, ?l)]" by (intro alloc [OF start]) simp_all
  show ?thesis using client_blocks_disjoint [OF run demo_ok] run by (auto simp: live_ok_def)
qed

text \<open>
  C16. Allocation on a finalised allocator with headroom in its tables does not panic as long as no
  candidate address wraps around. If some free region has room for the aligned block, a block is
  returned: it is aligned, was free, is reserved afterwards, and nothing else changes. Otherwise
  the answer is \<open>None\<close> and the allocator is unchanged.
\<close>

theorem allocate_region_first_fit:
  assumes "alloc_ok mb" and "headroom mb" and "0 < layout_align l" and "0 < layout_size l"
    and "\<forall>g \<in> set (free_list mb). no_wrap (layout_size l) (layout_align l) g"
  shows "if \<exists>g \<in> set (free_list mb). fits (layout_size l) (layout_align l) g
     then \<exists>a mb'. allocate_region raw mb l = Some (Some a, mb') \<and> alloc_ok mb'
        \<and> layout_align l dvd a \<and> a + layout_size l < usize_limit \<and> moved mb {a..<a + layout_size l} mb'
     else allocate_region raw mb l = Some (None, mb)"
  using assms by (rule allocate_region_total)

theorem allocate_region_first_fit_witness:
  "allocate_region (\<lambda>_. zero_region) demo \<lparr>layout_size = 70000, layout_align = 16\<rparr> = Some (None, demo)
   \<and> (\<exists>a mb'. allocate_region (\<lambda>_. zero_region) demo \<lparr>layout_size = 64, layout_align = 16\<rparr> = Some (Some a, mb'))"
  using allocate_region_first_fit [OF demo_ok demo_headroom, of "\<lparr>layout_size = 70000, layout_align = 16\<rparr>" "\<lambda>_. zero_region"]
    allocate_region_first_fit [OF demo_ok demo_headroom, of "\<lparr>layout_size = 64, layout_align = 16\<rparr>" "\<lambda>_. zero_region"]
  by (auto simp: no_wrap_def fits_def align_up_def usize_limit_def)



text \<open>
  Round trip: deallocating the block that was just allocated restores the free and the reserved
  addresses exactly.
\<close>

lemma allocate_deallocate_roundtrip:
  assumes "alloc_ok mb" and "headroom mb" and "0 < layout_align l" and "0 < layout_size l"
    and "allocate_region raw mb l = Some (Some a, mb')" and "headroom mb'"
  shows "\<exists>mb''. deallocate_region raw mb' a l = Some mb'' \<and> alloc_ok mb''
     \<and> cover (free_list mb'') = cover (free_list mb) \<and> cover (reserved_list mb'') = cover (reserved_list mb)"
proof -
  have a: "alloc_ok mb'" "moved mb {a..<a + layout_size l} mb'" "a + layout_size l < usize_limit"
    using allocate_region_ok [OF assms(1,3,4,5)] assms(2) by auto
  then have sub: "{a..<a + layout_size l} \<subseteq> cover (reserved_list mb')" by (simp add: moved_def)
  show ?thesis
    using deallocate_region_ok [OF a(1) assms(4) a(3) sub ensure_overflow_headroom_id [OF a(1) assms(6)]]
      a(2) alloc_okD(11) [OF assms(1)] by (fastforce simp: moved_def)
qed

lemma demo_alloc_headroom:
  assumes "allocate_region raw demo \<lparr>layout_size = 64, layout_align = 16\<rparr> = Some (Some a, mb')"
  shows "headroom mb'"
proof -
  have "allocate_region raw demo \<lparr>layout_size = 64, layout_align = 16\<rparr> = allocate_region_internal demo 64 16"
    using ensure_overflow_headroom_id [OF demo_ok demo_headroom] by (simp add: allocate_region_def)
  then have "allocated demo 16 a 64 mb'"
    using allocate_region_internal_sound [OF demo_ok, of 16 64 "Some a" mb'] assms by simp
  then show ?thesis by (simp add: allocated_def headroom_def)
qed

lemma allocate_deallocate_roundtrip_example:
  "\<exists>a mb' mb''. allocate_region (\<lambda>_. zero_region) demo \<lparr>layout_size = 64, layout_align = 16\<rparr> = Some (Some a, mb')
     \<and> deallocate_region (\<lambda>_. zero_region) mb' a \<lparr>layout_size = 64, layout_align = 16\<rparr> = Some mb''
     \<and> cover (free_list mb'') = cover (free_list demo)"
proof -
  let ?l = "\<lparr>layout_size = 64, layout_align = 16\<rparr>"
  obtain a mb' where a: "allocate_region (\<lambda>_. zero_region) demo ?l = Some (Some a, mb')" using demo_alloc by blast
  show ?thesis
    using allocate_deallocate_roundtrip [OF demo_ok demo_headroom _ _ a demo_alloc_headroom [OF a]] a by auto
qed

text \<open>
  C15. Finalisation: from tables that the \<open>add\<close> operations built, \<open>check_regions\<close> leaves exactly the
  free addresses that no reservation covers, empties the reserved table and puts the allocator in
  the state the allocation theorems start from.
\<close>

theorem check_regions_finalises:
  assumes "block_ok mb" and "\<not> allocatable mb" and "region_capacity mb = 128"
    and "region_size mb + reserved_region_size mb < 128"
    and "region_size mb \<le> MAX_REGIONS" and "reserved_region_size mb \<le> MAX_REGIONS"
    and "nonempty (free_list mb)" and "nonempty (reserved_list mb)"
    and "\<forall>r \<in> set (reserved_list mb). \<exists>g \<in> set (free_list mb). contained r g"
  shows "\<exists>mb'. check_regions mb = Some (Inr (), mb') \<and> alloc_ok mb' \<and> reserved_list mb' = []
     \<and> cover (free_list mb') = cover (free_list mb) - cover (reserved_list mb)"
proof -
  have room: "region_size mb + reserved_region_size mb \<le> region_capacity mb" using assms(3,4) by simp
  obtain mb' where c: "check_regions mb = Some (Inr (), mb')" "block_ok mb'" "allocatable mb'"
      "cover (free_list mb') = cover (free_list mb) - cover (reserved_list mb)" "reserved_list mb' = []"
      "region_capacity mb' = region_capacity mb" "region_size mb' \<le> region_size mb + reserved_region_size mb"
      "reserved_region_capacity mb' = reserved_region_capacity mb" "nonempty (free_list mb')"
    using check_regions_ok [OF assms(1,2,5,6) room assms(8,9)] assms(7) by auto
  have "reserved_region_size mb' = length (reserved_list mb')"
    using block_okD(2) [OF c(2)] by (simp add: holds_def)
  then have "alloc_ok mb'" using c assms by (simp add: alloc_ok_def block_ok_def)
  then show ?thesis using c by blast
qed

definition demo_boot :: MemoryBlock where
  "demo_boot = demo\<lparr>reserved_regions := Global (\<lparr>address = 8192, mr_size = 100\<rparr> # replicate 127 zero_region),
     allocatable := False\<rparr>"

lemma demo_boot_simps [simp]:
  "free_list demo_boot = free_list demo" "reserved_list demo_boot = [\<lparr>address = 8192, mr_size = 100\<rparr>]"
  "region_size demo_boot = 2" "reserved_region_size demo_boot = 1"
  "region_capacity demo_boot = 128" "reserved_region_capacity demo_boot = 128" "\<not> allocatable demo_boot"
  using demo_simps by (simp_all add: demo_boot_def free_list_def reserved_list_def del: demo_simps)

lemma demo_boot_ok: "block_ok demo_boot"
proof -
  have "regions_ok (reserved_list demo_boot)" by (simp add: regions_ok_simps usize_limit_def)
  then have "buffer_ok (reserved_regions demo_boot) 1 128"
    unfolding buffer_ok_def by (simp add: reserved_list_def) (simp add: demo_boot_def u32_limit_def)
  then show ?thesis using demo_block_ok by (simp add: block_ok_def demo_boot_def)
qed

theorem check_regions_finalises_witness:
  "\<exists>mb'. check_regions demo_boot = Some (Inr (), mb') \<and> cover (free_list mb') = {4100..<4160} \<union> {8292..<73728}"
  using check_regions_finalises [OF demo_boot_ok] by (auto simp: MAX_REGIONS_def contained_def span_def)

text \<open>
  C37. A reserved region that lies in no free region makes \<open>check_regions\<close> fail with an error and
  without a panic; the allocator is not finalised.
\<close>

theorem check_regions_reports_stray_reservation:
  assumes "block_ok mb" and "region_size mb \<le> MAX_REGIONS" and "reserved_region_size mb \<le> MAX_REGIONS"
    and "region_size mb + reserved_region_size mb \<le> region_capacity mb"
    and "r \<in> set (reserved_list mb)" and "\<forall>g \<in> set (free_list mb). \<not> contained r g"
  shows "\<exists>e mb'. check_regions mb = Some (Inl e, mb') \<and> allocatable mb' = allocatable mb"
  using assms by (rule check_regions_rejects)

theorem check_regions_reports_stray_reservation_witness:
  "\<exists>e mb'. check_regions demo = Some (Inl e, mb')"
  using check_regions_reports_stray_reservation [OF demo_block_ok, of "\<lparr>address = 4160, mr_size = 100\<rparr>"]
  by (auto simp: MAX_REGIONS_def contained_def)

text \<open>
  C18. A dynamic reservation that succeeds lies in the free addresses, respects the alignment and the
  range asked for, is disjoint from every earlier reservation, and is recorded as reserved.
\<close>

theorem dynamic_reservation_sound:
  assumes "block_ok mb" and "nonempty (reserved_list mb)"
    and "add_reserved_region_dynamic mb sz al rng = Some (Inr (Some s), mb')"
  shows "block_ok mb' \<and> nonempty (reserved_list mb') \<and> \<not> allocatable mb'
     \<and> {s..<s + sz} \<subseteq> cover (free_list mb) \<and> cover (reserved_list mb) \<inter> {s..<s + sz} = {}
     \<and> (case al of None \<Rightarrow> True | Some a \<Rightarrow> a dvd s \<or> a = 0) \<and> in_range rng s (s + sz)
     \<and> free_list mb' = free_list mb
     \<and> cover (reserved_list mb') = cover (reserved_list mb) \<union> {s..<s + sz}"
  using assms by (rule add_reserved_region_dynamic_ok)

lemma demo_boot_dynamic:
  "\<exists>mb'. add_reserved_region_dynamic demo_boot 4096 (Some 4096) None = Some (Inr (Some 12288), mb')"
proof -
  have r: "slice_range (deref (regions demo_boot)) 0 2 = Some (free_list demo)"
    "slice_range (deref (reserved_regions demo_boot)) 0 1 = Some (reserved_list demo_boot)"
    using slice_range_holds [OF block_okD(1) [OF demo_boot_ok]] slice_range_holds [OF block_okD(2) [OF demo_boot_ok]]
    by simp_all
  have "dyn_regions (reserved_list demo_boot) 4096 4096 None (free_list demo) = Some (Some 12288)"
    by (simp add: region_end_def uadd_def usize_limit_def dyn_search.simps dyn_candidate_def next_multiple_of_def
        reserved_around_def binary_search_by_key_def binary_search_keys_def bsearch_loop.simps slice_get_def
        usize_MAX_def Let_def)
  moreover have "add_region_internal demo_boot True \<lparr>address = 12288, mr_size = 4096\<rparr>
      = add_reserved_region demo_boot \<lparr>address = 12288, mr_size = 4096\<rparr>"
    by (simp add: add_reserved_region_def)
  moreover have "\<exists>mb'. add_reserved_region demo_boot \<lparr>address = 12288, mr_size = 4096\<rparr> = Some (Inr (), mb')"
    using add_reserved_region_ok [OF demo_boot_ok, of "\<lparr>address = 12288, mr_size = 4096\<rparr>"]
    by (auto simp: reaches_one_def usize_limit_def)
  ultimately show ?thesis using r by (auto simp: add_reserved_region_dynamic_def simp del: dyn_regions.simps)
qed

theorem dynamic_reservation_sound_witness:
  "\<exists>mb'. add_reserved_region_dynamic demo_boot 4096 (Some 4096) None = Some (Inr (Some 12288), mb')
     \<and> cover (reserved_list mb') = {8192..<8292} \<union> {12288..<16384}"
proof -
  obtain mb' where r: "add_reserved_region_dynamic demo_boot 4096 (Some 4096) None = Some (Inr (Some 12288), mb')"
    using demo_boot_dynamic by blast
  show ?thesis using dynamic_reservation_sound [OF demo_boot_ok _ r] r by (simp add: span_def)
qed



text \<open>
  Adding a region that spans two later regions breaks the invariant the search relies on: only
  the first of them is merged, and the table then holds two overlapping regions, although the
  comment in \<open>add_region_internal\<close> takes sorted, disjoint regions for granted.
\<close>

lemma add_region_spanning_two_overlaps:
  "\<exists>mb r mb'. block_ok mb \<and> nonempty (free_list mb) \<and> add_region mb r = Some (Inr (), mb')
     \<and> \<not> regions_ok (free_list mb')"
proof -
  let ?r = "\<lparr>address = 4096, mr_size = 65536\<rparr>"
  have "\<exists>mb'. add_region demo ?r = Some (Inr (), mb')
      \<and> free_list mb' = [\<lparr>address = 4096, mr_size = 65536\<rparr>, \<lparr>address = 8192, mr_size = 65536\<rparr>]"
    by (simp add: demo_def MemoryBlock_init_def add_region_def add_region_internal_def add_region_slice_def
        u32_add_def u32_limit_def slice_range_def binary_search_by_key_def binary_search_keys_def
        bsearch_loop.simps Let_def add_and_merge_region_def slice_get_def slice_set_def region_end_def uadd_def
        usub_def usize_limit_def free_list_def)
  moreover have "nonempty (free_list demo)" by simp
  moreover have "\<not> regions_ok [\<lparr>address = 4096, mr_size = 65536\<rparr>, \<lparr>address = 8192, mr_size = 65536\<rparr>]"
    by (simp add: regions_ok_simps before_def)
  ultimately show ?thesis using demo_block_ok by metis
qed

text \<open>
  The dynamic search is incomplete: it gives up on a free region after the first gap between two
  reservations turned out too small, and answers \<open>None\<close> although a later gap has room.
\<close>

lemma dynamic_reservation_gives_up:
  "dyn_regions [\<lparr>address = 10, mr_size = 10\<rparr>, \<lparr>address = 30, mr_size = 10\<rparr>] 50 1 None
       [\<lparr>address = 0, mr_size = 100\<rparr>] = Some None
   \<and> {40..<90} \<subseteq> cover [\<lparr>address = 0, mr_size = 100\<rparr>]
   \<and> cover [\<lparr>address = 10, mr_size = 10\<rparr>, \<lparr>address = 30, mr_size = 10\<rparr>] \<inter> {40..<90} = {}"
  by (auto simp: region_end_def uadd_def usize_limit_def dyn_search.simps dyn_candidate_def next_multiple_of_def
      reserved_around_def binary_search_by_key_def binary_search_keys_def bsearch_loop.simps slice_get_def
      usize_MAX_def Let_def span_def)

end
