(* ===== verification/Allocator.thy ===== *)
theory Allocator
  imports Buddy_Alloc Range_List_Spec
begin

text \<open>
  The global allocator, \<open>src/allocator/src/lib.rs\<close>: requests above \<open>MAX_ALLOCATABLE_BYTES\<close> go to the
  range list allocator, the others to the buddy allocator, which fetches its blocks from the range
  list allocator. The state is what the two spin locks protect; a \<open>OnceCell\<close> is an option. A lock is
  held for the whole of each operation here, so an operation is one step of this state.

  The null pointer that \<open>alloc\<close> returns on failure is the address 0.
\<close>

section \<open>The operations\<close>

record MemoryAllocator =
  range_list_allocator :: "MemoryBlock option"
  buddy_allocator :: "MemoryBlock option BuddyAllocator option"

definition isize_MAX :: usize where
  "isize_MAX = 2 ^ 63 - 1"

definition is_power_of_two :: "usize \<Rightarrow> bool" where
  "is_power_of_two n = (0 < n \<and> power_from 1 n = n)"

text \<open>\<open>Layout::from_size_align(..).ok()\<close>.\<close>

definition from_size_align :: "usize \<Rightarrow> usize \<Rightarrow> Layout option" where
  "from_size_align sz align =
     (if is_power_of_two align \<and> sz + align \<le> isize_MAX + 1
      then Some \<lparr>layout_size = sz, layout_align = align\<rparr> else None)"

definition alloc_for_buddy_allocator ::
  "(usize \<Rightarrow> MemoryRegions) \<Rightarrow> usize \<Rightarrow> MemoryBlock option \<Rightarrow> (usize option \<times> MemoryBlock option) option" where
  "alloc_for_buddy_allocator raw max_bytes cell =
     (case cell of
        Some block \<Rightarrow>
          (case from_size_align max_bytes max_bytes of
             None \<Rightarrow> Some (None, cell)
           | Some layout \<Rightarrow> do {
               (out, block') \<leftarrow> allocate_region raw block layout;
               Some (out, Some block')
             })
      | None \<Rightarrow> Some (None, cell))"

definition allocator_init ::
  "(usize \<Rightarrow> MemoryRegions) \<Rightarrow> usize \<Rightarrow> links \<Rightarrow> MemoryAllocator \<Rightarrow> MemoryAllocator" where
  "allocator_init raw max_bytes m ma =
     (let ma1 = (case range_list_allocator ma of
                   None \<Rightarrow> ma\<lparr>range_list_allocator := Some MemoryBlock_init\<rparr> | Some _ \<Rightarrow> ma)
      in (case buddy_allocator ma1 of
            None \<Rightarrow> ma1\<lparr>buddy_allocator :=
               Some (buddy_new max_bytes m (Some (alloc_for_buddy_allocator raw max_bytes)))\<rparr>
          | Some _ \<Rightarrow> ma1))"

definition global_alloc ::
  "(usize \<Rightarrow> MemoryRegions) \<Rightarrow> usize \<Rightarrow> MemoryAllocator \<Rightarrow> Layout \<Rightarrow> (usize \<times> MemoryAllocator) option" where
  "global_alloc raw max_bytes ma layout =
     (if max_bytes < max (layout_size layout) (layout_align layout) then
        (case range_list_allocator ma of
           None \<Rightarrow> Some (0, ma)
         | Some block \<Rightarrow> do {
             (out, block') \<leftarrow> allocate_region raw block layout;
             Some (case out of None \<Rightarrow> 0 | Some heap_mem \<Rightarrow> heap_mem, ma\<lparr>range_list_allocator := Some block'\<rparr>)
           })
      else
        (case buddy_allocator ma of
           None \<Rightarrow> Some (0, ma)
         | Some b \<Rightarrow> do {
             (res, b', cell) \<leftarrow> buddy_alloc max_bytes b (range_list_allocator ma) layout;
             Some (case res of Inl _ \<Rightarrow> 0 | Inr heap_mem \<Rightarrow> heap_mem,
                   ma\<lparr>range_list_allocator := cell, buddy_allocator := Some b'\<rparr>)
           }))"

definition global_dealloc ::
  "(usize \<Rightarrow> MemoryRegions) \<Rightarrow> usize \<Rightarrow> MemoryAllocator \<Rightarrow> usize \<Rightarrow> Layout \<Rightarrow> MemoryAllocator option" where
  "global_dealloc raw max_bytes ma ptr layout =
     (if max_bytes < max (layout_size layout) (layout_align layout) then
        (case range_list_allocator ma of
           None \<Rightarrow> Some ma
         | Some block \<Rightarrow> do {
             block' \<leftarrow> deallocate_region raw block ptr layout;
             Some (ma\<lparr>range_list_allocator := Some block'\<rparr>)
           })
      else
        (case buddy_allocator ma of
           None \<Rightarrow> Some ma
         | Some b \<Rightarrow> do {
             b' \<leftarrow> buddy_dealloc max_bytes b ptr layout;
             Some (ma\<lparr>buddy_allocator := Some b'\<rparr>)
           }))"

text \<open>The public functions on the range list behind its lock.\<close>

definition global_add_available_region ::
  "MemoryAllocator \<Rightarrow> usize \<Rightarrow> usize \<Rightarrow> ((string + unit) \<times> MemoryAllocator) option" where
  "global_add_available_region ma a sz =
     (case range_list_allocator ma of
        None \<Rightarrow> Some (Inl ''allocator not initialized'', ma)
      | Some block \<Rightarrow>
          if is_finalized block then Some (Inl ''allocator already finalized'', ma)
          else do {
            (res, block') \<leftarrow> add_region block (from_parts a sz);
            Some (res, ma\<lparr>range_list_allocator := Some block'\<rparr>)
          })"

definition global_add_reserved_region ::
  "MemoryAllocator \<Rightarrow> usize \<Rightarrow> usize \<Rightarrow> ((string + unit) \<times> MemoryAllocator) option" where
  "global_add_reserved_region ma a sz =
     (case range_list_allocator ma of
        None \<Rightarrow> Some (Inl ''allocator not initialized'', ma)
      | Some block \<Rightarrow>
          if is_finalized block then Some (Inl ''allocator already finalized'', ma)
          else do {
            (res, block') \<leftarrow> add_reserved_region block (from_parts a sz);
            Some (res, ma\<lparr>range_list_allocator := Some block'\<rparr>)
          })"

definition allocate_dynamic_reserved_region ::
  "MemoryAllocator \<Rightarrow> usize \<Rightarrow> usize option \<Rightarrow> (usize \<times> usize) option
     \<Rightarrow> ((string + usize option) \<times> MemoryAllocator) option" where
  "allocate_dynamic_reserved_region ma sz align alloc_range =
     (case range_list_allocator ma of
        None \<Rightarrow> Some (Inl ''allocator not initialized'', ma)
      | Some block \<Rightarrow> do {
          (res, block') \<leftarrow> add_reserved_region_dynamic block sz align alloc_range;
          Some (res, ma\<lparr>range_list_allocator := Some block'\<rparr>)
        })"

definition finalize :: "MemoryAllocator \<Rightarrow> ((string + unit) \<times> MemoryAllocator) option" where
  "finalize ma =
     (case range_list_allocator ma of
        None \<Rightarrow> Some (Inl ''allocator not initialized'', ma)
      | Some block \<Rightarrow>
          if is_finalized block then Some (Inr (), ma)
          else do {
            (res, block') \<leftarrow> check_regions block;
            Some (res, ma\<lparr>range_list_allocator := Some block'\<rparr>)
          })"

definition global_trim_for_boot ::
  "(usize \<Rightarrow> MemoryRegions) \<Rightarrow> MemoryAllocator \<Rightarrow> usize
     \<Rightarrow> ((string + (usize \<times> usize) list) \<times> MemoryAllocator) option" where
  "global_trim_for_boot raw ma reserve_bytes =
     (case range_list_allocator ma of
        None \<Rightarrow> Some (Inl ''allocator not initialized'', ma)
      | Some block \<Rightarrow>
          if \<not> is_finalized block then Some (Inl ''allocator not finalized'', ma)
          else do {
            (res, block') \<leftarrow> trim_for_boot raw block reserve_bytes;
            Some (res, ma\<lparr>range_list_allocator := Some block'\<rparr>)
          })"

end
