(* ===== verification/Allocator_Proofs.thy ===== *)
theory Allocator_Proofs
  imports Allocator
begin

text \<open>
  The global allocator as a whole: the free blocks of the buddy allocator are reserved in the range
  list, so large and small blocks never meet. The front end is another interpretation of the
  allocator contract of the range list.
\<close>

section \<open>The free addresses of the buddy allocator\<close>

definition buddy_free :: "'h BuddyAllocator \<Rightarrow> nat set" where
  "buddy_free b = (\<Union>i < length (free_heads b).
     \<Union>{block_at i x |x xs. chain (links b) (free_heads b ! i) xs \<and> x \<in> set xs})"

lemma path_unique: "path m h xs \<Longrightarrow> path m h ys \<Longrightarrow> xs = ys"
proof (induction xs arbitrary: h ys)
  case Nil
  then show ?case by (cases ys) auto
next
  case (Cons x xs)
  then show ?case by (cases ys) auto
qed

lemma buddy_free_eq:
  assumes "buddy_rep n b F"
  shows "buddy_free b = free_cover F"
proof -
  have n: "length (free_heads b) = n" and t: "tiling n F" using assms by (simp_all add: buddy_rep_def)
  have lev: "{x |x xs. chain (links b) (free_heads b ! i) xs \<and> x \<in> set xs} = F i" if i: "i < n" for i
  proof -
    obtain xs where "chain (links b) (free_heads b ! i) xs" "set xs = F i"
      using assms i by (auto simp: buddy_rep_def)
    then show ?thesis using path_unique unfolding chain_def by blast
  qed
  have out: "F i = {}" if "\<not> i < n" for i using t that unfolding tiling_def by blast
  have "buddy_free b = (\<Union>i < n. \<Union>x \<in> F i. block_at i x)"
  proof -
    have "\<Union>{block_at i x |x xs. chain (links b) (free_heads b ! i) xs \<and> x \<in> set xs}
        = (\<Union>x \<in> {x |x xs. chain (links b) (free_heads b ! i) xs \<and> x \<in> set xs}. block_at i x)" for i
      by auto
    then show ?thesis using lev by (simp add: buddy_free_def n)
  qed
  also have "\<dots> = free_cover F" unfolding free_cover_def using out by blast
  finally show ?thesis .
qed

section \<open>The invariant\<close>

text \<open>No usable memory at address 0, the address that stands for failure.\<close>

definition heap_rep ::
  "(usize \<Rightarrow> MemoryRegions) \<Rightarrow> usize \<Rightarrow> MemoryAllocator \<Rightarrow> MemoryBlock \<Rightarrow> MemoryBlock option BuddyAllocator
     \<Rightarrow> (nat \<Rightarrow> usize set) \<Rightarrow> bool" where
  "heap_rep raw mx ma mb b F \<longleftrightarrow>
     range_list_allocator ma = Some mb \<and> buddy_allocator ma = Some b
     \<and> alloc_ok mb \<and> 0 \<notin> cover (free_list mb) \<union> cover (reserved_list mb)
     \<and> buddy_rep (LEVELS mx) b F \<and> free_cover F \<subseteq> cover (reserved_list mb)
     \<and> alloc_heap b = Some (alloc_for_buddy_allocator raw mx)"

definition heap_ok :: "(usize \<Rightarrow> MemoryRegions) \<Rightarrow> usize \<Rightarrow> MemoryAllocator \<Rightarrow> bool" where
  "heap_ok raw mx ma \<longleftrightarrow> (\<exists>mb b F. heap_rep raw mx ma mb b F)"

definition heap_owned :: "MemoryAllocator \<Rightarrow> nat set" where
  "heap_owned ma = (case (range_list_allocator ma, buddy_allocator ma) of
     (Some mb, Some b) \<Rightarrow> cover (reserved_list mb) - buddy_free b | _ \<Rightarrow> {})"

lemma heap_owned_eq: "heap_rep raw mx ma mb b F \<Longrightarrow> heap_owned ma = cover (reserved_list mb) - free_cover F"
  using buddy_free_eq [of "LEVELS mx" b F] by (simp add: heap_rep_def heap_owned_def)

text \<open>A block's share: the whole buddy block for a small request.\<close>

definition is_large :: "usize \<Rightarrow> Layout \<Rightarrow> bool" where
  "is_large mx l \<longleftrightarrow> mx < max (layout_size l) (layout_align l)"

definition block_level :: "Layout \<Rightarrow> nat" where
  "block_level l = the (size2level_next_power (required_bytes l))"

definition heap_span :: "usize \<Rightarrow> usize \<times> Layout \<Rightarrow> nat set" where
  "heap_span mx b = (if is_large mx (snd b) then block_span b else block_at (block_level (snd b)) (fst b))"

definition heap_shaped :: "usize \<Rightarrow> usize \<times> Layout \<Rightarrow> bool" where
  "heap_shaped mx b \<longleftrightarrow> is_large mx (snd b) \<or> level2size (block_level (snd b)) dvd fst b"

text \<open>\<open>alloc\<close> with the null pointer read as \<open>None\<close>.\<close>

definition heap_alloc ::
  "(usize \<Rightarrow> MemoryRegions) \<Rightarrow> usize \<Rightarrow> MemoryAllocator \<Rightarrow> Layout \<Rightarrow> (usize option \<times> MemoryAllocator) option" where
  "heap_alloc raw mx ma l = map_option (\<lambda>(p, ma'). (if p = 0 then None else Some p, ma')) (global_alloc raw mx ma l)"

lemma moved_total:
  "moved mb I mb' \<Longrightarrow> cover (free_list mb') \<union> cover (reserved_list mb') = cover (free_list mb) \<union> cover (reserved_list mb)
     \<and> cover (reserved_list mb) \<subseteq> cover (reserved_list mb')"
  by (auto simp: moved_def)

text \<open>What the range list allocator promises about one allocation, in one place.\<close>

lemma allocate_region_effect:
  assumes "alloc_ok mb" and "layout_ok l" and "0 < layout_size l" and "allocate_region raw mb l = Some (out, mb')"
  shows "alloc_ok mb'"
    and "cover (free_list mb') \<union> cover (reserved_list mb') = cover (free_list mb) \<union> cover (reserved_list mb)"
    and "cover (reserved_list mb) \<subseteq> cover (reserved_list mb')"
    and "out = Some a \<Longrightarrow> layout_align l dvd a \<and> a + layout_size l < usize_limit
       \<and> {a..<a + layout_size l} \<subseteq> cover (free_list mb) \<and> {a..<a + layout_size l} \<subseteq> cover (reserved_list mb')"
proof -
  obtain I mb1 where m: "alloc_ok mb'" "moved mb I mb1" "case out of None \<Rightarrow> mb' = mb1
      | Some a \<Rightarrow> layout_align l dvd a \<and> a + layout_size l < usize_limit \<and> moved mb1 {a..<a + layout_size l} mb'"
    using allocate_region_ok [OF assms(1) layout_ok_pos [OF assms(2)] assms(3,4)] by (cases out) auto
  then show "alloc_ok mb'" by simp
  have t: "cover (free_list mb') \<union> cover (reserved_list mb') = cover (free_list mb) \<union> cover (reserved_list mb)
      \<and> cover (reserved_list mb) \<subseteq> cover (reserved_list mb')"
  proof (cases out)
    case None
    then show ?thesis using moved_total [OF m(2)] m(3) by simp
  next
    case (Some a)
    then have "moved mb1 {a..<a + layout_size l} mb'" using m(3) by simp
    from moved_total [OF m(2)] moved_total [OF this] show ?thesis by auto
  qed
  show "cover (free_list mb') \<union> cover (reserved_list mb') = cover (free_list mb) \<union> cover (reserved_list mb)"
    and "cover (reserved_list mb) \<subseteq> cover (reserved_list mb')" using t by auto
  show "out = Some a \<Longrightarrow> layout_align l dvd a \<and> a + layout_size l < usize_limit
       \<and> {a..<a + layout_size l} \<subseteq> cover (free_list mb) \<and> {a..<a + layout_size l} \<subseteq> cover (reserved_list mb')"
    using m(2,3) by (auto simp: moved_def)
qed

section \<open>Large requests\<close>

lemma large_alloc_ok:
  assumes rep: "heap_rep raw mx ma mb b F" and l: "layout_ok l" "0 < layout_size l" "is_large mx l"
    and run: "heap_alloc raw mx ma l = Some (out, ma')"
  shows "heap_ok raw mx ma' \<and> heap_owned ma \<subseteq> heap_owned ma'
     \<and> (\<forall>a. out = Some a \<longrightarrow> layout_align l dvd a \<and> block_span (a, l) \<inter> heap_owned ma = {}
          \<and> block_span (a, l) \<subseteq> heap_owned ma')"
proof -
  have r: "range_list_allocator ma = Some mb" "alloc_ok mb" "0 \<notin> cover (free_list mb) \<union> cover (reserved_list mb)"
    "free_cover F \<subseteq> cover (reserved_list mb)" "buddy_allocator ma = Some b" "buddy_rep (LEVELS mx) b F"
    "alloc_heap b = Some (alloc_for_buddy_allocator raw mx)"
    using rep by (simp_all add: heap_rep_def)
  obtain o1 mb' where a: "allocate_region raw mb l = Some (o1, mb')"
    and ma': "ma' = ma\<lparr>range_list_allocator := Some mb'\<rparr>" and out: "out = Some x \<Longrightarrow> o1 = Some x" for x
    using run l(3) r(1)
    by (auto simp: heap_alloc_def global_alloc_def is_large_def Option.bind_eq_Some_conv split: option.splits if_splits)
  note e = allocate_region_effect [OF r(2) l(1,2) a]
  have rep': "heap_rep raw mx ma' mb' b F"
    using r e by (auto simp: heap_rep_def ma')
  have "layout_align l dvd x \<and> block_span (x, l) \<inter> heap_owned ma = {} \<and> block_span (x, l) \<subseteq> heap_owned ma'"
    if x: "out = Some x" for x
    using e(4) [OF out [OF x]] alloc_okD(11) [OF r(2)] r(4)
    by (auto simp: heap_owned_eq [OF rep] heap_owned_eq [OF rep'] block_span_def)
  then show ?thesis
    using rep' e(3) by (auto simp: heap_ok_def heap_owned_eq [OF rep] heap_owned_eq [OF rep'])
qed

lemma large_dealloc_ok:
  assumes rep: "heap_rep raw mx ma mb b F" and l: "0 < layout_size l" "is_large mx l"
    and sub: "block_span (p, l) \<subseteq> heap_owned ma" and run: "global_dealloc raw mx ma p l = Some ma'"
  shows "heap_ok raw mx ma' \<and> heap_owned ma - block_span (p, l) \<subseteq> heap_owned ma'"
proof -
  have r: "range_list_allocator ma = Some mb" "alloc_ok mb" "0 \<notin> cover (free_list mb) \<union> cover (reserved_list mb)"
    "free_cover F \<subseteq> cover (reserved_list mb)" "buddy_allocator ma = Some b" "buddy_rep (LEVELS mx) b F"
    "alloc_heap b = Some (alloc_for_buddy_allocator raw mx)"
    using rep by (simp_all add: heap_rep_def)
  obtain mb' where d: "deallocate_region raw mb p l = Some mb'"
    and ma': "ma' = ma\<lparr>range_list_allocator := Some mb'\<rparr>"
    using run l(2) r(1) by (auto simp: global_dealloc_def is_large_def Option.bind_eq_Some_conv)
  have s: "block_span (p, l) \<subseteq> cover (reserved_list mb)" "block_span (p, l) \<inter> free_cover F = {}"
    using sub heap_owned_eq [OF rep] by auto
  obtain mb1 where e: "ensure_overflow_headroom raw mb = Some mb1"
    using d r(2) l(1) by (auto simp: deallocate_region_def alloc_ok_def Option.bind_eq_Some_conv)
  obtain I where I: "moved mb I mb1" using ensure_overflow_headroom_ok [OF r(2) e] by blast
  have d': "alloc_ok mb'" "cover (reserved_list mb') = cover (reserved_list mb1) - block_span (p, l)"
    "cover (free_list mb') = cover (free_list mb1) \<union> block_span (p, l)"
    using deallocate_region_ok [OF r(2) l(1) reserved_block_limit [OF r(2) l(1) s(1)] _ e] s(1) d
    by (auto simp: block_span_def)
  have "heap_rep raw mx ma' mb' b F"
    using r d' s moved_total [OF I] by (auto simp: heap_rep_def ma')
  then show ?thesis
    using d'(2) moved_total [OF I] by (auto simp: heap_ok_def heap_owned_eq [OF rep] heap_owned_eq)
qed

section \<open>Small requests\<close>

definition max_bytes_ok :: "usize \<Rightarrow> bool" where
  "max_bytes_ok mx \<longleftrightarrow> (\<exists>k. mx = 2 ^ k \<and> 3 \<le> k \<and> k \<le> 61)"

lemma pow2_from: "power_from 1 (2 ^ k) = 2 ^ k"
proof -
  obtain j where j: "power_from (2 ^ 0) (2 ^ k) = 2 ^ j" "(2::nat) ^ k \<le> 2 ^ j" "0 < j \<longrightarrow> (2::nat) ^ (j - 1) < 2 ^ k"
    using power_from_pow2 [of 0 "2 ^ k"] by auto
  have "k \<le> j" using j(2) by (simp add: power_increasing_iff)
  moreover have "j \<le> k"
  proof (cases "j = 0")
    case False
    then have "j - 1 < k" using j(3) power_less_imp_less_exp [of 2 "j - 1" k] by simp
    then show ?thesis by simp
  qed simp
  ultimately show ?thesis using j(1) by simp
qed

lemma from_size_align_max:
  "max_bytes_ok mx \<Longrightarrow> from_size_align mx mx = Some \<lparr>layout_size = mx, layout_align = mx\<rparr>"
proof -
  assume "max_bytes_ok mx"
  then obtain k where k: "mx = 2 ^ k" "k \<le> 61" by (auto simp: max_bytes_ok_def)
  then have "(2::nat) ^ k \<le> 2 ^ 61" by (intro power_increasing) simp_all
  then show ?thesis using k pow2_from [of k] by (simp add: from_size_align_def is_power_of_two_def isize_MAX_def)
qed

lemma refill_effect:
  assumes mx: "max_bytes_ok mx" and mb: "alloc_ok mb" "0 \<notin> cover (free_list mb) \<union> cover (reserved_list mb)"
    and sub: "U \<subseteq> cover (reserved_list mb)"
    and run: "alloc_for_buddy_allocator raw mx (Some mb) = Some (out, cell)"
  shows "\<exists>mb'. cell = Some mb' \<and> alloc_ok mb' \<and> 0 \<notin> cover (free_list mb') \<union> cover (reserved_list mb')
     \<and> cover (reserved_list mb) \<subseteq> cover (reserved_list mb')
     \<and> (\<forall>n. out = Some n \<longrightarrow> refill_ok mx U n \<and> {n..<n + mx} \<inter> cover (reserved_list mb) = {}
          \<and> {n..<n + mx} \<subseteq> cover (reserved_list mb'))"
proof -
  let ?l = "\<lparr>layout_size = mx, layout_align = mx\<rparr>"
  obtain mb' where a: "allocate_region raw mb ?l = Some (out, mb')" and cell: "cell = Some mb'"
    using run from_size_align_max [OF mx] by (auto simp: alloc_for_buddy_allocator_def Option.bind_eq_Some_conv)
  have l: "layout_ok ?l" "0 < layout_size ?l" using mx by (auto simp: layout_ok_def max_bytes_ok_def)
  note e = allocate_region_effect [OF mb(1) l a]
  have "refill_ok mx U n \<and> {n..<n + mx} \<inter> cover (reserved_list mb) = {} \<and> {n..<n + mx} \<subseteq> cover (reserved_list mb')"
    if n: "out = Some n" for n
  proof -
    have "0 < mx" using l(2) by simp
    then have "n \<in> {n..<n + mx}" by simp
    then have "n \<in> cover (free_list mb)" using e(4) [OF n] by auto
    then have "0 < n" using mb(2) by (cases "n = 0") auto
    then show ?thesis using e(4) [OF n] alloc_okD(11) [OF mb(1)] sub by (auto simp: refill_ok_def)
  qed
  then show ?thesis using cell e mb(2) by auto
qed

lemma small_required: "max_bytes_ok mx \<Longrightarrow> \<not> is_large mx l \<Longrightarrow> required_bytes l \<le> mx"
proof -
  assume "max_bytes_ok mx" and small: "\<not> is_large mx l"
  then obtain k where k: "mx = 2 ^ k" "3 \<le> k" by (auto simp: max_bytes_ok_def)
  then have "(2::nat) ^ 3 \<le> 2 ^ k" by (intro power_increasing) simp_all
  then show ?thesis using small k(1) by (simp add: required_bytes_def is_large_def MINIMUM_ALLOCATABLE_BYTES_def not_less)
qed

lemma small_alloc_ok:
  assumes mx: "max_bytes_ok mx" and rep: "heap_rep raw mx ma mb b F"
    and l: "layout_ok l" "0 < layout_size l" "\<not> is_large mx l"
    and run: "heap_alloc raw mx ma l = Some (out, ma')"
  shows "heap_ok raw mx ma' \<and> heap_owned ma \<subseteq> heap_owned ma'
     \<and> (\<forall>a. out = Some a \<longrightarrow> layout_align l dvd a \<and> block_span (a, l) \<subseteq> heap_span mx (a, l)
          \<and> level2size (block_level l) dvd a
          \<and> heap_span mx (a, l) \<inter> heap_owned ma = {} \<and> heap_span mx (a, l) \<subseteq> heap_owned ma')"
proof -
  obtain k where k: "mx = 2 ^ k" "3 \<le> k" "k \<le> 63" using mx by (auto simp: max_bytes_ok_def)
  have r: "range_list_allocator ma = Some mb" "alloc_ok mb" "0 \<notin> cover (free_list mb) \<union> cover (reserved_list mb)"
    "free_cover F \<subseteq> cover (reserved_list mb)" "buddy_allocator ma = Some b" "buddy_rep (LEVELS mx) b F"
    "alloc_heap b = Some (alloc_for_buddy_allocator raw mx)"
    using rep by (simp_all add: heap_rep_def)
  obtain res b' cell where a: "buddy_alloc mx b (Some mb) l = Some (res, b', cell)"
    and ma': "ma' = ma\<lparr>range_list_allocator := cell, buddy_allocator := Some b'\<rparr>"
    and o: "(case res of Inl _ \<Rightarrow> 0 | Inr heap_mem \<Rightarrow> heap_mem) = (case out of None \<Rightarrow> 0 | Some x \<Rightarrow> x)" "out \<noteq> Some 0"
    using run l(3) r(1,5)
    by (auto simp: heap_alloc_def global_alloc_def is_large_def Option.bind_eq_Some_conv split: if_splits)
  have out: "res = Inr x" if "out = Some x" for x using o that by (cases res) auto
  note refill = refill_effect [OF mx r(2,3,4), of raw]
  have heap: "\<forall>new h1. alloc_for_buddy_allocator raw mx (Some mb) = Some (Some new, h1) \<longrightarrow> refill_ok mx (free_cover F) new"
    using refill by blast
  obtain level F' new where b: "buddy_rep (LEVELS mx) b' F'" "alloc_heap b' = alloc_heap b"
    "(cell = Some mb \<and> new = {}) \<or> (alloc_for_buddy_allocator raw mx (Some mb) = Some (None, cell) \<and> new = {})
       \<or> (\<exists>n. alloc_for_buddy_allocator raw mx (Some mb) = Some (Some n, cell) \<and> new = {n..<n + mx})"
    "case res of Inl e \<Rightarrow> free_cover F' = free_cover F
       | Inr p \<Rightarrow> size2level_next_power (required_bytes l) = Some level
           \<and> layout_align l dvd p \<and> layout_size l \<le> level2size level
           \<and> 0 < p \<and> level2size level dvd p \<and> p + level2size level < usize_limit
           \<and> block_at level p \<subseteq> free_cover F \<union> new
           \<and> free_cover F' = (free_cover F \<union> new) - block_at level p"
  proof -
    have ne: "buddy_alloc mx b (Some mb) l \<noteq> None" using a by simp
    from buddy_alloc_ok [OF k l(1) small_required [OF mx l(3)] r(6) disjI2 [OF ne] r(7) heap]
    obtain level res0 b0 h0 F' new where x: "Some (res, b', cell) = Some (res0, b0, h0)" "buddy_rep (LEVELS mx) b0 F'"
      "alloc_heap b0 = alloc_heap b"
      "(h0 = Some mb \<and> new = {}) \<or> (alloc_for_buddy_allocator raw mx (Some mb) = Some (None, h0) \<and> new = {})
        \<or> (\<exists>n. alloc_for_buddy_allocator raw mx (Some mb) = Some (Some n, h0) \<and> new = {n..<n + mx})"
      "case res0 of
         Inl e \<Rightarrow> alloc_for_buddy_allocator raw mx (Some mb) = Some (None, h0) \<and> free_cover F' = free_cover F
       | Inr p \<Rightarrow> size2level_next_power (required_bytes l) = Some level
           \<and> layout_align l dvd p \<and> layout_size l \<le> level2size level
           \<and> 0 < p \<and> level2size level dvd p \<and> p + level2size level < usize_limit
           \<and> block_at level p \<subseteq> free_cover F \<union> new
           \<and> free_cover F' = (free_cover F \<union> new) - block_at level p"
      unfolding a by (elim exE conjE)
    then show thesis by (intro that [of F' new level]) (simp_all split: sum.splits)
  qed
  obtain mb' where m: "cell = Some mb'" "alloc_ok mb'" "0 \<notin> cover (free_list mb') \<union> cover (reserved_list mb')"
    "cover (reserved_list mb) \<subseteq> cover (reserved_list mb')" "new \<inter> cover (reserved_list mb) = {}"
    "new \<subseteq> cover (reserved_list mb')"
    using b(3) refill r(2,3) by fastforce
  have sub: "free_cover F' \<subseteq> free_cover F \<union> new" using b(4) by (cases res) auto
  have "free_cover F' \<subseteq> cover (reserved_list mb')" using sub r(4) m(4,6) by blast
  then have rep': "heap_rep raw mx ma' mb' b' F'"
    using m r b(1,2) by (simp add: heap_rep_def ma')
  note own = heap_owned_eq [OF rep] heap_owned_eq [OF rep']
  have mono: "heap_owned ma \<subseteq> heap_owned ma'" using own m(4,5) sub by auto
  have "layout_align l dvd x \<and> block_span (x, l) \<subseteq> heap_span mx (x, l) \<and> level2size (block_level l) dvd x
      \<and> heap_span mx (x, l) \<inter> heap_owned ma = {} \<and> heap_span mx (x, l) \<subseteq> heap_owned ma'" if x: "out = Some x" for x
  proof -
    have p: "size2level_next_power (required_bytes l) = Some level" "layout_align l dvd x"
      "layout_size l \<le> level2size level" "level2size level dvd x" "block_at level x \<subseteq> free_cover F \<union> new"
      "free_cover F' = (free_cover F \<union> new) - block_at level x"
      using b(4) out [OF x] by auto
    have sp: "block_level l = level" "heap_span mx (x, l) = block_at level x"
      using p(1) l(3) by (simp_all add: block_level_def heap_span_def)
    moreover have "block_span (x, l) \<subseteq> block_at level x"
      using p(3) by (auto simp: block_span_def block_at_def)
    moreover have "block_at level x \<inter> heap_owned ma = {}" using own(1) p(5) m(5) by blast
    moreover have "block_at level x \<subseteq> heap_owned ma'"
      using own(2) p(5,6) m(4,6) r(4) by blast
    ultimately show ?thesis using p by simp
  qed
  then show ?thesis using rep' mono by (auto simp: heap_ok_def)
qed

lemma small_dealloc_ok:
  assumes mx: "max_bytes_ok mx" and rep: "heap_rep raw mx ma mb b F"
    and l: "layout_ok l" "\<not> is_large mx l" and p: "level2size (block_level l) dvd p"
    and sub: "heap_span mx (p, l) \<subseteq> heap_owned ma" and run: "global_dealloc raw mx ma p l = Some ma'"
  shows "heap_ok raw mx ma' \<and> heap_owned ma - heap_span mx (p, l) \<subseteq> heap_owned ma'"
proof -
  obtain k where k: "mx = 2 ^ k" "3 \<le> k" "k \<le> 63" using mx by (auto simp: max_bytes_ok_def)
  have r: "range_list_allocator ma = Some mb" "alloc_ok mb" "0 \<notin> cover (free_list mb) \<union> cover (reserved_list mb)"
    "free_cover F \<subseteq> cover (reserved_list mb)" "buddy_allocator ma = Some b" "buddy_rep (LEVELS mx) b F"
    "alloc_heap b = Some (alloc_for_buddy_allocator raw mx)"
    using rep by (simp_all add: heap_rep_def)
  obtain b' where d: "buddy_dealloc mx b p l = Some b'" and ma': "ma' = ma\<lparr>buddy_allocator := Some b'\<rparr>"
    using run l(2) r(5) by (auto simp: global_dealloc_def is_large_def Option.bind_eq_Some_conv)
  obtain level where lv: "size2level_next_power (required_bytes l) = Some level"
    by (rule request_level [OF k l(1) small_required [OF mx l(2)]])
  then have bl: "block_level l = level" by (simp add: block_level_def)
  have sp: "heap_span mx (p, l) = block_at level p" using l(2) by (simp add: heap_span_def bl)
  then have own: "block_at level p \<subseteq> cover (reserved_list mb)" "block_at level p \<inter> free_cover F = {}"
    using sub heap_owned_eq [OF rep] by auto
  have "p \<in> cover (reserved_list mb)" using own(1) block_at_self [of p level] by (rule subsetD)
  then have p0: "0 < p" using r(3) by (cases "p = 0") auto
  have "p + level2size level - 1 \<in> block_at level p"
    using level2size_pos [of level] unfolding block_at_def atLeastLessThan_iff by linarith
  then have lim: "p + level2size level < usize_limit"
    using reserved_limit [OF r(2), of "p + level2size level - 1"] own(1) p0 by auto
  obtain d' F' where f: "d' \<le> level" "buddy_rep (LEVELS mx) b' F'" "free_cover F' = free_cover F \<union> block_at d' p"
    "alloc_heap b' = alloc_heap b"
    using buddy_dealloc_ok [OF k l(1) small_required [OF mx l(2)] r(6) lv p0 _ lim own(2)] p bl d
    by (auto split: if_splits)
  have "block_at d' p \<subseteq> block_at level p" by (rule block_at_mono [OF f(1)])
  moreover from this have "free_cover F' \<subseteq> cover (reserved_list mb)" using f(3) r(4) own(1) by blast
  then have "heap_rep raw mx ma' mb b' F'" using r f by (simp add: heap_rep_def ma')
  ultimately show ?thesis
    using f(3) sp by (auto simp: heap_ok_def heap_owned_eq [OF rep] heap_owned_eq)
qed

section \<open>The front end keeps the contract of the range list allocator\<close>

lemma heap_contract:
  assumes mx: "max_bytes_ok mx"
  shows "interval_allocator (heap_ok raw mx) heap_owned (heap_span mx) (heap_shaped mx) (heap_alloc raw mx) (global_dealloc raw mx)"
proof
  fix ma l out ma'
  assume a: "heap_ok raw mx ma" "layout_ok l" "0 < layout_size l" "heap_alloc raw mx ma l = Some (out, ma')"
  then obtain mb b F where rep: "heap_rep raw mx ma mb b F" by (auto simp: heap_ok_def)
  show "heap_ok raw mx ma' \<and> heap_owned ma \<subseteq> heap_owned ma'"
    using large_alloc_ok [OF rep a(2,3) _ a(4)] small_alloc_ok [OF mx rep a(2,3) _ a(4)] by blast
next
  fix ma l a ma'
  assume a: "heap_ok raw mx ma" "layout_ok l" "0 < layout_size l" "heap_alloc raw mx ma l = Some (Some a, ma')"
  then obtain mb b F where rep: "heap_rep raw mx ma mb b F" by (auto simp: heap_ok_def)
  show "layout_align l dvd a \<and> block_span (a, l) \<subseteq> heap_span mx (a, l) \<and> heap_shaped mx (a, l)
      \<and> heap_span mx (a, l) \<inter> heap_owned ma = {} \<and> heap_span mx (a, l) \<subseteq> heap_owned ma'"
    using large_alloc_ok [OF rep a(2,3) _ a(4)] small_alloc_ok [OF mx rep a(2,3) _ a(4)]
    by (cases "is_large mx l") (auto simp: heap_span_def heap_shaped_def)
next
  fix ma l p ma'
  assume a: "heap_ok raw mx ma" "layout_ok l" "0 < layout_size l" "heap_shaped mx (p, l)"
    "heap_span mx (p, l) \<subseteq> heap_owned ma" "global_dealloc raw mx ma p l = Some ma'"
  then obtain mb b F where rep: "heap_rep raw mx ma mb b F" by (auto simp: heap_ok_def)
  show "heap_ok raw mx ma' \<and> heap_owned ma - heap_span mx (p, l) \<subseteq> heap_owned ma'"
  proof (cases "is_large mx l")
    case True
    then show ?thesis using large_dealloc_ok [OF rep a(3) True _ a(6)] a(5) by (simp add: heap_span_def)
  next
    case False
    then show ?thesis using small_dealloc_ok [OF mx rep a(2) False _ a(5,6)] a(4) by (simp add: heap_shaped_def)
  qed
qed

text \<open>The instance of the boot loader: blocks up to 4096 bytes come from the buddy allocator.\<close>

definition GLOBAL_MAX_BYTES :: usize where
  "GLOBAL_MAX_BYTES = 4096"

lemma GLOBAL_MAX_BYTES_ok: "max_bytes_ok GLOBAL_MAX_BYTES"
  unfolding max_bytes_ok_def GLOBAL_MAX_BYTES_def by (rule exI [of _ 12]) simp

interpretation heap: interval_allocator "heap_ok raw GLOBAL_MAX_BYTES" heap_owned "heap_span GLOBAL_MAX_BYTES"
  "heap_shaped GLOBAL_MAX_BYTES" "heap_alloc raw GLOBAL_MAX_BYTES" "global_dealloc raw GLOBAL_MAX_BYTES"
  by (rule heap_contract [OF GLOBAL_MAX_BYTES_ok])

end
