(* ===== verification/Allocator_Spec.thy ===== *)
theory Allocator_Spec
  imports Allocator_Proofs
begin

text \<open>
  Properties of the intrusive list, the buddy allocator and the global allocator.
\<close>

section \<open>The intrusive list\<close>

text \<open>
  C28. On a chain of sorted free blocks \<open>add_with_sort\<close> returns, keeps the chain sorted and adds
  exactly the new block, and \<open>remove_if\<close> of that block then finds it and restores the list.
\<close>

theorem add_with_sort_remove_if_roundtrip:
  assumes "chain m h xs" and "sorted xs" and "p \<notin> set xs" and "p \<noteq> 0"
  shows "\<exists>m1 h1 ys m2 h2. list_add_with_sort m h p = Some (m1, h1) \<and> chain m1 h1 ys \<and> sorted ys
     \<and> set ys = insert p (set xs) \<and> list_remove_if m1 h1 p = Some (True, m2, h2) \<and> chain m2 h2 xs"
proof -
  obtain m1 h1 where a: "list_add_with_sort m h p = Some (m1, h1)" "chain m1 h1 (insort p xs)"
    using list_add_with_sort_ok [OF assms(1,3,4)] by blast
  obtain m2 h2 where r: "list_remove_if m1 h1 p = Some (p \<in> set (insort p xs), m2, h2)"
      "chain m2 h2 (remove1 p (insort p xs))"
    using list_remove_if_ok [OF a(2)] by blast
  have "remove1 p (insort p xs) = xs" using assms(2,3) by (simp add: remove1_insort_key)
  then show ?thesis
    using a r assms(2) by (intro exI [of _ m1] exI [of _ h1] exI [of _ "insort p xs"] exI [of _ m2] exI [of _ h2])
      (simp add: set_insort_key sorted_insort)
qed

theorem add_with_sort_remove_if_roundtrip_witness:
  "\<exists>m1 h1. list_add_with_sort (\<lambda>x. if x = 16 then Some 48 else None) (Some 16) 32 = Some (m1, h1)
     \<and> (\<exists>ys. chain m1 h1 ys \<and> sorted ys \<and> set ys = {16, 32, 48})"
  using add_with_sort_remove_if_roundtrip [of "\<lambda>x. if x = 16 then Some 48 else None" "Some 16" "[16, 48]" 32]
  by (auto simp: chain_def insert_commute)

section \<open>The buddy allocator\<close>


lemma empty_buddy_rep: "buddy_rep (LEVELS mx) (buddy_new mx m f) (\<lambda>_. {})"
  by (auto simp: buddy_rep_def buddy_new_def tiling_def chain_def list_new_def intro!: exI [of _ "[]"])

lemma buddy_rep_allocated [simp]: "buddy_rep n (b\<lparr>allocated_bytes := a\<rparr>) F = buddy_rep n b F"
  by (simp add: buddy_rep_def)

lemma level_8: "size2level_next_power 8 = Some 0" and level_16: "size2level_next_power 16 = Some 1"
proof -
  have "power_from 1 8 = 8" "power_from 1 16 = 16" using pow2_from [of 3] pow2_from [of 4] by simp_all
  moreover have "trailing_zeros 8 = 3" "trailing_zeros 16 = 4"
    using trailing_zeros_pow2 [of 3] trailing_zeros_pow2 [of 4] by simp_all
  ultimately show "size2level_next_power 8 = Some 0" "size2level_next_power 16 = Some 1"
    by (simp_all add: size2level_next_power_def next_power_of_two_def size2level_def usub_def usize_limit_def)
qed


text \<open>
  \<open>dealloc\<close> forgets the alignment: a block allocated for 8 bytes aligned to 16 is a 16-byte block,
  of which \<open>dealloc\<close> returns only the first 8 bytes. The other 8 are lost to the allocator.
\<close>

lemma buddy_dealloc_forgets_alignment:
  assumes "buddy_rep (LEVELS 4096) b F" and "alloc_heap b = Some f"
    and "\<forall>new h1. f h = Some (Some new, h1) \<longrightarrow> refill_ok 4096 (free_cover F) new"
    and "buddy_alloc 4096 b h \<lparr>layout_size = 8, layout_align = 16\<rparr> = Some (Inr p, b1, h1)"
  shows "\<exists>b2. buddy_dealloc 4096 b1 p \<lparr>layout_size = 8, layout_align = 16\<rparr> = Some b2
     \<and> buddy_free b2 = buddy_free b1 \<union> {p..<p + 8} \<and> {p + 8..<p + 16} \<inter> buddy_free b2 = {}"
proof -
  let ?l = "\<lparr>layout_size = 8, layout_align = 16\<rparr>"
  have l: "layout_ok ?l" by (auto simp: layout_ok_def intro!: exI [of _ 4])
  have r: "required_bytes ?l = 16" "required_bytes ?l \<le> 4096"
    by (simp_all add: required_bytes_def MINIMUM_ALLOCATABLE_BYTES_def)
  have mx: "4096 = (2::nat) ^ 12" "3 \<le> (12::nat)" "12 \<le> (63::nat)" by simp_all
  have ne: "buddy_alloc 4096 b h ?l \<noteq> None" using assms(4) by simp
  from buddy_alloc_ok [OF mx l r(2) assms(1) disjI2 [OF ne] assms(2,3)]
  obtain level res b' h' F' new where a: "buddy_alloc 4096 b h ?l = Some (res, b', h')" "buddy_rep (LEVELS 4096) b' F'"
    "case res of
         Inl e \<Rightarrow> f h = Some (None, h') \<and> free_cover F' = free_cover F
       | Inr p \<Rightarrow> size2level_next_power (required_bytes ?l) = Some level
           \<and> layout_align ?l dvd p \<and> layout_size ?l \<le> level2size level
           \<and> 0 < p \<and> level2size level dvd p \<and> p + level2size level < usize_limit
           \<and> block_at level p \<subseteq> free_cover F \<union> new
           \<and> free_cover F' = (free_cover F \<union> new) - block_at level p"
    by (elim exE conjE)
  have s: "b' = b1" "res = Inr p" "level = 1" using a(1,3) assms(4) r(1) level_16 by auto
  have blk: "block_at 1 p = {p..<p + 16}" "block_at 0 p = {p..<p + 8}" by (simp_all add: block_at_def level2size_eq)
  have p: "0 < p" "level2size 1 dvd p" "p + level2size 1 < usize_limit" "block_at 1 p \<inter> free_cover F' = {}"
    using a(3) s by auto
  have np: "next_power_of_two (required_bytes ?l) = Some 16"
    using pow2_from [of 4] r(1) by (simp add: next_power_of_two_def usize_limit_def)
  have acc: "16 \<le> allocated_bytes b1" by (rule buddy_alloc_accounts [OF assms(4) np])
  have lv: "size2level_next_power (required_bytes ?l) = Some 1" using r(1) level_16 by simp
  obtain d where d: "size2level_next_power (max (layout_size ?l) MINIMUM_ALLOCATABLE_BYTES) = Some d"
    "if level2size d \<le> allocated_bytes b1
         then \<exists>b' F''. buddy_dealloc 4096 b1 p ?l = Some b' \<and> buddy_rep (LEVELS 4096) b' F''
            \<and> free_cover F'' = free_cover F' \<union> block_at d p \<and> alloc_heap b' = alloc_heap b1
         else buddy_dealloc 4096 b1 p ?l = None"
    using buddy_dealloc_ok [OF mx l r(2) a(2) [unfolded s(1)] lv p] by blast
  have "d = 0" using d(1) level_8 by (simp add: MINIMUM_ALLOCATABLE_BYTES_def)
  then obtain b2 F2 where b2: "buddy_dealloc 4096 b1 p ?l = Some b2" "buddy_rep (LEVELS 4096) b2 F2"
    "free_cover F2 = free_cover F' \<union> {p..<p + 8}"
    using d(2) acc blk by (auto simp: level2size_eq)
  have "buddy_free b1 = free_cover F'" "buddy_free b2 = free_cover F2"
    using buddy_free_eq [OF a(2)] buddy_free_eq [OF b2(2)] s(1) by simp_all
  moreover have "{p + 8..<p + 16} \<inter> free_cover F' = {}" using p(4) blk by auto
  ultimately show ?thesis using b2 by auto
qed

text \<open>A buddy allocator with one block of 4096 bytes at address 4096.\<close>

definition demo_heap :: "unit \<Rightarrow> (usize option \<times> unit) option" where
  "demo_heap h = Some (Some 8192, h)"

lemma demo_buddy:
  "\<exists>(b :: unit BuddyAllocator) F. buddy_rep (LEVELS 4096) b F \<and> free_cover F = {4096..<8192} \<and> alloc_heap b = Some demo_heap
     \<and> total_size b = 4096 \<and> allocated_bytes b = 0"
proof -
  have mx: "4096 = (2::nat) ^ 12" "3 \<le> (12::nat)" by simp_all
  let ?b = "buddy_new 4096 (\<lambda>_. None) (Some demo_heap)"
  have f: "free_cover (\<lambda>_. {}) = {}" "total_size ?b = 0" "allocated_bytes ?b = 0" "alloc_heap ?b = Some demo_heap"
    by (simp_all add: free_cover_def buddy_new_def)
  from set_memory_ok [OF mx empty_buddy_rep [of 4096 "\<lambda>_. None" "Some demo_heap"], of 4096 1]
  obtain b F where "buddy_rep (LEVELS 4096) b F" "free_cover F = {4096..<8192}" "alloc_heap b = Some demo_heap"
    "total_size b = 4096" "allocated_bytes b = 0"
    by (auto simp: f usize_limit_def)
  then show ?thesis by blast
qed

lemma buddy_dealloc_forgets_alignment_example:
  "\<exists>(b1 :: unit BuddyAllocator) b2 p. buddy_dealloc 4096 b1 p \<lparr>layout_size = 8, layout_align = 16\<rparr> = Some b2
     \<and> {p + 8..<p + 16} \<inter> buddy_free b2 = {}"
proof -
  let ?l = "\<lparr>layout_size = 8, layout_align = 16\<rparr>"
  obtain b :: "unit BuddyAllocator" and F where b: "buddy_rep (LEVELS 4096) b F" "free_cover F = {4096..<8192}"
    "alloc_heap b = Some demo_heap" "total_size b = 4096" "allocated_bytes b = 0" using demo_buddy by blast
  have l: "layout_ok ?l" by (auto simp: layout_ok_def intro!: exI [of _ 4])
  have r: "required_bytes ?l \<le> 4096" by (simp add: required_bytes_def MINIMUM_ALLOCATABLE_BYTES_def)
  have mx: "4096 = (2::nat) ^ 12" "3 \<le> (12::nat)" "12 \<le> (63::nat)" by simp_all
  have room: "(allocated_bytes b + 4096 < usize_limit \<and> total_size b + 4096 < usize_limit \<and> demo_heap () \<noteq> None)
      \<or> buddy_alloc 4096 b () ?l \<noteq> None"
    using b by (simp add: usize_limit_def demo_heap_def)
  have refill: "\<forall>new h1. demo_heap () = Some (Some new, h1) \<longrightarrow> refill_ok 4096 (free_cover F) new"
    using b(2) by (simp add: demo_heap_def refill_ok_def usize_limit_def)
  from buddy_alloc_ok [OF mx l r b(1) room b(3) refill]
  obtain res b1 h1 where a: "buddy_alloc 4096 b () ?l = Some (res, b1, h1)"
    "case res of Inl e \<Rightarrow> demo_heap () = Some (None, h1) | Inr p \<Rightarrow> True" by (fastforce split: sum.splits)
  then obtain p where "buddy_alloc 4096 b () ?l = Some (Inr p, b1, h1)" by (cases res) (auto simp: demo_heap_def)
  from buddy_dealloc_forgets_alignment [OF b(1,3) refill this] show ?thesis by blast
qed

section \<open>The global allocator\<close>

text \<open>A program that allocates and deallocates through the global allocator, from \<open>ma0\<close> on.\<close>

inductive heap_run ::
  "(usize \<Rightarrow> MemoryRegions) \<Rightarrow> MemoryAllocator \<Rightarrow> MemoryAllocator \<Rightarrow> (usize \<times> Layout) list \<Rightarrow> bool"
  for raw :: "usize \<Rightarrow> MemoryRegions" and ma0 :: MemoryAllocator where
  heap_start: "heap_run raw ma0 ma0 []"
| heap_alloc: "heap_run raw ma0 ma live \<Longrightarrow> layout_ok l \<Longrightarrow> 0 < layout_size l \<Longrightarrow>
     global_alloc raw GLOBAL_MAX_BYTES ma l = Some (p, ma') \<Longrightarrow> p \<noteq> 0 \<Longrightarrow> heap_run raw ma0 ma' ((p, l) # live)"
| heap_fail: "heap_run raw ma0 ma live \<Longrightarrow> layout_ok l \<Longrightarrow> 0 < layout_size l \<Longrightarrow>
     global_alloc raw GLOBAL_MAX_BYTES ma l = Some (0, ma') \<Longrightarrow> heap_run raw ma0 ma' live"
| heap_dealloc: "heap_run raw ma0 ma live \<Longrightarrow> (p, l) \<in> set live \<Longrightarrow>
     global_dealloc raw GLOBAL_MAX_BYTES ma p l = Some ma' \<Longrightarrow> heap_run raw ma0 ma' (remove1 (p, l) live)"

lemma heap_run_live:
  assumes "heap_run raw ma0 ma live" and "heap_ok raw GLOBAL_MAX_BYTES ma0"
  shows "heap_ok raw GLOBAL_MAX_BYTES ma
     \<and> live_ok (heap_span GLOBAL_MAX_BYTES) (heap_shaped GLOBAL_MAX_BYTES) (heap_owned ma) live"
  using assms
proof (induction rule: heap_run.induct)
  case heap_start
  then show ?case by (simp add: live_ok_simps)
next
  case (heap_alloc ma live l p ma')
  then have "heap_alloc raw GLOBAL_MAX_BYTES ma l = Some (Some p, ma')" by (simp add: heap_alloc_def)
  then show ?case using heap_alloc heap.alloc_live by blast
next
  case (heap_fail ma live l ma')
  then have "heap_alloc raw GLOBAL_MAX_BYTES ma l = Some (None, ma')" by (simp add: heap_alloc_def)
  then show ?case using heap_fail heap.alloc_fails_live by blast
next
  case (heap_dealloc ma live p l ma')
  then show ?case using heap.dealloc_live by blast
qed

lemma live_blocks_disjoint:
  assumes "live_ok sp sh owned live" and "i < j" and "j < length live"
  shows "block_span (live ! i) \<inter> block_span (live ! j) = {}"
proof -
  have "sp (live ! i) \<inter> sp (live ! j) = {}"
    using assms by (auto simp: live_ok_def sorted_wrt_iff_nth_less)
  moreover have "block_span (live ! i) \<subseteq> sp (live ! i)" "block_span (live ! j) \<subseteq> sp (live ! j)"
    using assms by (auto simp: live_ok_def)
  ultimately show ?thesis by blast
qed

text \<open>
  C5. The blocks a program holds from the global allocator never overlap, whether they came from the
  buddy allocator or from the range list, and each is aligned as asked.
\<close>

theorem heap_blocks_disjoint:
  assumes "heap_run raw ma0 ma live" and "heap_ok raw GLOBAL_MAX_BYTES ma0"
  shows "heap_ok raw GLOBAL_MAX_BYTES ma
     \<and> (\<forall>i j. i < j \<and> j < length live \<longrightarrow> block_span (live ! i) \<inter> block_span (live ! j) = {})
     \<and> (\<forall>b \<in> set live. layout_align (snd b) dvd fst b \<and> block_span b \<subseteq> heap_owned ma)"
proof -
  have l: "live_ok (heap_span GLOBAL_MAX_BYTES) (heap_shaped GLOBAL_MAX_BYTES) (heap_owned ma) live"
    and ok: "heap_ok raw GLOBAL_MAX_BYTES ma"
    using heap_run_live [OF assms] by simp_all
  have "\<forall>b \<in> set live. layout_align (snd b) dvd fst b \<and> block_span b \<subseteq> heap_owned ma"
    using l unfolding live_ok_def by blast
  then show ?thesis using ok live_blocks_disjoint [OF l] by blast
qed

definition demo_allocator :: MemoryAllocator where
  "demo_allocator = \<lparr>range_list_allocator = Some demo,
     buddy_allocator = Some (buddy_new GLOBAL_MAX_BYTES (\<lambda>_. None)
       (Some (alloc_for_buddy_allocator (\<lambda>_. zero_region) GLOBAL_MAX_BYTES)))\<rparr>"

lemma demo_allocator_ok: "heap_ok (\<lambda>_. zero_region) GLOBAL_MAX_BYTES demo_allocator"
proof -
  let ?b = "buddy_new GLOBAL_MAX_BYTES (\<lambda>_. None) (Some (alloc_for_buddy_allocator (\<lambda>_. zero_region) GLOBAL_MAX_BYTES))"
  have "heap_rep (\<lambda>_. zero_region) GLOBAL_MAX_BYTES demo_allocator demo ?b (\<lambda>_. {})"
    using demo_ok empty_buddy_rep [of GLOBAL_MAX_BYTES]
    by (auto simp: heap_rep_def demo_allocator_def free_cover_def span_def buddy_new_def)
  then show ?thesis unfolding heap_ok_def by blast
qed

lemma demo_large_alloc:
  "\<exists>p ma. global_alloc (\<lambda>_. zero_region) GLOBAL_MAX_BYTES demo_allocator \<lparr>layout_size = 5000, layout_align = 16\<rparr>
     = Some (p, ma) \<and> p \<noteq> 0"
proof -
  let ?l = "\<lparr>layout_size = 5000, layout_align = 16\<rparr>"
  have l: "layout_ok ?l" by (auto simp: layout_ok_def intro!: exI [of _ 4])
  obtain p mb where a: "allocate_region (\<lambda>_. zero_region) demo ?l = Some (Some p, mb)" "moved demo {p..<p + 5000} mb"
    using allocate_region_total [OF demo_ok demo_headroom, of ?l "\<lambda>_. zero_region"]
    by (auto simp: no_wrap_def fits_def align_up_def usize_limit_def)
  have "p \<in> {p..<p + 5000}" by simp
  then have "p \<in> cover (free_list demo)" using a(2) unfolding moved_def by blast
  then have p: "p \<noteq> 0" by (auto simp: span_def)
  then show ?thesis
    using a(1) by (simp add: global_alloc_def demo_allocator_def GLOBAL_MAX_BYTES_def)
qed

theorem heap_blocks_disjoint_witness:
  "\<exists>ma p. heap_run (\<lambda>_. zero_region) demo_allocator ma [(p, \<lparr>layout_size = 5000, layout_align = 16\<rparr>)]
     \<and> 16 dvd p \<and> p \<noteq> 0"
proof -
  let ?l = "\<lparr>layout_size = 5000, layout_align = 16\<rparr>"
  have l: "layout_ok ?l" by (auto simp: layout_ok_def intro!: exI [of _ 4])
  obtain p ma where a: "global_alloc (\<lambda>_. zero_region) GLOBAL_MAX_BYTES demo_allocator ?l = Some (p, ma)" "p \<noteq> 0"
    using demo_large_alloc by blast
  then have run: "heap_run (\<lambda>_. zero_region) demo_allocator ma [(p, ?l)]"
    using l by (intro heap_run.heap_alloc [OF heap_start]) simp_all
  show ?thesis using heap_blocks_disjoint [OF run demo_allocator_ok] run a(2) by auto
qed

end
