(* ===== verification/Boot_Memory.thy ===== *)
theory Boot_Memory
  imports Dtb_Static Dtb_Spec Allocator_Spec
begin

text \<open>
  How the boot loader sets up its allocator, \<open>main\<close> in \<open>src/bootloader/src/main.rs\<close>: the regions of the \<open>memory\<close>
  nodes become available, then the memory reservation block, the \<open>reserved-memory\<close> node, the loader's
  own image and the device tree itself are taken out, and the allocator is finalised. Every \<open>unwrap\<close> on an error
  is a panic.

  Both callbacks hand one region after the other to the allocator. What they share is a locale: a
  callback that takes any region disjoint from what it has taken before, as long as there is room.
\<close>

section \<open>The code\<close>

definition unwrap_result :: "((string + 'a) \<times> 's) option \<Rightarrow> ('a \<times> 's) option" where
  "unwrap_result r = do {
     (x, s) \<leftarrow> r;
     (case x of Inl e \<Rightarrow> None | Inr v \<Rightarrow> Some (v, s))
   }"

definition available_callback :: "MemoryAllocator callback" where
  "available_callback addr sz ma = do {
     (_, ma) \<leftarrow> unwrap_result (global_add_available_region ma addr sz);
     Some (Continue, ma)
   }"

definition reserved_callback :: "MemoryAllocator callback" where
  "reserved_callback addr sz ma = do {
     (_, ma) \<leftarrow> unwrap_result (global_add_reserved_region ma addr sz);
     Some (Continue, ma)
   }"

definition dynamic_reserved_callback :: "MemoryAllocator dynamic_callback" where
  "dynamic_reserved_callback sz align alloc_range ma = do {
     (res, ma) \<leftarrow> unwrap_result (allocate_dynamic_reserved_region ma sz align alloc_range);
     Some (if res \<noteq> None then Inr Continue else Inl (), ma)
   }"

definition setup_allocator ::
  "(usize \<Rightarrow> MemoryRegions) \<Rightarrow> links \<Rightarrow> memory \<Rightarrow> DtbParser \<Rightarrow> usize \<Rightarrow> usize \<Rightarrow> usize \<Rightarrow> MemoryAllocator
   \<Rightarrow> MemoryAllocator option" where
  "setup_allocator raw heap m dtb dtb_ptr program_start stack_start ma = do {
     let ma = allocator_init raw GLOBAL_MAX_BYTES heap ma;
     (_, ma) \<leftarrow> unwrap_result (find_node m dtb (Some (str_bytes ''memory'')) None available_callback ma);
     ma \<leftarrow> find_memory_reservation_block m dtb reserved_callback ma;
     (_, ma) \<leftarrow> unwrap_result (find_reserved_memory_node m dtb reserved_callback dynamic_reserved_callback ma);
     program_size \<leftarrow> usub stack_start program_start;
     (_, ma) \<leftarrow> unwrap_result (global_add_reserved_region ma program_start program_size);
     (_, ma) \<leftarrow> unwrap_result (global_add_reserved_region ma dtb_ptr (DtbParser_get_size m dtb));
     (_, ma) \<leftarrow> unwrap_result (finalize ma);
     Some ma
   }"

section \<open>Regions one after the other\<close>

definition interval :: "usize \<times> usize \<Rightarrow> nat set" where
  "interval r = {fst r..<fst r + snd r}"

definition intervals :: "(usize \<times> usize) list \<Rightarrow> nat set" where
  "intervals rs = (\<Union>r \<in> set rs. interval r)"

definition pair_apart :: "usize \<times> usize \<Rightarrow> usize \<times> usize \<Rightarrow> bool" where
  "pair_apart r q \<longleftrightarrow> fst r + snd r \<le> fst q \<or> fst q + snd q \<le> fst r"

text \<open>No region is empty or ends at the end of the address space, and no two overlap.\<close>

definition regions_apart :: "(usize \<times> usize) list \<Rightarrow> bool" where
  "regions_apart rs \<longleftrightarrow> list_all (\<lambda>r. 0 < snd r \<and> fst r + snd r < usize_limit) rs \<and> sorted_wrt pair_apart rs"

lemma intervals_simps [simp]:
  "intervals [] = {}" "intervals (r # rs) = interval r \<union> intervals rs" "intervals (xs @ ys) = intervals xs \<union> intervals ys"
  by (auto simp: intervals_def)

lemma pair_apart_disjoint: "pair_apart r q \<Longrightarrow> interval r \<inter> interval q = {}"
  by (auto simp: pair_apart_def interval_def)

lemma regions_apart_Cons:
  "regions_apart (r # rs) \<Longrightarrow> 0 < snd r \<and> fst r + snd r < usize_limit \<and> regions_apart rs \<and> interval r \<inter> intervals rs = {}"
  using pair_apart_disjoint [of r] by (fastforce simp: regions_apart_def intervals_def)

lemma regions_apart_append:
  "regions_apart (xs @ ys) \<Longrightarrow> regions_apart xs \<and> regions_apart ys \<and> intervals xs \<inter> intervals ys = {}"
  using pair_apart_disjoint by (fastforce simp: regions_apart_def intervals_def sorted_wrt_append)

locale region_sink =
  fixes f :: "'s callback" and holding :: "'s \<Rightarrow> nat \<Rightarrow> nat set \<Rightarrow> bool"
  assumes take_region: "holding s k A \<Longrightarrow> k < 128 \<Longrightarrow> 0 < n \<Longrightarrow> a + n < usize_limit \<Longrightarrow> A \<inter> interval (a, n) = {} \<Longrightarrow>
    \<exists>s'. f a n s = Some (Continue, s') \<and> holding s' (Suc k) (A \<union> interval (a, n))"
begin

lemma take_regions:
  "holding s k A \<Longrightarrow> regions_apart rs \<Longrightarrow> A \<inter> intervals rs = {} \<Longrightarrow> k + length rs \<le> 128 \<Longrightarrow>
   \<exists>s'. each f rs s = Some (Continue, s') \<and> holding s' (k + length rs) (A \<union> intervals rs)"
proof (induction rs arbitrary: s k A)
  case (Cons r rs)
  obtain a n where r: "r = (a, n)" by (cases r)
  have ok: "0 < n" "a + n < usize_limit" "regions_apart rs" "interval (a, n) \<inter> intervals rs = {}"
    using regions_apart_Cons [OF Cons.prems(2)] by (simp_all add: r)
  obtain s1 where s1: "f a n s = Some (Continue, s1)" "holding s1 (Suc k) (A \<union> interval (a, n))"
    using take_region [OF Cons.prems(1) _ ok(1,2)] Cons.prems(3,4) by (auto simp: r)
  have "(A \<union> interval (a, n)) \<inter> intervals rs = {}" using ok(4) Cons.prems(3) by auto
  from Cons.IH [OF s1(2) ok(3) this] show ?case
    using Cons.prems(4) s1(1) by (auto simp: r Un_assoc)
qed simp

end

section \<open>The allocator before it is finalised\<close>

definition setup_inv :: "MemoryBlock \<Rightarrow> nat \<Rightarrow> nat \<Rightarrow> nat set \<Rightarrow> nat set \<Rightarrow> bool" where
  "setup_inv mb k l A R \<longleftrightarrow>
     block_ok mb \<and> \<not> allocatable mb \<and> region_capacity mb = 128 \<and> reserved_region_capacity mb = 128
     \<and> nonempty (free_list mb) \<and> nonempty (reserved_list mb) \<and> separated (free_list mb) \<and> separated (reserved_list mb)
     \<and> region_size mb \<le> k \<and> reserved_region_size mb \<le> l \<and> cover (free_list mb) = A \<and> cover (reserved_list mb) = R"

lemma add_region_slice_disjoint:
  assumes "buffer_ok d n cap" and "n < cap" and "nonempty xs" and "xs = take n (deref d)"
    and r: "fin r < usize_limit" "address r < fin r" and "cover xs \<inter> span r = {}"
  shows "\<exists>buf' ys. add_region_slice (deref d) n cap r = Some (Inr (), buf', length ys)
    \<and> buffer_ok (deref_mut d buf') (length ys) cap \<and> take (length ys) buf' = ys
    \<and> nonempty ys \<and> cover ys = cover xs \<union> span r \<and> length ys \<le> Suc n \<and> (separated xs \<longrightarrow> separated ys)"
proof -
  have h: "holds (deref d) n xs" and ok: "regions_ok xs" and room: "n < length (deref d)" "n + 1 < u32_limit" "cap < u32_limit"
    using assms(1,2,4) buffer_ok_holds [OF assms(1)] by (auto simp: buffer_ok_def)
  have "\<forall>x \<in> set xs. address x \<noteq> address r"
    using disjoint_region_side [OF assms(3) r(2) assms(7)] by fastforce
  then obtain i where i: "binary_search_by_key xs (address r) address = Inl i"
    by (rule_tac binary_search_split [OF regions_ok_sorted [OF ok], of "address r"]) auto
  obtain buf' ys where m: "add_and_merge_region (deref d) n i r = Some (buf', length ys)"
    and y: "holds buf' (length ys) ys" "length buf' = length (deref d)" "regions_ok ys" "nonempty ys"
      "cover ys = cover xs \<union> span r" "length ys \<le> Suc n" "separated xs \<longrightarrow> separated ys"
    using merge_disjoint_ok [OF h room(1,2) ok assms(3) r assms(7)] i by (auto simp: search_index_def)
  have "add_region_slice (deref d) n cap r = Some (Inr (), buf', length ys)"
    using m i slice_range_holds [OF h] assms(2) room by (simp add: add_region_slice_def exec_simps)
  moreover have "buffer_ok (deref_mut d buf') (length ys) cap"
    using buffer_okI [OF y(1,3)] assms(1,2) y(2,6) by (simp add: buffer_ok_def)
  moreover have "take (length ys) buf' = ys" using y(1) by (simp add: holds_def)
  ultimately show ?thesis using y by blast
qed

lemma from_parts_span:
  "fin (from_parts a n) = a + n" "address (from_parts a n) = a" "span (from_parts a n) = interval (a, n)"
  by (simp_all add: from_parts_def fin_def span_def interval_def)

lemma add_region_setup:
  assumes "setup_inv mb k l A R" and "k < 128" and "0 < n" and "a + n < usize_limit" and "A \<inter> interval (a, n) = {}"
  shows "\<exists>mb'. add_region mb (from_parts a n) = Some (Inr (), mb') \<and> setup_inv mb' (Suc k) l (A \<union> interval (a, n)) R"
proof -
  have inv: "buffer_ok (regions mb) (region_size mb) (region_capacity mb)" "region_size mb < region_capacity mb"
    "nonempty (free_list mb)" "cover (free_list mb) \<inter> span (from_parts a n) = {}"
    using assms by (auto simp: setup_inv_def block_ok_def from_parts_span)
  obtain buf' ys where y: "add_region_slice (deref (regions mb)) (region_size mb) (region_capacity mb) (from_parts a n)
        = Some (Inr (), buf', length ys)" "buffer_ok (deref_mut (regions mb) buf') (length ys) (region_capacity mb)"
    "take (length ys) buf' = ys" "nonempty ys" "cover ys = cover (free_list mb) \<union> interval (a, n)"
    "length ys \<le> Suc (region_size mb)" "separated (free_list mb) \<longrightarrow> separated ys"
    using add_region_slice_disjoint [OF inv(1-3), of "from_parts a n"] inv(4) assms(3,4)
    by (auto simp: free_list_def from_parts_span)
  let ?mb = "mb\<lparr>regions := deref_mut (regions mb) buf', region_size := length ys\<rparr>"
  have "free_list ?mb = ys" "reserved_list ?mb = reserved_list mb"
    using y(3) by (simp_all add: free_list_def reserved_list_def)
  then show ?thesis
    using y assms(1) by (intro exI [of _ ?mb])
      (auto simp: add_region_def add_region_internal_def setup_inv_def block_ok_def)
qed

lemma add_reserved_setup:
  assumes "setup_inv mb k l A R" and "l < 128" and "0 < n" and "a + n < usize_limit" and "R \<inter> interval (a, n) = {}"
  shows "\<exists>mb'. add_reserved_region mb (from_parts a n) = Some (Inr (), mb') \<and> setup_inv mb' k (Suc l) A (R \<union> interval (a, n))"
proof -
  have inv: "buffer_ok (reserved_regions mb) (reserved_region_size mb) (reserved_region_capacity mb)"
    "reserved_region_size mb < reserved_region_capacity mb"
    "nonempty (reserved_list mb)" "cover (reserved_list mb) \<inter> span (from_parts a n) = {}"
    using assms by (auto simp: setup_inv_def block_ok_def from_parts_span)
  obtain buf' ys where y: "add_region_slice (deref (reserved_regions mb)) (reserved_region_size mb)
        (reserved_region_capacity mb) (from_parts a n) = Some (Inr (), buf', length ys)"
    "buffer_ok (deref_mut (reserved_regions mb) buf') (length ys) (reserved_region_capacity mb)"
    "take (length ys) buf' = ys" "nonempty ys" "cover ys = cover (reserved_list mb) \<union> interval (a, n)"
    "length ys \<le> Suc (reserved_region_size mb)" "separated (reserved_list mb) \<longrightarrow> separated ys"
    using add_region_slice_disjoint [OF inv(1-3), of "from_parts a n"] inv(4) assms(3,4)
    by (auto simp: reserved_list_def from_parts_span)
  let ?mb = "mb\<lparr>reserved_regions := deref_mut (reserved_regions mb) buf', reserved_region_size := length ys\<rparr>"
  have "reserved_list ?mb = ys" "free_list ?mb = free_list mb"
    using y(3) by (simp_all add: free_list_def reserved_list_def)
  then show ?thesis
    using y assms(1) by (intro exI [of _ ?mb])
      (auto simp: add_reserved_region_def add_region_internal_def setup_inv_def block_ok_def)
qed

text \<open>The two callbacks of the boot loader.\<close>

definition setup_state :: "MemoryBlock option BuddyAllocator option \<Rightarrow> MemoryAllocator \<Rightarrow> nat \<Rightarrow> nat \<Rightarrow> nat set \<Rightarrow> nat set \<Rightarrow> bool" where
  "setup_state b ma k l A R \<longleftrightarrow> buddy_allocator ma = b \<and> (\<exists>mb. range_list_allocator ma = Some mb \<and> setup_inv mb k l A R)"

lemma global_add_reserved_setup:
  assumes "setup_state b ma k l A R" and "l < 128" and "0 < n" and "a + n < usize_limit" and "R \<inter> interval (a, n) = {}"
  shows "\<exists>ma'. global_add_reserved_region ma a n = Some (Inr (), ma') \<and> setup_state b ma' k (Suc l) A (R \<union> interval (a, n))"
proof -
  obtain mb where mb: "range_list_allocator ma = Some mb" "setup_inv mb k l A R" "buddy_allocator ma = b"
    using assms(1) by (auto simp: setup_state_def)
  then have "\<not> is_finalized mb" by (simp add: setup_inv_def is_finalized_def)
  then show ?thesis
    using add_reserved_setup [OF mb(2) assms(2-5)] mb by (auto simp: global_add_reserved_region_def setup_state_def)
qed

interpretation available: region_sink available_callback "\<lambda>ma k A. setup_state b ma k l A R"
  for b l R
proof
  fix ma k A and n a :: nat
  assume s: "setup_state b ma k l A R" and ok: "k < 128" "0 < n" "a + n < usize_limit" "A \<inter> interval (a, n) = {}"
  obtain mb where mb: "range_list_allocator ma = Some mb" "setup_inv mb k l A R" "buddy_allocator ma = b"
    using s by (auto simp: setup_state_def)
  then have "\<not> is_finalized mb" by (simp add: setup_inv_def is_finalized_def)
  then show "\<exists>s'. available_callback a n ma = Some (Continue, s') \<and> setup_state b s' (Suc k) l (A \<union> interval (a, n)) R"
    using add_region_setup [OF mb(2) ok] mb
    by (auto simp: available_callback_def unwrap_result_def global_add_available_region_def setup_state_def)
qed

interpretation reserve: region_sink reserved_callback "\<lambda>ma l R. setup_state b ma k l A R"
  for b k A
proof
  fix ma l R and n a :: nat
  assume "setup_state b ma k l A R" and "l < 128" "0 < n" "a + n < usize_limit" "R \<inter> interval (a, n) = {}"
  then show "\<exists>s'. reserved_callback a n ma = Some (Continue, s') \<and> setup_state b s' k (Suc l) A (R \<union> interval (a, n))"
    using global_add_reserved_setup [of b ma k l A R n a] by (auto simp: reserved_callback_def unwrap_result_def)
qed

lemma finalize_setup:
  assumes "setup_state b ma k l A R" and "k \<le> MAX_REGIONS" and "l \<le> MAX_REGIONS" and "k + l < 128" and "R \<subseteq> A"
  shows "\<exists>ma' mb. finalize ma = Some (Inr (), ma') \<and> buddy_allocator ma' = b \<and> range_list_allocator ma' = Some mb
    \<and> alloc_ok mb \<and> cover (free_list mb) = A - R \<and> reserved_list mb = []"
proof -
  obtain mb where ma: "range_list_allocator ma = Some mb" "buddy_allocator ma = b"
    and mb: "block_ok mb" "\<not> allocatable mb" "region_capacity mb = 128" "reserved_region_capacity mb = 128"
      "nonempty (free_list mb)" "nonempty (reserved_list mb)" "separated (free_list mb)" "region_size mb \<le> k" "reserved_region_size mb \<le> l"
      "cover (free_list mb) = A" "cover (reserved_list mb) = R"
    using assms(1) by (auto simp: setup_state_def setup_inv_def)
  have inside: "\<exists>g \<in> set (free_list mb). contained r g" if "r \<in> set (reserved_list mb)" for r
  proof -
    have "{address r..<fin r} \<subseteq> cover (free_list mb)"
      using that mb(10,11) assms(5) by (auto simp: cover_def span_def)
    moreover have "address r < fin r" using mb(6) that by (simp add: nonempty_def)
    ultimately obtain as g bs where "free_list mb = as @ g # bs" "address g \<le> address r" "fin r \<le> fin g"
      by (rule covered_interval_inside [OF mb(7)])
    then show ?thesis by (intro bexI [of _ g]) (simp_all add: contained_def)
  qed
  have small: "region_size mb \<le> MAX_REGIONS" "reserved_region_size mb \<le> MAX_REGIONS"
    "region_size mb + reserved_region_size mb \<le> region_capacity mb"
    using mb(3,8,9) assms(2-4) by linarith+
  obtain mb' where c: "check_regions mb = Some (Inr (), mb')" "block_ok mb'" "allocatable mb'"
    "cover (free_list mb') = A - R" "reserved_list mb' = []" "region_capacity mb' = 128"
    "region_size mb' \<le> region_size mb + reserved_region_size mb" "reserved_region_capacity mb' = 128" "nonempty (free_list mb')"
    using check_regions_ok [OF mb(1,2) small mb(6)] inside mb(3,4,5,10,11) by auto
  have "reserved_region_size mb' = 0"
    using block_okD(2) [OF c(2)] c(5) by (simp add: holds_def)
  then have "alloc_ok mb'"
    using c mb(8,9) assms(4) by (simp add: alloc_ok_def)
  then show ?thesis
    using c mb(2) ma by (auto simp: finalize_def is_finalized_def)
qed

lemma allocator_init_setup:
  "setup_state (Some (buddy_new GLOBAL_MAX_BYTES heap (Some (alloc_for_buddy_allocator raw GLOBAL_MAX_BYTES))))
     (allocator_init raw GLOBAL_MAX_BYTES heap \<lparr>range_list_allocator = None, buddy_allocator = None\<rparr>) 0 0 {} {}"
  using MemoryBlock_init_ok
  by (simp add: setup_state_def setup_inv_def allocator_init_def free_list_def reserved_list_def)
    (simp add: MemoryBlock_init_def)

lemma heap_okI:
  assumes "range_list_allocator ma = Some mb" and "alloc_ok mb" and "0 \<notin> cover (free_list mb)" and "reserved_list mb = []"
    and "buddy_allocator ma = Some (buddy_new mx heap (Some (alloc_for_buddy_allocator raw mx)))"
  shows "heap_ok raw mx ma"
proof -
  have "heap_rep raw mx ma mb (buddy_new mx heap (Some (alloc_for_buddy_allocator raw mx))) (\<lambda>_. {})"
    using assms empty_buddy_rep [of mx] by (simp add: heap_rep_def free_cover_def buddy_new_def)
  then show ?thesis unfolding heap_ok_def by blast
qed

lemma find_memory_reservation_each:
  assumes "source_ok m (dtb_header parser) es"
  shows "find_memory_reservation_block m parser f s = map_option snd (each f es s)"
proof -
  let ?a = "dtb_address (dtb_header parser)" and ?off = "get_memory_reservation_offset m (dtb_header parser)"
  have s: "8 dvd ?a + ?off" "?a + ?off + 16 * length es + 16 < usize_limit" "list_all entry_ok es"
    "stored m (?a + ?off) (enc_entries (es @ [(0, 0)]))"
    using assms by (auto simp: source_ok_def Let_def)
  then have "get_memory_reservation_start_address m (dtb_header parser) = Some (?a + ?off)"
    by (simp add: get_memory_reservation_start_address_def get_memory_reservation_offset_def exec_simps)
  then show ?thesis
    using reservation_loop_stored [OF s(4,1,2,3)] by (simp add: find_memory_reservation_block_def)
qed

section \<open>Properties\<close>

text \<open>
  The regions of a device tree: what its \<open>memory\<close> nodes describe, and what the boot loader reserves. A
  machine is fit to boot when the regions of each kind do not overlap, every reserved address is memory,
  the tables have room and address 0 is not left free.
\<close>

definition boot_memory :: "byte list \<Rightarrow> fdt_tree \<Rightarrow> (usize \<times> usize) list" where
  "boot_memory strs t = device_regs strs (Some (str_bytes ''memory'')) None (0, 0) t"

definition boot_reserved :: "byte list \<Rightarrow> fdt_tree \<Rightarrow> (usize \<times> usize) list \<Rightarrow> (usize \<times> usize) list" where
  "boot_reserved strs t es = es @ static_regs strs None (Some 1) t"

definition machine_fit :: "(usize \<times> usize) list \<Rightarrow> (usize \<times> usize) list \<Rightarrow> bool" where
  "machine_fit mems resv \<longleftrightarrow>
     regions_apart mems \<and> regions_apart resv \<and> intervals resv \<subseteq> intervals mems \<and> 0 \<notin> intervals mems - intervals resv
     \<and> length mems \<le> 120 \<and> length resv \<le> 120 \<and> length mems + length resv < 128"

definition device_tree_ok :: "memory \<Rightarrow> DtbParser \<Rightarrow> (usize \<times> usize) list \<Rightarrow> byte list \<Rightarrow> usize \<Rightarrow> nat \<Rightarrow> fdt_tree \<Rightarrow> nat \<Rightarrow> bool" where
  "device_tree_ok m dtb es strs a i t j \<longleftrightarrow>
     source_ok m (dtb_header dtb) es \<and> blob_at m dtb strs a i t j
     \<and> tree_good device_good strs t \<and> tree_good reserved_good strs t
     \<and> tree_regular strs (Some (str_bytes ''memory'')) None None t \<and> tree_static strs None t"

text \<open>The regions of a machine that fits, handed over in the order of the boot code, leave the allocator ready.\<close>

lemma regions_handed_over:
  assumes resv: "resv = (es @ st) @ [p, d]" and "machine_fit mems resv"
    and init: "setup_state b ma0 0 0 {} {}"
  obtains ma1 ma2 ma3 ma4 ma5 ma6 mb where "each available_callback mems ma0 = Some (Continue, ma1)"
    "each reserved_callback es ma1 = Some (Continue, ma2)" "each reserved_callback st ma2 = Some (Continue, ma3)"
    "global_add_reserved_region ma3 (fst p) (snd p) = Some (Inr (), ma4)"
    "global_add_reserved_region ma4 (fst d) (snd d) = Some (Inr (), ma5)"
    "finalize ma5 = Some (Inr (), ma6)" "buddy_allocator ma6 = b" "range_list_allocator ma6 = Some mb"
    "alloc_ok mb" "cover (free_list mb) = intervals mems - intervals resv" "reserved_list mb = []"
    "0 \<notin> intervals mems - intervals resv" "0 < snd p"
proof -
  have fit: "regions_apart mems" "intervals resv \<subseteq> intervals mems" "0 \<notin> intervals mems - intervals resv"
    "length mems \<le> 120" "length resv \<le> 120" "length mems + length resv < 128"
    and apart: "regions_apart resv"
    using assms(2) by (simp_all add: machine_fit_def)
  have pair_apart: "regions_apart es" "regions_apart st" "intervals es \<inter> intervals st = {}"
    "(intervals es \<union> intervals st) \<inter> (interval p \<union> interval d) = {}"
    "0 < snd p" "fst p + snd p < usize_limit" "0 < snd d" "fst d + snd d < usize_limit" "interval p \<inter> interval d = {}"
    using regions_apart_append [of "es @ st" "[p, d]"] regions_apart_append [of es st] resv apart
      regions_apart_Cons [of p "[d]"] regions_apart_Cons [of d "[]"] by auto
  obtain ma1 where m1: "each available_callback mems ma0 = Some (Continue, ma1)" "setup_state b ma1 (length mems) 0 (intervals mems) {}"
    using available.take_regions [OF init fit(1)] fit(4) by auto
  obtain ma2 where m2: "each reserved_callback es ma1 = Some (Continue, ma2)"
    "setup_state b ma2 (length mems) (length es) (intervals mems) (intervals es)"
    using reserve.take_regions [OF m1(2) pair_apart(1)] fit(5) resv by auto
  obtain ma3 where m3: "each reserved_callback st ma2 = Some (Continue, ma3)"
    "setup_state b ma3 (length mems) (length es + length st) (intervals mems) (intervals es \<union> intervals st)"
    using reserve.take_regions [OF m2(2) pair_apart(2,3)] fit(5) resv by auto
  obtain ma4 where m4: "global_add_reserved_region ma3 (fst p) (snd p) = Some (Inr (), ma4)"
    "setup_state b ma4 (length mems) (Suc (length es + length st)) (intervals mems) (intervals es \<union> intervals st \<union> interval p)"
    using global_add_reserved_setup [OF m3(2) _ pair_apart(5,6)] pair_apart(4) fit(5) resv by auto
  obtain ma5 where m5: "global_add_reserved_region ma4 (fst d) (snd d) = Some (Inr (), ma5)"
    "setup_state b ma5 (length mems) (Suc (Suc (length es + length st))) (intervals mems)
       (intervals es \<union> intervals st \<union> interval p \<union> interval d)"
    using global_add_reserved_setup [OF m4(2) _ pair_apart(7,8)] pair_apart(4,9) fit(5) resv by auto
  obtain ma6 mb where m6: "finalize ma5 = Some (Inr (), ma6)" "buddy_allocator ma6 = b" "range_list_allocator ma6 = Some mb"
    "alloc_ok mb" "cover (free_list mb) = intervals mems - intervals resv" "reserved_list mb = []"
    using finalize_setup [OF m5(2)] fit resv by (auto simp: MAX_REGIONS_def Un_assoc)
  show ?thesis using that m1(1) m2(1) m3(1) m4(1) m5(1) m6 fit(3) pair_apart(5) by blast
qed

text \<open>
  C1. The boot loader sets up its memory right: on a well-formed device tree whose reserved regions are
  static, if the machine is fit to boot, every call succeeds, nothing panics, and the finalised allocator
  satisfies its invariant with exactly the memory of the machine free that is reserved neither by the
  reservation block nor by the \<open>reserved-memory\<close> node nor as the loader's image and stack nor as the device tree.
\<close>

theorem setup_allocator_ready:
  assumes "device_tree_ok m dtb es strs a i t j"
    and "mems = boot_memory strs t"
    and "resv = boot_reserved strs t es
      @ [(program_start, stack_start - program_start), (dtb_ptr, DtbParser_get_size m dtb)]"
    and "machine_fit mems resv"
  shows "\<exists>ma mb. setup_allocator raw heap m dtb dtb_ptr program_start stack_start
        \<lparr>range_list_allocator = None, buddy_allocator = None\<rparr> = Some ma
    \<and> heap_ok raw GLOBAL_MAX_BYTES ma \<and> range_list_allocator ma = Some mb
    \<and> cover (free_list mb) = intervals mems - intervals resv \<and> reserved_list mb = []"
proof -
  let ?st = "static_regs strs None (Some 1) t" and ?p = "(program_start, stack_start - program_start)"
    and ?d = "(dtb_ptr, DtbParser_get_size m dtb)"
  let ?b = "Some (buddy_new GLOBAL_MAX_BYTES heap (Some (alloc_for_buddy_allocator raw GLOBAL_MAX_BYTES)))"
  let ?ma = "allocator_init raw GLOBAL_MAX_BYTES heap \<lparr>range_list_allocator = None, buddy_allocator = None\<rparr>"
  note tree = assms(1) [unfolded device_tree_ok_def]
  obtain ma1 ma2 ma3 ma4 ma5 ma6 mb where m: "each available_callback mems ?ma = Some (Continue, ma1)"
    "each reserved_callback es ma1 = Some (Continue, ma2)" "each reserved_callback ?st ma2 = Some (Continue, ma3)"
    "global_add_reserved_region ma3 (fst ?p) (snd ?p) = Some (Inr (), ma4)"
    "global_add_reserved_region ma4 (fst ?d) (snd ?d) = Some (Inr (), ma5)"
    and m6: "finalize ma5 = Some (Inr (), ma6)" "buddy_allocator ma6 = ?b" "range_list_allocator ma6 = Some mb"
    "alloc_ok mb" "cover (free_list mb) = intervals mems - intervals resv" "reserved_list mb = []"
    and nz: "0 \<notin> intervals mems - intervals resv" "0 < snd ?p"
    using regions_handed_over [of resv es ?st ?p ?d mems, OF _ assms(4) allocator_init_setup] assms(3)
    unfolding boot_reserved_def by blast
  have "find_node m dtb (Some (str_bytes ''memory'')) None available_callback ?ma = Some (Inr (), ma1)"
    using find_node_each [of m dtb strs a i t j "Some (str_bytes ''memory'')" None available_callback ?ma] tree m(1) assms(2)
    by (simp add: boot_memory_def)
  moreover have "find_memory_reservation_block m dtb reserved_callback ma1 = Some ma2"
    using find_memory_reservation_each [of m dtb es reserved_callback ma1] tree m(2) by simp
  moreover have "find_reserved_memory_node m dtb reserved_callback dynamic_reserved_callback ma2 = Some (Inr (), ma3)"
    using find_reserved_each [of m dtb strs a i t j reserved_callback dynamic_reserved_callback ma2] tree m(3) by simp
  ultimately have "setup_allocator raw heap m dtb dtb_ptr program_start stack_start
      \<lparr>range_list_allocator = None, buddy_allocator = None\<rparr> = Some ma6"
    using m(4,5) m6(1) nz(2) by (simp add: setup_allocator_def unwrap_result_def exec_simps)
  moreover have "heap_ok raw GLOBAL_MAX_BYTES ma6"
    using m6 nz(1) by (intro heap_okI [OF m6(3,4)]) simp_all
  ultimately show ?thesis using m6 by blast
qed

text \<open>A small machine: memory from 0x40 to 0x400, the device tree at its start, and one region of each kind reserved.\<close>

definition machine_tree :: fdt_tree where
  "machine_tree = Tree [] [Property 0 (be_bytes 4 1), Property 15 (be_bytes 4 1)]
     [(Tree (str_bytes ''memory@40'') [Property 27 (str_bytes ''memory'' @ [0]), Property 39 (be_bytes 4 0x40 @ be_bytes 4 0x3c0)] [], 0),
      (Tree RESERVED_MEMORY [Property 0 (be_bytes 4 1), Property 15 (be_bytes 4 1)]
         [(Tree (str_bytes ''framebuffer'') [Property 39 (be_bytes 4 0x240 @ be_bytes 4 0x20)] [], 0)], 0)]"

definition machine_memory :: memory where
  "machine_memory = store_bytes (\<lambda>_. 0) 0x40 (flat_blob [(0x200, 0x10)] 0 machine_tree 0 demo_strs)"

lemma machine_facts:
  "blob_size [(0x200, 0x10)] 0 machine_tree 0 demo_strs = 319"
  "tree_good device_good demo_strs machine_tree" "tree_good reserved_good demo_strs machine_tree"
  "tree_regular demo_strs (Some (str_bytes ''memory'')) None None machine_tree" "tree_static demo_strs None machine_tree"
  "boot_memory demo_strs machine_tree = [(0x40, 0x3c0)]" "static_regs demo_strs None (Some 1) machine_tree = [(0x240, 0x20)]"
  "str_ok (str_bytes ''memory@40'')" "str_ok RESERVED_MEMORY" "str_ok (str_bytes ''framebuffer'')"
  by code_simp+

lemma machine_tree_ok: "tree_ok demo_strs machine_tree"
  using demo_names demo_utf8 machine_facts(8-10) by (simp add: machine_tree_def u32_limit_def str_bytes_def)

lemma machine_blob:
  "DtbParser_init machine_memory 0x40 = Some (Inr (parser_at 0x40))" "DtbParser_get_size machine_memory (parser_at 0x40) = 319"
  "device_tree_ok machine_memory (parser_at 0x40) [(0x200, 0x10)] demo_strs 136 0 machine_tree 0"
proof -
  have "stored machine_memory 0x40 (flat_blob [(0x200, 0x10)] 0 machine_tree 0 demo_strs)"
    by (simp add: machine_memory_def)
  from flat_blob_ok [OF this] machine_facts machine_tree_ok show
    "DtbParser_init machine_memory 0x40 = Some (Inr (parser_at 0x40))" "DtbParser_get_size machine_memory (parser_at 0x40) = 319"
    "device_tree_ok machine_memory (parser_at 0x40) [(0x200, 0x10)] demo_strs 136 0 machine_tree 0"
    by (simp_all add: u32_limit_def usize_limit_def entry_ok_def device_tree_ok_def)
qed

lemma machine_fits:
  "machine_fit [(0x40, 0x3c0)] [(0x200, 0x10), (0x240, 0x20), (0x300, 0x40), (0x40, 319)]"
  by (auto simp: machine_fit_def regions_apart_def pair_apart_def intervals_def interval_def usize_limit_def)

theorem setup_allocator_ready_witness:
  "\<exists>ma mb. setup_allocator (\<lambda>_. zero_region) (\<lambda>_. None) machine_memory (parser_at 0x40) 0x40 0x300 0x340
        \<lparr>range_list_allocator = None, buddy_allocator = None\<rparr> = Some ma
    \<and> heap_ok (\<lambda>_. zero_region) GLOBAL_MAX_BYTES ma \<and> range_list_allocator ma = Some mb
    \<and> cover (free_list mb) = {383..<0x200} \<union> {0x210..<0x240} \<union> {0x260..<0x300} \<union> {0x340..<0x400}"
proof -
  have "intervals [(0x40, 0x3c0)] - intervals [(0x200, 0x10), (0x240, 0x20), (0x300, 0x40), (0x40, 319)]
      = {383..<0x200} \<union> {0x210..<0x240} \<union> {0x260..<0x300} \<union> {0x340..<0x400}"
    by (auto simp: interval_def)
  then show ?thesis
    using setup_allocator_ready [OF machine_blob(3) refl refl, of "0x300" "0x340" "0x40" "\<lambda>_. zero_region" "\<lambda>_. None"]
      machine_fits machine_facts(6,7) machine_blob(2)
    by (auto simp: boot_reserved_def)
qed

end
