(* ===== verification/Range_List_Trim.thy ===== *)
theory Range_List_Trim
  imports Range_List_Spec
begin

text \<open>
  Handing the machine over: what \<open>trim_for_boot\<close> of \<open>src/allocator/src/range_list_allocator.rs\<close> leaves to the
  allocator and what it tells the next program to keep away from.
\<close>

definition pair_spans :: "(usize \<times> usize) list \<Rightarrow> nat set" where
  "pair_spans ps = (\<Union>(a, n) \<in> set ps. {a..<a + n})"

lemma pair_spans_regions: "pair_spans (map (\<lambda>r. (address r, mr_size r)) rs) = cover rs"
  by (auto simp: pair_spans_def cover_def span_def fin_def)

definition emptied :: "MemoryBlock \<Rightarrow> MemoryBlock" where
  "emptied mb = mb\<lparr>regions := Global (replicate 128 zero_region), region_size := 0, region_capacity := 128, allocatable := True\<rparr>"

lemma emptied_lists [simp]: "free_list (emptied mb) = []" "reserved_list (emptied mb) = reserved_list mb"
  by (simp_all add: emptied_def free_list_def reserved_list_def)

lemma emptied_block_ok: "block_ok mb \<Longrightarrow> block_ok (emptied mb)"
  by (simp add: emptied_def block_ok_def buffer_ok_def u32_limit_def)

text \<open>Giving back an interval of the reserved list to the emptied free list.\<close>

lemma give_back:
  assumes mb: "alloc_ok mb" and sz: "0 < n" "a + n < usize_limit" and sub: "{a..<a + n} \<subseteq> cover (reserved_list mb)"
    and room: "reserved_region_size mb + 1 < reserved_region_capacity mb"
  shows "\<exists>mb1 mb2. remove_reserved_alloc_record (emptied mb) a n = Some mb1 \<and> add_free_region_merge mb1 a n = Some mb2
    \<and> alloc_ok mb2 \<and> cover (free_list mb2) = {a..<a + n} \<and> cover (reserved_list mb2) = cover (reserved_list mb) - {a..<a + n}
    \<and> region_size mb2 \<le> 1 \<and> region_capacity mb2 = 128 \<and> reserved_region_capacity mb2 = reserved_region_capacity mb
    \<and> reserved_region_size mb2 \<le> Suc (reserved_region_size mb)"
proof -
  have e: "block_ok (emptied mb)" "nonempty (reserved_list (emptied mb))" "separated (reserved_list (emptied mb))"
    "reserved_region_size (emptied mb) < reserved_region_capacity (emptied mb)"
    using mb emptied_block_ok by (simp_all add: alloc_ok_def) (simp add: emptied_def)
  obtain mb1 where r: "remove_reserved_alloc_record (emptied mb) a n = Some mb1" "block_ok mb1" "free_list mb1 = []"
    "nonempty (reserved_list mb1)" "separated (reserved_list mb1)" "cover (reserved_list mb1) = cover (reserved_list mb) - {a..<a + n}"
    "mb1 = (emptied mb)\<lparr>reserved_regions := reserved_regions mb1, reserved_region_size := reserved_region_size mb1\<rparr>"
    "reserved_region_size mb1 \<le> Suc (reserved_region_size (emptied mb))"
    using remove_reserved_alloc_record_ok [OF e sz(1), of a] sub by auto
  have f: "region_size mb1 = 0" "region_capacity mb1 = 128" "allocatable mb1"
    "reserved_region_capacity mb1 = reserved_region_capacity mb"
    by (subst r(7), simp add: emptied_def)+
  obtain mb2 where a: "add_free_region_merge mb1 a n = Some mb2" "block_ok mb2" "reserved_list mb2 = reserved_list mb1"
    "nonempty (free_list mb2)" "cover (free_list mb2) = {a..<a + n}"
    "mb2 = mb1\<lparr>regions := regions mb2, region_size := region_size mb2\<rparr>" "region_size mb2 \<le> 1"
    using add_free_region_merge_ok [OF r(2) _ _ sz] r(3) f by auto
  have fields: "region_capacity mb2 = 128" "allocatable mb2" "reserved_region_capacity mb2 = reserved_region_capacity mb"
    "reserved_region_size mb2 = reserved_region_size mb1"
    using f by (subst a(6), simp)+
  then have "alloc_ok mb2"
    using r a room mb by (auto simp: alloc_ok_def emptied_def)
  then show ?thesis using r a fields by (auto simp: emptied_def)
qed

text \<open>A single region with the addresses of an interval is that interval.\<close>

lemma single_region:
  assumes "cover rs = {a..<a + n}" and "length rs \<le> 1" and "0 < n"
  shows "rs = [\<lparr>address = a, mr_size = n\<rparr>]"
proof -
  obtain g where rs: "rs = [g]"
    using assms by (cases rs) auto
  have s: "{address g..<fin g} = {a..<a + n}" using assms(1) rs by (simp add: cover_def span_def)
  moreover have lt: "a < a + n" "address g < fin g" using s assms(3) by (simp, metis atLeastLessThan_empty_iff less_add_same_cancel1)
  ultimately have "address g = a" "fin g = a + n"
    using atLeastLessThan_inj [OF s lt(2,1)] by simp_all
  then show ?thesis using rs by (cases g) (simp add: fin_def)
qed

lemma trim_for_boot_total:
  assumes mb: "alloc_ok mb" "headroom mb" and n: "0 < n" and wrap: "\<forall>g \<in> set (free_list mb). address g + n < usize_limit"
    and fits: "\<exists>g \<in> set (free_list mb). n \<le> mr_size g"
  shows "\<exists>a rs mb'. trim_for_boot raw mb n = Some (Inr (map (\<lambda>r. (address r, mr_size r)) rs), mb') \<and> alloc_ok mb'
    \<and> regions_ok rs \<and> nonempty rs \<and> length rs \<le> Suc (reserved_region_size mb) \<and> a + n < usize_limit
    \<and> {a..<a + n} \<subseteq> cover (free_list mb) \<and> cover rs = cover (reserved_list mb) \<union> {a..<a + n}
    \<and> free_list mb' = [\<lparr>address = a, mr_size = n\<rparr>] \<and> cover (reserved_list mb') = cover (reserved_list mb)
    \<and> region_size mb' = 1 \<and> region_capacity mb' = 128 \<and> reserved_region_capacity mb' = reserved_region_capacity mb
    \<and> reserved_region_size mb' \<le> reserved_region_size mb + 2"
proof -
  have f1: "fits n 1 g \<longleftrightarrow> n \<le> mr_size g" "no_wrap n 1 g \<longleftrightarrow> address g + n < usize_limit" for g
    by (auto simp: fits_def no_wrap_def align_up_def fin_def)
  have head: "ensure_overflow_headroom raw mb = Some mb" "allocatable mb"
    using ensure_overflow_headroom_id [OF mb] mb(1) by (simp_all add: alloc_ok_def)
  obtain a mb1 where a: "allocate_region_internal mb n 1 = Some (Some a, mb1)" "tables_ok mb1" "allocated mb 1 a n mb1"
    using allocate_region_internal_total [OF mb(1) _ n, of 1, unfolded f1, OF _ wrap] fits by auto
  have al: "{a..<a + n} \<subseteq> cover (free_list mb)" "a + n < usize_limit"
    "cover (reserved_list mb1) = cover (reserved_list mb) \<union> {a..<a + n}"
    "reserved_region_size mb1 \<le> Suc (reserved_region_size mb)" "reserved_region_capacity mb1 = reserved_region_capacity mb"
    using a(3) by (simp_all add: allocated_def)
  have ok: "alloc_ok mb1"
    using a(2,3) mb(2) by (simp add: alloc_ok_tables allocated_def headroom_def)
  obtain mb2 mb3 where g: "remove_reserved_alloc_record (emptied mb1) a n = Some mb2" "add_free_region_merge mb2 a n = Some mb3"
    "alloc_ok mb3" "cover (free_list mb3) = {a..<a + n}" "cover (reserved_list mb3) = cover (reserved_list mb1) - {a..<a + n}"
    "region_size mb3 \<le> 1" "region_capacity mb3 = 128" "reserved_region_capacity mb3 = reserved_region_capacity mb1"
    "reserved_region_size mb3 \<le> Suc (reserved_region_size mb1)"
    using give_back [OF ok n al(2)] al(3-5) mb(2) by (auto simp: headroom_def)
  have len: "length (free_list mb3) = region_size mb3" "length (reserved_list mb1) = reserved_region_size mb1"
    using alloc_okD(1) [OF g(3)] alloc_okD(2) [OF ok] by (simp_all add: holds_def)
  have one: "free_list mb3 = [\<lparr>address = a, mr_size = n\<rparr>]"
    using single_region [OF g(4) _ n] g(6) len(1) by simp
  have "trim_for_boot raw mb n = Some (Inr (map (\<lambda>r. (address r, mr_size r)) (reserved_list mb1)), mb3)"
    using head a(1) g(1,2) by (simp add: trim_for_boot_def emptied_def reserved_list_def)
  moreover have "cover (reserved_list mb3) = cover (reserved_list mb)"
    using g(5) al(1,3) mb(1) by (auto simp: alloc_ok_def)
  ultimately show ?thesis
    using g al len one alloc_okD(4,6) [OF ok]
    by (intro exI [of _ a] exI [of _ "reserved_list mb1"] exI [of _ mb3]) simp
qed

text \<open>
  The memory the boot loader hands over: if one free region is large enough, \<open>trim_for_boot\<close> keeps one
  interval of the asked size as the only free memory of the allocator, and returns a list that covers exactly this
  interval and everything that was allocated; so memory outside the list is never touched by the loader
  again. The allocator keeps its invariant and its allocations. If no region is large enough the result is an
  error and nothing changes.
\<close>

lemma trim_for_boot_hands_over:
  assumes mb: "alloc_ok mb" "headroom mb" and n: "0 < n" and wrap: "\<forall>g \<in> set (free_list mb). address g + n < usize_limit"
  shows "if \<exists>g \<in> set (free_list mb). n \<le> mr_size g
    then \<exists>a vec mb'. trim_for_boot raw mb n = Some (Inr vec, mb') \<and> alloc_ok mb'
      \<and> {a..<a + n} \<subseteq> cover (free_list mb) \<and> pair_spans vec = cover (reserved_list mb) \<union> {a..<a + n}
      \<and> cover (free_list mb') = {a..<a + n} \<and> cover (reserved_list mb') = cover (reserved_list mb)
    else trim_for_boot raw mb n = Some (Inl ''allocation failed'', mb)"
proof (cases "\<exists>g \<in> set (free_list mb). n \<le> mr_size g")
  case True
  obtain a rs mb' where t: "trim_for_boot raw mb n = Some (Inr (map (\<lambda>r. (address r, mr_size r)) rs), mb')" "alloc_ok mb'"
    "{a..<a + n} \<subseteq> cover (free_list mb)" "cover rs = cover (reserved_list mb) \<union> {a..<a + n}"
    "free_list mb' = [\<lparr>address = a, mr_size = n\<rparr>]" "cover (reserved_list mb') = cover (reserved_list mb)"
    using trim_for_boot_total [OF assms True, of raw] by blast
  then have "\<exists>vec mb'. trim_for_boot raw mb n = Some (Inr vec, mb') \<and> alloc_ok mb'
      \<and> {a..<a + n} \<subseteq> cover (free_list mb) \<and> pair_spans vec = cover (reserved_list mb) \<union> {a..<a + n}
      \<and> cover (free_list mb') = {a..<a + n} \<and> cover (reserved_list mb') = cover (reserved_list mb)"
    by (intro exI [of _ "map (\<lambda>r. (address r, mr_size r)) rs"] exI [of _ mb']) (simp add: pair_spans_regions span_def fin_def)
  then show ?thesis using True by auto
next
  case False
  have f1: "fits n 1 g \<longleftrightarrow> n \<le> mr_size g" "no_wrap n 1 g \<longleftrightarrow> address g + n < usize_limit" for g
    by (auto simp: fits_def no_wrap_def align_up_def fin_def)
  have "allocate_region_internal mb n 1 = Some (None, mb)"
    using allocate_region_internal_total [OF mb(1) _ n, of 1, unfolded f1, OF _ wrap] False by auto
  then show ?thesis
    using False ensure_overflow_headroom_id [OF mb] mb(1) by (simp add: trim_for_boot_def alloc_ok_def)
qed

lemma trim_for_boot_hands_over_example:
  "\<exists>a vec mb'. trim_for_boot (\<lambda>_. zero_region) demo 0x8000 = Some (Inr vec, mb') \<and> alloc_ok mb'
     \<and> pair_spans vec = {4160..<4260} \<union> {a..<a + 0x8000} \<and> cover (free_list mb') = {a..<a + 0x8000}"
  using trim_for_boot_hands_over [OF demo_ok demo_headroom, of "0x8000" "\<lambda>_. zero_region"] by (auto simp: usize_limit_def span_def)

end
