(* ===== verification/Block_Device.thy ===== *)
theory Block_Device
  imports Typestate
begin

text \<open>
  The interface of \<open>src/file/block-device-api/src/lib.rs\<close>. A device, as its clients see it, is a record
  of the answers of the trait's methods; \<open>dev_read lba len\<close> is \<open>read_at\<close> into a buffer of \<open>len\<close> bytes, with
  the bytes the buffer holds afterwards. \<open>device_serves\<close> is the contract of the trait for reads: a
  request for a positive number of whole blocks inside the device fills the buffer with the blocks.
\<close>

datatype IoError =
    InvalidParam | OutOfRange | Align | Busy | Timeout | Device | ReadOnly | Unsupported
  | NoMemory | Io | Protocol | NotReady | Corrupted

record BlockDevice =
  block_size :: usize
  num_blocks :: nat
  dev_read :: "nat \<Rightarrow> nat \<Rightarrow> IoError + byte list"
  is_read_only :: "IoError + bool"
  dev_flush :: "IoError + unit"

type_synonym disk = "nat \<Rightarrow> byte list"

definition blocks :: "disk \<Rightarrow> nat \<Rightarrow> nat \<Rightarrow> byte list" where
  "blocks disk lba n = concat (map disk [lba..<lba + n])"

definition device_serves :: "BlockDevice \<Rightarrow> disk \<Rightarrow> bool" where
  "device_serves dev disk \<longleftrightarrow>
     0 < block_size dev \<and> (\<forall>lba. length (disk lba) = block_size dev)
     \<and> (\<forall>lba n. 0 < n \<longrightarrow> lba + n \<le> num_blocks dev \<longrightarrow> dev_read dev lba (n * block_size dev) = Inr (blocks disk lba n))"

lemma blocks_length:
  "(\<And>lba. length (disk lba) = bs) \<Longrightarrow> length (blocks disk lba n) = n * bs"
  unfolding blocks_def by (induction n) simp_all

lemma blocks_add: "blocks disk lba (m + n) = blocks disk lba m @ blocks disk (lba + m) n"
  unfolding blocks_def map_append [symmetric] concat_append [symmetric]
  by (metis add.assoc le_add1 upt_add_eq_append)

lemma blocks_0 [simp]: "blocks disk lba 0 = []"
  by (simp add: blocks_def)

lemma device_serves_read:
  "device_serves dev disk \<Longrightarrow> 0 < n \<Longrightarrow> lba + n \<le> num_blocks dev
     \<Longrightarrow> dev_read dev lba (n * block_size dev) = Inr (blocks disk lba n)"
  by (simp add: device_serves_def)

text \<open>The bytes of a sector in a run of sectors.\<close>

lemma take_drop_blocks:
  assumes "\<And>lba. length (disk lba) = bs" "k < n" "r + m \<le> bs"
  shows "take m (drop (k * bs + r) (blocks disk lba n)) = take m (drop r (disk (lba + k)))"
proof -
  have n: "n = k + (1 + (n - k - 1))" using assms(2) by simp
  have "blocks disk lba n = blocks disk lba k @ disk (lba + k) @ blocks disk (lba + k + 1) (n - k - 1)"
    by (subst n, simp only: blocks_add) (simp add: blocks_def)
  moreover have "length (blocks disk lba k) = k * bs" by (rule blocks_length) (rule assms(1))
  ultimately show ?thesis using assms(3) by (simp add: assms(1))
qed

text \<open>A device that serves a disk from memory, for the witnesses.\<close>

definition ram_device :: "usize \<Rightarrow> nat \<Rightarrow> disk \<Rightarrow> BlockDevice" where
  "ram_device bs n disk = \<lparr>block_size = bs, num_blocks = n,
     dev_read = (\<lambda>lba len. if len = 0 \<or> len mod bs \<noteq> 0 then Inl InvalidParam
        else if n < lba + len div bs then Inl OutOfRange else Inr (blocks disk lba (len div bs))),
     is_read_only = Inr False, dev_flush = Inr ()\<rparr>"

lemma ram_device_serves:
  "0 < bs \<Longrightarrow> (\<And>lba. length (disk lba) = bs) \<Longrightarrow> device_serves (ram_device bs n disk) disk"
  by (simp add: device_serves_def ram_device_def)

end
