(* ===== verification/Aligned_Box.thy ===== *)
theory Aligned_Box
  imports Allocator_Spec
begin

text \<open>
  \<open>AlignedSliceBox\<close> of \<open>src/file/filesystem/src/aligned_box.rs\<close> on the global allocator: a slice of \<open>len\<close>
  elements of \<open>elem\<close> bytes each, allocated with an alignment of the caller's choice and released with
  the same layout. \<open>handle_alloc_error\<close> does not return and is \<^term>\<open>None\<close>, as a panic is.
\<close>

unbundle bit_operations_syntax

record AlignedSliceBox =
  box_ptr :: usize
  box_len :: usize
  box_align :: usize

definition validate_align :: "usize \<Rightarrow> usize \<Rightarrow> string + usize" where
  "validate_align elem_align align =
     (if align = 0 then Inl ''align must be non-zero''
      else if align AND (align - 1) \<noteq> 0 then Inl ''align must be a power of two''
      else if align < elem_align then Inl ''align must be >= align_of::<T>()''
      else Inr align)"

text \<open>The layout of a box, or the error of \<open>new_uninit_with_align\<close>; no layout for an empty box.\<close>

definition box_layout :: "usize \<Rightarrow> usize \<Rightarrow> usize \<Rightarrow> usize \<Rightarrow> string + Layout option" where
  "box_layout elem elem_align len align =
     (if elem = 0 \<or> len = 0 then Inr None
      else (case validate_align elem_align align of
              Inl e \<Rightarrow> Inl e
            | Inr a \<Rightarrow>
                (case umul elem len of
                   None \<Rightarrow> Inl ''size overflow''
                 | Some bytes \<Rightarrow>
                     (case from_size_align bytes a of
                        None \<Rightarrow> Inl ''invalid layout''
                      | Some layout \<Rightarrow> Inr (Some layout)))))"

definition new_uninit_with_align ::
  "(usize \<Rightarrow> MemoryRegions) \<Rightarrow> usize \<Rightarrow> MemoryAllocator \<Rightarrow> usize \<Rightarrow> usize \<Rightarrow> usize \<Rightarrow> usize
     \<Rightarrow> ((string + AlignedSliceBox) \<times> MemoryAllocator) option" where
  "new_uninit_with_align raw max_bytes ma elem elem_align len align =
     (case box_layout elem elem_align len align of
        Inl e \<Rightarrow> Some (Inl e, ma)
      | Inr None \<Rightarrow> Some (Inr \<lparr>box_ptr = elem_align, box_len = len, box_align = elem_align\<rparr>, ma)
      | Inr (Some layout) \<Rightarrow> do {
          (p, ma') \<leftarrow> global_alloc raw max_bytes ma layout;
          rust_assert (p \<noteq> 0);
          Some (Inr \<lparr>box_ptr = p, box_len = len, box_align = align\<rparr>, ma')
        })"

definition into_raw_parts :: "AlignedSliceBox \<Rightarrow> usize \<times> usize \<times> usize" where
  "into_raw_parts b = (box_ptr b, box_len b, box_align b)"

definition assume_init :: "AlignedSliceBox \<Rightarrow> AlignedSliceBox" where
  "assume_init b = (case into_raw_parts b of (p, len, align) \<Rightarrow> \<lparr>box_ptr = p, box_len = len, box_align = align\<rparr>)"

definition deref_uninit_u8_len :: "usize \<Rightarrow> AlignedSliceBox \<Rightarrow> usize option" where
  "deref_uninit_u8_len elem b = umul (box_len b) elem"

definition box_drop ::
  "(usize \<Rightarrow> MemoryRegions) \<Rightarrow> usize \<Rightarrow> MemoryAllocator \<Rightarrow> usize \<Rightarrow> AlignedSliceBox \<Rightarrow> MemoryAllocator option" where
  "box_drop raw max_bytes ma elem b =
     (if elem = 0 \<or> box_len b = 0 then Some ma
      else do {
        bytes \<leftarrow> umul elem (box_len b);
        layout \<leftarrow> from_size_align bytes (box_align b);
        global_dealloc raw max_bytes ma (box_ptr b) layout
      })"

lemma box_layout_Some:
  assumes "box_layout elem elem_align len align = Inr (Some layout)"
  shows "0 < elem \<and> 0 < len \<and> umul elem len = Some (elem * len) \<and> from_size_align (elem * len) align = Some layout
     \<and> elem_align \<le> align"
  using assms
  by (auto simp: box_layout_def validate_align_def umul_def split: if_splits sum.splits option.splits)

text \<open>
  A non-empty \<open>AlignedSliceBox\<close> holds a block that the global allocator returned for a layout of
  \<open>size_of::<T>() * len\<close> bytes and the requested alignment, and dropping it in any later state of the
  allocator, after \<open>assume_init\<close> or not, returns the block with exactly this layout and does not panic in
  computing it.
\<close>

lemma aligned_box_roundtrip:
  assumes "new_uninit_with_align raw max_bytes ma elem elem_align len align = Some (Inr b, ma')"
    and "0 < elem" "0 < len"
  shows "\<exists>layout. layout_size layout = elem * len \<and> layout_align layout = align
     \<and> global_alloc raw max_bytes ma layout = Some (box_ptr b, ma') \<and> box_ptr b \<noteq> 0 \<and> box_len b = len
     \<and> (\<forall>ma''. box_drop raw max_bytes ma'' elem (assume_init b) = global_dealloc raw max_bytes ma'' (box_ptr b) layout
          \<and> box_drop raw max_bytes ma'' elem b = global_dealloc raw max_bytes ma'' (box_ptr b) layout)"
proof -
  obtain layout where layout: "box_layout elem elem_align len align = Inr (Some layout)"
    and alloc: "global_alloc raw max_bytes ma layout = Some (box_ptr b, ma')" "box_ptr b \<noteq> 0" "box_len b = len"
      "box_align b = align"
    using assms
    by (auto simp: new_uninit_with_align_def box_layout_def rust_assert_def
        split: sum.splits option.splits if_splits bind_splits)
  note L = box_layout_Some [OF layout]
  then have "layout_size layout = elem * len" "layout_align layout = align"
    by (auto simp: from_size_align_def split: if_splits)
  moreover have "box_drop raw max_bytes ma'' elem b' = global_dealloc raw max_bytes ma'' (box_ptr b) layout"
    if "b' = b \<or> b' = assume_init b" for ma'' b'
    using that L alloc by (auto simp: box_drop_def assume_init_def into_raw_parts_def)
  ultimately show ?thesis using alloc by blast
qed

lemma aligned_box_roundtrip_example:
  "\<exists>b ma. new_uninit_with_align (\<lambda>_. zero_region) GLOBAL_MAX_BYTES demo_allocator 1 1 5000 16 = Some (Inr b, ma)
     \<and> box_drop (\<lambda>_. zero_region) GLOBAL_MAX_BYTES ma 1 (assume_init b)
       = global_dealloc (\<lambda>_. zero_region) GLOBAL_MAX_BYTES ma (box_ptr b) \<lparr>layout_size = 5000, layout_align = 16\<rparr>"
proof -
  obtain p ma where "global_alloc (\<lambda>_. zero_region) GLOBAL_MAX_BYTES demo_allocator \<lparr>layout_size = 5000, layout_align = 16\<rparr>
     = Some (p, ma)" "p \<noteq> 0" using demo_large_alloc by blast
  moreover have "box_layout 1 1 5000 16 = Inr (Some \<lparr>layout_size = 5000, layout_align = 16\<rparr>)"
    by (simp add: box_layout_def validate_align_def is_power_of_two_def umul_def from_size_align_def isize_MAX_def
        usize_limit_def power_from.simps)
  ultimately have new: "new_uninit_with_align (\<lambda>_. zero_region) GLOBAL_MAX_BYTES demo_allocator 1 1 5000 16
      = Some (Inr \<lparr>box_ptr = p, box_len = 5000, box_align = 16\<rparr>, ma)"
    by (simp add: new_uninit_with_align_def rust_assert_def)
  obtain layout where "layout_size layout = 5000" "layout_align layout = 16"
    "box_drop (\<lambda>_. zero_region) GLOBAL_MAX_BYTES ma 1 (assume_init \<lparr>box_ptr = p, box_len = 5000, box_align = 16\<rparr>)
       = global_dealloc (\<lambda>_. zero_region) GLOBAL_MAX_BYTES ma p layout"
    using aligned_box_roundtrip [OF new] by auto
  then show ?thesis using new by (metis (full_types) AlignedSliceBox.select_convs(1) Layout.surjective old.unit.exhaust)
qed

end
