(* ===== verification/Fat32.thy ===== *)
theory Fat32
  imports Block_Device Aligned_Box
begin

text \<open>
  The FAT32 driver of \<open>src/file/filesystem/src/filesystem/fat32.rs\<close> with the structures of
  \<open>fat32/sector.rs\<close> and the cluster iterator of \<open>fat32/fat.rs\<close>. The block device is an argument. A
  \<open>&str\<close> is the list of its bytes. The loops over the clusters of a chain are partial functions: a
  cyclic chain gives \<^term>\<open>None\<close>, as a panic does.

  Sums and products of sector numbers are written unchecked where the widths of the fields exclude an
  overflow of \<open>u64\<close>; the subtractions and the one 32-bit addition that can fail are checked. Buffers
  are taken to be available, the errors of \<open>AlignedSliceBox\<close> for an alignment included; the address at
  which the heap places a buffer is the argument \<open>place\<close>, since the directory entries are read
  through references that require their alignment.
\<close>

unbundle bit_operations_syntax

section \<open>Data\<close>

datatype FileSystemErr =
    BlockDeviceErr IoError | UnknownPartition | UnusedPartition | UnsupportedFileSystem | NotFound
  | AlreadyExists | IsDir | NotDir | ReadOnly | NoSpace | InvalidInput | Busy | Corrupted | Closed
  | NotRootDir | UnsupportedFileName | TooBigBuffer | IncompleteRead

record FAT32FileSystem =
  bytes_per_sector :: nat
  sectors_per_cluster :: nat
  reserved_sectors :: nat
  num_fats :: nat
  sectors_per_fat :: nat
  root_dir_cluster :: nat
  hidden_sector :: nat
  total_sectors :: nat
  count_of_clusters :: nat
  first_data_sectors :: nat

record DirMeta =
  is_dir :: bool
  is_readonly :: bool
  first_cluster :: nat
  file_size :: nat

datatype OpenOptions = Read | Write

text \<open>The fields of \<open>FAT32BootSector\<close> that the driver reads, at their offsets in the sector.\<close>

record FAT32BootSector =
  bpb_bytes_per_sec :: nat
  bpb_sec_per_clus :: nat
  bpb_rsvd_sec_cnt :: nat
  bpb_num_fats :: nat
  bpb_root_ent_cnt :: nat
  bpb_tot_sec_16 :: nat
  bpb_fat_sz16 :: nat
  bpb_hidd_sec :: nat
  bpb_tot_sec_32 :: nat
  bpb_fat_sz_32 :: nat
  bpb_root_clus :: nat
  bs_boot_sign :: nat

definition boot_sector_ref :: "byte list \<Rightarrow> FAT32BootSector" where
  "boot_sector_ref data = \<lparr>bpb_bytes_per_sec = from_le 2 (field data 11 2), bpb_sec_per_clus = field data 13 1,
     bpb_rsvd_sec_cnt = from_le 2 (field data 14 2), bpb_num_fats = field data 16 1,
     bpb_root_ent_cnt = from_le 2 (field data 17 2), bpb_tot_sec_16 = from_le 2 (field data 19 2),
     bpb_fat_sz16 = from_le 2 (field data 22 2), bpb_hidd_sec = from_le 4 (field data 28 4),
     bpb_tot_sec_32 = from_le 4 (field data 32 4), bpb_fat_sz_32 = from_le 4 (field data 36 4),
     bpb_root_clus = from_le 4 (field data 44 4), bs_boot_sign = from_le 2 (field data 510 2)\<rparr>"

definition FAT32FileSystem_new ::
  "usize \<Rightarrow> FAT32BootSector \<Rightarrow> nat \<Rightarrow> nat \<Rightarrow> FileSystemErr + FAT32FileSystem" where
  "FAT32FileSystem_new bs boot count first =
     (if bpb_bytes_per_sec boot \<notin> {512, 1024, 2048, 4096} then Inl Corrupted
      else if bpb_sec_per_clus boot \<notin> {1, 2, 4, 8, 16, 32, 64, 128} then Inl Corrupted
      else if bpb_bytes_per_sec boot \<noteq> bs mod 2 ^ 16 then Inl Corrupted
      else if bpb_hidd_sec boot \<noteq> first \<or> bpb_num_fats boot = 0 \<or> bpb_rsvd_sec_cnt boot = 0 then Inl Corrupted
      else Inr \<lparr>bytes_per_sector = bpb_bytes_per_sec boot, sectors_per_cluster = bpb_sec_per_clus boot,
        reserved_sectors = bpb_rsvd_sec_cnt boot, num_fats = bpb_num_fats boot,
        sectors_per_fat = bpb_fat_sz_32 boot, root_dir_cluster = bpb_root_clus boot,
        hidden_sector = bpb_hidd_sec boot, total_sectors = bpb_tot_sec_32 boot, count_of_clusters = count,
        first_data_sectors = bpb_rsvd_sec_cnt boot + bpb_num_fats boot * bpb_fat_sz_32 boot\<rparr>)"

section \<open>The cluster iterator\<close>

record FAT32FATIter =
  next_cluster :: "nat option"
  fat_cache :: "(nat list \<times> nat \<times> nat) option"

definition FAT32FAT_MASK :: nat where
  "FAT32FAT_MASK = 0x0FFFFFFF"

definition ALLOCATE_SIZE :: nat where
  "ALLOCATE_SIZE = 16"

definition FAT32FATIter_new :: "nat \<Rightarrow> FAT32FATIter" where
  "FAT32FATIter_new first =
     \<lparr>next_cluster = (if first = 0 then None else Some first), fat_cache = None\<rparr>"

text \<open>The elements of an \<open>AlignedSliceBox<FAT32FAT>\<close>, as native integers, from its bytes.\<close>

definition fat_entries :: "byte list \<Rightarrow> nat list" where
  "fat_entries data = map (\<lambda>i. field data (4 * i) 4) [0..<length data div 4]"

text \<open>The window of the FAT that is read around a sector: its first sector and its length.\<close>

definition fat_window :: "FAT32FileSystem \<Rightarrow> nat \<Rightarrow> nat \<times> nat" where
  "fat_window fs entry_sector =
     (let spf = sectors_per_fat fs; fat_relative = entry_sector - ALLOCATE_SIZE div 2;
          read_sectors = min ALLOCATE_SIZE spf
      in if spf < fat_relative + read_sectors
         then if spf < read_sectors then (0, spf) else (spf - read_sectors, read_sectors)
         else (fat_relative, read_sectors))"

text \<open>The second half of \<open>next\<close>, with the window that holds the entry; the cache has been taken.\<close>

definition fat_step ::
  "FAT32FileSystem \<Rightarrow> nat \<Rightarrow> nat list \<times> nat \<times> nat
     \<Rightarrow> ((FileSystemErr + nat) option \<times> FAT32FATIter) option" where
  "fat_step fs cluster fat = do {
     let (entries, start, len) = fat;
     let bps = bytes_per_sector fs;
     let cache_start = start * bps;
     let cache_end = cache_start + len * bps;
     let taken = \<lparr>next_cluster = Some cluster, fat_cache = None\<rparr>;
     current_fat_ptr \<leftarrow> usub (cluster * 4) cache_start;
     rust_assert (current_fat_ptr div 4 < length entries);
     rust_assert (length entries * 4 = len * bps);
     e \<leftarrow> slice_get entries (current_fat_ptr div 4);
     let current_fat = from_le 4 e AND FAT32FAT_MASK;
     if current_fat \<le> 1 \<or> 0x0FFFFFF0 \<le> current_fat \<and> current_fat \<le> 0x0FFFFFF7
       then Some (Some (Inl Corrupted), taken)
     else do {
       after \<leftarrow> (if 0x0FFFFFF8 \<le> current_fat
          then Some (Some \<lparr>next_cluster = None, fat_cache = None\<rparr>)
          else do {
            limit \<leftarrow> u32_add (count_of_clusters fs) 1;
            Some (if limit < current_fat then None
                  else Some \<lparr>next_cluster = Some current_fat,
                    fat_cache = (if cache_start \<le> current_fat * 4 \<and> current_fat * 4 < cache_end
                                 then Some fat else None)\<rparr>)
          });
       case after of
         None \<Rightarrow> Some (Some (Inl Corrupted), taken)
       | Some it' \<Rightarrow> do {
           index \<leftarrow> usub cluster 2;
           Some (Some (Inr (hidden_sector fs + reserved_sectors fs + num_fats fs * sectors_per_fat fs
                + index * sectors_per_cluster fs)), it')
         }
     }
   }"

text \<open>\<open>AlignedSliceBox::new_uninit_with_align(..).unwrap()\<close>: a panic when the layout is refused.\<close>

definition new_box :: "usize \<Rightarrow> usize \<Rightarrow> usize \<Rightarrow> usize \<Rightarrow> unit option" where
  "new_box elem elem_align len align =
     (case box_layout elem elem_align len align of Inl _ \<Rightarrow> None | Inr _ \<Rightarrow> Some ())"

definition FAT32FATIter_next ::
  "BlockDevice \<Rightarrow> FAT32FileSystem \<Rightarrow> FAT32FATIter \<Rightarrow> ((FileSystemErr + nat) option \<times> FAT32FATIter) option" where
  "FAT32FATIter_next dev fs it =
     (case next_cluster it of
        None \<Rightarrow> Some (None, it)
      | Some cluster \<Rightarrow> do {
          let bps = bytes_per_sector fs;
          rust_assert (0 < bps);
          let (fat_relative, read_sectors) = fat_window fs (cluster * 4 div bps);
          let fat_lba = hidden_sector fs + reserved_sectors fs + fat_relative;
          let allocate_size = read_sectors * bps;
          (case fat_cache it of
             Some fat \<Rightarrow> fat_step fs cluster fat
           | None \<Rightarrow> do {
               new_box 4 4 (allocate_size div 4) 4;
               (case dev_read dev fat_lba (allocate_size div 4 * 4) of
                  Inl e \<Rightarrow> Some (Some (Inl (BlockDeviceErr e)), it)
                | Inr data \<Rightarrow> fat_step fs cluster (fat_entries data, fat_relative, read_sectors))
             })
        })"

section \<open>Reading a file\<close>

text \<open>
  The loop of \<open>read_at\<close> over the clusters from number \<open>i\<close> on: the buffer \<open>tmp\<close> holds the sectors read so
  far, so that its length in sectors is \<open>tmp_ptr_sectors\<close>; the result is \<open>sectors_remaining\<close> and \<open>tmp\<close>.
\<close>

partial_function (option) read_loop ::
  "BlockDevice \<Rightarrow> FAT32FileSystem \<Rightarrow> nat \<Rightarrow> nat \<Rightarrow> FAT32FATIter \<Rightarrow> nat \<Rightarrow> nat \<Rightarrow> byte list
     \<Rightarrow> (FileSystemErr + nat \<times> byte list) option" where
  "read_loop dev fs start_cluster start_sector_off it i sectors_remaining tmp = do {
     (item, it') \<leftarrow> FAT32FATIter_next dev fs it;
     (case item of
        None \<Rightarrow> Some (Inr (sectors_remaining, tmp))
      | Some (Inl e) \<Rightarrow> Some (Inl e)
      | Some (Inr lba) \<Rightarrow>
          if i < start_cluster then
            read_loop dev fs start_cluster start_sector_off it' (i + 1) sectors_remaining tmp
          else if sectors_remaining = 0 then Some (Inr (sectors_remaining, tmp))
          else do {
            let first = (if i = start_cluster then start_sector_off else 0);
            can_read \<leftarrow> usub (sectors_per_cluster fs) first;
            let read_sectors = min can_read sectors_remaining;
            (case dev_read dev (lba + first) (read_sectors * block_size dev) of
               Inl e \<Rightarrow> Some (Inl (BlockDeviceErr e))
             | Inr data \<Rightarrow>
                 read_loop dev fs start_cluster start_sector_off it' (i + 1) (sectors_remaining - read_sectors) (tmp @ data))
          })
   }"

definition div_ceil :: "usize \<Rightarrow> usize \<Rightarrow> usize" where
  "div_ceil a b = (a + b - 1) div b"

text \<open>
  \<open>read_at\<close> into a buffer of \<open>to_read\<close> bytes, with the contents of the buffer on success. The length that
  \<open>read\<close> compares with the length of its buffer is \<open>to_read\<close>, so its assertion holds by construction.
\<close>

definition fat32_read_at ::
  "BlockDevice \<Rightarrow> FAT32FileSystem \<Rightarrow> nat \<Rightarrow> usize \<Rightarrow> DirMeta \<Rightarrow> (FileSystemErr + byte list) option" where
  "fat32_read_at dev fs offset to_read meta = do {
     let bs = block_size dev;
     let bpc = bs * sectors_per_cluster fs;
     if file_size meta < offset then Some (Inl InvalidInput)
     else if file_size meta - offset < to_read then Some (Inl TooBigBuffer)
     else do {
       rust_assert (0 < bpc);
       let start_cluster = offset div bpc;
       let cluster_off = offset mod bpc;
       let start_sector_off = cluster_off div bs;
       let start_byte_in_sector = cluster_off mod bs;
       total \<leftarrow> uadd start_byte_in_sector to_read;
       let sectors_needed = div_ceil total bs;
       _ \<leftarrow> umul sectors_needed bs;
       res \<leftarrow> read_loop dev fs start_cluster start_sector_off (FAT32FATIter_new (first_cluster meta)) 0 sectors_needed [];
       (case res of
          Inl e \<Rightarrow> Some (Inl e)
        | Inr (sectors_remaining, tmp) \<Rightarrow>
            if sectors_remaining \<noteq> 0 then Some (Inl IncompleteRead)
            else do {
              src \<leftarrow> slice_range tmp start_byte_in_sector (start_byte_in_sector + to_read);
              Some (Inr src)
            })
     }
   }"

definition fat32_read ::
  "BlockDevice \<Rightarrow> FAT32FileSystem \<Rightarrow> usize \<Rightarrow> DirMeta \<Rightarrow> (FileSystemErr + byte list) option" where
  "fat32_read dev fs align meta = do {
     new_box 1 1 (file_size meta) align;
     fat32_read_at dev fs 0 (file_size meta) meta
   }"

end
