(* ===== verification/Fat32_Dir.thy ===== *)
theory Fat32_Dir
  imports Fat32
begin

text \<open>
  Names and directories: \<open>is_encode_83\<close>, \<open>compare_utf16_and_ascii\<close>, the search of a directory and \<open>open\<close> of
  \<open>src/file/filesystem/src/filesystem/fat32.rs\<close>, on the directory entries of \<open>fat32/sector.rs\<close>. A string
  is the list of its bytes.
\<close>

unbundle bit_operations_syntax

section \<open>Names\<close>

definition is_ascii_alphanumeric :: "byte \<Rightarrow> bool" where
  "is_ascii_alphanumeric c \<longleftrightarrow> 48 \<le> c \<and> c \<le> 57 \<or> 65 \<le> c \<and> c \<le> 90 \<or> 97 \<le> c \<and> c \<le> 122"

definition to_ascii_uppercase :: "byte \<Rightarrow> byte" where
  "to_ascii_uppercase c = (if 97 \<le> c \<and> c \<le> 122 then c - 32 else c)"

definition eq_ignore_ascii_case :: "byte \<Rightarrow> byte \<Rightarrow> bool" where
  "eq_ignore_ascii_case a b \<longleftrightarrow> to_ascii_uppercase a = to_ascii_uppercase b"

definition short_char :: "byte \<Rightarrow> bool" where
  "short_char c \<longleftrightarrow> is_ascii_alphanumeric c
     \<or> c \<in> set [46, 36, 37, 96, 45, 95, 64, 126, 39, 33, 40, 41, 123, 125, 94, 35, 38]"

definition long_char :: "byte \<Rightarrow> bool" where
  "long_char c \<longleftrightarrow> c \<in> set [43, 44, 59, 61, 91, 93, 32]"

text \<open>The loop over the characters: \<^term>\<open>Inr True\<close> when all may stand in a short name.\<close>

fun scan_chars :: "byte list \<Rightarrow> FileSystemErr + bool" where
  "scan_chars [] = Inr True"
| "scan_chars (c # cs) =
     (if short_char c then scan_chars cs else if long_char c then Inr False else Inl InvalidInput)"

fun split_on :: "byte \<Rightarrow> byte list \<Rightarrow> byte list list" where
  "split_on sep [] = [[]]"
| "split_on sep (c # cs) =
     (if c = sep then [] # split_on sep cs
      else (case split_on sep cs of [] \<Rightarrow> [[c]] | p # ps \<Rightarrow> (c # p) # ps))"

definition is_encode_83 :: "byte list \<Rightarrow> FileSystemErr + (byte list \<times> byte list) option" where
  "is_encode_83 name =
     (if \<not> list_all (\<lambda>c. c < 128) name then Inl InvalidInput
      else case scan_chars name of
        Inl e \<Rightarrow> Inl e
      | Inr False \<Rightarrow> Inr None
      | Inr True \<Rightarrow>
          (case split_on 46 name of
             [n] \<Rightarrow> Inr (if n = [] \<or> 8 < length n then None else Some (n, []))
           | [n, e] \<Rightarrow> Inr (if n = [] \<or> 8 < length n \<or> e = [] \<or> 3 < length e then None else Some (n, e))
           | _ \<Rightarrow> Inr None))"

text \<open>
  \<open>compare_utf16_and_ascii\<close>: the result and what is left of the name. An odd number of bytes is
  \<open>unreachable!()\<close>.
\<close>

fun compare_utf16_and_ascii :: "byte list \<Rightarrow> byte list \<Rightarrow> (FileSystemErr + bool \<times> byte list) option" where
  "compare_utf16_and_ascii [] ascii = Some (Inr (True, ascii))"
| "compare_utf16_and_ascii [_] ascii = None"
| "compare_utf16_and_ascii (lo # hi # utf16) ascii =
     (let u = unat lo + 256 * unat hi
      in if u = 0 then Some (Inr (ascii = [], ascii))
         else if u = 0xFFFF then compare_utf16_and_ascii utf16 ascii
         else if u \<le> 0x7F then
           (case ascii of
              [] \<Rightarrow> Some (Inr (False, []))
            | a # rest \<Rightarrow>
                if eq_ignore_ascii_case a lo then compare_utf16_and_ascii utf16 rest
                else Some (Inr (False, ascii)))
         else Some (Inl UnsupportedFileName))"

section \<open>Directory entries\<close>

definition ATTR_READ_ONLY :: byte where
  "ATTR_READ_ONLY = 0x01"

definition ATTR_VOLUME_ID :: byte where
  "ATTR_VOLUME_ID = 0x08"

definition ATTR_DIRECTORY :: byte where
  "ATTR_DIRECTORY = 0x10"

definition ATTR_LONG_NAME :: byte where
  "ATTR_LONG_NAME = 0x0F"

record FAT32ByteDirectoryEntry =
  dir_name :: "byte list"
  dir_attr :: byte
  dir_fst_clus_hi :: nat
  dir_fst_clus_lo :: nat
  dir_file_size :: nat

record FAT32LongDirectoryEntry =
  ldir_ord :: byte
  ldir_name1 :: "byte list"
  ldir_chksum :: byte
  ldir_name2 :: "byte list"
  ldir_fst_clus_lo :: nat
  ldir_name3 :: "byte list"

text \<open>
  The entries behind the pointers into the buffer \<open>data\<close> at address \<open>ptr\<close>; a short entry holds a \<open>u32\<close> and a
  long one a \<open>u16\<close>, so the references need an alignment of 4 and of 2.
\<close>

definition is_sde :: "byte list \<Rightarrow> nat \<Rightarrow> bool option" where
  "is_sde data i = do { a \<leftarrow> slice_get data (i + 11); Some (a \<noteq> ATTR_LONG_NAME) }"

definition sde_ref :: "usize \<Rightarrow> byte list \<Rightarrow> nat \<Rightarrow> FAT32ByteDirectoryEntry option" where
  "sde_ref ptr data i = do {
     rust_assert (is_multiple_of (ptr + i) 4);
     e \<leftarrow> slice_range data i (i + 32);
     Some \<lparr>dir_name = take 11 e, dir_attr = e ! 11, dir_fst_clus_hi = from_le 2 (field e 20 2),
       dir_fst_clus_lo = from_le 2 (field e 26 2), dir_file_size = from_le 4 (field e 28 4)\<rparr>
   }"

definition lde_ref :: "usize \<Rightarrow> byte list \<Rightarrow> nat \<Rightarrow> FAT32LongDirectoryEntry option" where
  "lde_ref ptr data i = do {
     rust_assert (is_multiple_of (ptr + i) 2);
     e \<leftarrow> slice_range data i (i + 32);
     Some \<lparr>ldir_ord = e ! 0, ldir_name1 = take 10 (drop 1 e), ldir_chksum = e ! 13, ldir_name2 = take 12 (drop 14 e),
       ldir_fst_clus_lo = field e 26 2, ldir_name3 = take 4 (drop 28 e)\<rparr>
   }"

definition calculate_next_dir :: "FAT32ByteDirectoryEntry \<Rightarrow> DirMeta" where
  "calculate_next_dir sde =
     \<lparr>is_dir = dir_attr sde AND ATTR_DIRECTORY = ATTR_DIRECTORY,
      is_readonly = dir_attr sde AND ATTR_READ_ONLY = ATTR_READ_ONLY,
      first_cluster = push_bit 16 (dir_fst_clus_hi sde) OR dir_fst_clus_lo sde,
      file_size = dir_file_size sde\<rparr>"

definition check_sum :: "byte list \<Rightarrow> byte" where
  "check_sum name = fold (\<lambda>c s. word_rotr 1 s + c) name 0"

text \<open>One of the two loops that compare a part of the short name, padded with blanks.\<close>

definition name_part_matches :: "nat \<Rightarrow> byte list \<Rightarrow> byte list \<Rightarrow> bool" where
  "name_part_matches n part stored \<longleftrightarrow>
     list_all (\<lambda>i. if i < length part then to_ascii_uppercase (part ! i) = stored ! i else stored ! i = 32) [0..<n]"

definition blank_rest :: "byte list \<Rightarrow> bool" where
  "blank_rest name \<longleftrightarrow> name = [] \<or> list_all (\<lambda>c. c = 32 \<or> c = 46) name"

text \<open>
  The comparison with one part of a long entry: an error or a decision (a match or the next directory
  entry) ends the loop over the parts, otherwise the rest of the name goes on.
\<close>

datatype lde_result = Matched | NextEntry | LdeErr FileSystemErr

definition compare_part :: "bool \<Rightarrow> byte list \<Rightarrow> byte list \<Rightarrow> (lde_result + byte list) option" where
  "compare_part is_last part name = do {
     r \<leftarrow> compare_utf16_and_ascii part name;
     Some (case r of
         Inl e \<Rightarrow> Inl (LdeErr e)
       | Inr (eq, rest) \<Rightarrow>
           if \<not> eq then Inl NextEntry
           else if blank_rest rest then Inl (if is_last then Matched else NextEntry)
           else Inr rest)
   }"

fun compare_parts :: "bool \<Rightarrow> byte list list \<Rightarrow> byte list \<Rightarrow> (lde_result + byte list) option" where
  "compare_parts is_last [] name = Some (Inr name)"
| "compare_parts is_last (p # ps) name = do {
     r \<leftarrow> compare_part is_last p name;
     (case r of Inl res \<Rightarrow> Some (Inl res) | Inr rest \<Rightarrow> compare_parts is_last ps rest)
   }"

text \<open>The loop over the long entries before the short entry at \<open>i\<close>; \<open>k\<close> of them are left.\<close>

fun lde_loop ::
  "usize \<Rightarrow> byte list \<Rightarrow> nat \<Rightarrow> nat \<Rightarrow> byte \<Rightarrow> nat \<Rightarrow> byte list \<Rightarrow> lde_result option" where
  "lde_loop ptr data i lde chk 0 name = Some NextEntry"
| "lde_loop ptr data i lde chk (Suc k) name = do {
     let j = lde - Suc k;
     pos \<leftarrow> usub i ((j + 1) * 32);
     e \<leftarrow> lde_ref ptr data pos;
     let is_last = (ldir_ord e AND 0x40 \<noteq> 0);
     if ldir_ord e AND 0x3F \<noteq> word_of_nat (j + 1) then Some (LdeErr Corrupted)
     else if is_last \<noteq> (j = lde - 1) then Some (LdeErr Corrupted)
     else if ldir_chksum e \<noteq> chk \<or> ldir_fst_clus_lo e \<noteq> 0 then Some (LdeErr Corrupted)
     else do {
       r \<leftarrow> compare_parts (j = lde - 1) [ldir_name1 e, ldir_name2 e, ldir_name3 e] name;
       (case r of Inl res \<Rightarrow> Some res | Inr rest \<Rightarrow> lde_loop ptr data i lde chk k rest)
     }
   }"

text \<open>The treatment of a short entry, with \<open>lde\<close> long entries before it.\<close>

definition match_sde ::
  "usize \<Rightarrow> byte list \<Rightarrow> (byte list \<times> byte list) option \<Rightarrow> byte list \<Rightarrow> nat \<Rightarrow> nat \<Rightarrow> FAT32ByteDirectoryEntry
     \<Rightarrow> lde_result option" where
  "match_sde ptr data short file_name lde i sde =
     (if dir_attr sde AND ATTR_VOLUME_ID = ATTR_VOLUME_ID then Some NextEntry
      else (case short of
              Some (name, extension) \<Rightarrow>
                Some (if name_part_matches 8 name (dir_name sde) \<and> name_part_matches 3 extension (drop 8 (dir_name sde))
                      then Matched else NextEntry)
            | None \<Rightarrow>
                if lde = 0 then Some NextEntry
                else if lde \<noteq> div_ceil (length file_name) 13 then Some NextEntry
                else lde_loop ptr data i lde (check_sum (dir_name sde)) lde file_name))"

text \<open>The loop over the offsets of the entries of a cluster.\<close>

fun dir_loop ::
  "usize \<Rightarrow> byte list \<Rightarrow> (byte list \<times> byte list) option \<Rightarrow> byte list \<Rightarrow> nat \<Rightarrow> nat list
     \<Rightarrow> (FileSystemErr + DirMeta option) option" where
  "dir_loop ptr data short file_name lde_num [] = Some (Inr None)"
| "dir_loop ptr data short file_name lde_num (i # is) = do {
     name0 \<leftarrow> slice_get data i;
     if name0 = 0 then Some (Inr None)
     else if name0 = 0xE5 then dir_loop ptr data short file_name 0 is
     else do {
       s \<leftarrow> is_sde data i;
       if s then do {
         sde \<leftarrow> sde_ref ptr data i;
         r \<leftarrow> match_sde ptr data short file_name lde_num i sde;
         (case r of
            Matched \<Rightarrow> Some (Inr (Some (calculate_next_dir sde)))
          | NextEntry \<Rightarrow> dir_loop ptr data short file_name 0 is
          | LdeErr e \<Rightarrow> Some (Inl e))
       }
       else dir_loop ptr data short file_name (lde_num + 1) is
     }
   }"

definition entry_offsets :: "nat \<Rightarrow> nat list" where
  "entry_offsets len = map (\<lambda>k. 32 * k) [0..<div_ceil len 32]"

partial_function (option) search_loop ::
  "BlockDevice \<Rightarrow> FAT32FileSystem \<Rightarrow> (usize \<Rightarrow> usize) \<Rightarrow> (byte list \<times> byte list) option \<Rightarrow> byte list \<Rightarrow> FAT32FATIter
     \<Rightarrow> (FileSystemErr + DirMeta option) option" where
  "search_loop dev fs place short file_name it = do {
     (item, it') \<leftarrow> FAT32FATIter_next dev fs it;
     (case item of
        None \<Rightarrow> Some (Inr None)
      | Some (Inl e) \<Rightarrow> Some (Inl e)
      | Some (Inr lba) \<Rightarrow> do {
          let len = sectors_per_cluster fs * block_size dev;
          new_box 1 1 len 2;
          (case dev_read dev lba len of
             Inl e \<Rightarrow> Some (Inl (BlockDeviceErr e))
           | Inr data \<Rightarrow> do {
               r \<leftarrow> dir_loop (place len) data short file_name 0 (entry_offsets len);
               (case r of
                  Inl e \<Rightarrow> Some (Inl e)
                | Inr (Some m) \<Rightarrow> Some (Inr (Some m))
                | Inr None \<Rightarrow> search_loop dev fs place short file_name it')
             })
        })
   }"

definition search_file_name_with_cluster_dir ::
  "BlockDevice \<Rightarrow> FAT32FileSystem \<Rightarrow> (usize \<Rightarrow> usize) \<Rightarrow> nat \<Rightarrow> byte list \<Rightarrow> (FileSystemErr + DirMeta option) option" where
  "search_file_name_with_cluster_dir dev fs place dir_cluster file_name =
     (case is_encode_83 file_name of
        Inl e \<Rightarrow> Some (Inl e)
      | Inr short \<Rightarrow> search_loop dev fs place short file_name (FAT32FATIter_new dir_cluster))"

section \<open>Opening a file\<close>

record FileHandle =
  fh_meta :: DirMeta
  fh_opts :: OpenOptions

fun open_loop ::
  "BlockDevice \<Rightarrow> FAT32FileSystem \<Rightarrow> (usize \<Rightarrow> usize) \<Rightarrow> nat \<Rightarrow> DirMeta \<Rightarrow> byte list list
     \<Rightarrow> (FileSystemErr + DirMeta) option" where
  "open_loop dev fs place dir_clusters meta [] = Some (Inr meta)"
| "open_loop dev fs place dir_clusters meta (name # names) =
     (if name = [] then Some (Inl InvalidInput)
      else do {
        r \<leftarrow> search_file_name_with_cluster_dir dev fs place dir_clusters name;
        (case r of
           Inl e \<Rightarrow> Some (Inl e)
         | Inr None \<Rightarrow> Some (Inl NotFound)
         | Inr (Some m) \<Rightarrow> open_loop dev fs place (first_cluster m) m names)
      })"

definition fat32_open ::
  "BlockDevice \<Rightarrow> FAT32FileSystem \<Rightarrow> (usize \<Rightarrow> usize) \<Rightarrow> byte list \<Rightarrow> OpenOptions \<Rightarrow> (FileSystemErr + FileHandle) option" where
  "fat32_open dev fs place name opts =
     (case name of
        [] \<Rightarrow> Some (Inl InvalidInput)
      | c # rest \<Rightarrow>
          if c \<noteq> 47 then Some (Inl NotRootDir)
          else do {
            r \<leftarrow> open_loop dev fs place (root_dir_cluster fs)
                  \<lparr>is_dir = False, is_readonly = False, first_cluster = 0, file_size = 0\<rparr> (split_on 47 rest);
            Some (case r of
                Inl e \<Rightarrow> Inl e
              | Inr meta \<Rightarrow>
                  if is_dir meta then Inl IsDir
                  else if opts = Write then
                    (if is_readonly meta then Inl ReadOnly
                     else case is_read_only dev of
                         Inl e \<Rightarrow> Inl (BlockDeviceErr e)
                       | Inr ro \<Rightarrow> if ro then Inl ReadOnly else Inr \<lparr>fh_meta = meta, fh_opts = opts\<rparr>)
                  else Inr \<lparr>fh_meta = meta, fh_opts = opts\<rparr>)
          })"

text \<open>
  The methods of \<open>FileHandle\<close>; the arguments are what \<open>upgrade\<close> of the two weak references returns.
\<close>

definition FileHandle_read ::
  "BlockDevice option \<Rightarrow> FAT32FileSystem option \<Rightarrow> FileHandle \<Rightarrow> usize \<Rightarrow> (FileSystemErr + byte list) option" where
  "FileHandle_read dev fs h align =
     (case dev of
        None \<Rightarrow> Some (Inl Closed)
      | Some d \<Rightarrow> (case fs of None \<Rightarrow> Some (Inl Closed) | Some f \<Rightarrow> fat32_read d f align (fh_meta h)))"

definition FileHandle_read_at ::
  "BlockDevice option \<Rightarrow> FAT32FileSystem option \<Rightarrow> FileHandle \<Rightarrow> nat \<Rightarrow> usize \<Rightarrow> (FileSystemErr + byte list) option" where
  "FileHandle_read_at dev fs h offset len =
     (case dev of
        None \<Rightarrow> Some (Inl Closed)
      | Some d \<Rightarrow> (case fs of None \<Rightarrow> Some (Inl Closed) | Some f \<Rightarrow> fat32_read_at d f offset len (fh_meta h)))"

definition FileHandle_size :: "FileHandle \<Rightarrow> nat" where
  "FileHandle_size h = file_size (fh_meta h)"

definition FileHandle_flush :: "BlockDevice option \<Rightarrow> FileSystemErr + unit" where
  "FileHandle_flush dev =
     (case dev of
        None \<Rightarrow> Inl Closed
      | Some d \<Rightarrow> (case dev_flush d of Inl e \<Rightarrow> Inl (BlockDeviceErr e) | Inr () \<Rightarrow> Inr ()))"

text \<open>The bodies of the operations that change a volume are \<open>todo!()\<close>, which panics.\<close>

definition fat32_remove_file :: "FAT32FileSystem \<Rightarrow> byte list \<Rightarrow> (FileSystemErr + unit) option" where
  "fat32_remove_file fs name = None"

definition fat32_copy :: "FAT32FileSystem \<Rightarrow> byte list \<Rightarrow> byte list \<Rightarrow> (FileSystemErr + unit) option" where
  "fat32_copy fs from_name to_name = None"

definition fat32_rename :: "FAT32FileSystem \<Rightarrow> byte list \<Rightarrow> byte list \<Rightarrow> (FileSystemErr + unit) option" where
  "fat32_rename fs from_name to_name = None"

definition fat32_create_dir :: "FAT32FileSystem \<Rightarrow> byte list \<Rightarrow> (FileSystemErr + unit) option" where
  "fat32_create_dir fs name = None"

definition fat32_remove_dir :: "FAT32FileSystem \<Rightarrow> byte list \<Rightarrow> (FileSystemErr + unit) option" where
  "fat32_remove_dir fs name = None"

definition FileHandle_write_at :: "FileHandle \<Rightarrow> nat \<Rightarrow> byte list \<Rightarrow> (FileSystemErr + nat) option" where
  "FileHandle_write_at h offset buf = None"

end
