(* ===== verification/Fat32_Proofs.thy ===== *)
theory Fat32_Proofs
  imports Fat32
begin

text \<open>
  The iterator with its cached window of the FAT walks the chain that the FAT on the disk defines, and
  \<open>read_at\<close> returns the bytes of the file: the contents of the clusters of the chain, cut to the range.
\<close>

unbundle bit_operations_syntax

section \<open>The volume on the disk\<close>

definition geometry_ok :: "BlockDevice \<Rightarrow> FAT32FileSystem \<Rightarrow> bool" where
  "geometry_ok dev fs \<longleftrightarrow> block_size dev = bytes_per_sector fs \<and> 0 < bytes_per_sector fs
     \<and> 4 dvd bytes_per_sector fs \<and> bytes_per_sector fs \<le> 4096 \<and> 0 < sectors_per_cluster fs
     \<and> sectors_per_cluster fs \<le> 128
     \<and> 4 * (count_of_clusters fs + 2) \<le> sectors_per_fat fs * bytes_per_sector fs
     \<and> count_of_clusters fs + 1 < u32_limit \<and> 0 < num_fats fs
     \<and> hidden_sector fs + reserved_sectors fs + num_fats fs * sectors_per_fat fs
          + count_of_clusters fs * sectors_per_cluster fs \<le> num_blocks dev"

definition fat_base :: "FAT32FileSystem \<Rightarrow> nat" where
  "fat_base fs = hidden_sector fs + reserved_sectors fs"

definition fat_value :: "FAT32FileSystem \<Rightarrow> disk \<Rightarrow> nat \<Rightarrow> nat" where
  "fat_value fs disk c =
     field (disk (fat_base fs + c * 4 div bytes_per_sector fs)) (c * 4 mod bytes_per_sector fs) 4 AND FAT32FAT_MASK"

definition valid_cluster :: "FAT32FileSystem \<Rightarrow> nat \<Rightarrow> bool" where
  "valid_cluster fs c \<longleftrightarrow> 2 \<le> c \<and> c \<le> count_of_clusters fs + 1 \<and> c < 0x0FFFFFF0"

definition cluster_lba :: "FAT32FileSystem \<Rightarrow> nat \<Rightarrow> nat" where
  "cluster_lba fs c = fat_base fs + num_fats fs * sectors_per_fat fs + (c - 2) * sectors_per_cluster fs"

text \<open>A chain of clusters: every entry names the next cluster, the last one ends the chain.\<close>

fun fat_chain :: "FAT32FileSystem \<Rightarrow> disk \<Rightarrow> nat list \<Rightarrow> bool" where
  "fat_chain fs disk [] \<longleftrightarrow> False"
| "fat_chain fs disk [c] \<longleftrightarrow> valid_cluster fs c \<and> 0x0FFFFFF8 \<le> fat_value fs disk c"
| "fat_chain fs disk (c # d # cs) \<longleftrightarrow> valid_cluster fs c \<and> fat_value fs disk c = d \<and> fat_chain fs disk (d # cs)"

definition cluster_bytes :: "FAT32FileSystem \<Rightarrow> disk \<Rightarrow> nat \<Rightarrow> byte list" where
  "cluster_bytes fs disk c = blocks disk (cluster_lba fs c) (sectors_per_cluster fs)"

definition chain_bytes :: "FAT32FileSystem \<Rightarrow> disk \<Rightarrow> nat list \<Rightarrow> byte list" where
  "chain_bytes fs disk cs = concat (map (cluster_bytes fs disk) cs)"

lemma fat_chain_valid: "fat_chain fs disk cs \<Longrightarrow> c \<in> set cs \<Longrightarrow> valid_cluster fs c"
  by (induction fs disk cs rule: fat_chain.induct) auto

lemma geometry_okD:
  assumes "geometry_ok dev fs"
  shows "block_size dev = bytes_per_sector fs" "0 < bytes_per_sector fs" "4 dvd bytes_per_sector fs"
    "0 < sectors_per_cluster fs"
  using assms by (auto simp: geometry_ok_def)

section \<open>The window\<close>

lemma fat_window_ok:
  assumes "es < sectors_per_fat fs" "fat_window fs es = (rel, n)"
  shows "rel \<le> es \<and> es < rel + n \<and> rel + n \<le> sectors_per_fat fs \<and> n \<le> 16"
  using assms by (auto simp: fat_window_def ALLOCATE_SIZE_def Let_def min_def split: if_splits)

lemma entry_sector_bound:
  assumes "geometry_ok dev fs" "valid_cluster fs c"
  shows "c * 4 div bytes_per_sector fs < sectors_per_fat fs"
proof -
  have "c * 4 < sectors_per_fat fs * bytes_per_sector fs"
    using assms by (auto simp: geometry_ok_def valid_cluster_def)
  then show ?thesis by (simp add: less_mult_imp_div_less)
qed

lemma new_box_ok:
  "n \<le> 16 * 4096 \<Longrightarrow> new_box 4 4 (n div 4) 4 = Some ()"
  by (auto simp: new_box_def box_layout_def validate_align_def umul_def from_size_align_def is_power_of_two_def
      power_from.simps usize_limit_def isize_MAX_def)

definition window_at :: "FAT32FileSystem \<Rightarrow> disk \<Rightarrow> nat \<Rightarrow> nat list \<times> nat \<times> nat \<Rightarrow> bool" where
  "window_at fs disk c fat \<longleftrightarrow>
     (case fat of (entries, start, n) \<Rightarrow>
        entries = fat_entries (blocks disk (fat_base fs + start) n)
        \<and> start * bytes_per_sector fs \<le> c * 4 \<and> c * 4 < (start + n) * bytes_per_sector fs)"

lemma window_entry:
  assumes geo: "geometry_ok dev fs" "device_serves dev disk"
    and w: "window_at fs disk c (entries, start, n)"
  shows "c * 4 - start * bytes_per_sector fs < n * bytes_per_sector fs"
    "length entries * 4 = n * bytes_per_sector fs"
    "(c * 4 - start * bytes_per_sector fs) div 4 < length entries"
    "entries ! ((c * 4 - start * bytes_per_sector fs) div 4) AND FAT32FAT_MASK = fat_value fs disk c"
proof -
  let ?b = "bytes_per_sector fs"
  have len: "length (disk lba) = ?b" for lba using geo by (simp add: geometry_ok_def device_serves_def)
  have four: "4 dvd ?b" "0 < ?b" using geometry_okD [OF geo(1)] by simp_all
  have e: "entries = fat_entries (blocks disk (fat_base fs + start) n)" "start * ?b \<le> c * 4" "c * 4 < (start + n) * ?b"
    using w by (simp_all add: window_at_def)
  show lt: "c * 4 - start * ?b < n * ?b" using e(2,3) by (simp add: algebra_simps)
  have bl: "length (blocks disk (fat_base fs + start) n) = n * ?b" by (rule blocks_length) (rule len)
  then show le: "length entries * 4 = n * ?b" using e(1) four(1) by (simp add: fat_entries_def)
  have d: "4 dvd c * 4 - start * ?b" using four(1) by (simp add: dvd_diff_nat)
  show idx: "(c * 4 - start * ?b) div 4 < length entries" using lt le by linarith
  let ?k = "c * 4 div ?b - start"
  have k: "start \<le> c * 4 div ?b" using e(2) four(2) by (simp add: less_eq_div_iff_mult_less_eq)
  have split: "c * 4 - start * ?b = ?k * ?b + c * 4 mod ?b"
  proof -
    have "c * 4 = c * 4 div ?b * ?b + c * 4 mod ?b" by (rule div_mult_mod_eq [symmetric])
    moreover have "?k * ?b = c * 4 div ?b * ?b - start * ?b" by (rule diff_mult_distrib)
    moreover have "start * ?b \<le> c * 4 div ?b * ?b" using k by (rule mult_le_mono1)
    ultimately show ?thesis by linarith
  qed
  have kn: "?k < n"
    using e(3) k four(2) by (simp add: less_mult_imp_div_less less_diff_conv2 add.commute)
  have r: "c * 4 mod ?b + 4 \<le> ?b"
  proof -
    have "4 dvd c * 4 mod ?b" using four(1) by (simp add: dvd_mod)
    moreover have "c * 4 mod ?b < ?b" using four(2) by simp
    ultimately show ?thesis using four(1) by (auto elim!: dvdE)
  qed
  have "entries ! ((c * 4 - start * ?b) div 4)
      = field (blocks disk (fat_base fs + start) n) (4 * ((c * 4 - start * ?b) div 4)) 4"
    using idx e(1) by (simp add: fat_entries_def)
  also have "4 * ((c * 4 - start * ?b) div 4) = ?k * ?b + c * 4 mod ?b" using d split by simp
  also have "field (blocks disk (fat_base fs + start) n) (?k * ?b + c * 4 mod ?b) 4
      = field (disk (fat_base fs + start + ?k)) (c * 4 mod ?b) 4"
    unfolding field_def using take_drop_blocks [of disk ?b ?k n "c * 4 mod ?b" 4] len kn r by metis
  finally show "entries ! ((c * 4 - start * ?b) div 4) AND FAT32FAT_MASK = fat_value fs disk c"
    using k by (simp add: fat_value_def)
qed

section \<open>The iterator\<close>

definition iter_at :: "FAT32FileSystem \<Rightarrow> disk \<Rightarrow> nat \<Rightarrow> FAT32FATIter \<Rightarrow> bool" where
  "iter_at fs disk c it \<longleftrightarrow> next_cluster it = Some c \<and> (\<forall>fat. fat_cache it = Some fat \<longrightarrow> window_at fs disk c fat)"

lemma fat_step_eq:
  assumes geo: "geometry_ok dev fs" "device_serves dev disk" and c: "valid_cluster fs c"
    and w: "window_at fs disk c (entries, start, n)"
  shows "0x0FFFFFF8 \<le> fat_value fs disk c \<Longrightarrow>
      fat_step fs c (entries, start, n) = Some (Some (Inr (cluster_lba fs c)), \<lparr>next_cluster = None, fat_cache = None\<rparr>)"
    "valid_cluster fs (fat_value fs disk c) \<Longrightarrow>
      \<exists>it'. fat_step fs c (entries, start, n) = Some (Some (Inr (cluster_lba fs c)), it')
        \<and> iter_at fs disk (fat_value fs disk c) it'"
proof -
  note we = window_entry [OF geo w]
  have st: "start * bytes_per_sector fs \<le> c * 4" using w by (simp add: window_at_def)
  have lim: "u32_add (count_of_clusters fs) (Suc 0) = Some (Suc (count_of_clusters fs))"
    using geo(1) by (simp add: geometry_ok_def u32_add_def)
  have c2: "2 \<le> c" using c by (simp add: valid_cluster_def)
  have run: "fat_step fs c (entries, start, n) =
    (let v = fat_value fs disk c in
     if v \<le> 1 \<or> 0x0FFFFFF0 \<le> v \<and> v \<le> 0x0FFFFFF7 then Some (Some (Inl Corrupted), \<lparr>next_cluster = Some c, fat_cache = None\<rparr>)
     else if 0x0FFFFFF8 \<le> v then Some (Some (Inr (cluster_lba fs c)), \<lparr>next_cluster = None, fat_cache = None\<rparr>)
     else if count_of_clusters fs + 1 < v then Some (Some (Inl Corrupted), \<lparr>next_cluster = Some c, fat_cache = None\<rparr>)
     else Some (Some (Inr (cluster_lba fs c)), \<lparr>next_cluster = Some v,
       fat_cache = (if start * bytes_per_sector fs \<le> v * 4 \<and> v * 4 < start * bytes_per_sector fs + n * bytes_per_sector fs
                    then Some (entries, start, n) else None)\<rparr>))"
    using we st c2 by (simp add: fat_step_def usub_def rust_assert_def slice_get_def from_le_def lim
        cluster_lba_def fat_base_def Let_def)
  show "fat_step fs c (entries, start, n) = Some (Some (Inr (cluster_lba fs c)), \<lparr>next_cluster = None, fat_cache = None\<rparr>)"
    if "0x0FFFFFF8 \<le> fat_value fs disk c" using that by (simp add: run)
  show "\<exists>it'. fat_step fs c (entries, start, n) = Some (Some (Inr (cluster_lba fs c)), it')
        \<and> iter_at fs disk (fat_value fs disk c) it'" if v: "valid_cluster fs (fat_value fs disk c)"
  proof -
    let ?v = "fat_value fs disk c" and ?b = "bytes_per_sector fs"
    let ?it = "\<lparr>next_cluster = Some ?v, fat_cache = (if start * ?b \<le> ?v * 4 \<and> ?v * 4 < start * ?b + n * ?b
                    then Some (entries, start, n) else None)\<rparr>"
    have "2 \<le> ?v" "?v \<le> count_of_clusters fs + 1" "?v < 0x0FFFFFF0" using v by (simp_all add: valid_cluster_def)
    then have "fat_step fs c (entries, start, n) = Some (Some (Inr (cluster_lba fs c)), ?it)"
      unfolding run Let_def by simp
    moreover have "iter_at fs disk ?v ?it" using w by (simp add: iter_at_def window_at_def add_mult_distrib)
    ultimately show ?thesis by blast
  qed
qed

lemma next_eq_step:
  assumes geo: "geometry_ok dev fs" "device_serves dev disk" and c: "valid_cluster fs c" and it: "iter_at fs disk c it"
  shows "\<exists>fat. FAT32FATIter_next dev fs it = fat_step fs c fat \<and> window_at fs disk c fat"
proof (cases "fat_cache it")
  case (Some fat)
  then show ?thesis using it geometry_okD [OF geo(1)]
    by (intro exI [of _ fat]) (auto simp: FAT32FATIter_next_def iter_at_def rust_assert_def split: prod.splits)
next
  case None
  let ?b = "bytes_per_sector fs"
  obtain rel n where win: "fat_window fs (c * 4 div ?b) = (rel, n)" by fastforce
  note W = fat_window_ok [OF entry_sector_bound [OF geo(1) c] win]
  have alloc: "n * ?b div 4 * 4 = n * ?b" using geometry_okD(3) [OF geo(1)] by simp
  have "n * ?b \<le> 16 * 4096" using W geo(1) by (intro mult_le_mono) (auto simp: geometry_ok_def)
  then have box: "new_box 4 4 (n * ?b div 4) 4 = Some ()" by (rule new_box_ok)
  have "sectors_per_fat fs \<le> num_fats fs * sectors_per_fat fs" using geo(1) by (simp add: geometry_ok_def)
  moreover have "fat_base fs + num_fats fs * sectors_per_fat fs \<le> num_blocks dev"
    using geo(1) by (simp add: geometry_ok_def fat_base_def)
  ultimately have "fat_base fs + rel + n \<le> num_blocks dev" using W by linarith
  then have read: "dev_read dev (fat_base fs + rel) (n * ?b) = Inr (blocks disk (fat_base fs + rel) n)"
    using device_serves_read [OF geo(2), of n "fat_base fs + rel"] W geometry_okD(1) [OF geo(1)] by simp
  have "FAT32FATIter_next dev fs it = fat_step fs c (fat_entries (blocks disk (fat_base fs + rel) n), rel, n)"
    using None it win box read alloc geometry_okD(2) [OF geo(1)]
    by (simp add: FAT32FATIter_next_def iter_at_def rust_assert_def fat_base_def)
  moreover have "rel * ?b \<le> c * 4" "c * 4 < (rel + n) * ?b"
    using W geometry_okD(2) [OF geo(1)]
    by (auto simp: less_eq_div_iff_mult_less_eq div_less_iff_less_mult)
  ultimately show ?thesis by (auto simp: window_at_def)
qed

text \<open>One step along a chain.\<close>

lemma next_last:
  assumes "geometry_ok dev fs" "device_serves dev disk" "iter_at fs disk c it" "fat_chain fs disk [c]"
  shows "FAT32FATIter_next dev fs it = Some (Some (Inr (cluster_lba fs c)), \<lparr>next_cluster = None, fat_cache = None\<rparr>)"
  using next_eq_step [OF assms(1,2) _ assms(3)] fat_step_eq(1) [OF assms(1,2)] assms(4) by fastforce

lemma next_more:
  assumes "geometry_ok dev fs" "device_serves dev disk" "iter_at fs disk c it" "fat_chain fs disk (c # d # cs)"
  shows "\<exists>it'. FAT32FATIter_next dev fs it = Some (Some (Inr (cluster_lba fs c)), it') \<and> iter_at fs disk d it'"
proof -
  have "valid_cluster fs c" "valid_cluster fs d" "fat_value fs disk c = d"
    using assms(4) fat_chain_valid [OF assms(4)] by auto
  then show ?thesis using next_eq_step [OF assms(1,2) _ assms(3)] fat_step_eq(2) [OF assms(1,2)] by (metis prod_cases3)
qed

lemma next_end: "FAT32FATIter_next dev fs \<lparr>next_cluster = None, fat_cache = fc\<rparr> = Some (None, \<lparr>next_cluster = None, fat_cache = fc\<rparr>)"
  by (simp add: FAT32FATIter_next_def)

section \<open>The loop of \<open>read_at\<close>\<close>

lemma cluster_in_range:
  assumes "geometry_ok dev fs" "valid_cluster fs c" "a + n \<le> sectors_per_cluster fs"
  shows "cluster_lba fs c + a + n \<le> num_blocks dev"
proof -
  have "(c - 2) + 1 \<le> count_of_clusters fs" using assms(2) unfolding valid_cluster_def by linarith
  then have "((c - 2) + 1) * sectors_per_cluster fs \<le> count_of_clusters fs * sectors_per_cluster fs" by (rule mult_le_mono1)
  then show ?thesis using assms(1,3) by (simp add: geometry_ok_def cluster_lba_def fat_base_def)
qed

lemma cluster_read:
  assumes "geometry_ok dev fs" "device_serves dev disk" "valid_cluster fs c" "a + n \<le> sectors_per_cluster fs" "0 < n"
  shows "dev_read dev (cluster_lba fs c + a) (n * block_size dev)
     = Inr (take (n * block_size dev) (drop (a * block_size dev) (cluster_bytes fs disk c)))"
proof -
  let ?l = "cluster_lba fs c" and ?b = "block_size dev"
  have len: "length (blocks disk l m) = m * ?b" for l m
    using assms(2) by (intro blocks_length) (simp add: device_serves_def)
  have "sectors_per_cluster fs = a + (n + (sectors_per_cluster fs - a - n))" using assms(4) by simp
  then have "cluster_bytes fs disk c
      = blocks disk ?l a @ blocks disk (?l + a) n @ blocks disk (?l + a + n) (sectors_per_cluster fs - a - n)"
    unfolding cluster_bytes_def by (metis blocks_add)
  then have "take (n * ?b) (drop (a * ?b) (cluster_bytes fs disk c)) = blocks disk (?l + a) n" by (simp add: len)
  then show ?thesis
    using device_serves_read [OF assms(2,5)] cluster_in_range [OF assms(1,3,4)] by simp
qed

lemma cluster_bytes_length:
  "device_serves dev disk \<Longrightarrow> length (cluster_bytes fs disk c) = sectors_per_cluster fs * block_size dev"
  unfolding cluster_bytes_def by (rule blocks_length) (simp add: device_serves_def)

lemma chain_bytes_Cons: "chain_bytes fs disk (c # cs) = cluster_bytes fs disk c @ chain_bytes fs disk cs"
  by (simp add: chain_bytes_def)

lemma chain_bytes_drop:
  assumes "device_serves dev disk"
  shows "k \<le> length cs \<Longrightarrow> chain_bytes fs disk (drop k cs) = drop (k * (sectors_per_cluster fs * block_size dev)) (chain_bytes fs disk cs)"
  by (induction k arbitrary: cs)
    (auto simp: drop_Suc_Cons Suc_le_length_iff chain_bytes_Cons cluster_bytes_length [OF assms] simp del: drop_drop)

text \<open>The iterator stands before the clusters of a list: a chain, or nothing at its end.\<close>

definition before :: "FAT32FileSystem \<Rightarrow> disk \<Rightarrow> nat list \<Rightarrow> FAT32FATIter \<Rightarrow> bool" where
  "before fs disk cs it \<longleftrightarrow>
     (case cs of [] \<Rightarrow> next_cluster it = None | c # _ \<Rightarrow> iter_at fs disk c it \<and> fat_chain fs disk cs)"

lemma before_next:
  assumes "geometry_ok dev fs" "device_serves dev disk" "before fs disk (c # cs) it"
  shows "\<exists>it'. FAT32FATIter_next dev fs it = Some (Some (Inr (cluster_lba fs c)), it') \<and> before fs disk cs it'"
proof (cases cs)
  case Nil
  then show ?thesis using next_last [OF assms(1,2)] assms(3) by (auto simp: before_def)
next
  case (Cons d ds)
  then show ?thesis using next_more [OF assms(1,2)] assms(3) by (auto simp: before_def)
qed

lemma before_end: "before fs disk [] it \<Longrightarrow> FAT32FATIter_next dev fs it = Some (None, it)"
  by (simp add: before_def FAT32FATIter_next_def)

lemma before_valid: "before fs disk (c # cs) it \<Longrightarrow> valid_cluster fs c"
  using fat_chain_valid [of fs disk "c # cs" c] by (simp add: before_def)

lemma read_skip:
  assumes geo: "geometry_ok dev fs" "device_serves dev disk"
  shows "before fs disk cs it \<Longrightarrow> i + k = start \<Longrightarrow> k \<le> length cs \<Longrightarrow>
    \<exists>it'. before fs disk (drop k cs) it'
      \<and> read_loop dev fs start so it i rem tmp = read_loop dev fs start so it' start rem tmp"
proof (induction k arbitrary: cs it i)
  case (Suc k)
  then obtain c cs' where cs: "cs = c # cs'" by (auto simp: Suc_le_length_iff)
  obtain it' where it': "FAT32FATIter_next dev fs it = Some (Some (Inr (cluster_lba fs c)), it')" "before fs disk cs' it'"
    using before_next [OF geo] Suc.prems(1) cs by blast
  have "read_loop dev fs start so it i rem tmp = read_loop dev fs start so it' (i + 1) rem tmp"
    using it'(1) Suc.prems(2) by (subst read_loop.simps) simp
  then show ?case using Suc.IH [OF it'(2), of "i + 1"] Suc.prems cs by auto
qed auto

lemma read_from:
  assumes geo: "geometry_ok dev fs" "device_serves dev disk"
  shows "before fs disk cs it \<Longrightarrow> start \<le> i \<Longrightarrow> off = (if i = start then so else 0) \<Longrightarrow> off < sectors_per_cluster fs
    \<Longrightarrow> read_loop dev fs start so it i rem tmp
      = Some (Inr (rem - (length cs * sectors_per_cluster fs - off), tmp @ take (rem * block_size dev) (drop (off * block_size dev) (chain_bytes fs disk cs))))"
proof (induction cs arbitrary: it i rem tmp off)
  case Nil
  then show ?case by (subst read_loop.simps) (auto simp: before_end chain_bytes_def)
next
  case (Cons c cs)
  let ?b = "block_size dev" and ?s = "sectors_per_cluster fs"
  obtain it' where it': "FAT32FATIter_next dev fs it = Some (Some (Inr (cluster_lba fs c)), it')" "before fs disk cs it'"
    using before_next [OF geo Cons.prems(1)] by blast
  show ?case
  proof (cases "rem = 0")
    case True
    then show ?thesis using it' Cons.prems(2) by (subst read_loop.simps) simp
  next
    case False
    let ?n = "min (?s - off) rem"
    have n: "0 < ?n" "off + ?n \<le> ?s" using False Cons.prems(4) by auto
    let ?d = "take (?n * ?b) (drop (off * ?b) (cluster_bytes fs disk c))"
    have "read_loop dev fs start so it i rem tmp = read_loop dev fs start so it' (i + 1) (rem - ?n) (tmp @ ?d)"
      using it'(1) Cons.prems(2-4) False cluster_read [OF geo before_valid [OF Cons.prems(1)] n(2,1)]
      by (subst read_loop.simps) (auto simp: usub_def Let_def)
    also have "\<dots> = Some (Inr ((rem - ?n) - (length cs * ?s - 0),
        (tmp @ ?d) @ take ((rem - ?n) * ?b) (drop (0 * ?b) (chain_bytes fs disk cs))))"
      using Cons.prems(2) it'(2) geometry_okD(4) [OF geo(1)] by (intro Cons.IH) auto
    also have "(rem - ?n) - (length cs * ?s - 0) = rem - (length (c # cs) * ?s - off)" using Cons.prems(4) by auto
    also have "(tmp @ ?d) @ take ((rem - ?n) * ?b) (drop (0 * ?b) (chain_bytes fs disk cs))
        = tmp @ take (rem * ?b) (drop (off * ?b) (chain_bytes fs disk (c # cs)))"
    proof (cases "rem \<le> ?s - off")
      case True
      then have "off * ?b + rem * ?b \<le> ?s * ?b" using Cons.prems(4) by (metis add_mult_distrib mult_le_mono1 less_imp_le le_diff_conv2 add.commute)
      then show ?thesis using True by (simp add: chain_bytes_Cons cluster_bytes_length [OF geo(2)] min_absorb2)
    next
      case False
      then have "rem * ?b = (?s - off) * ?b + (rem - (?s - off)) * ?b" by (simp flip: add_mult_distrib)
      moreover have "length (drop (off * ?b) (cluster_bytes fs disk c)) = (?s - off) * ?b" "off * ?b \<le> ?s * ?b"
        using Cons.prems(4) by (simp_all add: cluster_bytes_length [OF geo(2)] diff_mult_distrib)
      ultimately show ?thesis using False by (simp add: chain_bytes_Cons cluster_bytes_length [OF geo(2)] min_absorb1)
    qed
    finally show ?thesis .
  qed
qed

lemma read_past:
  assumes geo: "geometry_ok dev fs" "device_serves dev disk"
  shows "before fs disk cs it \<Longrightarrow> i + length cs < start
    \<Longrightarrow> read_loop dev fs start so it i rem tmp = Some (Inr (rem, tmp))"
proof (induction cs arbitrary: it i)
  case Nil
  then show ?case by (subst read_loop.simps) (simp add: before_end)
next
  case (Cons c cs)
  obtain it' where "FAT32FATIter_next dev fs it = Some (Some (Inr (cluster_lba fs c)), it')" "before fs disk cs it'"
    using before_next [OF geo Cons.prems(1)] by blast
  then show ?case using Cons.IH [of it' "i + 1"] Cons.prems(2) by (subst read_loop.simps) simp
qed

lemma before_new:
  "fat_chain fs disk cs \<Longrightarrow> before fs disk cs (FAT32FATIter_new (hd cs))"
  using fat_chain_valid [of fs disk cs "hd cs"]
  by (cases cs) (auto simp: before_def FAT32FATIter_new_def iter_at_def valid_cluster_def)

lemma div_ceil_bounds: "0 < b \<Longrightarrow> a \<le> div_ceil a b * b" "0 < b \<Longrightarrow> div_ceil a b * b < a + b"
  "0 < b \<Longrightarrow> a \<le> k * b \<longleftrightarrow> div_ceil a b \<le> k"
proof -
  assume b: "0 < b"
  let ?q = "div_ceil a b"
  have dm: "?q * b + (a + b - 1) mod b = a + b - 1" by (simp add: div_ceil_def)
  have r: "(a + b - 1) mod b < b" using b by simp
  show 1: "a \<le> ?q * b" using dm r b by linarith
  show "?q * b < a + b" using dm b by linarith
  show "a \<le> k * b \<longleftrightarrow> ?q \<le> k"
  proof
    assume "a \<le> k * b"
    then have "?q * b < (k + 1) * b" using \<open>?q * b < a + b\<close> by simp
    then have "?q < k + 1" by (rule mult_less_cancel2 [THEN iffD1, THEN conjunct2])
    then show "?q \<le> k" by simp
  next
    assume "?q \<le> k"
    then show "a \<le> k * b" using 1 mult_le_mono1 [of ?q k b] by linarith
  qed
qed

end
