(* ===== verification/Fat32_Spec.thy ===== *)
theory Fat32_Spec
  imports Fat32_Proofs
begin

text \<open>What \<open>read_at\<close> and \<open>read\<close> return for a file whose clusters form a chain in the FAT.\<close>

unbundle bit_operations_syntax

lemma read_position:
  assumes "0 < bs" "0 < spc" "bpc = bs * spc"
  shows "(offset :: nat) = offset div bpc * bpc + (offset mod bpc div bs * bs + offset mod bpc mod bs)"
    "offset mod bpc div bs < spc" "offset mod bpc mod bs < bs"
proof -
  show "offset = offset div bpc * bpc + (offset mod bpc div bs * bs + offset mod bpc mod bs)" by simp
  have "offset mod bpc < spc * bs" using assms by (simp add: mult.commute)
  then show "offset mod bpc div bs < spc" by (rule less_mult_imp_div_less)
  show "offset mod bpc mod bs < bs" using assms(1) by simp
qed

text \<open>The whole of \<open>read_at\<close> once its arguments are in range, in terms of the loop.\<close>

lemma read_at_loop:
  assumes geo: "geometry_ok dev fs" and size: "offset + len \<le> file_size meta" "file_size meta < u32_limit"
    and pos: "bs = block_size dev" "bpc = bs * sectors_per_cluster fs" "sb = offset mod bpc mod bs"
      "need = div_ceil (sb + len) bs"
  shows "fat32_read_at dev fs offset len meta =
     do { res \<leftarrow> read_loop dev fs (offset div bpc) (offset mod bpc div bs) (FAT32FATIter_new (first_cluster meta)) 0 need [];
       (case res of
          Inl e \<Rightarrow> Some (Inl e)
        | Inr (rem, tmp) \<Rightarrow>
            if rem \<noteq> 0 then Some (Inl IncompleteRead)
            else do { src \<leftarrow> slice_range tmp sb (sb + len); Some (Inr src) }) }"
proof -
  have b: "0 < bs" "bs \<le> 4096" "0 < bpc" using geo pos by (auto simp: geometry_ok_def)
  have sb: "sb < bs" using b pos by simp
  have "sb + len < usize_limit" "need * bs < usize_limit"
    using sb b(2) size div_ceil_bounds(2) [OF b(1), of "sb + len"] pos(4) by (auto simp: usize_limit_def u32_limit_def)
  moreover have "\<not> file_size meta < offset" "\<not> file_size meta - offset < len" using size(1) by linarith+
  ultimately show ?thesis
    using b(3) unfolding fat32_read_at_def pos
    by (simp add: Let_def rust_assert_def uadd_def umul_def, intro Option.bind_cong refl) (auto split: sum.splits)
qed

text \<open>A range ends inside \<open>L\<close> clusters when the sectors from its first sector on suffice.\<close>

lemma range_fits_iff:
  assumes "0 < bs" "0 < spc" "bpc = bs * spc" "start \<le> L"
    and pos: "offset = start * bpc + (so * bs + sb)" "so < spc" and len: "0 < (len :: nat)"
  shows "offset + len \<le> L * bpc \<longleftrightarrow> div_ceil (sb + len) bs \<le> (L - start) * spc - so"
proof (cases "L = start")
  case True
  have "0 < div_ceil (sb + len) bs"
    using div_ceil_bounds(1) [OF assms(1), of "sb + len"] len by (cases "div_ceil (sb + len) bs = 0") auto
  then show ?thesis using True pos(1) len by simp
next
  case False
  then have "1 * spc \<le> (L - start) * spc" using assms(4) by (intro mult_le_mono1) simp
  then have le: "so \<le> (L - start) * spc" using pos(2) by linarith
  have split: "L * bpc = start * bpc + (L - start) * bpc" using assms(4) by (simp flip: add_mult_distrib)
  have "offset + len \<le> L * bpc \<longleftrightarrow> so * bs + (sb + len) \<le> (L - start) * spc * bs"
    using pos(1) split by (simp add: assms(3) mult.commute mult.left_commute)
  also have "\<dots> \<longleftrightarrow> sb + len \<le> ((L - start) * spc - so) * bs"
    unfolding diff_mult_distrib [of "(L - start) * spc" so bs] using mult_le_mono1 [OF le, of bs] by linarith
  also have "\<dots> \<longleftrightarrow> div_ceil (sb + len) bs \<le> (L - start) * spc - so" by (rule div_ceil_bounds(3) [OF assms(1)])
  finally show ?thesis .
qed

text \<open>The loop of \<open>read_at\<close> from the start of a chain.\<close>

lemma read_loop_chain:
  assumes geo: "geometry_ok dev fs" "device_serves dev disk" and chain: "fat_chain fs disk cs"
    and so: "so < sectors_per_cluster fs"
  shows "read_loop dev fs start so (FAT32FATIter_new (hd cs)) 0 need [] =
     Some (Inr (if length cs < start then (need, [])
       else (need - ((length cs - start) * sectors_per_cluster fs - so),
             take (need * block_size dev)
               (drop (start * (block_size dev * sectors_per_cluster fs) + so * block_size dev) (chain_bytes fs disk cs)))))"
proof (cases "length cs < start")
  case True
  then show ?thesis using read_past [OF geo before_new [OF chain], of 0 start so need "[]"] by simp
next
  case False
  obtain it' where it': "before fs disk (drop start cs) it'"
    "read_loop dev fs start so (FAT32FATIter_new (hd cs)) 0 need [] = read_loop dev fs start so it' start need []"
    using read_skip [OF geo before_new [OF chain], of 0 start start so need "[]"] False by auto
  then show ?thesis
    using read_from [OF geo it'(1), of start start so so need "[]"] so False chain_bytes_drop [OF geo(2), of start cs fs]
    by (simp add: mult.commute add.commute)
qed

lemma chain_bytes_length:
  "device_serves dev disk \<Longrightarrow> length (chain_bytes fs disk cs) = length cs * (block_size dev * sectors_per_cluster fs)"
  by (simp add: chain_bytes_def length_concat comp_def cluster_bytes_length sum_list_triv mult.commute)

lemma read_at_chain:
  assumes geo: "geometry_ok dev fs" "device_serves dev disk"
    and chain: "fat_chain fs disk cs" "first_cluster meta = hd cs"
    and size: "offset + len \<le> file_size meta" "file_size meta < u32_limit" "0 < len"
  shows "fat32_read_at dev fs offset len meta =
     Some (if offset + len \<le> length cs * (block_size dev * sectors_per_cluster fs)
           then Inr (take len (drop offset (chain_bytes fs disk cs))) else Inl IncompleteRead)"
proof -
  define bs where "bs = block_size dev"
  define spc where "spc = sectors_per_cluster fs"
  define bpc where "bpc = bs * spc"
  define start where "start = offset div bpc"
  define so where "so = offset mod bpc div bs"
  define sb where "sb = offset mod bpc mod bs"
  define need where "need = div_ceil (sb + len) bs"
  let ?B = "chain_bytes fs disk cs"
  have b: "0 < bs" "0 < spc" using geo(1) by (auto simp: geometry_ok_def bs_def spc_def)
  note pos = read_position [OF b bpc_def, of offset, folded start_def so_def sb_def]
  have need: "sb + len \<le> need * bs" unfolding need_def by (rule div_ceil_bounds(1) [OF b(1)])
  then have need_pos: "need \<noteq> 0" using size(3) by (cases "need = 0") auto
  have run: "fat32_read_at dev fs offset len meta =
     (case (if length cs < start then (need, []) else (need - ((length cs - start) * spc - so),
        take (need * bs) (drop (start * bpc + so * bs) ?B))) of
      (rem, tmp) \<Rightarrow>
            if rem \<noteq> 0 then Some (Inl IncompleteRead)
            else do { src \<leftarrow> slice_range tmp sb (sb + len); Some (Inr src) })"
    using read_at_loop [OF geo(1) size(1,2) bs_def bpc_def [unfolded spc_def] sb_def need_def] chain(2)
      read_loop_chain [OF geo chain(1) pos(2) [unfolded spc_def], of start need]
    by (simp add: start_def so_def bpc_def bs_def spc_def)
  show ?thesis
  proof (cases "length cs < start")
    case True
    then have "(length cs + 1) * bpc \<le> start * bpc" by (intro mult_le_mono1) simp
    moreover have "0 < bpc" using b by (simp add: bpc_def)
    ultimately have "length cs * bpc < offset" using pos(1) unfolding add_mult_distrib by linarith
    then show ?thesis unfolding run using True need_pos by (simp add: bpc_def bs_def spc_def)
  next
    case False
    then have fit: "offset + len \<le> length cs * bpc \<longleftrightarrow> need \<le> (length cs - start) * spc - so"
      unfolding need_def by (intro range_fits_iff [OF b bpc_def _ pos(1,2) size(3)]) simp
    have "slice_range (take (need * bs) (drop (start * bpc + so * bs) ?B)) sb (sb + len) = Some (take len (drop offset ?B))"
      if inside: "offset + len \<le> length cs * bpc"
    proof -
      have "len \<le> need * bs - sb" "sb + len \<le> length cs * bpc - (start * bpc + so * bs)"
        using need inside pos(1) by linarith+
      moreover have "length ?B = length cs * bpc" using chain_bytes_length [OF geo(2)] by (simp add: bpc_def bs_def spc_def)
      moreover have "sb + (start * bpc + so * bs) = offset" using pos(1) by linarith
      ultimately show ?thesis using need by (simp add: slice_range_def drop_take min_def)
    qed
    then show ?thesis unfolding run using False fit by (simp add: bpc_def bs_def spc_def)
  qed
qed

text \<open>
  C12. For a file whose clusters form a chain in the FAT, \<open>read_at\<close> inside the file returns, without a panic,
  exactly the bytes of the range: those of the concatenated clusters, whatever the position in the
  sector, the cluster or the cached window of the FAT. When the chain is shorter than the range it
  reports \<open>IncompleteRead\<close>.
\<close>

theorem fat32_read_at_correct:
  assumes geo: "geometry_ok dev fs" "device_serves dev disk"
    and chain: "fat_chain fs disk cs" "first_cluster meta = hd cs"
    and size: "offset + len \<le> file_size meta" "file_size meta < u32_limit" "0 < len"
  shows "fat32_read_at dev fs offset len meta =
     Some (if offset + len \<le> length cs * (block_size dev * sectors_per_cluster fs)
           then Inr (take len (drop offset (chain_bytes fs disk cs))) else Inl IncompleteRead)"
  by (rule read_at_chain [OF assms])

text \<open>
  A volume for the witnesses: one FAT sector, clusters of one sector, a file \<open>A.TXT\<close> of 600 bytes in the
  clusters 2 and 3, and the root directory in the cluster 4.
\<close>

definition demo_entry :: "byte list" where
  "demo_entry = [65, 32, 32, 32, 32, 32, 32, 32, 84, 88, 84, 32, 0, 0, 0, 0, 0, 0, 0, 0, 0, 0, 0, 0, 0, 0, 2, 0, 88, 2, 0, 0]"

definition demo_fs :: FAT32FileSystem where
  "demo_fs = \<lparr>bytes_per_sector = 512, sectors_per_cluster = 1, reserved_sectors = 1, num_fats = 1, sectors_per_fat = 1,
     root_dir_cluster = 4, hidden_sector = 0, total_sectors = 8, count_of_clusters = 3, first_data_sectors = 2\<rparr>"

definition demo_disk :: disk where
  "demo_disk lba =
     (if lba = 1 then [0, 0, 0, 0, 0, 0, 0, 0, 3, 0, 0, 0, 255, 255, 255, 15, 255, 255, 255, 15] @ replicate 492 0
      else if lba = 4 then demo_entry @ replicate 480 0
      else replicate 512 (word_of_nat lba))"

definition demo_file :: DirMeta where
  "demo_file = \<lparr>is_dir = False, is_readonly = False, first_cluster = 2, file_size = 600\<rparr>"

lemma demo_volume:
  "geometry_ok (ram_device 512 8 demo_disk) demo_fs" "device_serves (ram_device 512 8 demo_disk) demo_disk"
  by (simp add: geometry_ok_def ram_device_def demo_fs_def u32_limit_def)
    (rule ram_device_serves, simp_all add: demo_disk_def demo_entry_def)

lemma demo_chain: "fat_chain demo_fs demo_disk [2, 3]"
  by (simp add: valid_cluster_def fat_value_def fat_base_def demo_fs_def demo_disk_def field_def FAT32FAT_MASK_def)

theorem fat32_read_at_correct_witness:
  "fat32_read_at (ram_device 512 8 demo_disk) demo_fs 510 4 demo_file = Some (Inr [2, 2, 3, 3])"
proof -
  have "take 4 (drop 510 (chain_bytes demo_fs demo_disk [2, 3])) = [2, 2, 3, 3]"
    by (simp add: chain_bytes_def cluster_bytes_def blocks_def cluster_lba_def fat_base_def demo_fs_def demo_disk_def
        drop_replicate take_replicate numeral_eq_Suc)
  then show ?thesis
    using fat32_read_at_correct [OF demo_volume demo_chain, of demo_file 510 4]
    by (simp add: demo_file_def demo_fs_def ram_device_def u32_limit_def)
qed

end
