(* ===== verification/Fat32_Dir_Spec.thy ===== *)
theory Fat32_Dir_Spec
  imports Fat32_Dir Fat32_Spec
begin

text \<open>
  The directory search: which strings are short names, and what the search of a directory for a short
  name returns, in terms of the directory entries on the disk.
\<close>

unbundle bit_operations_syntax

section \<open>Short names\<close>

lemma split_on_nonempty: "split_on sep xs \<noteq> []"
  by (induction xs) (auto split: list.splits)

lemma split_on_Cons_eq:
  "c \<noteq> sep \<Longrightarrow> split_on sep (c # cs) = p # ps \<longleftrightarrow> (\<exists>q. p = c # q \<and> split_on sep cs = q # ps)"
  using split_on_nonempty [of sep cs] by (cases "split_on sep cs") auto

lemma split_on_single: "split_on sep xs = [p] \<longleftrightarrow> p = xs \<and> sep \<notin> set xs"
proof (induction xs arbitrary: p)
  case (Cons c cs)
  show ?case
  proof (cases "c = sep")
    case True
    then show ?thesis using split_on_nonempty [of sep cs] by simp
  next
    case False
    then show ?thesis unfolding split_on_Cons_eq [OF False] Cons.IH by auto
  qed
qed auto

lemma split_on_two: "split_on sep xs = [p, q] \<longleftrightarrow> xs = p @ sep # q \<and> sep \<notin> set p \<and> sep \<notin> set q"
proof (induction xs arbitrary: p)
  case (Cons c cs)
  show ?case
  proof (cases "c = sep")
    case True
    then have "split_on sep (c # cs) = [p, q] \<longleftrightarrow> p = [] \<and> split_on sep cs = [q]" by auto
    then show ?thesis unfolding split_on_single using True by (cases p) auto
  next
    case False
    then show ?thesis unfolding split_on_Cons_eq [OF False] Cons.IH by (cases p) auto
  qed
qed auto

lemma scan_chars_True: "scan_chars xs = Inr True \<longleftrightarrow> list_all short_char xs"
  by (induction xs) auto

lemma short_char_ascii: "short_char c \<Longrightarrow> c < 128"
  by (auto simp: short_char_def is_ascii_alphanumeric_def word_less_nat_alt word_le_nat_alt)

text \<open>
  \<open>is_encode_83\<close> returns a base name and an extension exactly for the names of the 8.3 form: one to
  eight characters of the allowed set without a dot, alone or followed by a dot and one to three more.
\<close>

lemma is_encode_83_iff:
  "is_encode_83 name = Inr (Some (n, e)) \<longleftrightarrow>
     list_all short_char name \<and> 46 \<notin> set n \<and> 46 \<notin> set e \<and> 1 \<le> length n \<and> length n \<le> 8 \<and> length e \<le> 3
     \<and> name = n @ (if e = [] then [] else 46 # e)"
proof -
  have ascii: "list_all (\<lambda>c. c < 128) name" if "list_all short_char name"
    using that short_char_ascii by (auto simp: list_all_iff)
  have "is_encode_83 name = Inr (Some (n, e)) \<longleftrightarrow> list_all short_char name \<and>
      (split_on 46 name = [n] \<and> e = [] \<and> n \<noteq> [] \<and> length n \<le> 8
       \<or> split_on 46 name = [n, e] \<and> n \<noteq> [] \<and> length n \<le> 8 \<and> e \<noteq> [] \<and> length e \<le> 3)"
    using ascii
    by (auto simp: is_encode_83_def scan_chars_True [symmetric] split: sum.splits bool.splits list.splits if_splits)
  also have "\<dots> \<longleftrightarrow> list_all short_char name \<and> 46 \<notin> set n \<and> 46 \<notin> set e \<and> 1 \<le> length n \<and> length n \<le> 8 \<and> length e \<le> 3
     \<and> name = n @ (if e = [] then [] else 46 # e)"
    unfolding split_on_single split_on_two by (cases e; cases n) auto
  finally show ?thesis .
qed

section \<open>Searching a directory\<close>

text \<open>The directory entries of a cluster, and those before the first entry that starts with a zero byte.\<close>

definition entry_at :: "byte list \<Rightarrow> nat \<Rightarrow> byte list" where
  "entry_at data i = take 32 (drop i data)"

definition visible_entries :: "byte list \<Rightarrow> byte list list" where
  "visible_entries data = takeWhile (\<lambda>e. e ! 0 \<noteq> 0) (map (entry_at data) (entry_offsets (length data)))"

definition padded_name :: "byte list \<Rightarrow> byte list \<Rightarrow> byte list" where
  "padded_name n e = map to_ascii_uppercase n @ replicate (8 - length n) 32
     @ map to_ascii_uppercase e @ replicate (3 - length e) 32"

definition names_file :: "byte list \<Rightarrow> byte list \<Rightarrow> byte list \<Rightarrow> bool" where
  "names_file n e entry \<longleftrightarrow> entry ! 0 \<noteq> 0xE5 \<and> entry ! 11 \<noteq> ATTR_LONG_NAME
     \<and> entry ! 11 AND ATTR_VOLUME_ID \<noteq> ATTR_VOLUME_ID \<and> take 11 entry = padded_name n e"

definition entry_meta :: "byte list \<Rightarrow> DirMeta" where
  "entry_meta e = calculate_next_dir \<lparr>dir_name = take 11 e, dir_attr = e ! 11, dir_fst_clus_hi = from_le 2 (field e 20 2),
       dir_fst_clus_lo = from_le 2 (field e 26 2), dir_file_size = from_le 4 (field e 28 4)\<rparr>"

lemma name_part_matches_eq:
  assumes "length part \<le> n" "n \<le> length stored"
  shows "name_part_matches n part stored \<longleftrightarrow> take n stored = map to_ascii_uppercase part @ replicate (n - length part) 32"
  using assms by (auto simp: name_part_matches_def list_all_iff list_eq_iff_nth_eq nth_append)

lemma padded_name_matches:
  assumes "length n \<le> 8" "length e \<le> 3" "length name = 11"
  shows "name_part_matches 8 n name \<and> name_part_matches 3 e (drop 8 name) \<longleftrightarrow> name = padded_name n e"
proof -
  define A where "A = map to_ascii_uppercase n @ replicate (8 - length n) 32"
  define B where "B = map to_ascii_uppercase e @ replicate (3 - length e) 32"
  have len: "length A = 8" "length B = 3" using assms by (simp_all add: A_def B_def)
  have "take 3 (drop 8 name) = drop 8 name" using assms(3) by simp
  then have "name_part_matches 8 n name \<and> name_part_matches 3 e (drop 8 name) \<longleftrightarrow> take 8 name = A \<and> drop 8 name = B"
    using assms name_part_matches_eq [of n 8 name] name_part_matches_eq [of e 3 "drop 8 name"]
    by (simp add: A_def B_def)
  also have "\<dots> \<longleftrightarrow> name = A @ B" using len(1) by (metis append_eq_conv_conj append_take_drop_id)
  finally show ?thesis by (simp add: padded_name_def A_def B_def)
qed

text \<open>The loop over the entries of a cluster, for a short name.\<close>

lemma dir_loop_short:
  assumes name: "length n \<le> 8" "length e \<le> 3" and al: "4 dvd ptr"
  shows "list_all (\<lambda>i. 4 dvd i \<and> i + 32 \<le> length data) is \<Longrightarrow>
    dir_loop ptr data (Some (n, e)) file_name lde is =
      Some (Inr (map_option entry_meta
        (find (names_file n e) (takeWhile (\<lambda>x. x ! 0 \<noteq> 0) (map (entry_at data) is)))))"
proof (induction "is" arbitrary: lde)
  case (Cons i "is")
  let ?x = "entry_at data i"
  have i: "4 dvd i" "i + 32 \<le> length data" using Cons.prems by simp_all
  have len: "length (take 11 ?x) = 11" using i by (simp add: entry_at_def)
  have bytes: "slice_get data i = Some (?x ! 0)" "is_sde data i = Some (?x ! 11 \<noteq> ATTR_LONG_NAME)"
    using i by (simp_all add: slice_get_def is_sde_def entry_at_def)
  have "is_multiple_of (ptr + i) 4" using al i by (simp add: is_multiple_of_dvd)
  moreover have "slice_range data i (i + 32) = Some ?x" using i by (simp add: slice_range_def entry_at_def)
  ultimately have ref: "sde_ref ptr data i = Some \<lparr>dir_name = take 11 ?x, dir_attr = ?x ! 11,
      dir_fst_clus_hi = from_le 2 (field ?x 20 2), dir_fst_clus_lo = from_le 2 (field ?x 26 2),
      dir_file_size = from_le 4 (field ?x 28 4)\<rparr>"
    by (simp add: sde_ref_def rust_assert_def)
  have rest: "list_all (\<lambda>i. 4 dvd i \<and> i + 32 \<le> length data) is" using Cons.prems by simp
  show ?case
    using bytes ref Cons.IH [OF rest] padded_name_matches [OF name len]
    by (simp add: match_sde_def names_file_def entry_meta_def split: if_splits)
qed simp

lemma entry_offsets_inside:
  "32 dvd len \<Longrightarrow> list_all (\<lambda>i. 4 dvd i \<and> i + 32 \<le> len) (entry_offsets len)"
proof -
  assume "32 dvd len"
  then have "div_ceil len 32 * 32 = len" by (auto simp: div_ceil_def elim!: dvdE)
  then show ?thesis by (auto simp: list_all_iff entry_offsets_def dvd_mult2)
qed

lemma new_cluster_box: "len \<le> 128 * 4096 \<Longrightarrow> new_box (Suc 0) (Suc 0) len 2 = Some ()"
  by (auto simp: new_box_def box_layout_def validate_align_def umul_def from_size_align_def is_power_of_two_def
      power_from.simps usize_limit_def isize_MAX_def)

lemma find_append: "find P (xs @ ys) = (case find P xs of None \<Rightarrow> find P ys | Some x \<Rightarrow> Some x)"
  by (induction xs) auto

lemma search_loop_short:
  assumes geo: "geometry_ok dev fs" "device_serves dev disk" and name: "length n \<le> 8" "length e \<le> 3"
    and place: "4 dvd place (sectors_per_cluster fs * block_size dev)" and sec: "32 dvd block_size dev"
  shows "before fs disk cs it \<Longrightarrow>
    search_loop dev fs place (Some (n, e)) file_name it =
      Some (Inr (map_option entry_meta (find (names_file n e)
        (concat (map (\<lambda>c. visible_entries (cluster_bytes fs disk c)) cs)))))"
proof (induction cs arbitrary: it)
  case Nil
  then show ?case by (subst search_loop.simps) (simp add: before_end)
next
  case (Cons c cs)
  let ?len = "sectors_per_cluster fs * block_size dev" and ?data = "cluster_bytes fs disk c"
  obtain it' where it': "FAT32FATIter_next dev fs it = Some (Some (Inr (cluster_lba fs c)), it')" "before fs disk cs it'"
    using before_next [OF geo Cons.prems] by blast
  have dl: "length ?data = ?len" by (rule cluster_bytes_length [OF geo(2)])
  have read: "dev_read dev (cluster_lba fs c) ?len = Inr ?data"
    using cluster_read [OF geo before_valid [OF Cons.prems], of 0 "sectors_per_cluster fs"] geometry_okD(4) [OF geo(1)]
    by (simp add: dl)
  have "?len \<le> 128 * 4096" using geo(1) by (intro mult_le_mono) (auto simp: geometry_ok_def)
  then have box: "new_box (Suc 0) (Suc 0) ?len 2 = Some ()" by (rule new_cluster_box)
  have "32 dvd ?len" using sec by (rule dvd_mult)
  from dir_loop_short [OF name place, of ?data "entry_offsets ?len" file_name 0] entry_offsets_inside [OF this]
  have dir: "dir_loop (place ?len) ?data (Some (n, e)) file_name 0 (entry_offsets ?len)
      = Some (Inr (map_option entry_meta (find (names_file n e) (visible_entries ?data))))"
    by (simp add: visible_entries_def dl)
  show ?case
    by (subst search_loop.simps)
      (simp add: it'(1) read box dir Cons.IH [OF it'(2)] find_append split: option.splits)
qed

lemma search_short:
  assumes "geometry_ok dev fs" "device_serves dev disk" "32 dvd block_size dev"
    and "fat_chain fs disk cs" and "is_encode_83 name = Inr (Some (n, e))"
    and "4 dvd place (sectors_per_cluster fs * block_size dev)"
  shows "search_file_name_with_cluster_dir dev fs place (hd cs) name =
    Some (Inr (map_option entry_meta (find (names_file n e)
      (concat (map (\<lambda>c. visible_entries (cluster_bytes fs disk c)) cs)))))"
proof -
  have len: "length n \<le> 8" "length e \<le> 3"
    using assms(5) by (auto simp: is_encode_83_def split: if_splits sum.splits bool.splits list.splits)
  show ?thesis
    using search_loop_short [where place = place, OF assms(1,2) len assms(6,3) before_new [OF assms(4)]] assms(5)
    by (simp add: search_file_name_with_cluster_dir_def)
qed

text \<open>
  C13. The search of a directory for a short name ends without a panic and returns what the first
  entry with this name says, in the order of the clusters and of the entries in them: among the entries
  of each cluster before the first one that starts with a zero byte, those that are not deleted, not
  part of a long name and not a volume label, with the upper-case name padded to eight and three.
\<close>

theorem short_name_search:
  assumes "geometry_ok dev fs" "device_serves dev disk" "32 dvd block_size dev"
    and "fat_chain fs disk cs" and "is_encode_83 name = Inr (Some (n, e))"
    and "4 dvd place (sectors_per_cluster fs * block_size dev)"
  shows "search_file_name_with_cluster_dir dev fs place (hd cs) name =
    Some (Inr (map_option entry_meta (find (names_file n e)
      (concat (map (\<lambda>c. visible_entries (cluster_bytes fs disk c)) cs)))))"
  by (rule search_short [where place = place, OF assms])

lemma demo_root: "fat_chain demo_fs demo_disk [4]"
  by (simp add: valid_cluster_def fat_value_def fat_base_def demo_fs_def demo_disk_def field_def FAT32FAT_MASK_def)

lemma demo_visible: "visible_entries (cluster_bytes demo_fs demo_disk 4) = [demo_entry]"
proof -
  have data: "cluster_bytes demo_fs demo_disk 4 = demo_entry @ replicate 480 0"
    by (simp add: cluster_bytes_def blocks_def cluster_lba_def fat_base_def demo_fs_def demo_disk_def)
  have off: "entry_offsets 512 = 0 # 32 # map (\<lambda>k. 32 * k) [2..<16]"
    by (simp add: entry_offsets_def div_ceil_def upt_rec)
  have e: "length demo_entry = 32" "demo_entry ! 0 = 65" by (simp_all add: demo_entry_def)
  show ?thesis unfolding visible_entries_def data by (simp add: off e entry_at_def nth_append)
qed

lemma demo_find: "find (names_file [97] [116, 120, 116]) [demo_entry] = Some demo_entry"
  by code_simp

lemma demo_short: "is_encode_83 [97, 46, 116, 120, 116] = Inr (Some ([97], [116, 120, 116]))"
  by (simp add: is_encode_83_def short_char_def is_ascii_alphanumeric_def)

lemma demo_meta: "entry_meta demo_entry = demo_file"
  by (simp add: entry_meta_def demo_entry_def demo_file_def calculate_next_dir_def field_def from_le_def
      ATTR_DIRECTORY_def ATTR_READ_ONLY_def)

theorem short_name_search_witness:
  "search_file_name_with_cluster_dir (ram_device 512 8 demo_disk) demo_fs (\<lambda>_. 4096) 4 [97, 46, 116, 120, 116]
     = Some (Inr (Some demo_file))"
  using short_name_search [OF demo_volume _ demo_root demo_short, of "\<lambda>_. 4096"]
  by (simp add: demo_visible demo_find [simplified] demo_meta ram_device_def)

lemma pow2_and_pred: "(2 ^ k :: nat) AND (2 ^ k - 1) = 0"
  using take_bit_eq_mask [of k "2 ^ k :: nat"] by (simp add: take_bit_eq_mod mask_eq_exp_minus_1)

lemma new_box_bytes:
  assumes "len < u32_limit" "align = 2 ^ k" "k \<le> 12"
  shows "new_box (Suc 0) (Suc 0) len align = Some ()"
proof -
  have "align \<le> 2 ^ 12" unfolding assms(2) using assms(3) by (intro power_increasing) simp_all
  then have "len + align \<le> isize_MAX + 1" using assms(1) by (simp add: u32_limit_def isize_MAX_def)
  moreover have "is_power_of_two align" using pow2_from [of k] assms(2) by (simp add: is_power_of_two_def)
  ultimately show ?thesis
    using assms(1,2) pow2_and_pred [of k]
    by (simp add: new_box_def box_layout_def validate_align_def umul_def from_size_align_def usize_limit_def u32_limit_def)
qed

text \<open>A file of the root directory, opened and read.\<close>

lemma open_root_file:
  assumes vol: "geometry_ok dev fs" "device_serves dev disk" "32 dvd block_size dev"
    and root: "fat_chain fs disk ds" "root_dir_cluster fs = hd ds"
    and name: "is_encode_83 name = Inr (Some (n, e))" "47 \<notin> set name"
    and place: "4 dvd place (sectors_per_cluster fs * block_size dev)"
    and entry: "find (names_file n e) (concat (map (\<lambda>c. visible_entries (cluster_bytes fs disk c)) ds)) = Some x"
      "\<not> is_dir (entry_meta x)"
    and contents: "fat_chain fs disk cs" "first_cluster (entry_meta x) = hd cs" "0 < file_size (entry_meta x)"
      "file_size (entry_meta x) < u32_limit"
      "file_size (entry_meta x) \<le> length cs * (block_size dev * sectors_per_cluster fs)"
    and align: "align = 2 ^ k" "k \<le> 12"
  shows "\<exists>h. fat32_open dev fs place (47 # name) Read = Some (Inr h) \<and> FileHandle_size h = file_size (entry_meta x)
     \<and> FileHandle_read (Some dev) (Some fs) h align
       = Some (Inr (take (file_size (entry_meta x)) (chain_bytes fs disk cs)))"
proof -
  have "name \<noteq> []" using name(1) by (auto simp: is_encode_83_def)
  moreover have "split_on 47 name = [name]" using name(2) by (simp add: split_on_single)
  ultimately have "fat32_open dev fs place (47 # name) Read = Some (Inr \<lparr>fh_meta = entry_meta x, fh_opts = Read\<rparr>)"
    using search_short [where place = place, OF vol root(1) name(1) place] entry root(2) by (simp add: fat32_open_def)
  moreover have "new_box (Suc 0) (Suc 0) (file_size (entry_meta x)) align = Some ()"
    by (rule new_box_bytes [OF contents(4) align])
  ultimately show ?thesis
    using read_at_chain [OF vol(1,2) contents(1,2), of 0 "file_size (entry_meta x)"] contents(3-5)
    by (simp add: FileHandle_size_def FileHandle_read_def fat32_read_def)
qed

text \<open>
  Opening a file of the root directory by its short name and reading it through the handle, with
  any valid alignment, gives the contents of the file: the clusters of its chain cut to the size that
  the directory entry records.
\<close>

lemma open_and_read_file:
  assumes vol: "geometry_ok dev fs" "device_serves dev disk" "32 dvd block_size dev"
    and root: "fat_chain fs disk ds" "root_dir_cluster fs = hd ds"
    and name: "is_encode_83 name = Inr (Some (n, e))" "47 \<notin> set name"
    and place: "4 dvd place (sectors_per_cluster fs * block_size dev)"
    and entry: "find (names_file n e) (concat (map (\<lambda>c. visible_entries (cluster_bytes fs disk c)) ds)) = Some x"
      "\<not> is_dir (entry_meta x)"
    and contents: "fat_chain fs disk cs" "first_cluster (entry_meta x) = hd cs" "0 < file_size (entry_meta x)"
      "file_size (entry_meta x) < u32_limit"
      "file_size (entry_meta x) \<le> length cs * (block_size dev * sectors_per_cluster fs)"
    and align: "align = 2 ^ k" "k \<le> 12"
  shows "\<exists>h. fat32_open dev fs place (47 # name) Read = Some (Inr h) \<and> FileHandle_size h = file_size (entry_meta x)
     \<and> FileHandle_read (Some dev) (Some fs) h align
       = Some (Inr (take (file_size (entry_meta x)) (chain_bytes fs disk cs)))"
  using assms by (rule open_root_file)

lemma open_and_read_file_example:
  "\<exists>h. fat32_open (ram_device 512 8 demo_disk) demo_fs (\<lambda>_. 4096) [47, 97, 46, 116, 120, 116] Read = Some (Inr h)
     \<and> FileHandle_read (Some (ram_device 512 8 demo_disk)) (Some demo_fs) h 8
       = Some (Inr (replicate 512 2 @ replicate 88 3))"
proof -
  have bytes: "take 600 (chain_bytes demo_fs demo_disk [2, 3]) = replicate 512 2 @ replicate 88 3"
    by (simp add: chain_bytes_def cluster_bytes_def blocks_def cluster_lba_def fat_base_def demo_fs_def demo_disk_def)
  have "\<exists>h. fat32_open (ram_device 512 8 demo_disk) demo_fs (\<lambda>_. 4096) [47, 97, 46, 116, 120, 116] Read = Some (Inr h)
      \<and> FileHandle_size h = file_size (entry_meta demo_entry)
      \<and> FileHandle_read (Some (ram_device 512 8 demo_disk)) (Some demo_fs) h 8
       = Some (Inr (take (file_size (entry_meta demo_entry)) (chain_bytes demo_fs demo_disk [2, 3])))"
    by (rule open_and_read_file [OF demo_volume _ demo_root _ demo_short _ _ _ _ demo_chain, where k = 3])
      (simp_all add: demo_visible demo_find [simplified] demo_meta ram_device_def demo_file_def u32_limit_def,
        simp_all add: demo_fs_def)
  then show ?thesis by (auto simp: demo_meta demo_file_def bytes)
qed

end
