(* ===== verification/Filesystem.thy ===== *)
theory Filesystem
  imports Fat32_Dir_Spec
begin

text \<open>
  Partitions and mounting: \<open>src/file/filesystem/src/lib.rs\<close>, \<open>bootsector.rs\<close>, \<open>bootsector/mbr.rs\<close> and
  \<open>filesystem.rs\<close>. The only implementation of \<open>FileSystemTrait\<close> is the FAT32 driver, so an
  \<open>Arc<dyn FileSystemTrait>\<close> is a \<open>FAT32FileSystem\<close>. A \<open>todo!()\<close> is a panic.
\<close>

section \<open>The boot record\<close>

record MBRPartition =
  kind :: nat
  first_sector :: nat
  total_sector :: nat

datatype BootSector = MBR "MBRPartition list" | GPT | UnknownSector

definition BOOT_SIGNATURE :: nat where
  "BOOT_SIGNATURE = 0xAA55"

definition UNUSED :: nat where
  "UNUSED = 0"

definition TYPE_GPT :: nat where
  "TYPE_GPT = 0xEE"

text \<open>The entry of partition \<open>i\<close> of a \<open>MasterBootRecord\<close>: sixteen bytes from offset 446 on.\<close>

definition mbr_partition :: "byte list \<Rightarrow> nat \<Rightarrow> MBRPartition" where
  "mbr_partition data i = \<lparr>kind = field data (446 + 16 * i + 4) 1,
     first_sector = from_le 4 (field data (446 + 16 * i + 8) 4),
     total_sector = from_le 4 (field data (446 + 16 * i + 12) 4)\<rparr>"

record PartitionIndex =
  sector_kind :: BootSector
  partitions :: "(nat \<times> FAT32FileSystem) list"

definition PartitionIndex_new :: "BlockDevice \<Rightarrow> (FileSystemErr + PartitionIndex) option" where
  "PartitionIndex_new dev = do {
     new_box 1 1 (block_size dev) 1;
     (case dev_read dev 0 (block_size dev) of
        Inl e \<Rightarrow> Some (Inl (BlockDeviceErr e))
      | Inr buffer \<Rightarrow>
          if from_le 2 (field buffer 510 2) \<noteq> BOOT_SIGNATURE
          then Some (Inr \<lparr>sector_kind = UnknownSector, partitions = []\<rparr>)
          else do {
            let config = map (mbr_partition buffer) [0..<4];
            first \<leftarrow> slice_get config 0;
            rust_assert (kind first \<noteq> TYPE_GPT);
            Some (Inr \<lparr>sector_kind = MBR config, partitions = []\<rparr>)
          })
   }"

definition get_partition_start_total_sector ::
  "PartitionIndex \<Rightarrow> BlockDevice \<Rightarrow> nat \<Rightarrow> (FileSystemErr + nat \<times> nat) option" where
  "get_partition_start_total_sector self dev idx =
     (case sector_kind self of
        MBR x \<Rightarrow>
          if 4 \<le> idx then Some (Inl UnknownPartition)
          else do {
            p \<leftarrow> slice_get x idx;
            (if kind p = UNUSED then Some (Inl UnusedPartition)
             else Some (Inr (first_sector p, total_sector p)))
          }
      | GPT \<Rightarrow> None
      | UnknownSector \<Rightarrow>
          Some (if idx = 0 then Inr (0, num_blocks dev) else Inl UnknownPartition))"

section \<open>Mounting\<close>

definition u32_sub :: "nat \<Rightarrow> nat \<Rightarrow> nat option" where
  "u32_sub a b = (if b \<le> a then Some (a - b) else None)"

definition u32_div :: "nat \<Rightarrow> nat \<Rightarrow> nat option" where
  "u32_div a b = (if b = 0 then None else Some (a div b))"

definition file_system_new ::
  "BlockDevice \<Rightarrow> nat \<Rightarrow> nat \<Rightarrow> (FileSystemErr + FAT32FileSystem) option" where
  "file_system_new dev start_sector _ =
     (case dev_read dev start_sector (block_size dev) of
        Inl e \<Rightarrow> Some (Inl (BlockDeviceErr e))
      | Inr data \<Rightarrow>
          let boot = boot_sector_ref data
          in if bs_boot_sign boot \<noteq> BOOT_SIGNATURE then Some (Inl UnsupportedFileSystem)
          else if bpb_fat_sz16 boot \<noteq> 0 \<or> bpb_tot_sec_16 boot \<noteq> 0 then Some (Inl UnsupportedFileSystem)
          else do {
            root_bytes \<leftarrow> u32_mul (bpb_root_ent_cnt boot) 32;
            rust_assert (bpb_bytes_per_sec boot \<noteq> 0);
            let root_dir_sectors = div_ceil root_bytes (bpb_bytes_per_sec boot);
            fats \<leftarrow> u32_mul (bpb_num_fats boot) (bpb_fat_sz_32 boot);
            sys \<leftarrow> u32_add (bpb_rsvd_sec_cnt boot) fats;
            sys \<leftarrow> u32_add sys root_dir_sectors;
            data_sec \<leftarrow> u32_sub (bpb_tot_sec_32 boot) sys;
            count \<leftarrow> u32_div data_sec (bpb_sec_per_clus boot);
            (if count < 65525 then Some (Inl UnsupportedFileSystem)
             else Some (FAT32FileSystem_new (block_size dev) boot count start_sector))
          })"

definition get_partition_driver ::
  "PartitionIndex \<Rightarrow> BlockDevice \<Rightarrow> nat \<Rightarrow> ((FileSystemErr + FAT32FileSystem) \<times> PartitionIndex) option" where
  "get_partition_driver self dev idx =
     (case find (\<lambda>x. fst x = idx) (partitions self) of
        Some x \<Rightarrow> Some (Inr (snd x), self)
      | None \<Rightarrow> do {
          r \<leftarrow> get_partition_start_total_sector self dev idx;
          (case r of
             Inl e \<Rightarrow> Some (Inl e, self)
           | Inr (start, sectors) \<Rightarrow> do {
               d \<leftarrow> file_system_new dev start sectors;
               (case d of
                  Inl e \<Rightarrow> Some (Inl e, self)
                | Inr fs \<Rightarrow> Some (Inr fs, self\<lparr>partitions := partitions self @ [(idx, fs)]\<rparr>))
             })
        })"

definition PartitionIndex_open ::
  "PartitionIndex \<Rightarrow> BlockDevice \<Rightarrow> (usize \<Rightarrow> usize) \<Rightarrow> nat \<Rightarrow> byte list \<Rightarrow> OpenOptions
     \<Rightarrow> ((FileSystemErr + FileHandle) \<times> PartitionIndex) option" where
  "PartitionIndex_open self dev place idx name opts = do {
     (r, self') \<leftarrow> get_partition_driver self dev idx;
     (case r of
        Inl e \<Rightarrow> Some (Inl e, self')
      | Inr fs \<Rightarrow> do {
          h \<leftarrow> fat32_open dev fs place name opts;
          Some (h, self')
        })
   }"

text \<open>The other operations of a partition: the driver of the partition, mounted if need be, and its method.\<close>

definition on_partition ::
  "(FAT32FileSystem \<Rightarrow> (FileSystemErr + 'a) option) \<Rightarrow> PartitionIndex \<Rightarrow> BlockDevice \<Rightarrow> nat
     \<Rightarrow> ((FileSystemErr + 'a) \<times> PartitionIndex) option" where
  "on_partition f self dev idx = do {
     (r, self') \<leftarrow> get_partition_driver self dev idx;
     (case r of
        Inl e \<Rightarrow> Some (Inl e, self')
      | Inr fs \<Rightarrow> do {
          x \<leftarrow> f fs;
          Some (x, self')
        })
   }"

definition PartitionIndex_remove_file ::
  "PartitionIndex \<Rightarrow> BlockDevice \<Rightarrow> nat \<Rightarrow> byte list \<Rightarrow> ((FileSystemErr + unit) \<times> PartitionIndex) option" where
  "PartitionIndex_remove_file self dev idx name = on_partition (\<lambda>fs. fat32_remove_file fs name) self dev idx"

definition PartitionIndex_copy ::
  "PartitionIndex \<Rightarrow> BlockDevice \<Rightarrow> nat \<Rightarrow> byte list \<Rightarrow> byte list \<Rightarrow> ((FileSystemErr + unit) \<times> PartitionIndex) option" where
  "PartitionIndex_copy self dev idx from_name to_name = on_partition (\<lambda>fs. fat32_copy fs from_name to_name) self dev idx"

definition PartitionIndex_rename ::
  "PartitionIndex \<Rightarrow> BlockDevice \<Rightarrow> nat \<Rightarrow> byte list \<Rightarrow> byte list \<Rightarrow> ((FileSystemErr + unit) \<times> PartitionIndex) option" where
  "PartitionIndex_rename self dev idx from_name to_name = on_partition (\<lambda>fs. fat32_rename fs from_name to_name) self dev idx"

definition PartitionIndex_create_dir ::
  "PartitionIndex \<Rightarrow> BlockDevice \<Rightarrow> nat \<Rightarrow> byte list \<Rightarrow> ((FileSystemErr + unit) \<times> PartitionIndex) option" where
  "PartitionIndex_create_dir self dev idx name = on_partition (\<lambda>fs. fat32_create_dir fs name) self dev idx"

definition PartitionIndex_remove_dir ::
  "PartitionIndex \<Rightarrow> BlockDevice \<Rightarrow> nat \<Rightarrow> byte list \<Rightarrow> ((FileSystemErr + unit) \<times> PartitionIndex) option" where
  "PartitionIndex_remove_dir self dev idx name = on_partition (\<lambda>fs. fat32_remove_dir fs name) self dev idx"

section \<open>Properties\<close>

text \<open>
  C29. A volume that mounts has the geometry the driver computes with: a sector of the device's block
  size, one of the allowed cluster sizes, at least 65525 clusters, and the reserved sectors, the FATs
  and all its clusters fit into the sector count of the boot sector, without 32-bit overflow. If the
  device holds the volume and the FAT is long enough for the clusters, the conditions under which
  files are read correctly hold.
\<close>

theorem mounted_geometry:
  assumes "file_system_new dev start sectors = Some (Inr fs)"
  shows "bytes_per_sector fs \<in> {512, 1024, 2048, 4096} \<and> bytes_per_sector fs = block_size dev mod 2 ^ 16
    \<and> sectors_per_cluster fs \<in> {1, 2, 4, 8, 16, 32, 64, 128} \<and> hidden_sector fs = start
    \<and> 0 < num_fats fs \<and> 0 < reserved_sectors fs \<and> 65525 \<le> count_of_clusters fs
    \<and> reserved_sectors fs + num_fats fs * sectors_per_fat fs + count_of_clusters fs * sectors_per_cluster fs \<le> total_sectors fs
    \<and> (block_size dev < 2 ^ 16 \<longrightarrow> total_sectors fs < u32_limit \<longrightarrow> start + total_sectors fs \<le> num_blocks dev
       \<longrightarrow> 4 * (count_of_clusters fs + 2) \<le> sectors_per_fat fs * bytes_per_sector fs \<longrightarrow> geometry_ok dev fs)"
proof -
  obtain data boot count sys where boot: "boot = boot_sector_ref data"
    and fs: "FAT32FileSystem_new (block_size dev) boot count start = Inr fs"
    and count: "65525 \<le> count" "count = (bpb_tot_sec_32 boot - sys) div bpb_sec_per_clus boot" "sys \<le> bpb_tot_sec_32 boot"
      "bpb_rsvd_sec_cnt boot + bpb_num_fats boot * bpb_fat_sz_32 boot \<le> sys"
    using assms
    by (auto simp: file_system_new_def Let_def u32_mul_def u32_add_def u32_sub_def u32_div_def rust_assert_def
        split: sum.splits if_splits bind_splits)
  have "count * bpb_sec_per_clus boot \<le> bpb_tot_sec_32 boot - sys" unfolding count(2) by (rule div_times_less_eq_dividend)
  then have fit: "bpb_rsvd_sec_cnt boot + bpb_num_fats boot * bpb_fat_sz_32 boot + count * bpb_sec_per_clus boot
      \<le> bpb_tot_sec_32 boot" using count(3,4) by linarith
  have base: "bytes_per_sector fs \<in> {512, 1024, 2048, 4096}" "bytes_per_sector fs = block_size dev mod 2 ^ 16"
    "sectors_per_cluster fs \<in> {1, 2, 4, 8, 16, 32, 64, 128}" "hidden_sector fs = start"
    "0 < num_fats fs" "0 < reserved_sectors fs" "count_of_clusters fs = count"
    "reserved_sectors fs + num_fats fs * sectors_per_fat fs + count_of_clusters fs * sectors_per_cluster fs \<le> total_sectors fs"
    using fs fit by (auto simp: FAT32FileSystem_new_def split: if_splits)
  have "geometry_ok dev fs"
    if "block_size dev < 2 ^ 16" "total_sectors fs < u32_limit" "start + total_sectors fs \<le> num_blocks dev"
      "4 * (count_of_clusters fs + 2) \<le> sectors_per_fat fs * bytes_per_sector fs"
  proof -
    have pos: "0 < sectors_per_cluster fs" "sectors_per_cluster fs \<le> 128" using base(3) by auto
    then have "count_of_clusters fs * 1 \<le> count_of_clusters fs * sectors_per_cluster fs" by (intro mult_le_mono2) simp
    moreover have "num_fats fs * sectors_per_fat fs \<noteq> 0" using that(4) base(5) by (auto intro: ccontr)
    ultimately have "count_of_clusters fs + 1 < u32_limit" using base(6,8) that(2) by linarith
    moreover have "bytes_per_sector fs = block_size dev" using base(2) that(1) by simp
    ultimately show ?thesis unfolding geometry_ok_def using base pos that by auto
  qed
  then show ?thesis using base count(1) by simp
qed

definition demo_boot_sector :: "byte list" where
  "demo_boot_sector = replicate 11 0 @ [0, 2, 1, 32, 0, 2, 0, 0, 0, 0, 0, 0, 0, 0, 0, 0, 0, 0, 0, 0, 0, 112, 17, 1, 0, 88, 2, 0, 0,
     0, 0, 0, 0, 2, 0, 0, 0] @ replicate 462 0 @ [85, 170]"

definition demo_volume_disk :: disk where
  "demo_volume_disk lba = (if lba = 0 then demo_boot_sector else replicate 512 0)"

lemma demo_boot_fields:
  "boot_sector_ref demo_boot_sector = \<lparr>bpb_bytes_per_sec = 512, bpb_sec_per_clus = 1, bpb_rsvd_sec_cnt = 32, bpb_num_fats = 2,
     bpb_root_ent_cnt = 0, bpb_tot_sec_16 = 0, bpb_fat_sz16 = 0, bpb_hidd_sec = 0, bpb_tot_sec_32 = 70000,
     bpb_fat_sz_32 = 600, bpb_root_clus = 2, bs_boot_sign = 0xAA55\<rparr>"
  by (simp add: boot_sector_ref_def demo_boot_sector_def field_def from_le_def)

lemma demo_mount:
  "\<exists>fs. file_system_new (ram_device 512 70000 demo_volume_disk) 0 70000 = Some (Inr fs)
     \<and> sectors_per_fat fs = 600 \<and> count_of_clusters fs = 68768 \<and> total_sectors fs = 70000"
proof -
  have read: "dev_read (ram_device 512 70000 demo_volume_disk) 0 512 = Inr demo_boot_sector"
    by (simp add: ram_device_def blocks_def demo_volume_disk_def)
  show ?thesis
    unfolding file_system_new_def
    by (simp add: read [simplified ram_device_def BlockDevice.simps] ram_device_def blocks_def demo_volume_disk_def
        demo_boot_fields BOOT_SIGNATURE_def u32_mul_def u32_add_def u32_sub_def u32_div_def u32_limit_def rust_assert_def
        div_ceil_def FAT32FileSystem_new_def)
qed

theorem mounted_geometry_witness:
  "\<exists>fs. file_system_new (ram_device 512 70000 demo_volume_disk) 0 70000 = Some (Inr fs)
     \<and> geometry_ok (ram_device 512 70000 demo_volume_disk) fs"
proof -
  obtain fs where fs: "file_system_new (ram_device 512 70000 demo_volume_disk) 0 70000 = Some (Inr fs)"
    "sectors_per_fat fs = 600" "count_of_clusters fs = 68768" "total_sectors fs = 70000"
    using demo_mount by blast
  then show ?thesis using mounted_geometry [OF fs(1)] by (auto simp: ram_device_def u32_limit_def)
qed

text \<open>
  A partition is mounted once: after \<open>get_partition_driver\<close> has returned a driver, every later call for
  the same partition returns the same driver and leaves the index as it is, whatever the device
  answers then.
\<close>

lemma partition_driver_cached:
  assumes "get_partition_driver self dev idx = Some (Inr fs, self')"
  shows "get_partition_driver self' dev' idx = Some (Inr fs, self')"
  using assms
  by (auto simp: get_partition_driver_def find_append split: option.splits sum.splits bind_splits prod.splits)

end
