(* ===== verification/Boot_Image.thy ===== *)
theory Boot_Image
  imports Boot_Memory Range_List_Trim Filesystem
begin

text \<open>
  Two parts of \<open>main\<close> in \<open>src/bootloader/src/main.rs\<close>: loading the kernel image into a block of the allocator, and
  building the device tree that is handed to the kernel. What the loader reads the image from is a
  parameter of the first, the \<open>read_at\<close> of an open file handle.
\<close>

text \<open>\<open>Result::unwrap\<close> without a state beside the result.\<close>

definition unwrap_sum :: "('e + 'a) \<Rightarrow> 'a option" where
  "unwrap_sum x = (case x of Inl e \<Rightarrow> None | Inr v \<Rightarrow> Some v)"

section \<open>Kernel image\<close>

record LinuxHeader =
  text_offset :: nat
  image_size :: nat
  lh_magic :: "byte list"

definition LinuxHeader_MAGIC :: "byte list" where
  "LinuxHeader_MAGIC = [0x41, 0x52, 0x4d, 0x64]"

definition size_of_LinuxHeader :: nat where
  "size_of_LinuxHeader = 64"

definition linux_header_ref :: "byte list \<Rightarrow> LinuxHeader" where
  "linux_header_ref data = \<lparr>text_offset = from_le 8 (field data 8 8), image_size = from_le 8 (field data 16 8),
     lh_magic = take 4 (drop 56 data)\<rparr>"

definition IMAGE_ALIGN :: usize where
  "IMAGE_ALIGN = 0x2 * 0x1000 * 0x1000"

text \<open>
  From the opened file to the image in memory. \<open>read\<close> stands for \<open>read_at(0, ..)\<close> of the handle, a buffer of the
  given length to fill; the result is the address of the block, the address to jump to, the offset and the new state.
\<close>

definition load_image ::
  "(usize \<Rightarrow> MemoryRegions) \<Rightarrow> (usize \<Rightarrow> (FileSystemErr + byte list) option) \<Rightarrow> usize \<Rightarrow> MemoryAllocator \<Rightarrow> memory
   \<Rightarrow> (usize \<times> usize \<times> usize \<times> MemoryAllocator \<times> memory) option" where
  "load_image raw read file_len ma m = do {
     r \<leftarrow> read size_of_LinuxHeader;
     data \<leftarrow> unwrap_sum r;
     let header = linux_header_ref data;
     rust_assert (lh_magic header = LinuxHeader_MAGIC);
     sz \<leftarrow> uadd (image_size header) (text_offset header);
     layout \<leftarrow> from_size_align sz IMAGE_ALIGN;
     (linux_image, ma) \<leftarrow> global_alloc raw GLOBAL_MAX_BYTES ma layout;
     rust_assert (linux_image \<noteq> 0);
     r \<leftarrow> read file_len;
     bytes \<leftarrow> unwrap_sum r;
     let jump_addr = linux_image + text_offset header;
     Some (linux_image, jump_addr, text_offset header, ma, store_bytes m jump_addr bytes)
   }"

section \<open>The device tree for the kernel\<close>

definition RESERVE_FOR_BOOT :: usize where
  "RESERVE_FOR_BOOT = 0x1000 * 0x1000 * 128"

text \<open>
  The part of \<open>main\<close> behind \<open>drop(file_driver)\<close> up to the new device tree: \<open>trim_for_boot\<close>, one more reserved entry, a
  block for the tree and the copy.
\<close>

definition generate_device_tree ::
  "(usize \<Rightarrow> MemoryRegions) \<Rightarrow> usize \<Rightarrow> usize \<Rightarrow> DtbParser \<Rightarrow> MemoryAllocator \<Rightarrow> memory
   \<Rightarrow> (usize \<times> MemoryAllocator \<times> memory) option" where
  "generate_device_tree raw start stack dtb_modified ma m = do {
     (reserved_memory, ma) \<leftarrow> unwrap_result (global_trim_for_boot raw ma RESERVE_FOR_BOOT);
     let reserved_memory = reserved_memory @ [(start, stack)];
     (sz, align) \<leftarrow> get_required_size m dtb_modified (length reserved_memory);
     (dtb_data, ma) \<leftarrow> global_alloc raw GLOBAL_MAX_BYTES ma \<lparr>layout_size = sz, layout_align = align\<rparr>;
     (_, m) \<leftarrow> unwrap_result (make_dtb m dtb_modified dtb_data sz reserved_memory);
     Some (dtb_data, ma, m)
   }"

section \<open>Properties of the kernel image\<close>

text \<open>What \<open>read_at(0, ..)\<close> of an open handle does: it fills buffers up to the size of the file with its contents.\<close>

definition reads_file :: "(usize \<Rightarrow> (FileSystemErr + byte list) option) \<Rightarrow> byte list \<Rightarrow> bool" where
  "reads_file read contents \<longleftrightarrow> (\<forall>n. 0 < n \<and> n \<le> length contents \<longrightarrow> read n = Some (Inr (take n contents)))"

lemma handle_reads_file:
  assumes geo: "geometry_ok bdev fs" "device_serves bdev disk"
    and chain: "fat_chain fs disk cs" "first_cluster (fh_meta h) = hd cs"
    and size: "file_size (fh_meta h) < u32_limit" "file_size (fh_meta h) \<le> length cs * (block_size bdev * sectors_per_cluster fs)"
  shows "reads_file (FileHandle_read_at (Some bdev) (Some fs) h 0) (take (FileHandle_size h) (chain_bytes fs disk cs))"
  using read_at_chain [OF geo chain, of 0] size by (auto simp: reads_file_def FileHandle_read_at_def FileHandle_size_def min_def)

definition kernel_ok :: "byte list \<Rightarrow> bool" where
  "kernel_ok contents \<longleftrightarrow>
     (let h = linux_header_ref (take 64 contents) in
      64 \<le> length contents \<and> lh_magic h = LinuxHeader_MAGIC \<and> 0 < image_size h
      \<and> image_size h + text_offset h + IMAGE_ALIGN \<le> isize_MAX + 1)"

lemma image_layout:
  assumes "sz + IMAGE_ALIGN \<le> isize_MAX + 1"
  shows "from_size_align sz IMAGE_ALIGN = Some \<lparr>layout_size = sz, layout_align = IMAGE_ALIGN\<rparr>"
    and "layout_ok \<lparr>layout_size = sz, layout_align = IMAGE_ALIGN\<rparr>"
    and "is_large GLOBAL_MAX_BYTES \<lparr>layout_size = sz, layout_align = IMAGE_ALIGN\<rparr>"
proof -
  have p: "IMAGE_ALIGN = 2 ^ 25" by (simp add: IMAGE_ALIGN_def)
  show "from_size_align sz IMAGE_ALIGN = Some \<lparr>layout_size = sz, layout_align = IMAGE_ALIGN\<rparr>"
    using assms pow2_from [of 25] by (simp add: from_size_align_def is_power_of_two_def p)
  show "layout_ok \<lparr>layout_size = sz, layout_align = IMAGE_ALIGN\<rparr>" by (auto simp: layout_ok_def p intro!: exI [of _ 25])
  show "is_large GLOBAL_MAX_BYTES \<lparr>layout_size = sz, layout_align = IMAGE_ALIGN\<rparr>"
    by (simp add: is_large_def GLOBAL_MAX_BYTES_def p)
qed

lemma heap_large_alloc:
  assumes heap: "heap_ok raw GLOBAL_MAX_BYTES ma" "range_list_allocator ma = Some mb" "headroom mb"
    and l: "layout_ok l" "0 < layout_size l" "is_large GLOBAL_MAX_BYTES l"
    and room: "\<forall>g \<in> set (free_list mb). no_wrap (layout_size l) (layout_align l) g"
      "\<exists>g \<in> set (free_list mb). fits (layout_size l) (layout_align l) g"
  shows "\<exists>p ma'. global_alloc raw GLOBAL_MAX_BYTES ma l = Some (p, ma') \<and> p \<noteq> 0 \<and> heap_ok raw GLOBAL_MAX_BYTES ma'
    \<and> layout_align l dvd p \<and> block_span (p, l) \<inter> heap_owned ma = {} \<and> block_span (p, l) \<subseteq> heap_owned ma'
    \<and> heap_owned ma \<subseteq> heap_owned ma' \<and> p + layout_size l < usize_limit
    \<and> (\<exists>mb'. range_list_allocator ma' = Some mb' \<and> moved mb (block_span (p, l)) mb')"
proof -
  obtain b F where rep: "heap_rep raw GLOBAL_MAX_BYTES ma mb b F"
    using heap(1,2) by (auto simp: heap_ok_def heap_rep_def)
  have ok: "alloc_ok mb" "0 \<notin> cover (free_list mb)" using rep by (simp_all add: heap_rep_def)
  have al: "0 < layout_align l" using l(1) by (auto simp: layout_ok_def)
  obtain p mb' where a: "allocate_region raw mb l = Some (Some p, mb')" "moved mb {p..<p + layout_size l} mb'"
    "p + layout_size l < usize_limit"
    using allocate_region_total [OF ok(1) heap(3) al l(2) room(1), of raw] room(2) by auto
  have "p \<in> {p..<p + layout_size l}" using l(2) by simp
  then have "p \<in> cover (free_list mb)" using a(2) unfolding moved_def by blast
  then have p: "p \<noteq> 0" using ok(2) by (cases p) auto
  let ?ma = "ma\<lparr>range_list_allocator := Some mb'\<rparr>"
  have run: "global_alloc raw GLOBAL_MAX_BYTES ma l = Some (p, ?ma)"
    using a(1) l(3) heap(2) by (simp add: global_alloc_def is_large_def)
  then have "heap_alloc raw GLOBAL_MAX_BYTES ma l = Some (Some p, ?ma)" using p by (simp add: heap_alloc_def)
  from large_alloc_ok [OF rep l this] show ?thesis using run p a(2,3) by (auto simp: block_span_def)
qed

lemma load_image_run:
  assumes "reads_file read contents" and "kernel_ok contents" and "h = linux_header_ref (take 64 contents)"
    and "heap_ok raw GLOBAL_MAX_BYTES ma" and "range_list_allocator ma = Some mb" and "headroom mb"
    and "\<forall>g \<in> set (free_list mb). no_wrap (image_size h + text_offset h) IMAGE_ALIGN g"
    and "\<exists>g \<in> set (free_list mb). fits (image_size h + text_offset h) IMAGE_ALIGN g"
  shows "\<exists>p ma'. load_image raw read (length contents) ma m
      = Some (p, p + text_offset h, text_offset h, ma', store_bytes m (p + text_offset h) contents)
    \<and> p \<noteq> 0 \<and> IMAGE_ALIGN dvd p \<and> heap_ok raw GLOBAL_MAX_BYTES ma'
    \<and> {p..<p + image_size h + text_offset h} \<inter> heap_owned ma = {} \<and> {p..<p + image_size h + text_offset h} \<subseteq> heap_owned ma'"
proof -
  let ?sz = "image_size h + text_offset h"
  let ?l = "\<lparr>layout_size = ?sz, layout_align = IMAGE_ALIGN\<rparr>"
  have k: "64 \<le> length contents" "lh_magic h = LinuxHeader_MAGIC" "0 < image_size h" "?sz + IMAGE_ALIGN \<le> isize_MAX + 1"
    using assms(2,3) by (simp_all add: kernel_ok_def Let_def)
  have reads: "read size_of_LinuxHeader = Some (Inr (take 64 contents))" "read (length contents) = Some (Inr contents)"
    using assms(1) [unfolded reads_file_def, rule_format, of 64] assms(1) [unfolded reads_file_def, rule_format, of "length contents"] k(1)
    by (cases "contents = []"; simp add: size_of_LinuxHeader_def)+
  obtain p ma' where a: "global_alloc raw GLOBAL_MAX_BYTES ma ?l = Some (p, ma')" "p \<noteq> 0" "heap_ok raw GLOBAL_MAX_BYTES ma'"
    "IMAGE_ALIGN dvd p" "block_span (p, ?l) \<inter> heap_owned ma = {}" "block_span (p, ?l) \<subseteq> heap_owned ma'"
    using heap_large_alloc [OF assms(4-6) image_layout(2) [OF k(4)] _ image_layout(3) [OF k(4)]] assms(7,8) k(3) by auto
  have "uadd (image_size h) (text_offset h) = Some ?sz"
    using k(4) by (simp add: uadd_def usize_limit_def isize_MAX_def)
  then have "load_image raw read (length contents) ma m
      = Some (p, p + text_offset h, text_offset h, ma', store_bytes m (p + text_offset h) contents)"
    using reads k(2) a(1,2) image_layout(1) [OF k(4)]
    by (simp add: load_image_def unwrap_sum_def assms(3) [symmetric] exec_simps Let_def)
  then show ?thesis
    using a by (auto simp: block_span_def add.assoc)
qed


text \<open>
  Nothing compares the length of the file with the size in its header: a file that is longer makes \<open>main\<close> write every
  byte behind \<open>image_size\<close> to an address behind the block it allocated.
\<close>

lemma load_image_overruns_block:
  assumes "reads_file read contents" and "kernel_ok contents" and "h = linux_header_ref (take 64 contents)"
    and "heap_ok raw GLOBAL_MAX_BYTES ma" and "range_list_allocator ma = Some mb" and "headroom mb"
    and "\<forall>g \<in> set (free_list mb). no_wrap (image_size h + text_offset h) IMAGE_ALIGN g"
    and "\<exists>g \<in> set (free_list mb). fits (image_size h + text_offset h) IMAGE_ALIGN g"
    and "image_size h \<le> k" and "k < length contents"
  shows "\<exists>p ma' m' x. load_image raw read (length contents) ma m = Some (p, p + text_offset h, text_offset h, ma', m')
    \<and> from_size_align (image_size h + text_offset h) IMAGE_ALIGN
        = Some \<lparr>layout_size = image_size h + text_offset h, layout_align = IMAGE_ALIGN\<rparr>
    \<and> p + (image_size h + text_offset h) \<le> x \<and> m' x = contents ! k"
proof -
  obtain p ma' where run: "load_image raw read (length contents) ma m
      = Some (p, p + text_offset h, text_offset h, ma', store_bytes m (p + text_offset h) contents)"
    using load_image_run [OF assms(1-8)] by blast
  let ?x = "p + text_offset h + k"
  have "store_bytes m (p + text_offset h) contents ?x = contents ! k"
    using assms(10) by (simp add: store_bytes_def)
  moreover have "image_size h + text_offset h + IMAGE_ALIGN \<le> isize_MAX + 1"
    using assms(2,3) by (simp add: kernel_ok_def Let_def)
  moreover have "p + (image_size h + text_offset h) \<le> ?x" using assms(9) by simp
  ultimately show ?thesis
    using run image_layout(1) by blast
qed

text \<open>A heap with one megabyte behind the first 32, and a kernel of a header and nothing else.\<close>

definition image_heap_block :: MemoryBlock where
  "image_heap_block = MemoryBlock_init\<lparr>regions := Global (\<lparr>address = 0x2000000, mr_size = 0x100000\<rparr> # replicate 127 zero_region),
     region_size := 1, allocatable := True\<rparr>"

definition image_heap :: MemoryAllocator where
  "image_heap = \<lparr>range_list_allocator = Some image_heap_block,
     buddy_allocator = Some (buddy_new GLOBAL_MAX_BYTES (\<lambda>_. None)
       (Some (alloc_for_buddy_allocator (\<lambda>_. zero_region) GLOBAL_MAX_BYTES)))\<rparr>"

definition image_file :: "nat \<Rightarrow> byte list" where
  "image_file n = replicate 16 0 @ [64, 0, 0, 0, 0, 0, 0, 0] @ replicate 32 0 @ LinuxHeader_MAGIC @ replicate n 0"

lemma image_heap_lists [simp]:
  "free_list image_heap_block = [\<lparr>address = 0x2000000, mr_size = 0x100000\<rparr>]" "reserved_list image_heap_block = []"
  by (simp_all add: image_heap_block_def free_list_def reserved_list_def MemoryBlock_init_def)

lemma image_heap_alloc_ok: "alloc_ok image_heap_block" "headroom image_heap_block"
proof -
  have "regions_ok (free_list image_heap_block)" "regions_ok (reserved_list image_heap_block)"
    by (simp_all add: regions_ok_simps fin_def usize_limit_def)
  then have "block_ok image_heap_block"
    unfolding block_ok_def buffer_ok_def
    by (simp add: free_list_def reserved_list_def) (simp add: image_heap_block_def MemoryBlock_init_def u32_limit_def)
  then show "alloc_ok image_heap_block"
    by (simp add: alloc_ok_def separated_simps fin_def) (simp add: image_heap_block_def MemoryBlock_init_def)
  show "headroom image_heap_block"
    by (simp add: headroom_def image_heap_block_def MemoryBlock_init_def)
qed

lemma image_heap_ok: "heap_ok (\<lambda>_. zero_region) GLOBAL_MAX_BYTES image_heap"
  using image_heap_alloc_ok by (intro heap_okI [of _ image_heap_block]) (simp_all add: image_heap_def span_def)

lemma image_file_ok:
  assumes "4 \<le> n"
  shows "kernel_ok (image_file n)" "linux_header_ref (take 64 (image_file n)) = \<lparr>text_offset = 0, image_size = 64, lh_magic = LinuxHeader_MAGIC\<rparr>"
    "length (image_file n) = 60 + n"
proof -
  show len: "length (image_file n) = 60 + n" by (simp add: image_file_def LinuxHeader_MAGIC_def)
  have "take 64 (image_file n) = image_file 4"
    using assms by (simp add: image_file_def LinuxHeader_MAGIC_def min_def)
  moreover have "linux_header_ref (image_file 4) = \<lparr>text_offset = 0, image_size = 64, lh_magic = LinuxHeader_MAGIC\<rparr>"
    by code_simp
  ultimately show h: "linux_header_ref (take 64 (image_file n)) = \<lparr>text_offset = 0, image_size = 64, lh_magic = LinuxHeader_MAGIC\<rparr>"
    by simp
  show "kernel_ok (image_file n)"
    using assms by (simp add: kernel_ok_def h len isize_MAX_def IMAGE_ALIGN_def)
qed

lemma image_file_reads: "reads_file (\<lambda>k. Some (Inr (take k (image_file n)))) (image_file n)"
  by (simp add: reads_file_def)

lemma image_heap_room:
  "\<forall>g \<in> set (free_list image_heap_block). no_wrap (64 + 0) IMAGE_ALIGN g"
  "\<exists>g \<in> set (free_list image_heap_block). fits (64 + 0) IMAGE_ALIGN g"
  by (simp_all add: no_wrap_def fits_def align_up_def fin_def IMAGE_ALIGN_def usize_limit_def)


lemma load_image_overruns_block_example:
  "\<exists>p ma m x. load_image (\<lambda>_. zero_region) (\<lambda>k. Some (Inr (take k (image_file 5)))) 65 image_heap (\<lambda>_. 7) = Some (p, p, 0, ma, m)
    \<and> p + 64 \<le> x \<and> m x = image_file 5 ! 64"
  using load_image_overruns_block [OF image_file_reads image_file_ok(1) _ image_heap_ok _ image_heap_alloc_ok(2),
      of 5 "\<lparr>text_offset = 0, image_size = 64, lh_magic = LinuxHeader_MAGIC\<rparr>" 64 "\<lambda>_. 7"]
    image_heap_room image_file_ok(2,3) [of 5] by (auto simp: image_heap_def)

section \<open>Properties of the device tree for the kernel\<close>

lemma trim_heap:
  assumes heap: "heap_ok raw mx ma" "range_list_allocator ma = Some mb" "headroom mb"
    and n: "0 < n" "\<forall>g \<in> set (free_list mb). address g + n < usize_limit" "\<exists>g \<in> set (free_list mb). n \<le> mr_size g"
    and room: "reserved_region_size mb + 12 \<le> reserved_region_capacity mb"
  shows "\<exists>a rs mb'. global_trim_for_boot raw ma n
      = Some (Inr (map (\<lambda>r. (address r, mr_size r)) rs), ma\<lparr>range_list_allocator := Some mb'\<rparr>)
    \<and> heap_ok raw mx (ma\<lparr>range_list_allocator := Some mb'\<rparr>) \<and> headroom mb'
    \<and> heap_owned (ma\<lparr>range_list_allocator := Some mb'\<rparr>) = heap_owned ma
    \<and> regions_ok rs \<and> nonempty rs \<and> length rs \<le> Suc (reserved_region_size mb) \<and> a + n < usize_limit
    \<and> cover rs = cover (reserved_list mb') \<union> cover (free_list mb') \<and> free_list mb' = [\<lparr>address = a, mr_size = n\<rparr>]"
proof -
  obtain b F where rep: "heap_rep raw mx ma mb b F"
    using heap(1,2) by (auto simp: heap_ok_def heap_rep_def)
  then have ok: "alloc_ok mb" "0 \<notin> cover (free_list mb) \<union> cover (reserved_list mb)" by (simp_all add: heap_rep_def)
  obtain a rs mb' where t: "trim_for_boot raw mb n = Some (Inr (map (\<lambda>r. (address r, mr_size r)) rs), mb')" "alloc_ok mb'"
    "regions_ok rs" "nonempty rs" "length rs \<le> Suc (reserved_region_size mb)" "a + n < usize_limit" "{a..<a + n} \<subseteq> cover (free_list mb)"
    "cover rs = cover (reserved_list mb) \<union> {a..<a + n}" "free_list mb' = [\<lparr>address = a, mr_size = n\<rparr>]"
    "cover (reserved_list mb') = cover (reserved_list mb)" "region_size mb' = 1" "region_capacity mb' = 128"
    "reserved_region_capacity mb' = reserved_region_capacity mb" "reserved_region_size mb' \<le> reserved_region_size mb + 2"
    using trim_for_boot_total [OF ok(1) heap(3) n] by blast
  let ?ma = "ma\<lparr>range_list_allocator := Some mb'\<rparr>"
  have free: "cover (free_list mb') = {a..<a + n}" by (simp add: t(9) span_def fin_def)
  have rep': "heap_rep raw mx ?ma mb' b F"
    using rep t(2,7,10) ok(2) free by (auto simp: heap_rep_def)
  have "global_trim_for_boot raw ma n = Some (Inr (map (\<lambda>r. (address r, mr_size r)) rs), ?ma)"
    using t(1) heap(2) ok(1) by (simp add: global_trim_for_boot_def is_finalized_def alloc_ok_def)
  moreover have "headroom mb'" using t(11-14) room by (simp add: headroom_def)
  moreover have "heap_ok raw mx ?ma" using rep' unfolding heap_ok_def by blast
  moreover have "heap_owned ?ma = heap_owned ma" using t(10) by (simp add: heap_owned_eq [OF rep] heap_owned_eq [OF rep'])
  ultimately show ?thesis
    using t free by (intro exI [of _ a] exI [of _ rs] exI [of _ mb']) simp
qed

lemma disjoint_intervals:
  fixes a b :: nat
  shows "{a..<a + n} \<inter> {b..<b + k} = {} \<Longrightarrow> 0 < n \<Longrightarrow> 0 < k \<Longrightarrow> a + n \<le> b \<or> b + k \<le> a"
  by (auto simp: max_def min_def split: if_splits)

lemma region_entries_ok:
  assumes "regions_ok rs" and "nonempty rs"
  shows "list_all entry_ok (map (\<lambda>r. (address r, mr_size r)) rs)"
proof -
  have "address r < usize_limit \<and> mr_size r < usize_limit \<and> 0 < mr_size r" if "r \<in> set rs" for r
    using assms that by (fastforce simp: regions_ok_def nonempty_def fin_def)
  then show ?thesis by (fastforce simp: list_all_iff entry_ok_def)
qed

text \<open>Everything a program owns on the heap lies in the reserved table.\<close>

lemma heap_owned_reserved:
  "range_list_allocator ma = Some mb \<Longrightarrow> heap_owned ma \<subseteq> cover (reserved_list mb)"
  by (auto simp: heap_owned_def split: option.split)

definition kernel_tree_ok :: "memory \<Rightarrow> DtbParser \<Rightarrow> (usize \<times> usize) list \<Rightarrow> byte list \<Rightarrow> usize \<Rightarrow> nat \<Rightarrow> fdt_tree \<Rightarrow> nat \<Rightarrow> bool" where
  "kernel_tree_ok m d es strs a i t j \<longleftrightarrow>
     source_ok m (dtb_header d) es \<and> blob_at m d strs a i t j \<and> length strs \<le> get_string_size m (dtb_header d)
     \<and> DtbParser_init m (dtb_address (dtb_header d)) = Some (Inr d) \<and> 8 dvd dtb_address (dtb_header d)"

text \<open>The generator writes into any block of the asked size that is apart from the tree it reads.\<close>

lemma generated_apart:
  assumes k: "kernel_tree_ok m d es strs a i t j" and tot: "get_total_size m (dtb_header d) = tlen" "0 < tlen"
    and sz: "sz = tlen + 16 * length vec" "sz < 0x41000000"
    and q: "8 dvd q" "q + sz < usize_limit" and vec: "list_all entry_ok vec"
    and apart: "{dtb_address (dtb_header d)..<dtb_address (dtb_header d) + tlen} \<inter> {q..<q + sz} = {}"
  obtains m' a' where "make_dtb m d q sz vec = Some (Inr (), m')" "DtbParser_init m' q = Some (Inr (parser_at q))"
    "find_memory_reservation_block m' (parser_at q) collect [] = Some (es @ vec)" "blob_at m' (parser_at q) strs a' i t j"
    "load_bytes m' (dtb_address (dtb_header d)) tlen = load_bytes m (dtb_address (dtb_header d)) tlen"
    "get_required_size m d (length vec) = Some (sz, 8)"
proof -
  let ?b = "dtb_address (dtb_header d)"
  note k' = k [unfolded kernel_tree_ok_def]
  have off: "8 dvd get_memory_reservation_offset m (dtb_header d)"
    using k' by (auto simp: source_ok_def Let_def dvd_add_right_iff)
  have away: "?b + tlen \<le> q \<or> q + sz \<le> ?b"
    using apart tot(2) sz(1) by (intro disjoint_intervals) simp_all
  have "target_ok m (dtb_header d) q sz vec"
    using q off sz away dvd_trans [of 4 8 q]
    by (simp add: target_ok_def tot Let_def u32_limit_def dvd_add)
  then obtain m' a' where m': "make_dtb m d q sz vec = Some (Inr (), m')"
    "same_outside q (q + sz) m m'" "DtbParser_init m' q = Some (Inr (parser_at q))"
    "find_memory_reservation_block m' (parser_at q) collect [] = Some (es @ vec)" "blob_at m' (parser_at q) strs a' i t j"
    using generated [of m d es q sz vec strs a i t j] k' vec by auto
  have "load_bytes m' ?b tlen = load_bytes m ?b tlen"
    using m'(2) away by (auto simp: same_outside_def load_bytes_def)
  moreover have "get_required_size m d (length vec) = Some (sz, 8)"
    using sz by (simp add: get_required_size_def umul_def uadd_def tot size_of_FdtReserveEntry_def usize_limit_def)
  ultimately show ?thesis using that m'(1,3-5) by blast
qed


text \<open>A heap of four gigabytes above the first four, with a padded device tree in its only allocated block.\<close>

definition kernel_strs :: "byte list" where
  "kernel_strs = demo_strs @ replicate 5000 0"

definition kernel_heap_block :: MemoryBlock where
  "kernel_heap_block = MemoryBlock_init\<lparr>regions := Global (\<lparr>address = 0x100000000, mr_size = 0x100000000\<rparr> # replicate 127 zero_region),
     region_size := 1, reserved_regions := Global (\<lparr>address = 0x10000, mr_size = 0x2000\<rparr> # replicate 127 zero_region),
     reserved_region_size := 1, allocatable := True\<rparr>"

definition kernel_heap :: MemoryAllocator where
  "kernel_heap = \<lparr>range_list_allocator = Some kernel_heap_block,
     buddy_allocator = Some (buddy_new GLOBAL_MAX_BYTES (\<lambda>_. None)
       (Some (alloc_for_buddy_allocator (\<lambda>_. zero_region) GLOBAL_MAX_BYTES)))\<rparr>"

definition kernel_memory :: memory where
  "kernel_memory = store_bytes (\<lambda>_. 0) 0x10000 (flat_blob [] 0 demo_tree 0 kernel_strs)"

lemma kernel_heap_lists [simp]:
  "free_list kernel_heap_block = [\<lparr>address = 0x100000000, mr_size = 0x100000000\<rparr>]"
  "reserved_list kernel_heap_block = [\<lparr>address = 0x10000, mr_size = 0x2000\<rparr>]"
  "reserved_region_size kernel_heap_block = 1" "reserved_region_capacity kernel_heap_block = 128"
  by (simp_all add: kernel_heap_block_def free_list_def reserved_list_def MemoryBlock_init_def)

lemma kernel_heap_alloc_ok: "alloc_ok kernel_heap_block" "headroom kernel_heap_block"
proof -
  have "regions_ok (free_list kernel_heap_block)" "regions_ok (reserved_list kernel_heap_block)"
    by (simp_all add: regions_ok_simps fin_def usize_limit_def)
  then have "block_ok kernel_heap_block"
    unfolding block_ok_def buffer_ok_def
    by (simp add: free_list_def reserved_list_def) (simp add: kernel_heap_block_def MemoryBlock_init_def u32_limit_def)
  then show "alloc_ok kernel_heap_block"
    by (simp add: alloc_ok_def separated_simps fin_def span_def) (simp add: kernel_heap_block_def MemoryBlock_init_def)
  show "headroom kernel_heap_block"
    by (simp add: headroom_def kernel_heap_block_def MemoryBlock_init_def)
qed

lemma kernel_heap_ok:
  "heap_ok (\<lambda>_. zero_region) GLOBAL_MAX_BYTES kernel_heap" "heap_owned kernel_heap = {0x10000..<0x12000}"
proof -
  have "heap_rep (\<lambda>_. zero_region) GLOBAL_MAX_BYTES kernel_heap kernel_heap_block (buddy_new GLOBAL_MAX_BYTES (\<lambda>_. None)
       (Some (alloc_for_buddy_allocator (\<lambda>_. zero_region) GLOBAL_MAX_BYTES))) (\<lambda>_. {})"
    using kernel_heap_alloc_ok empty_buddy_rep [of GLOBAL_MAX_BYTES]
    by (simp add: heap_rep_def free_cover_def buddy_new_def kernel_heap_def span_def fin_def)
  then show "heap_ok (\<lambda>_. zero_region) GLOBAL_MAX_BYTES kernel_heap" "heap_owned kernel_heap = {0x10000..<0x12000}"
    unfolding heap_ok_def by (blast, subst heap_owned_eq) (auto simp: free_cover_def span_def fin_def)
qed

lemma tree_ok_append: "tree_ok strs t \<Longrightarrow> tree_ok (strs @ xs) t"
proof (induction t)
  case (Tree nm items kids)
  have "item_ok (strs @ xs) it" if "item_ok strs it" for it
  proof (cases it)
    case (Property off val)
    then have z: "0 \<in> set (drop off strs)" using that by simp
    then have "off < length strs" by (cases "off < length strs") auto
    moreover have "name_in (strs @ xs) off = name_in strs off"
      using z \<open>off < length strs\<close> by (simp add: name_in_def takeWhile_append1)
    ultimately show ?thesis using that z by (simp add: Property)
  qed simp
  then show ?case using Tree by (auto simp: list_all_iff)
qed

lemma kernel_tree_stored:
  "kernel_tree_ok kernel_memory (parser_at 0x10000) [] kernel_strs (0x10000 + 56) 0 demo_tree 0"
  "DtbParser_get_size kernel_memory (parser_at 0x10000) = 5215"
proof -
  have st: "stored kernel_memory 0x10000 (flat_blob [] 0 demo_tree 0 kernel_strs)"
    by (simp add: kernel_memory_def)
  have len: "length (struct_bytes 0 demo_tree 0) = 116" "length demo_strs = 43" by code_simp+
  then have sz: "blob_size [] 0 demo_tree 0 kernel_strs = 5215" by (simp add: blob_size_def kernel_strs_def)
  have ok: "tree_ok kernel_strs demo_tree" unfolding kernel_strs_def by (rule tree_ok_append [OF demo_tree_ok])
  have "get_string_size kernel_memory \<lparr>dtb_address = 0x10000\<rparr> = length kernel_strs"
    using flat_blob_pieces(7) [OF st] len by (simp add: get_string_size_def header_ref_def read_stored be_value_be_bytes kernel_strs_def)
  then show "kernel_tree_ok kernel_memory (parser_at 0x10000) [] kernel_strs (0x10000 + 56) 0 demo_tree 0"
    using flat_blob_ok [OF st] sz ok by (simp add: kernel_tree_ok_def parser_at_def u32_limit_def usize_limit_def)
  show "DtbParser_get_size kernel_memory (parser_at 0x10000) = 5215"
    using flat_blob_ok(2) [OF st] sz ok by (simp add: u32_limit_def usize_limit_def)
qed


end
