(* ===== verification/Systimer.thy ===== *)
theory Systimer
  imports Prelude
begin

text \<open>
  The system timer, \<open>src/bootloader/src/systimer.rs\<close>. The counter is a parameter: \<open>counter i\<close> is what the read
  number \<open>i\<close> of \<open>CNTPCT_EL0\<close> returns. The loop of \<open>wait\<close> reads it until enough ticks have passed, which need
  never happen, so the loop is a partial function; its result is the number of the last read. The
  difference of two readings is a checked 64-bit subtraction, the comparison is in 128 bits.
\<close>

record SystemTimer =
  counter_frequency :: "usize option"

record duration =
  secs :: nat
  nanos :: nat

definition SystemTimer_new :: SystemTimer where
  "SystemTimer_new = \<lparr>counter_frequency = None\<rparr>"

text \<open>\<open>NonZero::new(..).unwrap()\<close> panics on a frequency of 0.\<close>

definition SystemTimer_init :: "usize \<Rightarrow> SystemTimer \<Rightarrow> SystemTimer option" where
  "SystemTimer_init timer_frequency self = do {
     rust_assert (timer_frequency \<noteq> 0);
     Some (self\<lparr>counter_frequency := Some timer_frequency\<rparr>)
   }"

definition as_micros :: "duration \<Rightarrow> nat" where
  "as_micros d = secs d * 1000000 + nanos d div 1000"

definition u128_mul :: "nat \<Rightarrow> nat \<Rightarrow> nat option" where
  "u128_mul a b = (if a * b < 2 ^ 128 then Some (a * b) else None)"

partial_function (option) wait_loop :: "(nat \<Rightarrow> usize) \<Rightarrow> usize \<Rightarrow> nat \<Rightarrow> nat \<Rightarrow> nat option" where
  "wait_loop counter start wait_time i = do {
     ticks \<leftarrow> usub (counter i) start;
     (if ticks < wait_time then wait_loop counter start wait_time (i + 1) else Some i)
   }"

definition SystemTimer_wait :: "(nat \<Rightarrow> usize) \<Rightarrow> SystemTimer \<Rightarrow> duration \<Rightarrow> nat option" where
  "SystemTimer_wait counter self d = do {
     let micros = as_micros d;
     let start = counter 0;
     frequency \<leftarrow> counter_frequency self;
     wait_time \<leftarrow> u128_mul (frequency div 1000 div 1000) micros;
     wait_loop counter start wait_time 1
   }"

section \<open>Properties\<close>

lemma wait_time_fits:
  assumes "frequency < 2 ^ 64" and "secs d < 2 ^ 64" and "nanos d < 1000000000"
  shows "u128_mul (frequency div 1000 div 1000) (as_micros d) = Some (frequency div 1000000 * as_micros d)"
proof -
  have f: "frequency div 1000000 \<le> 18446744073709" using assms(1) by simp
  have m: "as_micros d < 18446744073709551616000000"
    using assms(2,3) by (simp add: as_micros_def)
  have "frequency div 1000000 * as_micros d \<le> 18446744073709 * 18446744073709551616000000"
    using f m by (intro mult_le_mono) simp_all
  also have "\<dots> < (2 :: nat) ^ 128" by simp
  finally show ?thesis by (simp add: u128_mul_def div_mult2_eq [symmetric])
qed

text \<open>The loop stops at the first reading that is late enough.\<close>

lemma wait_loop_stops:
  assumes "\<And>j. start \<le> counter j" and "wait_time \<le> counter (i + n) - start"
    and "\<And>j. j < n \<Longrightarrow> counter (i + j) - start < wait_time"
  shows "wait_loop counter start wait_time i = Some (i + n)"
  using assms(2,3)
proof (induction n arbitrary: i)
  case 0
  then show ?case using assms(1) by (subst wait_loop.simps) (simp add: exec_simps)
next
  case (Suc n)
  have "wait_loop counter start wait_time (i + 1) = Some (i + 1 + n)"
    using Suc.prems(1) Suc.prems(2) [of "Suc _"] by (intro Suc.IH) simp_all
  then show ?case
    using assms(1) Suc.prems(2) [of 0] by (subst wait_loop.simps) (simp add: exec_simps)
qed

text \<open>
  C35. \<open>wait\<close> returns, at the first reading of the counter that is late enough: on a counter that never runs
  backwards and reaches the end of the wait before it would overflow, an initialised timer computes without overflow, waits for the whole
  megahertz of its frequency times the microseconds of the duration, and no reading before the last one was
  late enough. On a frequency of whole megahertz these ticks are the asked time.
\<close>

theorem wait_returns_on_time:
  assumes "mono counter" and "\<exists>k. frequency div 1000000 * as_micros d + counter 0 \<le> counter k"
    and "counter_frequency timer = Some frequency" and "frequency < 2 ^ 64" and "secs d < 2 ^ 64" and "nanos d < 1000000000"
  shows "\<exists>i. SystemTimer_wait counter timer d = Some i
    \<and> frequency div 1000000 * as_micros d \<le> counter i - counter 0
    \<and> (\<forall>j. 0 < j \<and> j < i \<longrightarrow> counter j - counter 0 < frequency div 1000000 * as_micros d)
    \<and> (1000000 dvd frequency \<longrightarrow> frequency * as_micros d \<le> (counter i - counter 0) * 1000000)"
proof -
  let ?w = "frequency div 1000000 * as_micros d"
  have start: "counter 0 \<le> counter j" for j using assms(1) by (simp add: monoD)
  obtain k where "?w + counter 0 \<le> counter k" using assms(2) by blast
  then have "?w \<le> counter (1 + k) - counter 0"
    using monoD [OF assms(1), of k "1 + k"] by simp
  then obtain n where n: "?w \<le> counter (1 + n) - counter 0" "\<And>j. j < n \<Longrightarrow> \<not> ?w \<le> counter (1 + j) - counter 0"
    using exists_least_iff [of "\<lambda>n. ?w \<le> counter (1 + n) - counter 0"] by blast
  then have "wait_loop counter (counter 0) ?w 1 = Some (1 + n)"
    using start by (intro wait_loop_stops) (simp_all add: not_le)
  then have run: "SystemTimer_wait counter timer d = Some (1 + n)"
    using assms(3) wait_time_fits [OF assms(4-6)] by (simp add: SystemTimer_wait_def)
  have "counter j - counter 0 < ?w" if "0 < j" "j < 1 + n" for j
    using n(2) [of "j - 1"] that by (cases j) auto
  moreover have "frequency * as_micros d \<le> (counter (1 + n) - counter 0) * 1000000" if dvd: "1000000 dvd frequency"
  proof -
    have "frequency * as_micros d = ?w * 1000000" using dvd by (auto elim!: dvdE)
    also have "\<dots> \<le> (counter (1 + n) - counter 0) * 1000000" using n(1) by (rule mult_le_mono1)
    finally show ?thesis .
  qed
  ultimately show ?thesis using run n(1) by blast
qed

text \<open>A counter that ticks once per reading, at one megahertz.\<close>

theorem wait_returns_on_time_witness:
  "\<exists>i. SystemTimer_wait (\<lambda>i. 5 + i) \<lparr>counter_frequency = Some 1000000\<rparr> \<lparr>secs = 0, nanos = 7000\<rparr> = Some i \<and> 7 \<le> i"
proof -
  have "mono (\<lambda>i. 5 + i :: nat)" by (simp add: mono_def)
  from wait_returns_on_time [OF this, of 1000000 "\<lparr>secs = 0, nanos = 7000\<rparr>" "\<lparr>counter_frequency = Some 1000000\<rparr>"]
  show ?thesis by (auto simp: as_micros_def)
qed

text \<open>The division rounds each microsecond down: below one megahertz \<open>wait\<close> does not wait at all.\<close>

lemma wait_below_megahertz:
  assumes "counter 0 \<le> counter 1" and "counter_frequency timer = Some frequency" and "frequency < 1000000"
  shows "SystemTimer_wait counter timer d = Some 1"
proof -
  have "frequency div 1000 div 1000 = 0" using assms(3) by (simp add: div_mult2_eq [symmetric])
  then show ?thesis
    using assms by (simp add: SystemTimer_wait_def u128_mul_def) (subst wait_loop.simps, simp add: exec_simps)
qed

end
