(* ===== verification/Virtqueue.thy ===== *)
theory Virtqueue
  imports Intrusive_List Typestate
begin

text \<open>
  The split virtqueue, \<open>src/virtio/src/queue.rs\<close>. Descriptors and rings lie in memory, where the device
  reads and writes them too. A free descriptor is a node of the intrusive list: its first word is its
  link, kept in \<open>links\<close>; the fields of a descriptor are written only while it is off the list. The lock
  is held for one operation each time, so an operation is one step on the fields it guards. Fences and
  the cache maintenance of \<open>cache.rs\<close> order and publish accesses and change no value.
\<close>

unbundle bit_operations_syntax

type_synonym u16 = "16 word"

datatype VirtioErr =
    BadMagic nat | UnsupportedVersion nat | UnknownVirtioDevice nat
  | UnsupportedDeviceFeature "nat list" | UnsupportedDriverFeature "nat list"
  | Invalid | DeviceNeedsReset | DeviceUninitialized | OutOfAvailableDesc | QueueCorrupted

text \<open>The fields guarded by the lock, \<open>VirtQueueIdx\<close>, are the last three.\<close>

record VirtQueue =
  queue_size :: nat
  descriptor_paddr :: nat
  avail_paddr :: nat
  used_paddr :: nat
  free_list :: link
  avail_idx :: u16
  used_idx :: u16

record VirtqDesc =
  desc_addr :: nat
  desc_len :: nat
  desc_flags :: nat
  desc_next :: u16

definition size_of_VirtqDesc :: nat where
  "size_of_VirtqDesc = 16"

definition VIRTQ_DESC_F_NEXT :: nat where
  "VIRTQ_DESC_F_NEXT = 1"

definition VIRTQ_DESC_F_WRITE :: nat where
  "VIRTQ_DESC_F_WRITE = 2"

definition VIRTQ_DESC_F_INDIRECT :: nat where
  "VIRTQ_DESC_F_INDIRECT = 4"

text \<open>\<open>VirtqAvail\<close> is the flags and the index; \<open>VirtqUsed\<close> too, and \<open>VirtqUsedElem\<close> is an id and a length.\<close>

definition size_of_VirtqAvail :: nat where
  "size_of_VirtqAvail = 4"

definition size_of_VirtqUsed :: nat where
  "size_of_VirtqUsed = 4"

definition size_of_VirtqUsedElem :: nat where
  "size_of_VirtqUsedElem = 8"

text \<open>The fields of the descriptor at an address; the driver writes them one by one.\<close>

definition read_desc :: "memory \<Rightarrow> usize \<Rightarrow> VirtqDesc" where
  "read_desc m p = \<lparr>desc_addr = Le_read 8 m p, desc_len = Le_read 4 m (p + 8), desc_flags = Le_read 2 m (p + 12),
     desc_next = word_of_nat (Le_read 2 m (p + 14))\<rparr>"

definition set_desc_addr :: "memory \<Rightarrow> usize \<Rightarrow> nat \<Rightarrow> memory" where
  "set_desc_addr m p v = Le_write 8 m p v"

definition set_desc_len :: "memory \<Rightarrow> usize \<Rightarrow> nat \<Rightarrow> memory" where
  "set_desc_len m p v = Le_write 4 m (p + 8) v"

definition set_desc_flags :: "memory \<Rightarrow> usize \<Rightarrow> nat \<Rightarrow> memory" where
  "set_desc_flags m p v = Le_write 2 m (p + 12) v"

definition set_desc_next :: "memory \<Rightarrow> usize \<Rightarrow> u16 \<Rightarrow> memory" where
  "set_desc_next m p i = Le_write 2 m (p + 14) (unat i)"

section \<open>Operations\<close>

fun push_descriptors :: "links \<Rightarrow> link \<Rightarrow> usize \<Rightarrow> nat list \<Rightarrow> (links \<times> link) option" where
  "push_descriptors lk head d [] = Some (lk, head)"
| "push_descriptors lk head d (i # is) = do {
     p \<leftarrow> uadd d (i * size_of_VirtqDesc);
     (lk1, head1) \<leftarrow> list_push lk head p;
     push_descriptors lk1 head1 d is
   }"

definition vq_new :: "links \<Rightarrow> nat \<Rightarrow> usize \<Rightarrow> usize \<Rightarrow> usize \<Rightarrow> (VirtQueue \<times> links) option" where
  "vq_new lk sz d a u = do {
     (lk1, head) \<leftarrow> push_descriptors lk list_new d [0..<sz];
     Some (\<lparr>queue_size = sz, descriptor_paddr = d, avail_paddr = a, used_paddr = u, free_list = head,
       avail_idx = 0, used_idx = 0\<rparr>, lk1)
   }"

definition get_desc_queue :: "VirtQueue \<Rightarrow> usize \<Rightarrow> (u16 \<times> usize) option" where
  "get_desc_queue q desc_ptr = do {
     d \<leftarrow> usub desc_ptr (descriptor_paddr q);
     rust_assert (is_multiple_of desc_ptr 8);
     Some (word_of_nat (d div size_of_VirtqDesc), desc_ptr)
   }"

definition set_avail_queue_idx :: "memory \<Rightarrow> VirtQueue \<Rightarrow> u16 \<Rightarrow> u16 \<Rightarrow> memory option" where
  "set_avail_queue_idx m q slot_idx desc_idx = do {
     ring_start \<leftarrow> uadd (avail_paddr q) size_of_VirtqAvail;
     slot \<leftarrow> uadd ring_start (unat slot_idx * 2);
     rust_assert (is_multiple_of slot 2);
     Some (Le_write 2 m slot (unat desc_idx))
   }"

definition get_used_queue_idx :: "VirtQueue \<Rightarrow> u16 \<Rightarrow> usize option" where
  "get_used_queue_idx q ring_idx = do {
     ring_start \<leftarrow> uadd (used_paddr q) size_of_VirtqUsed;
     p \<leftarrow> uadd ring_start (unat ring_idx * size_of_VirtqUsedElem);
     rust_assert (is_multiple_of p 4);
     Some p
   }"

text \<open>\<open>self.size as u16 - 1\<close>: the cast truncates, and the subtraction panics on zero.\<close>

definition size_mask :: "VirtQueue \<Rightarrow> u16 option" where
  "size_mask q = do { rust_assert ((word_of_nat (queue_size q) :: u16) \<noteq> 0); Some (word_of_nat (queue_size q) - 1) }"

definition vq_allocate_descriptor ::
  "links \<Rightarrow> VirtQueue \<Rightarrow> ((VirtioErr + u16 \<times> usize) \<times> VirtQueue) option" where
  "vq_allocate_descriptor lk q =
     (case list_pop lk (free_list q) of
        (None, head) \<Rightarrow> Some (Inl OutOfAvailableDesc, q\<lparr>free_list := head\<rparr>)
      | (Some p, head) \<Rightarrow> do {
          d \<leftarrow> get_desc_queue q p;
          Some (Inr d, q\<lparr>free_list := head\<rparr>)
        })"

definition vq_set_available_ring ::
  "memory \<Rightarrow> VirtQueue \<Rightarrow> u16 \<Rightarrow> ((VirtioErr + unit) \<times> memory \<times> VirtQueue) option" where
  "vq_set_available_ring m q desc_idx =
     (let in_flight = unat (avail_idx q - used_idx q) in
      if queue_size q \<le> in_flight then Some (Inl OutOfAvailableDesc, m, q)
      else do {
        mask \<leftarrow> size_mask q;
        m1 \<leftarrow> set_avail_queue_idx m q (avail_idx q AND mask) desc_idx;
        let next_idx = avail_idx q + 1;
        rust_assert (is_multiple_of (avail_paddr q) 2);
        let m2 = Le_write 2 m1 (avail_paddr q + 2) (unat next_idx);
        Some (Inr (), m2, q\<lparr>avail_idx := next_idx\<rparr>)
      })"

definition vq_pop_used :: "memory \<Rightarrow> VirtQueue \<Rightarrow> ((VirtioErr + (u16 \<times> nat) option) \<times> VirtQueue) option" where
  "vq_pop_used m q = do {
     rust_assert (is_multiple_of (used_paddr q) 2);
     let delta = word_of_nat (Le_read 2 m (used_paddr q + 2)) - used_idx q;
     (if delta = 0 then Some (Inr None, q)
      else if queue_size q < unat delta then Some (Inl QueueCorrupted, q)
      else do {
        mask \<leftarrow> size_mask q;
        p \<leftarrow> get_used_queue_idx q (used_idx q AND mask);
        Some (Inr (Some (word_of_nat (Le_read 4 m p), Le_read 4 m (p + 4))), q\<lparr>used_idx := used_idx q + 1\<rparr>)
      })
   }"

definition vq_dequeue_used :: "links \<Rightarrow> VirtQueue \<Rightarrow> u16 \<Rightarrow> (VirtQueue \<times> links) option" where
  "vq_dequeue_used lk q desc_idx = do {
     p \<leftarrow> uadd (descriptor_paddr q) (unat desc_idx * size_of_VirtqDesc);
     (lk1, head) \<leftarrow> list_push lk (free_list q) p;
     Some (q\<lparr>free_list := head\<rparr>, lk1)
   }"

end
