(* ===== verification/Virtio.thy ===== *)
theory Virtio
  imports Virtqueue
begin

text \<open>
  The virtio transport and core, \<open>src/virtio/src/lib.rs\<close>, \<open>mmio.rs\<close> and \<open>device_type.rs\<close>. The device is no
  part of the sources: \<open>virtio_dev\<close> holds what it does on a register access, by the offset of the
  register, and on its own between two polls of the driver, on its state and the shared memory. The
  addresses that \<open>alloc_zeroed\<close> returns for the three parts of queue \<open>i\<close> are the argument \<open>place\<close>.
\<close>

unbundle bit_operations_syntax

section \<open>Device types\<close>

datatype VirtIoDeviceTypes =
    ReservedInvalid | NetworkDevice | BlockDevice | Console | EntropySource
  | MemoryBalloonTraditional | IoMemory | Rpmsg | ScsiHost | V9PTransport
  | Mac80211Wlan | RprocSerial | VirtioCaif | MemoryBalloon | GpuDevice
  | TimerClockDevice | InputDevice | SocketDevice | CryptoDevice | SignalDistributionModule
  | PstoreDevice | IommuDevice | MemoryDevice | SoundDevice | FileSystemDevice
  | PmemDevice | RpmbDevice | Mac80211HwsimWirelessSimulationDevice | VideoEncoderDevice | VideoDecoderDevice
  | ScmiDevice | NitroSecureModule | I2cAdapter | Watchdog | CanDevice
  | ParameterServer | AudioPolicyDevice | BluetoothDevice | GpioDevice | RdmaDevice
  | CameraDevice | IsmDevice | SpiMaster

fun device_id_of :: "VirtIoDeviceTypes \<Rightarrow> nat" where
  "device_id_of ReservedInvalid = 0"
| "device_id_of NetworkDevice = 1"
| "device_id_of BlockDevice = 2"
| "device_id_of Console = 3"
| "device_id_of EntropySource = 4"
| "device_id_of MemoryBalloonTraditional = 5"
| "device_id_of IoMemory = 6"
| "device_id_of Rpmsg = 7"
| "device_id_of ScsiHost = 8"
| "device_id_of V9PTransport = 9"
| "device_id_of Mac80211Wlan = 10"
| "device_id_of RprocSerial = 11"
| "device_id_of VirtioCaif = 12"
| "device_id_of MemoryBalloon = 13"
| "device_id_of GpuDevice = 16"
| "device_id_of TimerClockDevice = 17"
| "device_id_of InputDevice = 18"
| "device_id_of SocketDevice = 19"
| "device_id_of CryptoDevice = 20"
| "device_id_of SignalDistributionModule = 21"
| "device_id_of PstoreDevice = 22"
| "device_id_of IommuDevice = 23"
| "device_id_of MemoryDevice = 24"
| "device_id_of SoundDevice = 25"
| "device_id_of FileSystemDevice = 26"
| "device_id_of PmemDevice = 27"
| "device_id_of RpmbDevice = 28"
| "device_id_of Mac80211HwsimWirelessSimulationDevice = 29"
| "device_id_of VideoEncoderDevice = 30"
| "device_id_of VideoDecoderDevice = 31"
| "device_id_of ScmiDevice = 32"
| "device_id_of NitroSecureModule = 33"
| "device_id_of I2cAdapter = 34"
| "device_id_of Watchdog = 35"
| "device_id_of CanDevice = 36"
| "device_id_of ParameterServer = 38"
| "device_id_of AudioPolicyDevice = 39"
| "device_id_of BluetoothDevice = 40"
| "device_id_of GpioDevice = 41"
| "device_id_of RdmaDevice = 42"
| "device_id_of CameraDevice = 43"
| "device_id_of IsmDevice = 44"
| "device_id_of SpiMaster = 45"

definition try_from :: "nat \<Rightarrow> VirtioErr + VirtIoDeviceTypes" where
  "try_from value =
     (if value = 0 then Inr ReservedInvalid
      else if value = 1 then Inr NetworkDevice
      else if value = 2 then Inr BlockDevice
      else if value = 3 then Inr Console
      else if value = 4 then Inr EntropySource
      else if value = 5 then Inr MemoryBalloonTraditional
      else if value = 6 then Inr IoMemory
      else if value = 7 then Inr Rpmsg
      else if value = 8 then Inr ScsiHost
      else if value = 9 then Inr V9PTransport
      else if value = 10 then Inr Mac80211Wlan
      else if value = 11 then Inr RprocSerial
      else if value = 12 then Inr VirtioCaif
      else if value = 13 then Inr MemoryBalloon
      else if value = 16 then Inr GpuDevice
      else if value = 17 then Inr TimerClockDevice
      else if value = 18 then Inr InputDevice
      else if value = 19 then Inr SocketDevice
      else if value = 20 then Inr CryptoDevice
      else if value = 21 then Inr SignalDistributionModule
      else if value = 22 then Inr PstoreDevice
      else if value = 23 then Inr IommuDevice
      else if value = 24 then Inr MemoryDevice
      else if value = 25 then Inr SoundDevice
      else if value = 26 then Inr FileSystemDevice
      else if value = 27 then Inr PmemDevice
      else if value = 28 then Inr RpmbDevice
      else if value = 29 then Inr Mac80211HwsimWirelessSimulationDevice
      else if value = 30 then Inr VideoEncoderDevice
      else if value = 31 then Inr VideoDecoderDevice
      else if value = 32 then Inr ScmiDevice
      else if value = 33 then Inr NitroSecureModule
      else if value = 34 then Inr I2cAdapter
      else if value = 35 then Inr Watchdog
      else if value = 36 then Inr CanDevice
      else if value = 38 then Inr ParameterServer
      else if value = 39 then Inr AudioPolicyDevice
      else if value = 40 then Inr BluetoothDevice
      else if value = 41 then Inr GpioDevice
      else if value = 42 then Inr RdmaDevice
      else if value = 43 then Inr CameraDevice
      else if value = 44 then Inr IsmDevice
      else if value = 45 then Inr SpiMaster
      else Inl (UnknownVirtioDevice value))"

section \<open>The device and its registers\<close>

record 'd virtio_dev =
  reg_read :: "'d \<Rightarrow> nat \<Rightarrow> nat"
  reg_write :: "'d \<Rightarrow> nat \<Rightarrow> nat \<Rightarrow> 'd"
  dev_run :: "'d \<Rightarrow> memory \<Rightarrow> 'd \<times> memory"

record 'd machine =
  dev :: 'd
  mem :: memory
  lks :: links

text \<open>The offsets of the fields of \<open>MmioDeviceRegister\<close>.\<close>

definition REG_MAGIC :: nat where "REG_MAGIC = 0x00"
definition REG_VERSION :: nat where "REG_VERSION = 0x04"
definition REG_DEVICE_ID :: nat where "REG_DEVICE_ID = 0x08"
definition REG_DEVICE_FEATURES :: nat where "REG_DEVICE_FEATURES = 0x10"
definition REG_DEVICE_FEATURES_SEL :: nat where "REG_DEVICE_FEATURES_SEL = 0x14"
definition REG_DRIVER_FEATURES :: nat where "REG_DRIVER_FEATURES = 0x20"
definition REG_DRIVER_FEATURES_SEL :: nat where "REG_DRIVER_FEATURES_SEL = 0x24"
definition REG_QUEUE_SEL :: nat where "REG_QUEUE_SEL = 0x30"
definition REG_QUEUE_SIZE_MAX :: nat where "REG_QUEUE_SIZE_MAX = 0x34"
definition REG_QUEUE_SIZE :: nat where "REG_QUEUE_SIZE = 0x38"
definition REG_QUEUE_READY :: nat where "REG_QUEUE_READY = 0x44"
definition REG_QUEUE_NOTIFY :: nat where "REG_QUEUE_NOTIFY = 0x50"
definition REG_STATUS :: nat where "REG_STATUS = 0x70"
definition REG_QUEUE_DESC_LOW :: nat where "REG_QUEUE_DESC_LOW = 0x80"
definition REG_QUEUE_DESC_HIGH :: nat where "REG_QUEUE_DESC_HIGH = 0x84"
definition REG_QUEUE_DRIVER_LOW :: nat where "REG_QUEUE_DRIVER_LOW = 0x90"
definition REG_QUEUE_DRIVER_HIGH :: nat where "REG_QUEUE_DRIVER_HIGH = 0x94"
definition REG_QUEUE_DEVICE_LOW :: nat where "REG_QUEUE_DEVICE_LOW = 0xa0"
definition REG_QUEUE_DEVICE_HIGH :: nat where "REG_QUEUE_DEVICE_HIGH = 0xa4"
definition size_of_MmioDeviceRegister :: nat where "size_of_MmioDeviceRegister = 0x100"

definition wr :: "'d virtio_dev \<Rightarrow> nat \<Rightarrow> nat \<Rightarrow> 'd machine \<Rightarrow> 'd machine" where
  "wr D r v s = s\<lparr>dev := reg_write D (dev s) r v\<rparr>"

definition rd :: "'d virtio_dev \<Rightarrow> nat \<Rightarrow> 'd machine \<Rightarrow> nat" where
  "rd D r s = reg_read D (dev s) r"

section \<open>The MMIO transport\<close>

record VirtIoMmio =
  registers :: usize
  mmio_device :: VirtIoDeviceTypes

definition VIRTIO_MAGIC_VALUE :: nat where
  "VIRTIO_MAGIC_VALUE = 0x74726976"

definition VIRTIO_SUPPORTED_VERSION_COMPATIBLE_MODE :: nat where
  "VIRTIO_SUPPORTED_VERSION_COMPATIBLE_MODE = 1"

definition VIRTIO_SUPPORTED_VERSION :: nat where
  "VIRTIO_SUPPORTED_VERSION = 2"

definition new_mmio :: "'d virtio_dev \<Rightarrow> usize \<Rightarrow> 'd machine \<Rightarrow> (VirtioErr + VirtIoMmio) option" where
  "new_mmio D paddr s = do {
     rust_assert (is_multiple_of paddr 4);
     let magic = rd D REG_MAGIC s;
     let version = rd D REG_VERSION s;
     Some
       (if magic \<noteq> VIRTIO_MAGIC_VALUE then Inl (BadMagic magic)
        else if version \<noteq> VIRTIO_SUPPORTED_VERSION \<and> version \<noteq> VIRTIO_SUPPORTED_VERSION_COMPATIBLE_MODE
        then Inl (UnsupportedVersion version)
        else map_sum id (\<lambda>ty. \<lparr>registers = paddr, mmio_device = ty\<rparr>) (try_from (rd D REG_DEVICE_ID s)))
   }"

definition get_device_version :: "'d virtio_dev \<Rightarrow> 'd machine \<Rightarrow> nat" where
  "get_device_version D s = rd D REG_VERSION s"

definition get_configuration_addr :: "VirtIoMmio \<Rightarrow> usize option" where
  "get_configuration_addr self = uadd (registers self) size_of_MmioDeviceRegister"

definition set_status :: "'d virtio_dev \<Rightarrow> nat \<Rightarrow> 'd machine \<Rightarrow> 'd machine" where
  "set_status D v s = wr D REG_STATUS v s"

definition bitmask_set_status :: "'d virtio_dev \<Rightarrow> nat \<Rightarrow> 'd machine \<Rightarrow> 'd machine" where
  "bitmask_set_status D v s = wr D REG_STATUS (rd D REG_STATUS s OR v) s"

definition get_status :: "'d virtio_dev \<Rightarrow> 'd machine \<Rightarrow> nat" where
  "get_status D s = rd D REG_STATUS s"

definition get_device_features :: "'d virtio_dev \<Rightarrow> nat \<Rightarrow> 'd machine \<Rightarrow> nat \<times> 'd machine" where
  "get_device_features D select s =
     (let s1 = wr D REG_DEVICE_FEATURES_SEL select s in (rd D REG_DEVICE_FEATURES s1, s1))"

definition set_driver_features :: "'d virtio_dev \<Rightarrow> nat \<Rightarrow> nat \<Rightarrow> 'd machine \<Rightarrow> 'd machine" where
  "set_driver_features D select v s = wr D REG_DRIVER_FEATURES v (wr D REG_DRIVER_FEATURES_SEL select s)"

definition select_queue :: "'d virtio_dev \<Rightarrow> nat \<Rightarrow> 'd machine \<Rightarrow> 'd machine" where
  "select_queue D index s = wr D REG_QUEUE_SEL index s"

definition is_queue_ready_equal_0 :: "'d virtio_dev \<Rightarrow> 'd machine \<Rightarrow> bool" where
  "is_queue_ready_equal_0 D s = (rd D REG_QUEUE_READY s = 0)"

definition enable_queue_ready :: "'d virtio_dev \<Rightarrow> 'd machine \<Rightarrow> 'd machine" where
  "enable_queue_ready D s = wr D REG_QUEUE_READY 1 s"

definition get_max_queue_size :: "'d virtio_dev \<Rightarrow> 'd machine \<Rightarrow> nat" where
  "get_max_queue_size D s = rd D REG_QUEUE_SIZE_MAX s"

definition set_queue_size :: "'d virtio_dev \<Rightarrow> nat \<Rightarrow> 'd machine \<Rightarrow> 'd machine" where
  "set_queue_size D sz s = wr D REG_QUEUE_SIZE sz s"

definition queue_set_descriptor :: "'d virtio_dev \<Rightarrow> usize \<Rightarrow> 'd machine \<Rightarrow> 'd machine" where
  "queue_set_descriptor D paddr s =
     wr D REG_QUEUE_DESC_LOW (paddr mod 2 ^ 32) (wr D REG_QUEUE_DESC_HIGH (paddr div 2 ^ 32) s)"

definition queue_set_available :: "'d virtio_dev \<Rightarrow> usize \<Rightarrow> 'd machine \<Rightarrow> 'd machine" where
  "queue_set_available D paddr s =
     wr D REG_QUEUE_DRIVER_LOW (paddr mod 2 ^ 32) (wr D REG_QUEUE_DRIVER_HIGH (paddr div 2 ^ 32) s)"

definition queue_set_used :: "'d virtio_dev \<Rightarrow> usize \<Rightarrow> 'd machine \<Rightarrow> 'd machine" where
  "queue_set_used D paddr s =
     wr D REG_QUEUE_DEVICE_LOW (paddr mod 2 ^ 32) (wr D REG_QUEUE_DEVICE_HIGH (paddr div 2 ^ 32) s)"

definition queue_notify :: "'d virtio_dev \<Rightarrow> nat \<Rightarrow> 'd machine \<Rightarrow> 'd machine" where
  "queue_notify D index s = wr D REG_QUEUE_NOTIFY index s"

section \<open>The core\<close>

definition VIRTIO_FEATURE_SEL_SIZE :: nat where
  "VIRTIO_FEATURE_SEL_SIZE = 4"

definition F_VERSION_1 :: nat where
  "F_VERSION_1 = 1"

definition get_features_mask :: "nat \<Rightarrow> nat" where
  "get_features_mask select =
     (if select = 0 then 0x00FFFFFF else if select = 1 then 0xFFFC0000
      else if select = 2 \<or> select = 3 then 0xFFFFFFFF else 0)"

definition STATUS_RESET :: nat where
  "STATUS_RESET = 0"

definition STATUS_ACKNOWLEDGE :: nat where
  "STATUS_ACKNOWLEDGE = 1"

definition STATUS_DRIVER :: nat where
  "STATUS_DRIVER = 2"

definition STATUS_DRIVER_OK :: nat where
  "STATUS_DRIVER_OK = 4"

definition STATUS_FEATURES_OK :: nat where
  "STATUS_FEATURES_OK = 8"

definition STATUS_DEVICE_NEEDS_RESET :: nat where
  "STATUS_DEVICE_NEEDS_RESET = 64"

definition STATUS_FAILED :: nat where
  "STATUS_FAILED = 128"

text \<open>The trait \<open>VirtIoDevice\<close>: the driver's own features, with its cells as state, and its queues.\<close>

record 'a VirtIoDevice =
  driver_features :: "nat \<Rightarrow> nat \<Rightarrow> 'a \<Rightarrow> ((VirtioErr + nat) \<times> 'a) option"
  num_of_queue :: "VirtioErr + nat"

record VirtIoCore =
  transport :: VirtIoMmio
  queues :: "VirtQueue list option"

definition core_new_mmio :: "'d virtio_dev \<Rightarrow> usize \<Rightarrow> 'd machine \<Rightarrow> (VirtioErr + VirtIoCore) option" where
  "core_new_mmio D paddr s =
     map_option (map_sum id (\<lambda>t. \<lparr>transport = t, queues = None\<rparr>)) (new_mmio D paddr s)"

definition core_get_device :: "VirtIoCore \<Rightarrow> VirtIoDeviceTypes" where
  "core_get_device core = mmio_device (transport core)"

definition device_independent_features :: "'d virtio_dev \<Rightarrow> nat \<Rightarrow> nat \<Rightarrow> 'd machine \<Rightarrow> VirtioErr + nat" where
  "device_independent_features D select features s =
     (if select = 1 then
        if features AND F_VERSION_1 = 0 then Inl (UnsupportedVersion (get_device_version D s)) else Inr F_VERSION_1
      else Inr 0)"

text \<open>The loop over the feature words; \<open>features\<close> are the words offered so far.\<close>

fun feature_loop ::
  "'d virtio_dev \<Rightarrow> 'a VirtIoDevice \<Rightarrow> nat list \<Rightarrow> nat list \<Rightarrow> 'd machine \<times> 'a
   \<Rightarrow> ((VirtioErr + nat list) \<times> 'd machine \<times> 'a) option" where
  "feature_loop D drv [] features (s, a) = Some (Inr features, s, a)"
| "feature_loop D drv (i # is) features (s, a) = do {
     let (device_feature, s1) = get_device_features D i s;
     (own, a1) \<leftarrow> driver_features drv i device_feature a;
     (case own of
        Inl e \<Rightarrow> Some (Inl e, s1, a1)
      | Inr f \<Rightarrow>
          (case device_independent_features D i device_feature s1 of
             Inl e \<Rightarrow> Some (Inl e, s1, a1)
           | Inr g \<Rightarrow>
               feature_loop D drv is (features @ [device_feature])
                 (set_driver_features D i ((f AND device_feature AND get_features_mask i) OR g) s1, a1)))
   }"

text \<open>\<open>u32::ilog2\<close> panics on zero.\<close>

fun log2_floor :: "nat \<Rightarrow> nat" where
  "log2_floor n = (if n < 2 then 0 else Suc (log2_floor (n div 2)))"

declare log2_floor.simps [simp del]

definition ilog2 :: "nat \<Rightarrow> nat option" where
  "ilog2 n = (if n = 0 then None else Some (log2_floor n))"

definition alloc_zeroed :: "usize \<Rightarrow> nat \<Rightarrow> 'd machine \<Rightarrow> 'd machine" where
  "alloc_zeroed p n s = s\<lparr>mem := store_bytes (mem s) p (replicate n 0)\<rparr>"

text \<open>The queue with index \<open>i\<close>; \<^term>\<open>None\<close> beside the machine is the slot left uninitialised.\<close>

definition init_queue ::
  "'d virtio_dev \<Rightarrow> (nat \<Rightarrow> usize \<times> usize \<times> usize) \<Rightarrow> nat \<Rightarrow> 'd machine \<Rightarrow> (VirtQueue option \<times> 'd machine) option" where
  "init_queue D place i s = do {
     let s = select_queue D (i mod 2 ^ 16) s;
     (if \<not> is_queue_ready_equal_0 D s then Some (None, s)
      else do {
        l \<leftarrow> ilog2 (get_max_queue_size D s);
        let qsize = 2 ^ l;
        let s = set_queue_size D qsize s;
        let (descriptor_table, available_ring, used_ring) = place i;
        let s = alloc_zeroed descriptor_table (16 * qsize) s;
        let s = alloc_zeroed available_ring (size_of_VirtqAvail + 2 * qsize) s;
        let s = alloc_zeroed used_ring (size_of_VirtqUsed + size_of_VirtqUsedElem * qsize) s;
        let s = queue_set_descriptor D descriptor_table s;
        let s = queue_set_available D available_ring s;
        let s = queue_set_used D used_ring s;
        (q, lk) \<leftarrow> vq_new (lks s) qsize descriptor_table available_ring used_ring;
        let s = enable_queue_ready D (s\<lparr>lks := lk\<rparr>);
        Some (Some q, s)
      })
   }"

fun init_queues ::
  "'d virtio_dev \<Rightarrow> (nat \<Rightarrow> usize \<times> usize \<times> usize) \<Rightarrow> nat list \<Rightarrow> 'd machine
   \<Rightarrow> (VirtQueue option list \<times> 'd machine) option" where
  "init_queues D place [] s = Some ([], s)"
| "init_queues D place (i # is) s = do {
     (q, s1) \<leftarrow> init_queue D place i s;
     (qs, s2) \<leftarrow> init_queues D place is s1;
     Some (q # qs, s2)
   }"

text \<open>\<open>assume_init\<close> on a box with a slot that was skipped is undefined behaviour.\<close>

definition assume_init_queues :: "VirtQueue option list \<Rightarrow> VirtQueue list option" where
  "assume_init_queues qs = (if None \<in> set qs then None else Some (map the qs))"

text \<open>The closure of \<open>init\<close>: the handshake, the features, the queues, and the driver's readiness.\<close>

definition init_closure ::
  "'d virtio_dev \<Rightarrow> (nat \<Rightarrow> usize \<times> usize \<times> usize) \<Rightarrow> 'a VirtIoDevice \<Rightarrow> VirtIoCore \<Rightarrow> 'd machine \<Rightarrow> 'a
   \<Rightarrow> ((VirtioErr + unit) \<times> VirtIoCore \<times> 'd machine \<times> 'a) option" where
  "init_closure D place drv core s a = do {
     let s = set_status D STATUS_RESET s;
     let s = bitmask_set_status D STATUS_ACKNOWLEDGE s;
     let s = bitmask_set_status D STATUS_DRIVER s;
     (r, s, a) \<leftarrow> feature_loop D drv [0..<VIRTIO_FEATURE_SEL_SIZE] [] (s, a);
     (case r of
        Inl e \<Rightarrow> Some (Inl e, core, s, a)
      | Inr features \<Rightarrow> do {
          let s = bitmask_set_status D STATUS_FEATURES_OK s;
          let status = get_status D s;
          (if status AND STATUS_FEATURES_OK = 0 then Some (Inl (UnsupportedDriverFeature features), core, s, a)
           else if status AND STATUS_DEVICE_NEEDS_RESET \<noteq> 0 then Some (Inl DeviceNeedsReset, core, s, a)
           else
             (case num_of_queue drv of
                Inl e \<Rightarrow> Some (Inl e, core, s, a)
              | Inr n \<Rightarrow>
                  if 2 ^ 16 < n then Some (Inl Invalid, core, s, a)
                  else do {
                    (slots, s) \<leftarrow> init_queues D place [0..<n] s;
                    qs \<leftarrow> assume_init_queues slots;
                    let core = core\<lparr>queues := Some qs\<rparr>;
                    (if get_status D s AND STATUS_DEVICE_NEEDS_RESET = STATUS_DEVICE_NEEDS_RESET
                     then Some (Inl DeviceNeedsReset, core, s, a)
                     else Some (Inr (), core, bitmask_set_status D STATUS_DRIVER_OK s, a))
                  }))
        })
   }"

definition core_init ::
  "'d virtio_dev \<Rightarrow> (nat \<Rightarrow> usize \<times> usize \<times> usize) \<Rightarrow> 'a VirtIoDevice \<Rightarrow> VirtIoCore \<Rightarrow> 'd machine \<Rightarrow> 'a
   \<Rightarrow> ((VirtioErr + unit) \<times> VirtIoCore \<times> 'd machine \<times> 'a) option" where
  "core_init D place drv core s a = do {
     (r, core, s, a) \<leftarrow> init_closure D place drv core s a;
     Some (r, core, (case r of Inl _ \<Rightarrow> bitmask_set_status D STATUS_FAILED s | Inr _ \<Rightarrow> s), a)
   }"

section \<open>Requests\<close>

text \<open>An operation on one queue; an index behind the last queue is a panic.\<close>

definition with_queue :: "VirtIoCore \<Rightarrow> u16 \<Rightarrow> VirtQueue \<Rightarrow> VirtIoCore" where
  "with_queue core i q = core\<lparr>queues := map_option (\<lambda>qs. qs[unat i := q]) (queues core)\<rparr>"

definition core_allocate_descriptor ::
  "VirtIoCore \<Rightarrow> u16 \<Rightarrow> 'd machine \<Rightarrow> ((VirtioErr + u16 \<times> usize) \<times> VirtIoCore) option" where
  "core_allocate_descriptor core i s =
     (case queues core of
        None \<Rightarrow> Some (Inl DeviceUninitialized, core)
      | Some qs \<Rightarrow> do {
          q \<leftarrow> slice_get qs (unat i);
          (r, q1) \<leftarrow> vq_allocate_descriptor (lks s) q;
          Some (r, with_queue core i q1)
        })"

definition core_set_and_notify ::
  "'d virtio_dev \<Rightarrow> VirtIoCore \<Rightarrow> u16 \<Rightarrow> u16 \<Rightarrow> 'd machine \<Rightarrow> ((VirtioErr + unit) \<times> VirtIoCore \<times> 'd machine) option" where
  "core_set_and_notify D core i desc_idx s =
     (case queues core of
        None \<Rightarrow> Some (Inl DeviceUninitialized, core, s)
      | Some qs \<Rightarrow> do {
          q \<leftarrow> slice_get qs (unat i);
          (r, m, q1) \<leftarrow> vq_set_available_ring (mem s) q desc_idx;
          (case r of
             Inl e \<Rightarrow> Some (Inl e, with_queue core i q1, s\<lparr>mem := m\<rparr>)
           | Inr _ \<Rightarrow> Some (Inr (), with_queue core i q1, queue_notify D (unat i) (s\<lparr>mem := m\<rparr>)))
        })"

definition core_pop_used ::
  "VirtIoCore \<Rightarrow> u16 \<Rightarrow> 'd machine \<Rightarrow> ((VirtioErr + (u16 \<times> nat) option) \<times> VirtIoCore) option" where
  "core_pop_used core i s =
     (case queues core of
        None \<Rightarrow> Some (Inl DeviceUninitialized, core)
      | Some qs \<Rightarrow> do {
          q \<leftarrow> slice_get qs (unat i);
          (r, q1) \<leftarrow> vq_pop_used (mem s) q;
          Some (r, with_queue core i q1)
        })"

definition core_dequeue_used ::
  "VirtIoCore \<Rightarrow> u16 \<Rightarrow> u16 \<Rightarrow> 'd machine \<Rightarrow> ((VirtioErr + unit) \<times> VirtIoCore \<times> 'd machine) option" where
  "core_dequeue_used core i desc_idx s =
     (case queues core of
        None \<Rightarrow> Some (Inl DeviceUninitialized, core, s)
      | Some qs \<Rightarrow> do {
          q \<leftarrow> slice_get qs (unat i);
          (q1, lk) \<leftarrow> vq_dequeue_used (lks s) q desc_idx;
          Some (Inr (), with_queue core i q1, s\<lparr>lks := lk\<rparr>)
        })"

definition core_reset :: "'d virtio_dev \<Rightarrow> 'd machine \<Rightarrow> 'd machine" where
  "core_reset D s = set_status D STATUS_RESET s"

end
