(* ===== verification/Virtio_Blk.thy ===== *)
theory Virtio_Blk
  imports Virtio Block_Device
begin

text \<open>
  The virtio block driver, \<open>src/file/block-device/src/virtio_blk.rs\<close> with \<open>virtio_blk/operation.rs\<close> and
  \<open>virtio_blk/configuration.rs\<close>. The request header and the status byte are locals of the driver that
  the device accesses; their addresses are the argument \<open>frame\<close>. While the driver polls the used ring
  the device runs: \<^verbatim>\<open>dev_run\<close> before every poll. A device that never answers keeps
  the driver polling forever, so the loop is a partial function.
\<close>

unbundle bit_operations_syntax

section \<open>Requests\<close>

definition VIRTIO_BLK_T_IN :: nat where
  "VIRTIO_BLK_T_IN = 0"

definition VIRTIO_BLK_T_OUT :: nat where
  "VIRTIO_BLK_T_OUT = 1"

definition VIRTIO_BLK_T_FLUSH :: nat where
  "VIRTIO_BLK_T_FLUSH = 4"

definition VIRTIO_BLK_S_OK :: nat where
  "VIRTIO_BLK_S_OK = 0"

definition VIRTIO_BLK_S_IOERR :: nat where
  "VIRTIO_BLK_S_IOERR = 1"

definition VIRTIO_BLK_S_UNSUPP :: nat where
  "VIRTIO_BLK_S_UNSUPP = 2"

definition VIRTIO_BLK_S_RESERVED :: nat where
  "VIRTIO_BLK_S_RESERVED = 0xFF"

definition VIRTIO_BLK_F_RO :: nat where
  "VIRTIO_BLK_F_RO = 32"

definition size_of_VirtioBlkReq :: nat where
  "size_of_VirtioBlkReq = 16"

record VirtioBlkReq =
  reg_type :: nat
  reserved :: nat
  sector :: nat

definition write_req :: "memory \<Rightarrow> usize \<Rightarrow> VirtioBlkReq \<Rightarrow> memory" where
  "write_req m p r = Le_write 8 (Le_write 4 (Le_write 4 m p (reg_type r)) (p + 4) (reserved r)) (p + 8) (sector r)"

section \<open>The driver\<close>

record VirtIoBlk =
  virtio :: VirtIoCore
  is_readonly :: "bool option"
  configuration_space :: usize

text \<open>The offset of \<open>capacity\<close>, the first field of the configuration space.\<close>

definition REG_CAPACITY :: nat where
  "REG_CAPACITY = 0x100"

text \<open>\<open>VirtIoBlkAdapter\<close>: its cell can be set once.\<close>

definition adapter_driver_features :: "nat \<Rightarrow> nat \<Rightarrow> bool option \<Rightarrow> ((VirtioErr + nat) \<times> bool option) option" where
  "adapter_driver_features select device_feature cell =
     (if select = 0 then do {
        rust_assert (cell = None);
        Some (Inr 0, Some (device_feature AND VIRTIO_BLK_F_RO \<noteq> 0))
      }
      else Some (Inr 0, cell))"

definition VirtIoBlkAdapter :: "bool option VirtIoDevice" where
  "VirtIoBlkAdapter = \<lparr>driver_features = adapter_driver_features, num_of_queue = Inr 1\<rparr>"

definition error_from :: "VirtioErr \<Rightarrow> IoError" where
  "error_from e =
     (case e of
        BadMagic _ \<Rightarrow> Protocol
      | UnsupportedVersion _ \<Rightarrow> Unsupported
      | UnknownVirtioDevice _ \<Rightarrow> Unsupported
      | UnsupportedDeviceFeature _ \<Rightarrow> Unsupported
      | UnsupportedDriverFeature _ \<Rightarrow> Unsupported
      | Invalid \<Rightarrow> InvalidParam
      | DeviceNeedsReset \<Rightarrow> NotReady
      | DeviceUninitialized \<Rightarrow> NotReady
      | OutOfAvailableDesc \<Rightarrow> Busy
      | QueueCorrupted \<Rightarrow> Corrupted)"

definition blk_new :: "'d virtio_dev \<Rightarrow> usize \<Rightarrow> 'd machine \<Rightarrow> (IoError + VirtIoBlk) option" where
  "blk_new D addr s = do {
     r \<leftarrow> core_new_mmio D addr s;
     (case r of
        Inl e \<Rightarrow> Some (Inl (error_from e))
      | Inr core \<Rightarrow>
          if core_get_device core \<noteq> BlockDevice then Some (Inl Unsupported)
          else do {
            cfg \<leftarrow> get_configuration_addr (transport core);
            rust_assert (is_multiple_of cfg 8);
            Some (Inr \<lparr>virtio = core, is_readonly = None, configuration_space = cfg\<rparr>)
          })
   }"

definition blk_init ::
  "'d virtio_dev \<Rightarrow> (nat \<Rightarrow> usize \<times> usize \<times> usize) \<Rightarrow> VirtIoBlk \<Rightarrow> 'd machine
   \<Rightarrow> ((IoError + unit) \<times> VirtIoBlk \<times> 'd machine) option" where
  "blk_init D place blk s = do {
     (r, core, s, cell) \<leftarrow> core_init D place VirtIoBlkAdapter (virtio blk) s None;
     let blk = blk\<lparr>virtio := core\<rparr>;
     (case r of
        Inl e \<Rightarrow> Some (Inl (error_from e), blk, s)
      | Inr _ \<Rightarrow> do {
          ro \<leftarrow> cell;
          rust_assert (is_readonly blk = None);
          Some (Inr (), blk\<lparr>is_readonly := Some ro\<rparr>, s)
        })
   }"

definition blk_block_size :: usize where
  "blk_block_size = 512"

definition blk_num_blocks :: "'d virtio_dev \<Rightarrow> 'd machine \<Rightarrow> nat" where
  "blk_num_blocks D s = rd D REG_CAPACITY s"

definition blk_max_io_bytes :: "VirtIoBlk \<Rightarrow> IoError + usize option" where
  "blk_max_io_bytes blk = (if queues (virtio blk) = None then Inl NotReady else Inr None)"

definition blk_is_read_only :: "VirtIoBlk \<Rightarrow> IoError + bool" where
  "blk_is_read_only blk = (case is_readonly blk of Some ro \<Rightarrow> Inr ro | None \<Rightarrow> Inl NotReady)"

definition blk_uninstall :: "'d virtio_dev \<Rightarrow> 'd machine \<Rightarrow> 'd machine" where
  "blk_uninstall D s = core_reset D s"

section \<open>Submitting a request\<close>

text \<open>Giving descriptors back, one after the other; the result of \<open>dequeue_used\<close> is ignored or \<open>Ok\<close>.\<close>

fun free_descriptors :: "VirtIoCore \<Rightarrow> u16 list \<Rightarrow> 'd machine \<Rightarrow> (VirtIoCore \<times> 'd machine) option" where
  "free_descriptors core [] s = Some (core, s)"
| "free_descriptors core (i # is) s = do {
     (_, core1, s1) \<leftarrow> core_dequeue_used core 0 i s;
     free_descriptors core1 is s1
   }"

text \<open>Allocating the next descriptor; on failure those in \<open>held\<close> are given back.\<close>

definition next_descriptor ::
  "u16 list \<Rightarrow> VirtIoCore \<Rightarrow> 'd machine \<Rightarrow> ((IoError + u16 \<times> usize) \<times> VirtIoCore \<times> 'd machine) option" where
  "next_descriptor held core s = do {
     (r, core1) \<leftarrow> core_allocate_descriptor core 0 s;
     (case r of
        Inr d \<Rightarrow> Some (Inr d, core1, s)
      | Inl e \<Rightarrow> do {
          (core2, s2) \<leftarrow> free_descriptors core1 held s;
          Some (Inl (error_from e), core2, s2)
        })
   }"

definition run_device :: "'d virtio_dev \<Rightarrow> 'd machine \<Rightarrow> 'd machine" where
  "run_device D s = (let (d, m) = dev_run D (dev s) (mem s) in s\<lparr>dev := d, mem := m\<rparr>)"

partial_function (option) poll_used ::
  "'d virtio_dev \<Rightarrow> VirtIoCore \<Rightarrow> 'd machine \<Rightarrow> ((IoError + u16) \<times> VirtIoCore \<times> 'd machine) option" where
  "poll_used D core s =
     (let s1 = run_device D s in
      do {
        (r, core1) \<leftarrow> core_pop_used core 0 s1;
        (case r of
           Inl e \<Rightarrow> Some (Inl (error_from e), core1, s1)
         | Inr None \<Rightarrow> poll_used D core1 s1
         | Inr (Some (idx, _)) \<Rightarrow> Some (Inr idx, core1, s1))
      })"

text \<open>The closure \<open>exec\<close>; \<open>held\<close> are the descriptors of the request, the first one its head.\<close>

definition exec_request ::
  "'d virtio_dev \<Rightarrow> u16 \<Rightarrow> u16 list \<Rightarrow> usize \<Rightarrow> VirtIoCore \<Rightarrow> 'd machine
   \<Rightarrow> ((IoError + unit) \<times> VirtIoCore \<times> 'd machine) option" where
  "exec_request D head held status_ptr core s = do {
     (r, core, s) \<leftarrow> core_set_and_notify D core 0 head s;
     (case r of
        Inl e \<Rightarrow> Some (Inl (error_from e), core, s)
      | Inr _ \<Rightarrow> do {
          (p, core, s) \<leftarrow> poll_used D core s;
          (case p of
             Inl e \<Rightarrow> Some (Inl e, core, s)
           | Inr idx \<Rightarrow>
               if idx \<noteq> head then Some (Inl Io, core, s)
               else
                 (let status = Le_read 1 (mem s) status_ptr in
                  if status = VIRTIO_BLK_S_OK then do {
                    (core, s) \<leftarrow> free_descriptors core held s;
                    Some (Inr (), core, s)
                  }
                  else if status = VIRTIO_BLK_S_IOERR then Some (Inl Io, core, s)
                  else if status = VIRTIO_BLK_S_UNSUPP then Some (Inl Unsupported, core, s)
                  else if status = VIRTIO_BLK_S_RESERVED then Some (Inl Io, core, s)
                  else None))
        })
   }"

text \<open>The end of \<open>submit_rw\<close> and \<open>flush\<close>: on an error the descriptors are freed here.\<close>

definition finish_request ::
  "u16 list \<Rightarrow> (IoError + unit) \<times> VirtIoCore \<times> 'd machine \<Rightarrow> ((IoError + unit) \<times> VirtIoCore \<times> 'd machine) option" where
  "finish_request held = (\<lambda>(r, core, s).
     case r of
       Inr _ \<Rightarrow> Some (Inr (), core, s)
     | Inl e \<Rightarrow> do {
         (core1, s1) \<leftarrow> free_descriptors core held s;
         Some (Inl e, core1, s1)
       })"

definition fill_desc :: "usize \<Rightarrow> nat \<Rightarrow> nat \<Rightarrow> nat \<Rightarrow> 'd machine \<Rightarrow> 'd machine" where
  "fill_desc p a l f s = s\<lparr>mem := set_desc_flags (set_desc_len (set_desc_addr (mem s) p a) p l) p f\<rparr>"

definition link_desc :: "usize \<Rightarrow> u16 \<Rightarrow> 'd machine \<Rightarrow> 'd machine" where
  "link_desc p i s = s\<lparr>mem := set_desc_next (mem s) p i\<rparr>"

definition put_request :: "usize \<times> usize \<Rightarrow> nat \<Rightarrow> nat \<Rightarrow> 'd machine \<Rightarrow> 'd machine" where
  "put_request frame ty lba s = s\<lparr>mem := write_req (mem s) (fst frame) \<lparr>reg_type = ty, reserved = 0, sector = lba\<rparr>\<rparr>"

definition put_status :: "usize \<times> usize \<Rightarrow> 'd machine \<Rightarrow> 'd machine" where
  "put_status frame s = s\<lparr>mem := Le_write 1 (mem s) (snd frame) VIRTIO_BLK_S_RESERVED\<rparr>"

definition submit_rw ::
  "'d virtio_dev \<Rightarrow> usize \<times> usize \<Rightarrow> bool \<Rightarrow> nat \<Rightarrow> usize \<Rightarrow> nat \<Rightarrow> VirtIoCore \<Rightarrow> 'd machine
   \<Rightarrow> ((IoError + unit) \<times> VirtIoCore \<times> 'd machine) option" where
  "submit_rw D frame is_write lba buf_ptr buf_len core s = do {
     let s = put_request frame (if is_write then VIRTIO_BLK_T_OUT else VIRTIO_BLK_T_IN) lba s;
     (r1, core, s) \<leftarrow> next_descriptor [] core s;
     (case r1 of
        Inl e \<Rightarrow> Some (Inl e, core, s)
      | Inr (first_idx, first) \<Rightarrow> do {
          let s = fill_desc first (fst frame) size_of_VirtioBlkReq VIRTQ_DESC_F_NEXT s;
          (r2, core, s) \<leftarrow> next_descriptor [first_idx] core s;
          (case r2 of
             Inl e \<Rightarrow> Some (Inl e, core, s)
           | Inr (second_idx, second) \<Rightarrow> do {
               let s = link_desc first second_idx s;
               let s = fill_desc second buf_ptr (buf_len mod 2 ^ 32)
                 (if is_write then VIRTQ_DESC_F_NEXT else VIRTQ_DESC_F_NEXT OR VIRTQ_DESC_F_WRITE) s;
               let s = put_status frame s;
               (r3, core, s) \<leftarrow> next_descriptor [first_idx, second_idx] core s;
               (case r3 of
                  Inl e \<Rightarrow> Some (Inl e, core, s)
                | Inr (third_idx, third) \<Rightarrow> do {
                    let s = link_desc second third_idx s;
                    let s = fill_desc third (snd frame) 1 VIRTQ_DESC_F_WRITE s;
                    r \<leftarrow> exec_request D first_idx [first_idx, second_idx, third_idx] (snd frame) core s;
                    finish_request [first_idx, second_idx, third_idx] r
                  })
             })
        })
   }"

section \<open>The operations of the block device\<close>

text \<open>The checks that \<open>read_at\<close> and \<open>write_at\<close> share.\<close>

definition check_io :: "'d virtio_dev \<Rightarrow> VirtIoBlk \<Rightarrow> nat \<Rightarrow> nat \<Rightarrow> 'd machine \<Rightarrow> IoError + unit" where
  "check_io D blk lba n s =
     (if n = 0 then Inl InvalidParam
      else if n mod blk_block_size \<noteq> 0 then Inl Align
      else if usize_limit \<le> lba + n div blk_block_size \<or> blk_num_blocks D s < lba + n div blk_block_size then Inl OutOfRange
      else if u32_limit \<le> n then Inl InvalidParam
      else
        (case blk_max_io_bytes blk of
           Inl e \<Rightarrow> Inl e
         | Inr (Some limit) \<Rightarrow> if limit < n then Inl InvalidParam else Inr ()
         | Inr None \<Rightarrow> Inr ()))"

definition blk_read_at ::
  "'d virtio_dev \<Rightarrow> usize \<times> usize \<Rightarrow> VirtIoBlk \<Rightarrow> nat \<Rightarrow> usize \<Rightarrow> nat \<Rightarrow> 'd machine
   \<Rightarrow> ((IoError + unit) \<times> VirtIoBlk \<times> 'd machine) option" where
  "blk_read_at D frame blk lba buf n s =
     (if queues (virtio blk) = None then Some (Inl NotReady, blk, s)
      else
        (case check_io D blk lba n s of
           Inl e \<Rightarrow> Some (Inl e, blk, s)
         | Inr _ \<Rightarrow> do {
             (r, core, s1) \<leftarrow> submit_rw D frame False lba buf n (virtio blk) s;
             Some (r, blk\<lparr>virtio := core\<rparr>, s1)
           }))"

definition blk_write_at ::
  "'d virtio_dev \<Rightarrow> usize \<times> usize \<Rightarrow> VirtIoBlk \<Rightarrow> nat \<Rightarrow> usize \<Rightarrow> nat \<Rightarrow> 'd machine
   \<Rightarrow> ((IoError + unit) \<times> VirtIoBlk \<times> 'd machine) option" where
  "blk_write_at D frame blk lba buf n s =
     (if queues (virtio blk) = None then Some (Inl NotReady, blk, s)
      else
        (case blk_is_read_only blk of
           Inl e \<Rightarrow> Some (Inl e, blk, s)
         | Inr ro \<Rightarrow>
             if ro then Some (Inl ReadOnly, blk, s)
             else
               (case check_io D blk lba n s of
                  Inl e \<Rightarrow> Some (Inl e, blk, s)
                | Inr _ \<Rightarrow> do {
                    (r, core, s1) \<leftarrow> submit_rw D frame True lba buf n (virtio blk) s;
                    Some (r, blk\<lparr>virtio := core\<rparr>, s1)
                  })))"

text \<open>The body of \<open>flush\<close>: the same as \<open>submit_rw\<close> without the buffer.\<close>

definition submit_flush ::
  "'d virtio_dev \<Rightarrow> usize \<times> usize \<Rightarrow> VirtIoCore \<Rightarrow> 'd machine \<Rightarrow> ((IoError + unit) \<times> VirtIoCore \<times> 'd machine) option" where
  "submit_flush D frame core s = do {
     let s = put_request frame VIRTIO_BLK_T_FLUSH 0 s;
     (r1, core, s) \<leftarrow> next_descriptor [] core s;
     (case r1 of
        Inl e \<Rightarrow> Some (Inl e, core, s)
      | Inr (first_idx, first) \<Rightarrow> do {
          let s = fill_desc first (fst frame) size_of_VirtioBlkReq VIRTQ_DESC_F_NEXT s;
          let s = put_status frame s;
          (r2, core, s) \<leftarrow> next_descriptor [first_idx] core s;
          (case r2 of
             Inl e \<Rightarrow> Some (Inl e, core, s)
           | Inr (second_idx, second) \<Rightarrow> do {
               let s = link_desc first second_idx s;
               let s = fill_desc second (snd frame) 1 VIRTQ_DESC_F_WRITE s;
               r \<leftarrow> exec_request D first_idx [first_idx, second_idx] (snd frame) core s;
               finish_request [first_idx, second_idx] r
             })
        })
   }"

definition blk_flush ::
  "'d virtio_dev \<Rightarrow> usize \<times> usize \<Rightarrow> VirtIoBlk \<Rightarrow> 'd machine \<Rightarrow> ((IoError + unit) \<times> VirtIoBlk \<times> 'd machine) option" where
  "blk_flush D frame blk s =
     (if queues (virtio blk) = None then Some (Inl NotReady, blk, s)
      else do {
        (r, core, s1) \<leftarrow> submit_flush D frame (virtio blk) s;
        Some (r, blk\<lparr>virtio := core\<rparr>, s1)
      })"

end
