(* ===== verification/Virtio_Proofs.thy ===== *)
theory Virtio_Proofs
  imports Virtio_Blk "HOL-Library.Multiset"
begin

text \<open>
  The descriptors of a queue: those on the free list and those held by a request are together always
  the same, whatever the device does.
\<close>

section \<open>The invariant\<close>

definition slot :: "VirtQueue \<Rightarrow> nat \<Rightarrow> usize" where
  "slot q i = descriptor_paddr q + 16 * i"

text \<open>The geometry of a queue, fixed when it is made.\<close>

definition queue_ok :: "VirtQueue \<Rightarrow> bool" where
  "queue_ok q \<longleftrightarrow> queue_size q \<in> (\<lambda>k. 2 ^ k) ` {..15} \<and> 0 < descriptor_paddr q
     \<and> 16 dvd descriptor_paddr q \<and> 2 dvd avail_paddr q \<and> 4 dvd used_paddr q
     \<and> descriptor_paddr q + 16 * queue_size q < usize_limit
     \<and> avail_paddr q + 4 + 2 * queue_size q < usize_limit
     \<and> used_paddr q + 4 + 8 * queue_size q < usize_limit"

text \<open>\<open>free\<close> are the indices on the free list.\<close>

definition free_indices :: "links \<Rightarrow> VirtQueue \<Rightarrow> nat list \<Rightarrow> bool" where
  "free_indices lk q free \<longleftrightarrow> chain lk (free_list q) (map (slot q) free) \<and> distinct free \<and> set free \<subseteq> {..<queue_size q}"

definition core_inv :: "nat multiset \<Rightarrow> nat list \<Rightarrow> VirtIoCore \<Rightarrow> links \<Rightarrow> bool" where
  "core_inv all held core lk \<longleftrightarrow> (\<exists>q free. queues core = Some [q] \<and> queue_ok q \<and> free_indices lk q free
     \<and> mset (free @ held) = all \<and> distinct (free @ held) \<and> set held \<subseteq> {..<queue_size q})"

lemma queue_size_bound: "queue_ok q \<Longrightarrow> queue_size q \<le> 2 ^ 15 \<and> 0 < queue_size q"
  using power_increasing [of _ 15 "2 :: nat"] by (force simp: queue_ok_def)

lemma index_u16: "queue_ok q \<Longrightarrow> i < queue_size q \<Longrightarrow> unat (word_of_nat i :: u16) = i"
  using queue_size_bound [of q] by (simp add: unat_of_nat)

lemma slot_upd [simp]:
  "slot (q\<lparr>free_list := h\<rparr>) = slot q" "slot (q\<lparr>avail_idx := x\<rparr>) = slot q" "slot (q\<lparr>used_idx := x\<rparr>) = slot q"
  by (simp_all add: slot_def fun_eq_iff)

lemma slot_inj: "slot q i = slot q j \<longleftrightarrow> i = j"
  by (simp add: slot_def)

lemma inj_slot: "inj_on (slot q) A"
  by (simp add: inj_on_def slot_inj)

section \<open>Allocating and freeing\<close>

lemma get_desc_slot:
  assumes "queue_ok q" and "i < queue_size q"
  shows "get_desc_queue q (slot q i) = Some (word_of_nat i, slot q i)"
proof -
  have "16 dvd slot q i"
    using assms(1) by (simp add: queue_ok_def slot_def)
  then have "8 dvd slot q i" by (rule dvd_trans [rotated]) simp
  then show ?thesis
    by (simp add: get_desc_queue_def slot_def exec_simps is_multiple_of_dvd size_of_VirtqDesc_def)
qed

lemma vq_allocate_ok:
  assumes "queue_ok q" and "free_indices lk q free"
  shows "vq_allocate_descriptor lk q =
    (case free of
       [] \<Rightarrow> Some (Inl OutOfAvailableDesc, q\<lparr>free_list := None\<rparr>)
     | i # _ \<Rightarrow> Some (Inr (word_of_nat i, slot q i), q\<lparr>free_list := lk (slot q i)\<rparr>))"
    and "free = i # rest \<Longrightarrow> free_indices lk (q\<lparr>free_list := lk (slot q i)\<rparr>) rest"
    and "free = [] \<Longrightarrow> free_indices lk (q\<lparr>free_list := None\<rparr>) []"
proof -
  have ch: "chain lk (free_list q) (map (slot q) free)" and b: "set free \<subseteq> {..<queue_size q}" "distinct free"
    using assms(2) by (simp_all add: free_indices_def)
  show "vq_allocate_descriptor lk q =
    (case free of
       [] \<Rightarrow> Some (Inl OutOfAvailableDesc, q\<lparr>free_list := None\<rparr>)
     | i # _ \<Rightarrow> Some (Inr (word_of_nat i, slot q i), q\<lparr>free_list := lk (slot q i)\<rparr>))"
  proof (cases free)
    case Nil
    then show ?thesis using ch list_pop_empty by (simp add: vq_allocate_descriptor_def)
  next
    case (Cons i rest)
    then show ?thesis
      using ch b list_pop_ok(1) [of lk "free_list q" "slot q i" "map (slot q) rest"] get_desc_slot [OF assms(1), of i]
      by (simp add: vq_allocate_descriptor_def)
  qed
  show "free_indices lk (q\<lparr>free_list := lk (slot q i)\<rparr>) rest" if "free = i # rest"
    using that ch b list_pop_ok(2) [of lk "free_list q" "slot q i" "map (slot q) rest"]
    by (simp add: free_indices_def)
  show "free_indices lk (q\<lparr>free_list := None\<rparr>) []" if "free = []"
    using that by (simp add: free_indices_def chain_def)
qed

lemma vq_dequeue_ok:
  assumes "queue_ok q" and "free_indices lk q free" and "i < queue_size q" and "i \<notin> set free"
  shows "\<exists>lk1. vq_dequeue_used lk q (word_of_nat i) = Some (q\<lparr>free_list := Some (slot q i)\<rparr>, lk1)
    \<and> free_indices lk1 (q\<lparr>free_list := Some (slot q i)\<rparr>) (i # free)"
proof -
  have lt: "descriptor_paddr q + i * 16 < usize_limit" and ne: "slot q i \<noteq> 0"
    using assms(1,3) by (auto simp: queue_ok_def slot_def)
  have ch: "chain lk (free_list q) (map (slot q) free)" using assms(2) by (simp add: free_indices_def)
  have "slot q i \<notin> set (map (slot q) free)" using assms(4) by (auto simp: slot_inj)
  then obtain lk1 h where push: "list_push lk (free_list q) (slot q i) = Some (lk1, h)" "chain lk1 h (slot q i # map (slot q) free)"
    using list_push_ok [OF ch _ ne] by blast
  have h: "h = Some (slot q i)" using push(2) by (simp add: chain_def)
  have "free_indices lk1 (q\<lparr>free_list := Some (slot q i)\<rparr>) (i # free)"
    using push(2) h assms(2-4) by (simp add: free_indices_def)
  moreover have "vq_dequeue_used lk q (word_of_nat i) = Some (q\<lparr>free_list := Some (slot q i)\<rparr>, lk1)"
    using lt push(1) h index_u16 [OF assms(1,3)]
    by (simp add: vq_dequeue_used_def exec_simps size_of_VirtqDesc_def slot_def mult.commute)
  ultimately show ?thesis by blast
qed

lemma free_indices_upd [simp]:
  "free_indices lk (q\<lparr>avail_idx := x\<rparr>) free = free_indices lk q free"
  "free_indices lk (q\<lparr>used_idx := x\<rparr>) free = free_indices lk q free"
  by (simp_all add: free_indices_def)

lemma queue_ok_upd [simp]:
  "queue_ok (q\<lparr>free_list := h\<rparr>) = queue_ok q" "queue_ok (q\<lparr>avail_idx := x\<rparr>) = queue_ok q"
  "queue_ok (q\<lparr>used_idx := x\<rparr>) = queue_ok q"
  by (simp_all add: queue_ok_def)

section \<open>The operations of the core\<close>

lemma core_invE:
  assumes "core_inv all held core lk"
  obtains q free where "queues core = Some [q]" "queue_ok q" "free_indices lk q free" "mset (free @ held) = all"
    "distinct (free @ held)" "set held \<subseteq> {..<queue_size q}"
  using assms by (auto simp: core_inv_def)

lemma core_invI:
  "queues core = Some [q] \<Longrightarrow> queue_ok q \<Longrightarrow> free_indices lk q free \<Longrightarrow> mset (free @ held) = all \<Longrightarrow>
   distinct (free @ held) \<Longrightarrow> set held \<subseteq> {..<queue_size q} \<Longrightarrow> core_inv all held core lk"
  by (auto simp: core_inv_def)

lemma with_queue_0 [simp]: "queues core = Some [q] \<Longrightarrow> queues (with_queue core 0 q1) = Some [q1]"
  by (simp add: with_queue_def)

lemma core_dequeue_inv:
  assumes "core_inv all (as @ i # bs) core (lks s)"
  shows "\<exists>core1 lk. core_dequeue_used core 0 (word_of_nat i) s = Some (Inr (), core1, s\<lparr>lks := lk\<rparr>)
    \<and> core_inv all (as @ bs) core1 lk"
proof -
  obtain q free where q: "queues core = Some [q]" "queue_ok q" "free_indices (lks s) q free"
    "mset (free @ as @ i # bs) = all" "distinct (free @ as @ i # bs)" "set (as @ i # bs) \<subseteq> {..<queue_size q}"
    using assms by (rule core_invE)
  have i: "i < queue_size q" "i \<notin> set free" using q(5,6) by auto
  obtain lk where lk: "vq_dequeue_used (lks s) q (word_of_nat i) = Some (q\<lparr>free_list := Some (slot q i)\<rparr>, lk)"
    "free_indices lk (q\<lparr>free_list := Some (slot q i)\<rparr>) (i # free)"
    using vq_dequeue_ok [OF q(2,3) i] by blast
  have "core_inv all (as @ bs) (with_queue core 0 (q\<lparr>free_list := Some (slot q i)\<rparr>)) lk"
    using q lk(2) by (intro core_invI [OF with_queue_0 [OF q(1)]]) auto
  then show ?thesis
    using q(1) lk(1) by (auto simp: core_dequeue_used_def slice_get_def)
qed

lemma free_descriptors_inv:
  "core_inv all held core (lks s) \<Longrightarrow>
   \<exists>core1 lk. free_descriptors core (map word_of_nat held) s = Some (core1, s\<lparr>lks := lk\<rparr>) \<and> core_inv all [] core1 lk"
proof (induction held arbitrary: core s)
  case Nil
  then show ?case by (auto intro!: exI [of _ "lks s"])
next
  case (Cons i held)
  obtain core1 lk where step: "core_dequeue_used core 0 (word_of_nat i) s = Some (Inr (), core1, s\<lparr>lks := lk\<rparr>)"
    "core_inv all held core1 lk"
    using core_dequeue_inv [of all "[]" i held core s] Cons.prems by auto
  then show ?case using Cons.IH [of core1 "s\<lparr>lks := lk\<rparr>"] by auto
qed

lemma next_descriptor_inv:
  assumes "core_inv all held core (lks s)"
  shows "(\<exists>core1 i q. queues core = Some [q] \<and> i < queue_size q
       \<and> next_descriptor (map word_of_nat held) core s = Some (Inr (word_of_nat i, slot q i), core1, s)
       \<and> core_inv all (i # held) core1 (lks s))
    \<or> (\<exists>core1 lk. next_descriptor (map word_of_nat held) core s = Some (Inl Busy, core1, s\<lparr>lks := lk\<rparr>)
       \<and> core_inv all [] core1 lk)"
proof -
  obtain q free where q: "queues core = Some [q]" "queue_ok q" "free_indices (lks s) q free"
    "mset (free @ held) = all" "distinct (free @ held)" "set held \<subseteq> {..<queue_size q}"
    using assms by (rule core_invE)
  note alloc = vq_allocate_ok [OF q(2,3)]
  show ?thesis
  proof (cases free)
    case Nil
    let ?core = "with_queue core 0 (q\<lparr>free_list := None\<rparr>)"
    have inv: "core_inv all held ?core (lks s)"
      using q alloc(3) [OF Nil] by (intro core_invI [OF with_queue_0 [OF q(1)]]) (auto simp: Nil)
    obtain core1 lk where "free_descriptors ?core (map word_of_nat held) s = Some (core1, s\<lparr>lks := lk\<rparr>)" "core_inv all [] core1 lk"
      using free_descriptors_inv [OF inv] by blast
    then show ?thesis
      using q(1) alloc(1)
      by (auto simp: next_descriptor_def core_allocate_descriptor_def slice_get_def Nil error_from_def)
  next
    case (Cons i rest)
    let ?core = "with_queue core 0 (q\<lparr>free_list := lks s (slot q i)\<rparr>)"
    have i: "i < queue_size q" using q(3) by (auto simp: free_indices_def Cons)
    have "core_inv all (i # held) ?core (lks s)"
      using q alloc(2) [OF Cons] i by (intro core_invI [OF with_queue_0 [OF q(1)]]) (auto simp: Cons)
    then show ?thesis
      using q(1) alloc(1) i
      by (auto simp: next_descriptor_def core_allocate_descriptor_def slice_get_def Cons)
  qed
qed

text \<open>Publishing a request and polling only move the indices.\<close>

lemma core_pop_inv:
  assumes "core_inv all held core lk" and "core_pop_used core 0 s = Some (r, core1)"
  shows "core_inv all held core1 lk"
proof -
  obtain q free where q: "queues core = Some [q]" "queue_ok q" "free_indices lk q free"
    "mset (free @ held) = all" "distinct (free @ held)" "set held \<subseteq> {..<queue_size q}"
    using assms(1) by (rule core_invE)
  obtain q1 where q1: "vq_pop_used (mem s) q = Some (r, q1)" "core1 = with_queue core 0 q1"
    using assms(2) q(1) by (auto simp: core_pop_used_def slice_get_def split: bind_splits)
  then have "q1 = q \<or> (\<exists>x. q1 = q\<lparr>used_idx := x\<rparr>)"
    by (auto simp: vq_pop_used_def Let_def split: bind_splits if_splits)
  then show ?thesis
    using q q1(2) by (intro core_invI [of core1 q1]) auto
qed

lemma poll_used_inv:
  assumes "poll_used D core s = Some y" and "core_inv all held core (lks s)"
  shows "lks (snd (snd y)) = lks s \<and> core_inv all held (fst (snd y)) (lks s)"
  using assms
proof (induction rule: poll_used.raw_induct [rotated, consumes 1])
  case (1 rec D core s y)
  have lks: "lks (run_device D s) = lks s" by (simp add: run_device_def split: prod.split)
  obtain r core1 where pop: "core_pop_used core 0 (run_device D s) = Some (r, core1)"
    using 1(2) by (cases "core_pop_used core 0 (run_device D s)") auto
  have inv: "core_inv all held core1 (lks s)"
    using core_pop_inv [OF 1(3) pop] .
  show ?case
    using 1(2) inv lks 1(1) [of D core1 "run_device D s" y]
    by (auto simp: pop Let_def split: sum.splits option.splits)
qed

lemma set_and_notify_inv:
  assumes "core_inv all held core (lks s)" and "core_set_and_notify D core 0 i s = Some (r, core1, s1)"
  shows "lks s1 = lks s \<and> core_inv all held core1 (lks s)"
proof -
  obtain q free where q: "queues core = Some [q]" "queue_ok q" "free_indices (lks s) q free"
    "mset (free @ held) = all" "distinct (free @ held)" "set held \<subseteq> {..<queue_size q}"
    using assms(1) by (rule core_invE)
  obtain x m q1 where x: "vq_set_available_ring (mem s) q i = Some (x, m, q1)" "core1 = with_queue core 0 q1" "lks s1 = lks s"
    using assms(2) q(1)
    by (auto simp: core_set_and_notify_def slice_get_def queue_notify_def wr_def split: bind_splits sum.splits)
  then have "q1 = q \<or> (\<exists>x. q1 = q\<lparr>avail_idx := x\<rparr>)"
    by (auto simp: vq_set_available_ring_def Let_def split: bind_splits if_splits)
  then have "core_inv all held core1 (lks s)"
    using q x(2) by (intro core_invI [of core1 q1]) auto
  then show ?thesis using x(3) by simp
qed

text \<open>Executing a request: on success the descriptors are back, on an error they are still held.\<close>

lemma exec_request_inv:
  assumes "core_inv all held core (lks s)" and "exec_request D h (map word_of_nat held) p core s = Some (r, core1, s1)"
  shows "core_inv all (case r of Inl _ \<Rightarrow> held | Inr _ \<Rightarrow> []) core1 (lks s1)"
proof -
  obtain x core2 s2 where set: "core_set_and_notify D core 0 h s = Some (x, core2, s2)"
    using assms(2) by (cases "core_set_and_notify D core 0 h s") (auto simp: exec_request_def)
  have inv2: "lks s2 = lks s" "core_inv all held core2 (lks s)"
    using set_and_notify_inv [OF assms(1) set] by auto
  show ?thesis
  proof (cases x)
    case (Inl e)
    then show ?thesis using assms(2) inv2 by (auto simp: exec_request_def set)
  next
    case (Inr u)
    obtain z core3 s3 where poll: "poll_used D core2 s2 = Some (z, core3, s3)"
      using assms(2) by (cases "poll_used D core2 s2") (auto simp: exec_request_def set Inr)
    have inv3: "lks s3 = lks s" "core_inv all held core3 (lks s3)"
      using poll_used_inv [OF poll, of all held] inv2 by auto
    obtain core4 lk where free: "free_descriptors core3 (map word_of_nat held) s3 = Some (core4, s3\<lparr>lks := lk\<rparr>)" "core_inv all [] core4 lk"
      using free_descriptors_inv [OF inv3(2)] by blast
    show ?thesis
      using assms(2) inv3 free
      by (auto simp: exec_request_def set Inr poll Let_def split: sum.splits if_splits)
  qed
qed

lemma finish_request_inv:
  assumes "core_inv all (case r of Inl _ \<Rightarrow> held | Inr _ \<Rightarrow> []) core (lks s)"
    and "finish_request (map word_of_nat held) (r, core, s) = Some (r1, core1, s1)"
  shows "core_inv all [] core1 (lks s1)"
proof (cases r)
  case (Inl e)
  then obtain core4 lk where "free_descriptors core (map word_of_nat held) s = Some (core4, s\<lparr>lks := lk\<rparr>)" "core_inv all [] core4 lk"
    using free_descriptors_inv [of all held core s] assms(1) by auto
  then show ?thesis using assms(2) Inl by (auto simp: finish_request_def)
qed (use assms in \<open>auto simp: finish_request_def\<close>)

lemma lks_upd [simp]:
  "lks (put_request frame ty lba s) = lks s" "lks (fill_desc p a l f s) = lks s" "lks (link_desc p i s) = lks s"
  "lks (put_status frame s) = lks s"
  by (simp_all add: put_request_def fill_desc_def link_desc_def put_status_def)

lemma core_inv_perm: "core_inv all held core lk \<Longrightarrow> mset held = mset held' \<Longrightarrow> core_inv all held' core lk"
  unfolding core_inv_def
  by (metis mset_append mset_eq_setD distinct_append mset_eq_imp_distinct_iff)

lemma exec_finish_inv:
  assumes "core_inv all held core (lks s)"
    and "Option.bind (exec_request D h (map word_of_nat held) p core s) (finish_request (map word_of_nat held)) = Some (r, core1, s1)"
  shows "core_inv all [] core1 (lks s1)"
proof -
  obtain r2 core2 s2 where ex: "exec_request D h (map word_of_nat held) p core s = Some (r2, core2, s2)"
    using assms(2) by (cases "exec_request D h (map word_of_nat held) p core s") auto
  show ?thesis
    using finish_request_inv [OF exec_request_inv [OF assms(1) ex]] assms(2) ex by simp
qed

text \<open>A step of the driver that needs one more descriptor: it ends here, or goes on with the descriptor held.\<close>

lemma descriptor_step:
  assumes "Option.bind (next_descriptor (map word_of_nat held) core s)
      (\<lambda>(r, core, s). case r of Inl e \<Rightarrow> Some (Inl e, core, s) | Inr d \<Rightarrow> K d core s) = Some (r, core1, s1)"
    and "core_inv all held core (lks s)"
    and "\<And>i p c. core_inv all (held @ [i]) c (lks s) \<Longrightarrow> K (word_of_nat i, p) c s = Some (r, core1, s1) \<Longrightarrow> core_inv all [] core1 (lks s1)"
  shows "core_inv all [] core1 (lks s1)"
proof -
  consider (out) c lk where "next_descriptor (map word_of_nat held) core s = Some (Inl Busy, c, s\<lparr>lks := lk\<rparr>)" "core_inv all [] c lk"
    | (more) c i p where "next_descriptor (map word_of_nat held) core s = Some (Inr (word_of_nat i, p), c, s)" "core_inv all (i # held) c (lks s)"
    using next_descriptor_inv [OF assms(2)] by auto
  then show ?thesis
  proof cases
    case out
    then show ?thesis using assms(1) by auto
  next
    case more
    then show ?thesis
      using assms(1) assms(3) [OF core_inv_perm [OF more(2), of "held @ [i]"], of p] by simp
  qed
qed

text \<open>A request gives back every descriptor it took, on every path.\<close>

lemma submit_rw_inv:
  assumes "core_inv all [] core (lks s)" and "submit_rw D frame w lba buf n core s = Some (r, core1, s1)"
  shows "core_inv all [] core1 (lks s1)"
  using assms(2) [unfolded submit_rw_def Let_def]
proof (rule descriptor_step [where held = "[]", unfolded list.map])
  show "core_inv all [] core (lks (put_request frame (if w then VIRTIO_BLK_T_OUT else VIRTIO_BLK_T_IN) lba s))"
    using assms(1) by simp
qed (simp only: prod.case, erule descriptor_step [where held = "[_]", unfolded list.map], simp,
    simp only: prod.case append.simps, erule descriptor_step [where held = "[_, _]", unfolded list.map], simp,
    simp only: prod.case append.simps, rule exec_finish_inv [where held = "[_, _, _]", unfolded list.map], simp_all)

lemma submit_flush_inv:
  assumes "core_inv all [] core (lks s)" and "submit_flush D frame core s = Some (r, core1, s1)"
  shows "core_inv all [] core1 (lks s1)"
  using assms(2) [unfolded submit_flush_def Let_def]
proof (rule descriptor_step [where held = "[]", unfolded list.map])
  show "core_inv all [] core (lks (put_request frame VIRTIO_BLK_T_FLUSH 0 s))"
    using assms(1) by simp
qed (simp only: prod.case, erule descriptor_step [where held = "[_]", unfolded list.map], simp,
    simp only: prod.case append.simps, rule exec_finish_inv [where held = "[_, _]", unfolded list.map], simp_all)

lemma blk_read_inv:
  assumes "core_inv all [] (virtio blk) (lks s)" and "blk_read_at D frame blk lba buf n s = Some (r, blk1, s1)"
  shows "core_inv all [] (virtio blk1) (lks s1)"
  using assms by (auto simp: blk_read_at_def split: if_splits sum.splits Option.bind_splits dest: submit_rw_inv)

lemma blk_write_inv:
  assumes "core_inv all [] (virtio blk) (lks s)" and "blk_write_at D frame blk lba buf n s = Some (r, blk1, s1)"
  shows "core_inv all [] (virtio blk1) (lks s1)"
  using assms by (auto simp: blk_write_at_def split: if_splits sum.splits Option.bind_splits dest: submit_rw_inv)

lemma blk_flush_inv:
  assumes "core_inv all [] (virtio blk) (lks s)" and "blk_flush D frame blk s = Some (r, blk1, s1)"
  shows "core_inv all [] (virtio blk1) (lks s1)"
  using assms by (auto simp: blk_flush_def split: if_splits Option.bind_splits dest: submit_flush_inv)

end
