(* ===== verification/Virtio_Request.thy ===== *)
theory Virtio_Request
  imports Virtio_Proofs
begin

text \<open>
  A request as the device finds it in memory: the ring entry, the chain of three descriptors and the
  request header that \<open>submit_rw\<close> has written when it notifies the device.
\<close>

unbundle bit_operations_syntax

section \<open>Memory regions\<close>

definition apart :: "usize \<Rightarrow> nat \<Rightarrow> usize \<Rightarrow> nat \<Rightarrow> bool" where
  "apart a n b k \<longleftrightarrow> a + n \<le> b \<or> b + k \<le> a"

lemma apart_sym: "apart a n b k \<Longrightarrow> apart b k a n"
  by (auto simp: apart_def)

lemma apart_sub: "apart a n b k \<Longrightarrow> a \<le> a' \<Longrightarrow> a' + n' \<le> a + n \<Longrightarrow> b \<le> b' \<Longrightarrow> b' + k' \<le> b + k \<Longrightarrow> apart a' n' b' k'"
  by (auto simp: apart_def)

lemma Le_read_other: "apart a n b k \<Longrightarrow> Le_read n (Le_write k m b v) a = Le_read n m a"
  unfolding apart_def by (rule le.local_read) (auto intro!: le.frame)

lemma Le_read_store: "apart a n b (length bs) \<Longrightarrow> Le_read n (store_bytes m b bs) a = Le_read n m a"
  unfolding apart_def by (rule le.local_read) (auto simp: store_bytes_def)

lemma load_other: "apart a n b k \<Longrightarrow> load_bytes (Le_write k m b v) a n = load_bytes m a n"
  by (auto simp: load_bytes_def apart_def intro!: le.frame)

lemma read_desc_other: "apart p 16 a k \<Longrightarrow> read_desc (Le_write k m a v) p = read_desc m p"
  unfolding read_desc_def
  by (simp add: Le_read_other apart_sub [of p 16 a k])

lemma read_desc_cong: "(\<And>x. p \<le> x \<Longrightarrow> x < p + 16 \<Longrightarrow> m' x = m x) \<Longrightarrow> read_desc m' p = read_desc m p"
  unfolding read_desc_def by (auto intro!: le.local_read arg_cong [where f = word_of_nat])

section \<open>Writing a descriptor\<close>

lemma read_set_desc:
  "v < 2 ^ 64 \<Longrightarrow> read_desc (set_desc_addr m p v) p = (read_desc m p)\<lparr>desc_addr := v\<rparr>"
  "v < 2 ^ 32 \<Longrightarrow> read_desc (set_desc_len m p v) p = (read_desc m p)\<lparr>desc_len := v\<rparr>"
  "v < 2 ^ 16 \<Longrightarrow> read_desc (set_desc_flags m p v) p = (read_desc m p)\<lparr>desc_flags := v\<rparr>"
  "read_desc (set_desc_next m p i) p = (read_desc m p)\<lparr>desc_next := i\<rparr>"
  using unsigned_less [of i, where 'a = nat]
  by (simp_all add: read_desc_def set_desc_addr_def set_desc_len_def set_desc_flags_def set_desc_next_def
      Le_read_other apart_def le.read_back)

lemma read_set_other:
  assumes "apart p 16 p' 16"
  shows "read_desc (set_desc_addr m p' v) p = read_desc m p" "read_desc (set_desc_len m p' v) p = read_desc m p"
    "read_desc (set_desc_flags m p' v) p = read_desc m p" "read_desc (set_desc_next m p' i) p = read_desc m p"
  using assms
  by (auto simp: set_desc_addr_def set_desc_len_def set_desc_flags_def set_desc_next_def
      intro!: read_desc_other elim!: apart_sub)

lemma Le_read_set_desc:
  assumes "apart a n p 16"
  shows "Le_read n (set_desc_addr m p v) a = Le_read n m a" "Le_read n (set_desc_len m p v) a = Le_read n m a"
    "Le_read n (set_desc_flags m p v) a = Le_read n m a" "Le_read n (set_desc_next m p i) a = Le_read n m a"
  using assms
  by (auto simp: set_desc_addr_def set_desc_len_def set_desc_flags_def set_desc_next_def
      intro!: Le_read_other elim!: apart_sub)

lemmas desc_simps = read_set_desc read_set_other Le_read_set_desc

section \<open>Ring indices\<close>

text \<open>Masking with the size less one is the remainder, also when the index has wrapped around.\<close>

lemma ring_index:
  fixes x :: u16
  assumes "queue_ok q"
  shows "size_mask q = Some (word_of_nat (queue_size q) - 1)"
    and "unat (x AND (word_of_nat (queue_size q) - 1)) = unat x mod queue_size q"
proof -
  obtain k where k: "k \<le> 15" "queue_size q = 2 ^ k" using assms by (auto simp: queue_ok_def)
  have "unat (word_of_nat (queue_size q) :: u16) = queue_size q"
    using queue_size_bound [OF assms] by (simp add: unat_of_nat)
  then have "(word_of_nat (queue_size q) :: u16) \<noteq> 0"
    using queue_size_bound [OF assms] by (metis unsigned_0 less_numeral_extra(3))
  then show "size_mask q = Some (word_of_nat (queue_size q) - 1)"
    by (simp add: size_mask_def exec_simps)
  have "(word_of_nat (queue_size q) - 1 :: u16) = mask k"
    by (simp add: k(2) mask_eq_exp_minus_1)
  moreover have "unat (x AND mask k) = unat x mod 2 ^ k"
    unfolding take_bit_eq_mask [symmetric] unsigned_take_bit_eq by (rule take_bit_eq_mod)
  ultimately show "unat (x AND (word_of_nat (queue_size q) - 1)) = unat x mod queue_size q"
    unfolding k(2) by simp
qed

section \<open>The request in memory\<close>

text \<open>The parts of the queue, the two locals of the driver and the buffer lie apart from each other.\<close>

fun all_apart :: "(usize \<times> nat) list \<Rightarrow> bool" where
  "all_apart [] = True"
| "all_apart ((a, n) # rs) = (list_all (\<lambda>(b, k). apart a n b k) rs \<and> all_apart rs)"

definition request_layout :: "VirtQueue \<Rightarrow> usize \<times> usize \<Rightarrow> usize \<Rightarrow> nat \<Rightarrow> bool" where
  "request_layout q frame buf n \<longleftrightarrow>
     all_apart [(descriptor_paddr q, 16 * queue_size q), (avail_paddr q, 4 + 2 * queue_size q),
       (used_paddr q, 4 + 8 * queue_size q), (fst frame, 16), (snd frame, 1), (buf, n)]
     \<and> fst frame < usize_limit \<and> snd frame < usize_limit \<and> buf < usize_limit \<and> n < u32_limit"

lemma slots_apart: "i \<noteq> j \<Longrightarrow> apart (slot q i) 16 (slot q j) 16"
  by (auto simp: apart_def slot_def)

lemma slot_inside:
  "i < queue_size q \<Longrightarrow> apart a n (descriptor_paddr q) (16 * queue_size q) \<Longrightarrow> apart a n (slot q i) 16"
  by (auto simp: apart_def slot_def)

text \<open>The memory when the request is complete, before it is published.\<close>

definition chained :: "VirtQueue \<Rightarrow> usize \<times> usize \<Rightarrow> bool \<Rightarrow> nat \<Rightarrow> usize \<Rightarrow> nat \<Rightarrow> nat \<Rightarrow> nat \<Rightarrow> nat \<Rightarrow> 'd machine \<Rightarrow> 'd machine" where
  "chained q frame w lba buf n i j k s =
     fill_desc (slot q k) (snd frame) 1 VIRTQ_DESC_F_WRITE (link_desc (slot q j) (word_of_nat k)
       (put_status frame (fill_desc (slot q j) buf (n mod 2 ^ 32)
         (if w then VIRTQ_DESC_F_NEXT else VIRTQ_DESC_F_NEXT OR VIRTQ_DESC_F_WRITE) (link_desc (slot q i) (word_of_nat j)
           (fill_desc (slot q i) (fst frame) size_of_VirtioBlkReq VIRTQ_DESC_F_NEXT
             (put_request frame (if w then VIRTIO_BLK_T_OUT else VIRTIO_BLK_T_IN) lba s))))))"

lemmas machine_defs = fill_desc_def link_desc_def put_status_def put_request_def

lemma chain_in_memory:
  assumes ok: "queue_ok q" and lay: "request_layout q frame buf n" and ix: "distinct [i, j, k]" "{i, j, k} \<subseteq> {..<queue_size q}"
  shows "read_desc (mem (chained q frame w lba buf n i j k s)) (slot q i)
      = \<lparr>desc_addr = fst frame, desc_len = 16, desc_flags = VIRTQ_DESC_F_NEXT, desc_next = word_of_nat j\<rparr>"
    and "read_desc (mem (chained q frame w lba buf n i j k s)) (slot q j)
      = \<lparr>desc_addr = buf, desc_len = n, desc_flags = (if w then VIRTQ_DESC_F_NEXT else VIRTQ_DESC_F_NEXT OR VIRTQ_DESC_F_WRITE),
          desc_next = word_of_nat k\<rparr>"
    and "desc_addr (read_desc (mem (chained q frame w lba buf n i j k s)) (slot q k)) = snd frame"
proof -
  have ap: "apart (slot q i) 16 (slot q j) 16" "apart (slot q i) 16 (slot q k) 16" "apart (slot q j) 16 (slot q k) 16"
    "apart (slot q j) 16 (slot q i) 16" "apart (slot q k) 16 (slot q i) 16" "apart (slot q k) 16 (slot q j) 16"
    using ix(1) by (simp_all add: slots_apart)
  have st: "apart (slot q x) 16 (snd frame) (Suc 0)" if "x < queue_size q" for x
    using that lay by (intro apart_sym [OF slot_inside]) (auto simp: request_layout_def dest: apart_sym)
  have le: "fst frame < 2 ^ 64" "snd frame < 2 ^ 64" "buf < 2 ^ 64" "n < 2 ^ 32"
    using lay by (simp_all add: request_layout_def usize_limit_def u32_limit_def)
  have flags: "(VIRTQ_DESC_F_NEXT OR VIRTQ_DESC_F_WRITE) < 2 ^ 16" "VIRTQ_DESC_F_NEXT < 2 ^ 16" "VIRTQ_DESC_F_WRITE < 2 ^ 16"
    by (simp_all add: VIRTQ_DESC_F_NEXT_def VIRTQ_DESC_F_WRITE_def)
  note simps = chained_def machine_defs desc_simps ap le [simplified] flags [simplified] read_desc_other st size_of_VirtioBlkReq_def
  show "read_desc (mem (chained q frame w lba buf n i j k s)) (slot q i)
      = \<lparr>desc_addr = fst frame, desc_len = 16, desc_flags = VIRTQ_DESC_F_NEXT, desc_next = word_of_nat j\<rparr>"
    using ix(2) by (intro VirtqDesc.equality) (simp_all add: simps)
  show "read_desc (mem (chained q frame w lba buf n i j k s)) (slot q j)
      = \<lparr>desc_addr = buf, desc_len = n, desc_flags = (if w then VIRTQ_DESC_F_NEXT else VIRTQ_DESC_F_NEXT OR VIRTQ_DESC_F_WRITE),
          desc_next = word_of_nat k\<rparr>"
    using ix(2) by (intro VirtqDesc.equality) (simp_all add: simps)
  show "desc_addr (read_desc (mem (chained q frame w lba buf n i j k s)) (slot q k)) = snd frame"
    using ix(2) by (simp add: simps)
qed

text \<open>The request header, and the fields the driver leaves alone.\<close>

lemma header_in_memory:
  assumes ok: "queue_ok q" and lay: "request_layout q frame buf n" and ix: "{i, j, k} \<subseteq> {..<queue_size q}" and lba: "lba < 2 ^ 64"
  shows "Le_read 4 (mem (chained q frame w lba buf n i j k s)) (fst frame) = (if w then VIRTIO_BLK_T_OUT else VIRTIO_BLK_T_IN)"
    and "Le_read 8 (mem (chained q frame w lba buf n i j k s)) (fst frame + 8) = lba"
proof -
  have hd: "apart (fst frame) 16 (descriptor_paddr q) (16 * queue_size q)" and hs: "apart (fst frame) 16 (snd frame) 1"
    using lay by (auto simp: request_layout_def dest: apart_sym)
  have slots: "apart (fst frame) 4 (slot q x) 16 \<and> apart (fst frame + 8) 8 (slot q x) 16" if "x < queue_size q" for x
    using slot_inside [OF that hd] by (auto simp: apart_def)
  have st: "apart (fst frame) 4 (snd frame) (Suc 0)" "apart (fst frame + 8) 8 (snd frame) (Suc 0)"
    using hs by (auto simp: apart_def)
  note simps = chained_def machine_defs Le_read_set_desc Le_read_other slots st write_req_def le.read_back apart_def [of "fst frame" _ "fst frame + _"]
    apart_def [of "fst frame + _" _ "fst frame"] apart_def [of "fst frame + _" _ "fst frame + _"] VIRTIO_BLK_T_OUT_def VIRTIO_BLK_T_IN_def
  show "Le_read 4 (mem (chained q frame w lba buf n i j k s)) (fst frame) = (if w then VIRTIO_BLK_T_OUT else VIRTIO_BLK_T_IN)"
    using ix by (simp add: simps)
  show "Le_read 8 (mem (chained q frame w lba buf n i j k s)) (fst frame + 8) = lba"
    using ix lba by (simp add: simps)
qed

lemma rings_untouched:
  assumes lay: "request_layout q frame buf n" and ix: "{i, j, k} \<subseteq> {..<queue_size q}"
    and "apart a l (descriptor_paddr q) (16 * queue_size q)" "apart a l (fst frame) 16" "apart a l (snd frame) 1"
  shows "Le_read l (mem (chained q frame w lba buf n i j k s)) a = Le_read l (mem s) a"
proof -
  have slots: "apart a l (slot q x) 16" if "x < queue_size q" for x
    using that assms(3) by (rule slot_inside)
  have hdr: "apart a l (fst frame) 4" "apart a l (fst frame + 4) 4" "apart a l (fst frame + 8) 8"
    using assms(4) by (auto simp: apart_def)
  show ?thesis
    using ix assms(5) by (simp add: chained_def machine_defs Le_read_set_desc Le_read_other slots write_req_def hdr)
qed

end
