(* ===== verification/Virtio_Spec.thy ===== *)
theory Virtio_Spec
  imports Virtio_Request
begin

text \<open>
  The block driver against a device that answers as the virtio specification says: a read fills the
  buffer with the blocks asked for.
\<close>

section \<open>A device that answers reads\<close>

definition ring_entry :: "VirtQueue \<Rightarrow> u16 \<Rightarrow> usize" where
  "ring_entry q idx = avail_paddr q + 4 + 2 * (unat idx mod queue_size q)"

definition used_entry :: "VirtQueue \<Rightarrow> u16 \<Rightarrow> usize" where
  "used_entry q idx = used_paddr q + 4 + 8 * (unat idx mod queue_size q)"

text \<open>
  What the specification asks of the device for the newest entry of the available ring: it follows the
  chain of descriptors from the head, reads the header, writes the blocks to the second buffer and the
  status to the third, and puts the head into the used ring before it moves the used index.
\<close>

definition serve_read :: "disk \<Rightarrow> VirtQueue \<Rightarrow> memory \<Rightarrow> memory" where
  "serve_read disk q m =
     (let head = Le_read 2 m (ring_entry q (word_of_nat (Le_read 2 m (avail_paddr q + 2)) - 1));
          hdr = read_desc m (slot q head);
          dat = read_desc m (slot q (unat (desc_next hdr)));
          stat = read_desc m (slot q (unat (desc_next dat)));
          u = word_of_nat (Le_read 2 m (used_paddr q + 2));
          m1 = store_bytes m (desc_addr dat) (blocks disk (Le_read 8 m (desc_addr hdr + 8)) (desc_len dat div 512));
          m2 = Le_write 1 m1 (desc_addr stat) VIRTIO_BLK_S_OK;
          m3 = Le_write 4 m2 (used_entry q u) head;
          m4 = Le_write 4 m3 (used_entry q u + 4) (desc_len dat + 1)
      in Le_write 2 m4 (used_paddr q + 2) (unat (u + 1)))"

text \<open>The device leaves the memory alone for \<open>k\<close> polls and then serves the request.\<close>

fun answers :: "'d virtio_dev \<Rightarrow> disk \<Rightarrow> VirtQueue \<Rightarrow> nat \<Rightarrow> 'd \<Rightarrow> memory \<Rightarrow> bool" where
  "answers D disk q 0 d m \<longleftrightarrow> snd (dev_run D d m) = serve_read disk q m"
| "answers D disk q (Suc k) d m \<longleftrightarrow> snd (dev_run D d m) = m \<and> answers D disk q k (fst (dev_run D d m)) m"

lemma serve_read_upd [simp]:
  "serve_read disk (q\<lparr>free_list := h\<rparr>) = serve_read disk q" "serve_read disk (q\<lparr>avail_idx := x\<rparr>) = serve_read disk q"
  "serve_read disk (q\<lparr>used_idx := x\<rparr>) = serve_read disk q"
  by (simp_all add: serve_read_def ring_entry_def used_entry_def fun_eq_iff)

lemma answers_upd [simp]:
  "answers D disk (q\<lparr>free_list := h\<rparr>) k d m = answers D disk q k d m"
  "answers D disk (q\<lparr>avail_idx := x\<rparr>) k d m = answers D disk q k d m"
  by (induction k arbitrary: d) simp_all

section \<open>Publishing\<close>

lemma publish:
  assumes "queue_ok q" and "avail_idx q = used_idx q"
  shows "vq_set_available_ring m q i =
    Some (Inr (), Le_write 2 (Le_write 2 m (ring_entry q (avail_idx q)) (unat i)) (avail_paddr q + 2) (unat (avail_idx q + 1)),
      q\<lparr>avail_idx := avail_idx q + 1\<rparr>)"
proof -
  have b: "avail_paddr q + 4 + 2 * queue_size q < usize_limit" "2 dvd avail_paddr q" "0 < queue_size q"
    using assms(1) queue_size_bound [OF assms(1)] by (simp_all add: queue_ok_def)
  have "unat (avail_idx q) mod queue_size q < queue_size q" using b(3) by simp
  then have "avail_paddr q + 4 + 2 * (unat (avail_idx q) mod queue_size q) < usize_limit" using b(1) by linarith
  then have "set_avail_queue_idx m q (avail_idx q AND (word_of_nat (queue_size q) - 1)) i
      = Some (Le_write 2 m (ring_entry q (avail_idx q)) (unat i))"
    using b by (simp add: set_avail_queue_idx_def size_of_VirtqAvail_def exec_simps ring_index [OF assms(1)]
        is_multiple_of_dvd ring_entry_def mult.commute)
  then show ?thesis
    using b assms(2) by (simp add: vq_set_available_ring_def ring_index [OF assms(1)] exec_simps is_multiple_of_dvd Let_def)
qed

lemma pop_nothing:
  assumes "queue_ok q" and "Le_read 2 m (used_paddr q + 2) = unat (used_idx q)"
  shows "vq_pop_used m q = Some (Inr None, q)"
proof -
  have "2 dvd used_paddr q" using assms(1) by (auto simp: queue_ok_def intro: dvd_trans [of 2 4])
  then show ?thesis using assms(2) by (simp add: vq_pop_used_def is_multiple_of_dvd exec_simps Let_def)
qed

lemma pop_one:
  assumes "queue_ok q" and "Le_read 2 m (used_paddr q + 2) = unat (used_idx q + 1)"
  shows "vq_pop_used m q = Some (Inr (Some (word_of_nat (Le_read 4 m (used_entry q (used_idx q))),
    Le_read 4 m (used_entry q (used_idx q) + 4))), q\<lparr>used_idx := used_idx q + 1\<rparr>)"
proof -
  have b: "used_paddr q + 4 + 8 * queue_size q < usize_limit" "4 dvd used_paddr q" "0 < queue_size q"
    using assms(1) queue_size_bound [OF assms(1)] by (simp_all add: queue_ok_def)
  have "unat (used_idx q) mod queue_size q < queue_size q" using b(3) by simp
  then have "used_paddr q + 4 + 8 * (unat (used_idx q) mod queue_size q) < usize_limit" using b(1) by linarith
  moreover have "4 dvd used_paddr q + 4 + 8 * (unat (used_idx q) mod queue_size q)"
    using b(2) by (simp add: dvd_add)
  ultimately have "get_used_queue_idx q (used_idx q AND (word_of_nat (queue_size q) - 1)) = Some (used_entry q (used_idx q))"
    using b by (simp add: get_used_queue_idx_def size_of_VirtqUsed_def size_of_VirtqUsedElem_def exec_simps
        ring_index [OF assms(1)] is_multiple_of_dvd used_entry_def mult.commute)
  moreover have "2 dvd used_paddr q" using b(2) by (auto intro: dvd_trans [of 2 4])
  ultimately show ?thesis
    using b assms(2) by (simp add: vq_pop_used_def ring_index [OF assms(1)] exec_simps is_multiple_of_dvd Let_def)
qed

section \<open>The answer\<close>

text \<open>The memory in which a complete request has been published.\<close>

definition published :: "VirtQueue \<Rightarrow> usize \<times> usize \<Rightarrow> bool \<Rightarrow> nat \<Rightarrow> usize \<Rightarrow> nat \<Rightarrow> nat \<Rightarrow> nat \<Rightarrow> nat \<Rightarrow> 'd machine \<Rightarrow> memory" where
  "published q frame w lba buf n i j k s =
     Le_write 2 (Le_write 2 (mem (chained q frame w lba buf n i j k s)) (ring_entry q (avail_idx q)) i)
       (avail_paddr q + 2) (unat (avail_idx q + 1))"

lemma ring_inside:
  assumes "queue_ok q"
  shows "avail_paddr q + 4 \<le> ring_entry q x \<and> ring_entry q x + 2 \<le> avail_paddr q + (4 + 2 * queue_size q)"
    and "used_paddr q + 4 \<le> used_entry q x \<and> used_entry q x + 8 \<le> used_paddr q + (4 + 8 * queue_size q)"
proof -
  have "unat x mod queue_size q < queue_size q" using queue_size_bound [OF assms] by simp
  then show "avail_paddr q + 4 \<le> ring_entry q x \<and> ring_entry q x + 2 \<le> avail_paddr q + (4 + 2 * queue_size q)"
    "used_paddr q + 4 \<le> used_entry q x \<and> used_entry q x + 8 \<le> used_paddr q + (4 + 8 * queue_size q)"
    unfolding ring_entry_def used_entry_def by linarith+
qed

lemma request_published:
  assumes ok: "queue_ok q" and lay: "request_layout q frame buf n" and ix: "distinct [i, j, k]" "{i, j, k} \<subseteq> {..<queue_size q}"
    and lba: "lba < 2 ^ 64" and used: "Le_read 2 (mem s) (used_paddr q + 2) = unat (used_idx q)"
    and m: "m = published q frame False lba buf n i j k s"
  shows "Le_read 2 m (avail_paddr q + 2) = unat (avail_idx q + 1)" "Le_read 2 m (ring_entry q (avail_idx q)) = i"
    and "read_desc m (slot q i) = \<lparr>desc_addr = fst frame, desc_len = 16, desc_flags = VIRTQ_DESC_F_NEXT, desc_next = word_of_nat j\<rparr>"
    and "read_desc m (slot q j) = \<lparr>desc_addr = buf, desc_len = n, desc_flags = 3, desc_next = word_of_nat k\<rparr>"
    and "desc_addr (read_desc m (slot q k)) = snd frame"
    and "Le_read 8 m (fst frame + 8) = lba" and "Le_read 2 m (used_paddr q + 2) = unat (used_idx q)"
proof -
  let ?a = "avail_paddr q" and ?na = "4 + 2 * queue_size q"
  have regs: "apart (descriptor_paddr q) (16 * queue_size q) ?a ?na" "apart (used_paddr q) (4 + 8 * queue_size q) ?a ?na"
    "apart (fst frame) 16 ?a ?na" "apart (used_paddr q) (4 + 8 * queue_size q) (descriptor_paddr q) (16 * queue_size q)"
    "apart (used_paddr q) (4 + 8 * queue_size q) (fst frame) 16" "apart (used_paddr q) (4 + 8 * queue_size q) (snd frame) 1"
    using lay by (auto simp: request_layout_def dest: apart_sym)
  note ri = ring_inside(1) [OF ok, of "avail_idx q"]
  have slots: "apart (slot q x) 16 (ring_entry q (avail_idx q)) 2 \<and> apart (slot q x) 16 (?a + 2) 2" if "x < queue_size q" for x
    using apart_sym [OF slot_inside [OF that apart_sym [OF regs(1)]]] ri by (auto simp: apart_def)
  have desc: "read_desc m (slot q x) = read_desc (mem (chained q frame False lba buf n i j k s)) (slot q x)"
    if "x < queue_size q" for x
    using slots [OF that] by (simp add: m published_def read_desc_other)
  have hdr: "apart (fst frame + 8) 8 (ring_entry q (avail_idx q)) 2" "apart (fst frame + 8) 8 (?a + 2) 2"
    using regs(3) ri by (auto simp: apart_def)
  have us: "apart (used_paddr q + 2) 2 (ring_entry q (avail_idx q)) 2" "apart (used_paddr q + 2) 2 (?a + 2) 2"
    using regs(2) ri by (auto simp: apart_def)
  have us2: "apart (used_paddr q + 2) 2 (descriptor_paddr q) (16 * queue_size q)" "apart (used_paddr q + 2) 2 (fst frame) 16"
    "apart (used_paddr q + 2) 2 (snd frame) 1"
    using regs(4-6) by (auto simp: apart_def)
  have re: "apart (ring_entry q (avail_idx q)) 2 (?a + 2) 2" using ri by (auto simp: apart_def)
  have i16: "i < 256 ^ 2" using ix(2) queue_size_bound [OF ok] by simp
  show "Le_read 2 m (?a + 2) = unat (avail_idx q + 1)"
    using unsigned_less [of "avail_idx q + 1", where 'a = nat] by (simp add: m published_def le.read_back)
  show "Le_read 2 m (ring_entry q (avail_idx q)) = i"
    using re i16 by (simp add: m published_def Le_read_other le.read_back)
  show "read_desc m (slot q i) = \<lparr>desc_addr = fst frame, desc_len = 16, desc_flags = VIRTQ_DESC_F_NEXT, desc_next = word_of_nat j\<rparr>"
    using desc [of i] ix chain_in_memory(1) [OF ok lay ix] by simp
  show "read_desc m (slot q j) = \<lparr>desc_addr = buf, desc_len = n, desc_flags = 3, desc_next = word_of_nat k\<rparr>"
    using desc [of j] ix chain_in_memory(2) [OF ok lay ix, where w = False and lba = lba and s = s] by (simp add: VIRTQ_DESC_F_NEXT_def VIRTQ_DESC_F_WRITE_def)
  show "desc_addr (read_desc m (slot q k)) = snd frame"
    using desc [of k] ix chain_in_memory(3) [OF ok lay ix] by simp
  show "Le_read 8 m (fst frame + 8) = lba"
    using hdr header_in_memory(2) [OF ok lay ix(2) lba] by (simp add: m published_def Le_read_other)
  show "Le_read 2 m (used_paddr q + 2) = unat (used_idx q)"
    using us used rings_untouched [OF lay ix(2) us2, where s = s] by (simp add: m published_def Le_read_other)
qed

text \<open>What the device leaves behind.\<close>

lemma request_served:
  assumes ok: "queue_ok q" and lay: "request_layout q frame buf n" and ix: "distinct [i, j, k]" "{i, j, k} \<subseteq> {..<queue_size q}"
    and lba: "lba < 2 ^ 64" and used: "Le_read 2 (mem s) (used_paddr q + 2) = unat (used_idx q)"
    and dat: "bs = blocks disk lba (n div 512)" "length bs = n"
    and m: "m = serve_read disk q (published q frame False lba buf n i j k s)"
  shows "Le_read 2 m (used_paddr q + 2) = unat (used_idx q + 1)" "Le_read 4 m (used_entry q (used_idx q)) = i"
    and "Le_read 1 m (snd frame) = VIRTIO_BLK_S_OK" and "load_bytes m buf n = bs"
proof -
  let ?p = "published q frame False lba buf n i j k s" and ?u = "used_idx q"
  note p = request_published [OF ok lay ix lba used refl]
  have u16: "unat (word_of_nat x :: u16) = x" if "x < queue_size q" for x using index_u16 [OF ok that] .
  define m1 m2 m3 where "m1 = Le_write 1 (store_bytes ?p buf bs) (snd frame) VIRTIO_BLK_S_OK"
    and "m2 = Le_write 4 m1 (used_entry q ?u) i" and "m3 = Le_write 4 m2 (used_entry q ?u + 4) (n + 1)"
  have m: "m = Le_write 2 m3 (used_paddr q + 2) (unat (?u + 1))"
    using ix u16 by (simp add: m serve_read_def p Let_def m1_def m2_def m3_def dat(1) del: add_2_eq_Suc')
  let ?nu = "4 + 8 * queue_size q"
  have regs: "apart (snd frame) 1 (used_paddr q) ?nu" "apart buf n (used_paddr q) ?nu" "apart buf n (snd frame) 1"
    using lay by (auto simp: request_layout_def dest: apart_sym)
  note ui = ring_inside(2) [OF ok, of ?u]
  have st: "apart (snd frame) (Suc 0) (used_entry q ?u) 4" "apart (snd frame) (Suc 0) (used_entry q ?u + 4) 4"
    "apart (snd frame) (Suc 0) (used_paddr q + 2) 2"
    using regs(1) ui by (auto simp: apart_def)
  have bu: "apart buf n (used_entry q ?u) 4" "apart buf n (used_entry q ?u + 4) 4" "apart buf n (used_paddr q + 2) 2"
    "apart buf n (snd frame) (Suc 0)"
    using regs(2,3) ui by (auto simp: apart_def)
  have ue: "apart (used_entry q ?u) 4 (used_entry q ?u + 4) 4" "apart (used_entry q ?u) 4 (used_paddr q + 2) 2"
    using ui by (auto simp: apart_def)
  have i4: "i < 256 ^ 4" using ix(2) queue_size_bound [OF ok] by simp
  show "Le_read 2 m (used_paddr q + 2) = unat (?u + 1)"
    using unsigned_less [of "?u + 1", where 'a = nat] by (simp add: m le.read_back)
  show "Le_read 4 m (used_entry q ?u) = i"
    using ue i4 by (simp add: m m3_def m2_def Le_read_other le.read_back)
  show "Le_read 1 m (snd frame) = VIRTIO_BLK_S_OK"
    using st by (simp add: m m3_def m2_def m1_def Le_read_other le.read_back VIRTIO_BLK_S_OK_def)
  show "load_bytes m buf n = bs"
    using bu load_store [of ?p buf bs] dat(2) by (simp add: m m3_def m2_def m1_def load_other)
qed

text \<open>Polling until the answer is there.\<close>

lemma poll_until_answer:
  "answers D disk q k (dev s) (mem s) \<Longrightarrow> queues core = Some [q] \<Longrightarrow> queue_ok q \<Longrightarrow>
   Le_read 2 (mem s) (used_paddr q + 2) = unat (used_idx q) \<Longrightarrow>
   Le_read 2 (serve_read disk q (mem s)) (used_paddr q + 2) = unat (used_idx q + 1) \<Longrightarrow>
   \<exists>s1 core1. poll_used D core s = Some (Inr (word_of_nat (Le_read 4 (serve_read disk q (mem s)) (used_entry q (used_idx q)))), core1, s1)
     \<and> mem s1 = serve_read disk q (mem s) \<and> lks s1 = lks s \<and> queues core1 = Some [q\<lparr>used_idx := used_idx q + 1\<rparr>]"
proof (induction k arbitrary: s core)
  case 0
  have "mem (run_device D s) = serve_read disk q (mem s)" "lks (run_device D s) = lks s"
    using 0(1) by (simp_all add: run_device_def case_prod_beta)
  then show ?case
    using 0 pop_one [OF 0(3), of "serve_read disk q (mem s)"]
    by (subst poll_used.simps) (simp add: core_pop_used_def slice_get_def Let_def)
next
  case (Suc k)
  have same: "mem (run_device D s) = mem s" "lks (run_device D s) = lks s" "answers D disk q k (dev (run_device D s)) (mem s)"
    using Suc.prems(1) by (simp_all add: run_device_def case_prod_beta)
  have "with_queue core 0 q = core" using Suc.prems(2) by (simp add: with_queue_def)
  then have "poll_used D core s = poll_used D core (run_device D s)"
    using Suc.prems(2-4) same pop_nothing [of q "mem s"]
    by (subst poll_used.simps) (simp add: core_pop_used_def slice_get_def Let_def)
  then show ?case
    using Suc.IH [of "run_device D s" core] Suc.prems same by simp
qed

section \<open>Reading\<close>

lemma next_descriptor_free:
  assumes "queues core = Some [q]" and "queue_ok q" and "free_indices (lks s) q (i # rest)"
  shows "next_descriptor held core s = Some (Inr (word_of_nat i, slot q i), with_queue core 0 (q\<lparr>free_list := lks s (slot q i)\<rparr>), s)"
  using assms vq_allocate_ok(1) [OF assms(2,3)]
  by (simp add: next_descriptor_def core_allocate_descriptor_def slice_get_def)

text \<open>What never changes of a queue: all but the head of its free list and its two indices.\<close>

definition same_rings :: "VirtQueue \<Rightarrow> VirtQueue \<Rightarrow> bool" where
  "same_rings q q1 \<longleftrightarrow> queue_size q1 = queue_size q \<and> descriptor_paddr q1 = descriptor_paddr q
     \<and> avail_paddr q1 = avail_paddr q \<and> used_paddr q1 = used_paddr q"

text \<open>The queue when nothing is under way: the device has returned all it was given.\<close>

definition queue_idle :: "VirtIoCore \<Rightarrow> memory \<Rightarrow> VirtQueue \<Rightarrow> bool" where
  "queue_idle core m q0 \<longleftrightarrow> (\<exists>q. queues core = Some [q] \<and> same_rings q0 q \<and> avail_idx q = used_idx q
     \<and> Le_read 2 m (used_paddr q0 + 2) = unat (used_idx q))"

lemma dequeue_keeps_idle:
  "core_dequeue_used core 0 i s = Some (r, core1, s1) \<Longrightarrow> queue_idle core m q0 \<Longrightarrow> queue_idle core1 m q0 \<and> mem s1 = mem s"
  by (auto simp: core_dequeue_used_def vq_dequeue_used_def slice_get_def queue_idle_def same_rings_def with_queue_def
      split: option.splits Option.bind_splits if_splits)

lemma free_keeps_idle:
  "free_descriptors core ks s = Some (core1, s1) \<Longrightarrow> queue_idle core m q0 \<Longrightarrow> queue_idle core1 m q0 \<and> mem s1 = mem s"
  by (induction core ks s rule: free_descriptors.induct)
    (auto split: Option.bind_splits dest!: dequeue_keeps_idle)

text \<open>\<open>exec\<close> on a complete request that the device answers.\<close>

lemma exec_read:
  assumes q: "queues core = Some [q]" and ok: "queue_ok q" and lay: "request_layout q frame buf n"
    and ix: "distinct [i, j, k]" "{i, j, k} \<subseteq> {..<queue_size q}" and lba: "lba < 2 ^ 64"
    and idle: "avail_idx q = used_idx q" and used: "Le_read 2 (mem s) (used_paddr q + 2) = unat (used_idx q)"
    and dat: "bs = blocks disk lba (n div 512)" "length bs = n"
    and inv: "core_inv all [i, j, k] core (lks s)"
    and ans: "answers D disk q polls (reg_write D (dev s) REG_QUEUE_NOTIFY 0) (published q frame False lba buf n i j k s)"
  shows "\<exists>core1 s1. exec_request D (word_of_nat i) (map word_of_nat [i, j, k]) (snd frame) core
      (chained q frame False lba buf n i j k s) = Some (Inr (), core1, s1) \<and> load_bytes (mem s1) buf n = bs
    \<and> queue_idle core1 (mem s1) q"
proof -
  let ?sd = "chained q frame False lba buf n i j k s" and ?p = "published q frame False lba buf n i j k s"
  let ?q = "q\<lparr>avail_idx := avail_idx q + 1\<rparr>"
  have sd: "lks ?sd = lks s" "dev ?sd = dev s" by (simp_all add: chained_def machine_defs)
  have i: "unat (word_of_nat i :: u16) = i" using index_u16 [OF ok] ix(2) by simp
  define core2 s2 where "core2 = with_queue core 0 ?q" and "s2 = queue_notify D 0 (?sd\<lparr>mem := ?p\<rparr>)"
  have s2: "mem s2 = ?p" "lks s2 = lks s" "dev s2 = reg_write D (dev s) REG_QUEUE_NOTIFY 0"
    by (simp_all add: s2_def queue_notify_def wr_def sd)
  have notify: "core_set_and_notify D core 0 (word_of_nat i) ?sd = Some (Inr (), core2, s2)"
    using publish [OF ok idle, of "mem ?sd" "word_of_nat i"] q
    by (simp add: core_set_and_notify_def slice_get_def core2_def s2_def published_def i)
  have inv2: "core_inv all [i, j, k] core2 (lks s)"
    using set_and_notify_inv [OF _ notify, of all "[i, j, k]"] inv sd by simp
  have q2: "queues core2 = Some [?q]" using q by (simp add: core2_def)
  note served = request_served [OF ok lay ix lba used dat refl]
  have "\<exists>s3 core3. poll_used D core2 s2 = Some (Inr (word_of_nat i), core3, s3)
      \<and> mem s3 = serve_read disk q ?p \<and> lks s3 = lks s \<and> queues core3 = Some [?q\<lparr>used_idx := used_idx q + 1\<rparr>]"
    using poll_until_answer [of D disk ?q polls s2 core2] ans q2 ok served request_published(7) [OF ok lay ix lba used refl] s2
    by (auto simp: used_entry_def)
  then obtain s3 core3 where poll: "poll_used D core2 s2 = Some (Inr (word_of_nat i), core3, s3)"
    and s3: "mem s3 = serve_read disk q ?p" "lks s3 = lks s" "queues core3 = Some [?q\<lparr>used_idx := used_idx q + 1\<rparr>]" by blast
  have idle3: "queue_idle core3 (mem s3) q"
    using s3(1,3) served(1) idle by (simp add: queue_idle_def same_rings_def)
  have "core_inv all [i, j, k] core3 (lks s3)"
    using poll_used_inv [OF poll, of all "[i, j, k]"] inv2 s2 s3 by simp
  then obtain core4 lk where fr: "free_descriptors core3 (map word_of_nat [i, j, k]) s3 = Some (core4, s3\<lparr>lks := lk\<rparr>)"
    using free_descriptors_inv by blast
  then show ?thesis
    using served(3,4) s3(1) free_keeps_idle [OF fr idle3]
    by (simp add: exec_request_def notify poll Let_def)
qed

lemma layout_upd: "request_layout (q\<lparr>free_list := h\<rparr>) = request_layout q"
  by (simp add: request_layout_def fun_eq_iff)

lemma submit_read:
  fixes s :: "'d machine"
  assumes q: "queues core = Some [q]" and ok: "queue_ok q" and lay: "request_layout q frame buf n"
    and free: "free_indices (lks s) q (i # j # k # rest)" and lba: "lba < 2 ^ 64"
    and idle: "avail_idx q = used_idx q" and used: "Le_read 2 (mem s) (used_paddr q + 2) = unat (used_idx q)"
    and dat: "bs = blocks disk lba (n div 512)" "length bs = n"
    and ans: "answers D disk q polls (reg_write D (dev s) REG_QUEUE_NOTIFY 0) (published q frame False lba buf n i j k s)"
  shows "\<exists>core1 s1. submit_rw D frame False lba buf n core s = Some (Inr (), core1, s1) \<and> load_bytes (mem s1) buf n = bs
    \<and> queue_idle core1 (mem s1) q"
proof -
  let ?h = "\<lambda>x. lks s (slot q x)"
  let ?c1 = "with_queue core 0 (q\<lparr>free_list := ?h i\<rparr>)"
  let ?c2 = "with_queue ?c1 0 (q\<lparr>free_list := ?h j\<rparr>)"
  let ?q3 = "q\<lparr>free_list := ?h k\<rparr>"
  let ?c3 = "with_queue ?c2 0 ?q3"
  have f1: "free_indices (lks s) (q\<lparr>free_list := ?h i\<rparr>) (j # k # rest)"
    using vq_allocate_ok(2) [OF ok free] by simp
  have f2: "free_indices (lks s) (q\<lparr>free_list := ?h j\<rparr>) (k # rest)"
    using vq_allocate_ok(2) [OF _ f1] ok by simp
  have f3: "free_indices (lks s) ?q3 rest"
    using vq_allocate_ok(2) [OF _ f2] ok by simp
  have ix: "distinct [i, j, k]" "{i, j, k} \<subseteq> {..<queue_size q}" and rest: "distinct (rest @ [i, j, k])"
    using free by (auto simp: free_indices_def)
  have q3: "queues ?c3 = Some [?q3]" using q by simp
  have inv: "core_inv (mset (rest @ [i, j, k])) [i, j, k] ?c3 (lks s)"
    using ix(2) rest by (intro core_invI [OF q3 _ f3]) (simp_all add: ok)
  have alloc1: "next_descriptor h core t = Some (Inr (word_of_nat i, slot q i), ?c1, t)"
    if "lks t = lks s" for h and t :: "'d machine"
    using next_descriptor_free [OF q ok, of t i "j # k # rest" h] free that by simp
  have alloc2: "next_descriptor h ?c1 t = Some (Inr (word_of_nat j, slot q j), ?c2, t)"
    if "lks t = lks s" for h and t :: "'d machine"
    using next_descriptor_free [of ?c1 "q\<lparr>free_list := ?h i\<rparr>" t j "k # rest" h] f1 that q ok by simp
  have alloc3: "next_descriptor h ?c2 t = Some (Inr (word_of_nat k, slot q k), ?c3, t)"
    if "lks t = lks s" for h and t :: "'d machine"
    using next_descriptor_free [of ?c2 "q\<lparr>free_list := ?h j\<rparr>" t k rest h] f2 that q ok by simp
  have same: "chained ?q3 = chained q" "published ?q3 = published q"
    by (simp_all add: fun_eq_iff chained_def published_def ring_entry_def)
  obtain core1 s1 where ex: "exec_request D (word_of_nat i) (map word_of_nat [i, j, k]) (snd frame) ?c3
      (chained q frame False lba buf n i j k s) = Some (Inr (), core1, s1)" and bs: "load_bytes (mem s1) buf n = bs"
    and id1: "queue_idle core1 (mem s1) ?q3"
    using exec_read [OF q3 _ _ ix(1) _ lba _ _ dat inv, of frame buf D polls] ok lay ix(2) idle used ans
    unfolding same by (auto simp: layout_upd)
  have "submit_rw D frame False lba buf n core s = Some (Inr (), core1, s1)"
    using ex by (simp add: submit_rw_def Let_def alloc1 alloc2 alloc3 chained_def finish_request_def)
  moreover have "queue_idle core1 (mem s1) q" using id1 by (simp add: queue_idle_def same_rings_def)
  ultimately show ?thesis using bs by blast
qed


section \<open>A new queue\<close>

lemma push_descriptors_ok:
  "chain lk head (map (\<lambda>i. d + 16 * i) xs) \<Longrightarrow> distinct (rev ys @ xs) \<Longrightarrow> 0 < d \<Longrightarrow>
   \<forall>i \<in> set ys. d + 16 * i < usize_limit \<Longrightarrow>
   \<exists>lk1 head1. push_descriptors lk head d ys = Some (lk1, head1) \<and> chain lk1 head1 (map (\<lambda>i. d + 16 * i) (rev ys @ xs))"
proof (induction ys arbitrary: lk head xs)
  case (Cons i ys)
  have "d + 16 * i \<notin> set (map (\<lambda>i. d + 16 * i) xs)" using Cons.prems(2) by auto
  then obtain lk1 head1 where push: "list_push lk head (d + 16 * i) = Some (lk1, head1)"
    "chain lk1 head1 (map (\<lambda>i. d + 16 * i) (i # xs))"
    using list_push_ok [OF Cons.prems(1), of "d + 16 * i"] Cons.prems(3) by auto
  show ?case
    using Cons.IH [OF push(2)] Cons.prems push(1)
    by (simp add: exec_simps size_of_VirtqDesc_def mult.commute)
qed simp

lemma vq_new_ok:
  assumes "queue_ok \<lparr>queue_size = sz, descriptor_paddr = d, avail_paddr = a, used_paddr = u, free_list = None,
      avail_idx = 0, used_idx = 0\<rparr>"
  shows "\<exists>q lk1. vq_new lk sz d a u = Some (q, lk1) \<and> queue_ok q \<and> free_indices lk1 q (rev [0..<sz])
    \<and> queue_size q = sz \<and> avail_idx q = 0 \<and> used_idx q = 0"
proof -
  have b: "0 < d" "\<forall>i \<in> set [0..<sz]. d + 16 * i < usize_limit"
    using assms by (auto simp: queue_ok_def)
  obtain lk1 head where push: "push_descriptors lk list_new d [0..<sz] = Some (lk1, head)"
    "chain lk1 head (map (\<lambda>i. d + 16 * i) (rev [0..<sz]))"
    using push_descriptors_ok [of lk list_new d "[]" "[0..<sz]"] b by (auto simp: chain_def list_new_def)
  then show ?thesis
    using assms by (auto simp: vq_new_def queue_ok_def free_indices_def slot_def [abs_def])
qed

lemma lks_reg [simp]:
  "lks (wr D r v s) = lks s" "lks (select_queue D i s) = lks s" "lks (set_queue_size D sz s) = lks s"
  "lks (alloc_zeroed p n s) = lks s" "lks (queue_set_descriptor D p s) = lks s" "lks (queue_set_available D p s) = lks s"
  "lks (queue_set_used D p s) = lks s" "lks (enable_queue_ready D s) = lks s" "lks (bitmask_set_status D v s) = lks s"
  "lks (set_status D v s) = lks s"
  by (simp_all add: wr_def select_queue_def set_queue_size_def alloc_zeroed_def queue_set_descriptor_def
      queue_set_available_def queue_set_used_def enable_queue_ready_def bitmask_set_status_def set_status_def)

lemma vq_new_shape:
  "vq_new lk sz d a u = Some (q, lk1) \<Longrightarrow> queue_size q = sz \<and> descriptor_paddr q = d \<and> avail_paddr q = a \<and> used_paddr q = u
    \<and> avail_idx q = 0 \<and> used_idx q = 0"
  by (auto simp: vq_new_def split: Option.bind_splits)

lemma vq_new_free:
  assumes "vq_new lk sz d a u = Some (q, lk1)" and "queue_ok q"
  shows "free_indices lk1 q (rev [0..<queue_size q])"
proof -
  have "queue_ok \<lparr>queue_size = sz, descriptor_paddr = d, avail_paddr = a, used_paddr = u, free_list = None,
      avail_idx = 0, used_idx = 0\<rparr>"
    using assms(2) vq_new_shape [OF assms(1)] by (simp add: queue_ok_def)
  from vq_new_ok [OF this, of lk] show ?thesis using assms(1) by auto
qed

lemma init_queue_free:
  assumes "init_queue D place i s = Some (r, s1)" and "None \<noteq> r" and "queue_ok (the r)"
  shows "free_indices (lks s1) (the r) (rev [0..<queue_size (the r)])"
  using assms by (auto simp: init_queue_def Let_def split: if_splits Option.bind_splits prod.splits dest!: vq_new_free)

text \<open>Initialisation leaves one queue, and all of its descriptors are free.\<close>

lemma blk_init_free:
  assumes "blk_init D place blk s = Some (Inr (), blk1, s1)" and "queues (virtio blk1) = Some [q]" and "queue_ok q"
  shows "free_indices (lks s1) q (rev [0..<queue_size q])"
  using assms
  by (auto simp: blk_init_def core_init_def init_closure_def assume_init_queues_def VirtIoBlkAdapter_def Let_def
      split: if_splits Option.bind_splits sum.splits prod.splits dest!: init_queue_free)

section \<open>The driver's contract\<close>

text \<open>
  A life of the driver: calls with any arguments and any results, and between them the device, or other
  code, that changes everything but the links of the queue.
\<close>

inductive driver_run :: "'d virtio_dev \<Rightarrow> VirtIoBlk \<times> 'd machine \<Rightarrow> VirtIoBlk \<times> 'd machine \<Rightarrow> bool" for D where
  start: "driver_run D x x"
| other: "driver_run D x (blk, s) \<Longrightarrow> lks t = lks s \<Longrightarrow> driver_run D x (blk, t)"
| reads: "driver_run D x (blk, s) \<Longrightarrow> blk_read_at D frame blk lba buf n s = Some (r, blk1, s1) \<Longrightarrow> driver_run D x (blk1, s1)"
| writes: "driver_run D x (blk, s) \<Longrightarrow> blk_write_at D frame blk lba buf n s = Some (r, blk1, s1) \<Longrightarrow> driver_run D x (blk1, s1)"
| flushes: "driver_run D x (blk, s) \<Longrightarrow> blk_flush D frame blk s = Some (r, blk1, s1) \<Longrightarrow> driver_run D x (blk1, s1)"

lemma driver_run_inv:
  "driver_run D x y \<Longrightarrow> core_inv all [] (virtio (fst x)) (lks (snd x)) \<Longrightarrow> core_inv all [] (virtio (fst y)) (lks (snd y))"
  by (induction rule: driver_run.induct) (auto dest: blk_read_inv blk_write_inv blk_flush_inv)

text \<open>The driver between two calls: all that was given to the device is back, and a request finds three descriptors.\<close>

definition driver_idle :: "VirtQueue \<Rightarrow> VirtIoBlk \<Rightarrow> 'd machine \<Rightarrow> bool" where
  "driver_idle q0 blk s \<longleftrightarrow> queue_ok q0 \<and> queue_idle (virtio blk) (mem s) q0
     \<and> (\<exists>all. 3 \<le> size all \<and> core_inv all [] (virtio blk) (lks s))"

lemma le_value_zeros: "\<forall>b \<in> set bs. b = 0 \<Longrightarrow> le_value bs = 0"
  by (induction bs) simp_all

lemma zeroed_read:
  assumes "k + n \<le> len"
  shows "Le_read n (store_bytes m p (replicate len 0)) (p + k) = 0"
  using assms by (auto simp: Le_read_def from_le_def readable_read_def load_bytes_def store_bytes_def intro!: le_value_zeros)

lemma mem_reg [simp]:
  "mem (wr D r v s) = mem s" "mem (select_queue D i s) = mem s" "mem (set_queue_size D sz s) = mem s"
  "mem (queue_set_descriptor D p s) = mem s" "mem (queue_set_available D p s) = mem s"
  "mem (queue_set_used D p s) = mem s" "mem (enable_queue_ready D s) = mem s" "mem (bitmask_set_status D v s) = mem s"
  by (simp_all add: wr_def select_queue_def set_queue_size_def queue_set_descriptor_def
      queue_set_available_def queue_set_used_def enable_queue_ready_def bitmask_set_status_def)

lemma init_queue_idle:
  assumes "init_queue D place i s = Some (r, s1)" and "None \<noteq> r"
  shows "Le_read 2 (mem s1) (used_paddr (the r) + 2) = 0 \<and> avail_idx (the r) = 0 \<and> used_idx (the r) = 0"
  using assms zeroed_read [of 2 2]
  by (auto simp: init_queue_def Let_def alloc_zeroed_def size_of_VirtqUsed_def split: if_splits Option.bind_splits prod.splits
      dest!: vq_new_shape)

lemma blk_init_idle:
  assumes "blk_init D place blk s = Some (Inr (), blk1, s1)" and "queues (virtio blk1) = Some [q]" and "queue_ok q"
    and "3 \<le> queue_size q"
  shows "driver_idle q blk1 s1"
proof -
  have "Le_read 2 (mem s1) (used_paddr q + 2) = 0 \<and> avail_idx q = 0 \<and> used_idx q = 0"
    using assms(1,2)
    by (auto simp: blk_init_def core_init_def init_closure_def assume_init_queues_def VirtIoBlkAdapter_def Let_def
        split: if_splits Option.bind_splits sum.splits prod.splits dest!: init_queue_idle)
  then have "queue_idle (virtio blk1) (mem s1) q"
    using assms(2) by (simp add: queue_idle_def same_rings_def)
  moreover have "core_inv (mset (rev [0..<queue_size q])) [] (virtio blk1) (lks s1)"
    using assms(2,3) blk_init_free [OF assms(1-3)] by (intro core_invI) (auto simp: free_indices_def)
  moreover have "3 \<le> size (mset (rev [0..<queue_size q]))" using assms(4) by simp
  ultimately show ?thesis unfolding driver_idle_def using assms(3) by blast
qed

text \<open>The device serves reads: notified in any state and with any memory, it answers after some number of polls.\<close>

definition device_answers :: "'d virtio_dev \<Rightarrow> disk \<Rightarrow> VirtQueue \<Rightarrow> bool" where
  "device_answers D disk q \<longleftrightarrow> (\<forall>d m. \<exists>polls. answers D disk q polls d m)"

lemma same_rings_simps:
  assumes "same_rings q q1"
  shows "slot q1 = slot q" "queue_ok q1 = queue_ok q" "request_layout q1 = request_layout q" "serve_read disk q1 = serve_read disk q"
  using assms
  by (simp_all add: same_rings_def slot_def queue_ok_def request_layout_def serve_read_def ring_entry_def used_entry_def fun_eq_iff)

lemma same_rings_answers: "same_rings q q1 \<Longrightarrow> answers D disk q1 k d m = answers D disk q k d m"
  by (induction k arbitrary: d) (simp_all add: same_rings_simps(4))

lemma blk_read_idle:
  fixes s :: "'d machine"
  assumes idle: "driver_idle q0 blk s" and lay: "request_layout q0 frame buf n" and n: "0 < n" "512 dvd n"
    and cap: "lba + n div 512 \<le> blk_num_blocks D s" "blk_num_blocks D s < 2 ^ 64"
    and disk: "\<forall>b. length (disk b) = 512" and ans: "device_answers D disk q0"
  shows "\<exists>blk1 s1. blk_read_at D frame blk lba buf n s = Some (Inr (), blk1, s1)
    \<and> load_bytes (mem s1) buf n = blocks disk lba (n div 512) \<and> driver_idle q0 blk1 s1"
proof -
  obtain q where q: "queues (virtio blk) = Some [q]" "same_rings q0 q" "avail_idx q = used_idx q"
    "Le_read 2 (mem s) (used_paddr q0 + 2) = unat (used_idx q)"
    using idle by (auto simp: driver_idle_def queue_idle_def)
  obtain all where all: "3 \<le> size all" "core_inv all [] (virtio blk) (lks s)"
    using idle by (auto simp: driver_idle_def)
  obtain free where free: "free_indices (lks s) q free" "3 \<le> length free"
    using core_invE [OF all(2)] q(1) all(1) by (metis append.right_neutral list.inject option.inject size_mset)
  obtain i j k rest where ix: "free = i # j # k # rest"
    using free(2) by (auto simp: numeral_3_eq_3 Suc_le_length_iff)
  have ok: "queue_ok q" and lay1: "request_layout q frame buf n"
    using idle lay same_rings_simps [OF q(2)] by (simp_all add: driver_idle_def)
  have len: "length (blocks disk lba (n div 512)) = n"
    using n(2) disk by (simp add: blocks_length [of disk 512])
  have lba: "lba < 2 ^ 64" using cap by linarith
  have used: "Le_read 2 (mem s) (used_paddr q + 2) = unat (used_idx q)" using q(2,4) by (simp add: same_rings_def)
  obtain polls where "answers D disk q polls (reg_write D (dev s) REG_QUEUE_NOTIFY 0)
      (published q frame False lba buf n i j k s)"
    using ans same_rings_answers [OF q(2)] by (fastforce simp: device_answers_def)
  then obtain core1 s1 where sub: "submit_rw D frame False lba buf n (virtio blk) s = Some (Inr (), core1, s1)"
    and bs: "load_bytes (mem s1) buf n = blocks disk lba (n div 512)" and idle1: "queue_idle core1 (mem s1) q"
    using submit_read [OF q(1) ok lay1 free(1) [unfolded ix] lba q(3) used refl len] by blast
  have "core_inv all [] core1 (lks s1)" using all(2) sub by (rule submit_rw_inv)
  moreover have "queue_idle core1 (mem s1) q0" using idle1 q(2) by (simp add: queue_idle_def same_rings_def)
  ultimately have "driver_idle q0 (blk\<lparr>virtio := core1\<rparr>) s1" using all(1) idle by (auto simp: driver_idle_def)
  moreover have "check_io D blk lba n s = Inr ()"
    using q(1) n cap lay by (simp add: check_io_def blk_block_size_def blk_max_io_bytes_def usize_limit_def mod_eq_0_iff_dvd request_layout_def)
  ultimately show ?thesis using sub bs q(1) by (simp add: blk_read_at_def)
qed


text \<open>A device that serves at the first poll, and an idle queue of four descriptors.\<close>

definition demo_queue :: VirtQueue where
  "demo_queue = \<lparr>queue_size = 4, descriptor_paddr = 0x1000, avail_paddr = 0x2000, used_paddr = 0x3000,
     free_list = Some 0x1030, avail_idx = 0xffff, used_idx = 0xffff\<rparr>"

definition virtio_demo_disk :: disk where
  "virtio_demo_disk b = replicate 512 (word_of_nat b)"

definition demo_dev :: "disk \<Rightarrow> unit virtio_dev" where
  "demo_dev disk = \<lparr>reg_read = (\<lambda>_ r. if r = REG_CAPACITY then 8 else 0), reg_write = (\<lambda>d _ _. d),
     dev_run = (\<lambda>d m. (d, serve_read disk demo_queue m))\<rparr>"

definition demo_machine :: "unit machine" where
  "demo_machine = \<lparr>dev = (), mem = (\<lambda>_. 0xff),
     lks = [0x1030 \<mapsto> 0x1020, 0x1020 \<mapsto> 0x1010, 0x1010 \<mapsto> 0x1000]\<rparr>"

definition demo_blk :: VirtIoBlk where
  "demo_blk = \<lparr>virtio = \<lparr>transport = \<lparr>registers = 0, mmio_device = VirtIoDeviceTypes.BlockDevice\<rparr>, queues = Some [demo_queue]\<rparr>,
     is_readonly = Some False, configuration_space = 0x100\<rparr>"

lemma demo_queue_ok: "queue_ok demo_queue"
  using image_eqI [of 4 "\<lambda>k. 2 ^ k :: nat" 2 "{..15}"] by (simp add: queue_ok_def demo_queue_def usize_limit_def)

lemma demo_idle: "driver_idle demo_queue demo_blk demo_machine"
proof -
  have free: "free_indices (lks demo_machine) demo_queue [3, 2, 1, 0]"
    by (simp add: free_indices_def chain_def slot_def demo_queue_def demo_machine_def)
  have q: "queues (virtio demo_blk) = Some [demo_queue]" by (simp add: demo_blk_def)
  have "core_inv (mset [3, 2, 1, 0]) [] (virtio demo_blk) (lks demo_machine)"
    by (rule core_invI [OF q demo_queue_ok free]) simp_all
  moreover have "Le_read 2 (mem demo_machine) (used_paddr demo_queue + 2) = unat (used_idx demo_queue)"
    by (simp add: Le_read_def from_le_def readable_read_def load_bytes_def demo_queue_def demo_machine_def upt_rec)
  then have "queue_idle (virtio demo_blk) (mem demo_machine) demo_queue"
    by (simp add: queue_idle_def q same_rings_def) (simp add: demo_queue_def)
  moreover have "3 \<le> size (mset [3, 2, 1, 0 :: nat])" by simp
  ultimately show ?thesis unfolding driver_idle_def using demo_queue_ok by blast
qed

lemma demo_answers: "device_answers (demo_dev disk) disk demo_queue"
  unfolding device_answers_def
proof (intro allI)
  show "\<exists>polls. answers (demo_dev disk) disk demo_queue polls d m" for d m
    by (rule exI [of _ 0]) (simp add: demo_dev_def)
qed


text \<open>
  C8. From the moment \<open>init\<close> has returned \<open>Ok\<close>, through any sequence of \<open>read_at\<close>, \<open>write_at\<close> and \<open>flush\<close>, with any
  arguments and whatever the device answers, errors and garbage included: between two calls all descriptors of
  the queue are on its free list, each once. No descriptor is leaked or freed twice on any path.
\<close>

theorem descriptors_never_leak:
  assumes "blk_init D place blk s = Some (Inr (), blk1, s1)" and "queues (virtio blk1) = Some [q]" and "queue_ok q"
    and "driver_run D (blk1, s1) (blk2, s2)"
  shows "core_inv (mset [0..<queue_size q]) [] (virtio blk2) (lks s2)"
proof -
  have "core_inv (mset (rev [0..<queue_size q])) [] (virtio blk1) (lks s1)"
    using assms(2,3) blk_init_free [OF assms(1-3)]
    by (intro core_invI) (auto simp: free_indices_def)
  then show ?thesis using driver_run_inv [OF assms(4), of "mset [0..<queue_size q]"] by simp
qed

text \<open>A device with plain registers that offers version 1 and a queue of four descriptors.\<close>

definition plain_dev :: "(nat \<Rightarrow> nat) virtio_dev" where
  "plain_dev = \<lparr>reg_read = (\<lambda>d r. if r = REG_DEVICE_FEATURES then (if d REG_DEVICE_FEATURES_SEL = 1 then 1 else 0) else d r),
     reg_write = (\<lambda>d r v. d(r := v)), dev_run = (\<lambda>d m. (d, m))\<rparr>"

definition plain_machine :: "(nat \<Rightarrow> nat) machine" where
  "plain_machine = \<lparr>dev = (\<lambda>_. 0)(REG_QUEUE_SIZE_MAX := 4), mem = (\<lambda>_. 0), lks = (\<lambda>_. None)\<rparr>"

definition fresh_blk :: VirtIoBlk where
  "fresh_blk = \<lparr>virtio = \<lparr>transport = \<lparr>registers = 0, mmio_device = VirtIoDeviceTypes.BlockDevice\<rparr>, queues = None\<rparr>,
     is_readonly = None, configuration_space = 0x100\<rparr>"

lemmas reg_offsets = REG_DEVICE_FEATURES_def REG_DEVICE_FEATURES_SEL_def REG_DRIVER_FEATURES_def REG_DRIVER_FEATURES_SEL_def
  REG_QUEUE_SEL_def REG_QUEUE_SIZE_MAX_def REG_QUEUE_SIZE_def REG_QUEUE_READY_def REG_STATUS_def REG_QUEUE_DESC_LOW_def
  REG_QUEUE_DESC_HIGH_def REG_QUEUE_DRIVER_LOW_def REG_QUEUE_DRIVER_HIGH_def REG_QUEUE_DEVICE_LOW_def REG_QUEUE_DEVICE_HIGH_def
  STATUS_RESET_def STATUS_ACKNOWLEDGE_def STATUS_DRIVER_def STATUS_DRIVER_OK_def STATUS_FEATURES_OK_def STATUS_DEVICE_NEEDS_RESET_def

lemmas init_eval = blk_init_def core_init_def init_closure_def init_queue_def VirtIoBlkAdapter_def adapter_driver_features_def
  set_status_def bitmask_set_status_def get_status_def get_device_features_def set_driver_features_def device_independent_features_def
  select_queue_def is_queue_ready_equal_0_def get_max_queue_size_def set_queue_size_def alloc_zeroed_def queue_set_descriptor_def
  queue_set_available_def queue_set_used_def enable_queue_ready_def vq_new_def assume_init_queues_def wr_def rd_def ilog2_def
  VIRTIO_FEATURE_SEL_SIZE_def

theorem descriptors_never_leak_witness:
  "\<exists>blk1 s1. blk_init plain_dev (\<lambda>_. (0x1000, 0x2000, 0x3000)) fresh_blk plain_machine = Some (Inr (), blk1, s1)
    \<and> core_inv (mset [0..<4]) [] (virtio blk1) (lks s1)"
proof -
  have "\<exists>blk1 s1 q. blk_init plain_dev (\<lambda>_. (0x1000, 0x2000, 0x3000)) fresh_blk plain_machine = Some (Inr (), blk1, s1)
      \<and> queues (virtio blk1) = Some [q] \<and> queue_size q = 4 \<and> queue_ok q"
    using image_eqI [of 4 "\<lambda>k. 2 ^ k :: nat" 2 "{..15}"]
    by (simp add: init_eval plain_dev_def plain_machine_def fresh_blk_def Let_def exec_simps reg_offsets upt_rec log2_floor.simps
        list_push_def list_new_def new_unchecked_def F_VERSION_1_def queue_ok_def size_of_VirtqDesc_def usize_limit_def)
  then obtain blk1 s1 q where i: "blk_init plain_dev (\<lambda>_. (0x1000, 0x2000, 0x3000)) fresh_blk plain_machine = Some (Inr (), blk1, s1)"
    "queues (virtio blk1) = Some [q]" "queue_ok q" "queue_size q = 4" by blast
  then show ?thesis using descriptors_never_leak [OF i(1-3) driver_run.start] by auto
qed

end
