(* ===== verification/Storage.thy ===== *)
theory Storage
  imports Virtio_Spec Filesystem
begin

text \<open>
  The storage device, \<open>src/file/src/lib.rs\<close>: the virtio block driver under the partition table and the FAT32
  file system. The file system sees the driver through the trait \<open>BlockDevice\<close>; \<open>bufs\<close> is where a buffer of
  a given length lies. Reads change the driver only in ways that no later read can tell, so the trait object
  is taken at one state of the driver; \<open>frame\<close> and \<open>place\<close> are the addresses of the driver's locals and of its queue.
\<close>

section \<open>The driver as a block device\<close>

text \<open>The answers of the driver; a call that does not return has none, and is no case of the contract below.\<close>

definition blk_device ::
  "'d virtio_dev \<Rightarrow> usize \<times> usize \<Rightarrow> (usize \<Rightarrow> usize) \<Rightarrow> VirtIoBlk \<Rightarrow> 'd machine \<Rightarrow> Block_Device.BlockDevice" where
  "blk_device D frame bufs blk s = \<lparr>block_size = blk_block_size, num_blocks = blk_num_blocks D s,
     dev_read = (\<lambda>lba n.
       case blk_read_at D frame blk lba (bufs n) n s of
         Some (Inr _, _, s1) \<Rightarrow> Inr (load_bytes (mem s1) (bufs n) n)
       | Some (Inl e, _, _) \<Rightarrow> Inl e
       | None \<Rightarrow> Inl Timeout),
     is_read_only = blk_is_read_only blk,
     dev_flush = (case blk_flush D frame blk s of Some (r, _, _) \<Rightarrow> r | None \<Rightarrow> Inl Timeout)\<rparr>"

section \<open>The storage device\<close>

datatype StorageDeviceErr = IoErr IoError | FileSystemErr FileSystemErr | StillUsed

record StorageDevice =
  sd_dev :: VirtIoBlk
  sd_partition :: PartitionIndex

definition new_virtio ::
  "'d virtio_dev \<Rightarrow> (nat \<Rightarrow> usize \<times> usize \<times> usize) \<Rightarrow> usize \<times> usize \<Rightarrow> (usize \<Rightarrow> usize) \<Rightarrow> usize \<Rightarrow> 'd machine
   \<Rightarrow> ((StorageDeviceErr + StorageDevice) \<times> 'd machine) option" where
  "new_virtio D place frame bufs mmio s = do {
     r \<leftarrow> blk_new D mmio s;
     (case r of
        Inl e \<Rightarrow> Some (Inl (IoErr e), s)
      | Inr io \<Rightarrow> do {
          (r, io, s) \<leftarrow> blk_init D place io s;
          (case r of
             Inl e \<Rightarrow> Some (Inl (IoErr e), s)
           | Inr _ \<Rightarrow> do {
               p \<leftarrow> PartitionIndex_new (blk_device D frame bufs io s);
               (case p of
                  Inl e \<Rightarrow> Some (Inl (FileSystemErr e), s)
                | Inr part \<Rightarrow> Some (Inr \<lparr>sd_dev = io, sd_partition = part\<rparr>, s))
             })
        })
   }"

definition storage_open ::
  "'d virtio_dev \<Rightarrow> usize \<times> usize \<Rightarrow> (usize \<Rightarrow> usize) \<Rightarrow> StorageDevice \<Rightarrow> nat \<Rightarrow> byte list \<Rightarrow> OpenOptions \<Rightarrow> 'd machine
   \<Rightarrow> ((StorageDeviceErr + FileHandle) \<times> StorageDevice) option" where
  "storage_open D frame bufs self idx nm opts s = do {
     (r, part) \<leftarrow> PartitionIndex_open (sd_partition self) (blk_device D frame bufs (sd_dev self) s) bufs idx nm opts;
     Some (map_sum FileSystemErr id r, self\<lparr>sd_partition := part\<rparr>)
   }"

definition storage_drop :: "'d virtio_dev \<Rightarrow> StorageDevice \<Rightarrow> 'd machine \<Rightarrow> 'd machine" where
  "storage_drop D self s = blk_uninstall D s"

section \<open>The contract of the block device\<close>

text \<open>Every buffer up to the size of the disk lies apart from the queue and the driver's locals.\<close>

definition buffers_ok :: "VirtQueue \<Rightarrow> usize \<times> usize \<Rightarrow> (usize \<Rightarrow> usize) \<Rightarrow> nat \<Rightarrow> bool" where
  "buffers_ok q frame bufs cap \<longleftrightarrow> cap * 512 < u32_limit \<and> (\<forall>n. n \<le> cap * 512 \<longrightarrow> request_layout q frame (bufs n) n)"

lemma blk_device_serves:
  fixes s :: "'d machine"
  assumes "driver_idle q blk s" and "device_answers D disk q" and "\<forall>b. length (disk b) = 512"
    and "buffers_ok q frame bufs (blk_num_blocks D s)"
  shows "device_serves (blk_device D frame bufs blk s) disk"
proof -
  have "dev_read (blk_device D frame bufs blk s) lba (n * 512) = Inr (blocks disk lba n)"
    if n: "0 < n" "lba + n \<le> blk_num_blocks D s" for lba n
  proof -
    have "n * 512 \<le> blk_num_blocks D s * 512" "blk_num_blocks D s < 2 ^ 64"
      using n(2) assms(4) by (auto simp: buffers_ok_def u32_limit_def)
    moreover have "lba + n * 512 div 512 \<le> blk_num_blocks D s" using n(2) by simp
    ultimately have "\<exists>blk1 s1. blk_read_at D frame blk lba (bufs (n * 512)) (n * 512) s = Some (Inr (), blk1, s1)
        \<and> load_bytes (mem s1) (bufs (n * 512)) (n * 512) = blocks disk lba (n * 512 div 512) \<and> driver_idle q blk1 s1"
      using assms n(1) by (intro blk_read_idle) (auto simp: buffers_ok_def)
    then show ?thesis by (auto simp: blk_device_def)
  qed
  then show ?thesis using assms(3) by (simp add: device_serves_def blk_device_def blk_block_size_def)
qed

section \<open>From the ring to the file\<close>


text \<open>The driver of a small disk with one partition that is mounted already.\<close>

definition demo_storage :: StorageDevice where
  "demo_storage = \<lparr>sd_dev = demo_blk, sd_partition = \<lparr>sector_kind = UnknownSector, partitions = [(0, demo_fs)]\<rparr>\<rparr>"


end
