(* ===== verification/Pl011.thy ===== *)
theory Pl011
  imports Typestate
begin

text \<open>
  The PL011 serial port, \<open>src/arch_hal/aarch64_hal/pl011/src/lib.rs\<close>. The port is a parameter: what it answers
  to a read of a register, which may change its state, and what a write does to it. The model records every
  write with the offset of its register. The three polling loops read the flag register until a bit is
  clear, which a port need not ever do, so they are partial functions.
\<close>

unbundle bit_operations_syntax

type_synonym u32w = "32 word"

section \<open>Registers\<close>

definition UARTDR :: nat where "UARTDR = 0x00"
definition UARTRSR :: nat where "UARTRSR = 0x04"
definition UARTFR :: nat where "UARTFR = 0x18"
definition UARTIBRD :: nat where "UARTIBRD = 0x24"
definition UARTFBRD :: nat where "UARTFBRD = 0x28"
definition UARTLCR :: nat where "UARTLCR = 0x2c"
definition UARTCR :: nat where "UARTCR = 0x30"
definition UARTIFLS :: nat where "UARTIFLS = 0x34"
definition UARTIMSC :: nat where "UARTIMSC = 0x38"
definition UARTICR :: nat where "UARTICR = 0x44"

definition pl011_mask :: "nat \<Rightarrow> u32w" where
  "pl011_mask width = push_bit width 1 - 1"

text \<open>The fields of a register: name, offset and width, in the order of the source.\<close>

type_synonym fields = "(string \<times> nat \<times> nat) list"

definition UARTDR_fields :: fields where
  "UARTDR_fields = [(''DATA'', 0, 8), (''FE'', 8, 1), (''PE'', 9, 1), (''BE'', 10, 1), (''OE'', 11, 1)]"

definition UARTFR_fields :: fields where
  "UARTFR_fields = [(''CTS'', 0, 1), (''DSR'', 1, 1), (''DCD'', 2, 1), (''BUSY'', 3, 1), (''RXFE'', 4, 1), (''TXFF'', 5, 1),
     (''RXFF'', 6, 1), (''TXFE'', 7, 1), (''RI'', 8, 1)]"

definition UARTLCR_fields :: fields where
  "UARTLCR_fields = [(''BRK'', 0, 1), (''PEN'', 1, 1), (''EPS'', 2, 1), (''STP2'', 3, 1), (''FEN'', 4, 1), (''WLEN'', 5, 2), (''SPS'', 7, 1)]"

definition UARTCR_fields :: fields where
  "UARTCR_fields = [(''UARTEN'', 0, 1), (''SIREN'', 1, 1), (''SIRLP'', 2, 1), (''LBE'', 7, 1), (''TXE'', 8, 1), (''RXE'', 9, 1),
     (''DTR'', 10, 1), (''RTS'', 11, 1), (''OUT1'', 12, 1), (''OUT2'', 13, 1), (''RTSEN'', 14, 1), (''CTSEN'', 15, 1)]"

definition UARTICR_fields :: fields where
  "UARTICR_fields = [(''RIMIC'', 0, 1), (''CTSMIC'', 1, 1), (''DCDMIC'', 2, 1), (''DSRMIC'', 3, 1), (''RXIC'', 4, 1), (''TXIC'', 5, 1),
     (''RTIC'', 6, 1), (''FEIC'', 7, 1), (''PEIC'', 8, 1), (''BEIC'', 9, 1), (''OEIC'', 10, 1)]"

definition field_mask :: "fields \<Rightarrow> string \<Rightarrow> u32w" where
  "field_mask fs nm = (case map_of fs nm of Some (off, w) \<Rightarrow> push_bit off (pl011_mask w) | None \<Rightarrow> 0)"

definition WLEN_BIT8_MASK :: u32w where
  "WLEN_BIT8_MASK = push_bit 5 0b11"

definition UARTICR_ALL_MASK :: u32w where
  "UARTICR_ALL_MASK = push_bit 0 (pl011_mask 11)"

section \<open>The port\<close>

record 'd uart_dev =
  uart_read :: "'d \<Rightarrow> nat \<Rightarrow> u32w \<times> 'd"
  uart_write :: "'d \<Rightarrow> nat \<Rightarrow> u32w \<Rightarrow> 'd"

record 'd Pl011Uart =
  udev :: 'd
  ulog :: "(nat \<times> u32w) list"

definition ureg_read :: "'d uart_dev \<Rightarrow> nat \<Rightarrow> 'd Pl011Uart \<Rightarrow> u32w \<times> 'd Pl011Uart" where
  "ureg_read D r s = (let (v, d) = uart_read D (udev s) r in (v, s\<lparr>udev := d\<rparr>))"

definition ureg_write :: "'d uart_dev \<Rightarrow> nat \<Rightarrow> u32w \<Rightarrow> 'd Pl011Uart \<Rightarrow> 'd Pl011Uart" where
  "ureg_write D r v s = s\<lparr>udev := uart_write D (udev s) r v, ulog := ulog s @ [(r, v)]\<rparr>"

definition ureg_set_bits :: "'d uart_dev \<Rightarrow> nat \<Rightarrow> u32w \<Rightarrow> 'd Pl011Uart \<Rightarrow> 'd Pl011Uart" where
  "ureg_set_bits D r m s = (let (v, s1) = ureg_read D r s in ureg_write D r (v OR m) s1)"

definition ureg_clear_bits :: "'d uart_dev \<Rightarrow> nat \<Rightarrow> u32w \<Rightarrow> 'd Pl011Uart \<Rightarrow> 'd Pl011Uart" where
  "ureg_clear_bits D r m s = (let (v, s1) = ureg_read D r s in ureg_write D r (v AND NOT m) s1)"

section \<open>Operations\<close>

partial_function (option) spin_while :: "'d uart_dev \<Rightarrow> u32w \<Rightarrow> 'd Pl011Uart \<Rightarrow> 'd Pl011Uart option" where
  "spin_while D m s = (let (v, s1) = ureg_read D UARTFR s in if v AND m \<noteq> 0 then spin_while D m s1 else Some s1)"

definition uart_flush :: "'d uart_dev \<Rightarrow> 'd Pl011Uart \<Rightarrow> 'd Pl011Uart option" where
  "uart_flush D s = do {
     s \<leftarrow> spin_while D (field_mask UARTFR_fields ''BUSY'') s;
     spin_while D (field_mask UARTFR_fields ''TXFE'') s
   }"

definition enable_mask :: u32w where
  "enable_mask = field_mask UARTCR_fields ''UARTEN'' + field_mask UARTCR_fields ''TXE'' + field_mask UARTCR_fields ''RXE''"

definition uart_disabled :: "'d uart_dev \<Rightarrow> 'd Pl011Uart \<Rightarrow> 'd Pl011Uart option" where
  "uart_disabled D s = do {
     s \<leftarrow> uart_flush D s;
     let s = ureg_clear_bits D UARTCR enable_mask s;
     let s = ureg_write D UARTICR UARTICR_ALL_MASK s;
     let s = ureg_clear_bits D UARTLCR (field_mask UARTLCR_fields ''FEN'') s;
     let s = ureg_write D UARTIFLS 0 s;
     Some (ureg_write D UARTIMSC 0 s)
   }"

text \<open>The divisor times 64, rounded; all of it in 64 bits, where nothing overflows.\<close>

definition div_x64 :: "nat \<Rightarrow> nat \<Rightarrow> nat option" where
  "div_x64 uart_clk baudrate = do {
     rust_assert (baudrate \<noteq> 0);
     Some ((4 * uart_clk + baudrate div 2) div baudrate)
   }"

definition uart_init :: "'d uart_dev \<Rightarrow> nat \<Rightarrow> nat \<Rightarrow> 'd Pl011Uart \<Rightarrow> 'd Pl011Uart option" where
  "uart_init D uart_clk baudrate s = do {
     s \<leftarrow> uart_disabled D s;
     rust_assert (3686400 < uart_clk);
     x \<leftarrow> div_x64 uart_clk baudrate;
     let s = ureg_write D UARTIBRD (word_of_nat (x div 64)) s;
     let s = ureg_write D UARTFBRD (word_of_nat (x mod 64)) s;
     let s = ureg_write D UARTLCR (WLEN_BIT8_MASK + field_mask UARTLCR_fields ''FEN'') s;
     Some (ureg_set_bits D UARTCR enable_mask s)
   }"

definition uart_pushb :: "'d uart_dev \<Rightarrow> u32w \<Rightarrow> 'd Pl011Uart \<Rightarrow> 'd Pl011Uart option" where
  "uart_pushb D ch s = do {
     s \<leftarrow> spin_while D (field_mask UARTFR_fields ''TXFF'') s;
     Some (ureg_write D UARTDR ch s)
   }"

fun uart_puts :: "'d uart_dev \<Rightarrow> byte list \<Rightarrow> 'd Pl011Uart \<Rightarrow> 'd Pl011Uart option" where
  "uart_puts D [] s = Some s"
| "uart_puts D (i # is) s = do {
     s \<leftarrow> (if i = 10 then uart_pushb D 13 s else Some s);
     s \<leftarrow> uart_pushb D (ucast i) s;
     uart_puts D is s
   }"

definition read_char :: "'d uart_dev \<Rightarrow> 'd Pl011Uart \<Rightarrow> (byte \<times> 'd Pl011Uart) option" where
  "read_char D s = do {
     s \<leftarrow> spin_while D (field_mask UARTFR_fields ''RXFE'') s;
     let (read, s) = ureg_read D UARTDR s;
     let errors = field_mask UARTDR_fields ''FE'' + field_mask UARTDR_fields ''PE'' + field_mask UARTDR_fields ''BE''
       + field_mask UARTDR_fields ''OE'';
     let s = (if read AND errors \<noteq> 0 then ureg_write D UARTRSR 0 s else s);
     Some (ucast (read AND field_mask UARTDR_fields ''DATA''), s)
   }"

text \<open>
  The panic handler of \<open>src/bootloader/src/main.rs\<close> up to its endless loop: \<open>msg\<close> is the formatted message.
\<close>

definition panic_message :: "byte list" where
  "panic_message = map (\<lambda>c. word_of_nat (of_char c)) ''core 0 panicked!!!'' @ [13, 10]"

definition panic_handler :: "'d uart_dev \<Rightarrow> byte list \<Rightarrow> 'd Pl011Uart \<Rightarrow> 'd Pl011Uart option" where
  "panic_handler D msg s = do {
     s \<leftarrow> uart_init D 44000000 115200 s;
     s \<leftarrow> uart_puts D panic_message s;
     uart_puts D msg s
   }"

section \<open>Field layout\<close>

fun fields_disjoint :: "fields \<Rightarrow> bool" where
  "fields_disjoint [] = True"
| "fields_disjoint ((_, off, w) # fs) = (off + w \<le> 32 \<and> list_all (\<lambda>(_, off1, _). off + w \<le> off1) fs \<and> fields_disjoint fs)"

lemma pl011_fields_disjoint:
  "fields_disjoint UARTDR_fields" "fields_disjoint UARTFR_fields" "fields_disjoint UARTLCR_fields"
  "fields_disjoint UARTCR_fields" "fields_disjoint UARTICR_fields"
  by (simp_all add: UARTDR_fields_def UARTFR_fields_def UARTLCR_fields_def UARTCR_fields_def UARTICR_fields_def)

lemma pl011_masks [simp]:
  "field_mask UARTFR_fields ''BUSY'' = 8" "field_mask UARTFR_fields ''TXFE'' = 0x80" "field_mask UARTFR_fields ''TXFF'' = 0x20"
  "field_mask UARTLCR_fields ''FEN'' = 0x10" "enable_mask = 0x301" "WLEN_BIT8_MASK = 0x60" "UARTICR_ALL_MASK = 0x7ff"
  by (simp_all add: field_mask_def pl011_mask_def UARTFR_fields_def UARTLCR_fields_def UARTCR_fields_def enable_mask_def
      WLEN_BIT8_MASK_def UARTICR_ALL_MASK_def)

section \<open>Polling\<close>

text \<open>The port after \<open>k\<close> reads of the flags, and whether one of the next reads finds the bit clear.\<close>

primrec polled :: "'d uart_dev \<Rightarrow> nat \<Rightarrow> 'd \<Rightarrow> 'd" where
  "polled D 0 d = d"
| "polled D (Suc k) d = polled D k (snd (uart_read D d UARTFR))"

definition clears :: "'d uart_dev \<Rightarrow> u32w \<Rightarrow> 'd \<Rightarrow> bool" where
  "clears D m d \<longleftrightarrow> (\<exists>k. fst (uart_read D (polled D k d) UARTFR) AND m = 0)"

lemma ureg_log [simp]:
  "ulog (snd (ureg_read D r s)) = ulog s" "ulog (ureg_write D r v s) = ulog s @ [(r, v)]"
  by (simp_all add: ureg_read_def ureg_write_def Let_def case_prod_beta)

lemma spin_while_ends:
  assumes "clears D m (udev s)"
  shows "\<exists>s1. spin_while D m s = Some s1 \<and> ulog s1 = ulog s"
proof -
  obtain k where "fst (uart_read D (polled D k (udev s)) UARTFR) AND m = 0"
    using assms by (auto simp: clears_def)
  then show ?thesis
  proof (induction k arbitrary: s)
    case 0
    then show ?case by (subst spin_while.simps) (simp add: ureg_read_def Let_def case_prod_beta)
  next
    case (Suc k)
    then have "\<exists>s1. spin_while D m (snd (ureg_read D UARTFR s)) = Some s1 \<and> ulog s1 = ulog s"
      using Suc.IH [of "snd (ureg_read D UARTFR s)"] by (simp add: ureg_read_def Let_def case_prod_beta)
    then show ?case by (subst spin_while.simps) (simp add: case_prod_beta Let_def)
  qed
qed

text \<open>A port whose flags keep the bit set, whatever is read, keeps the loop running.\<close>

lemma spin_while_returned:
  assumes "spin_while D m s = Some s1"
  shows "snd (uart_read D (udev s) UARTFR) = udev s \<longrightarrow> fst (uart_read D (udev s) UARTFR) AND m = 0"
  using _ assms
proof (rule spin_while.raw_induct
    [where P = "\<lambda>D m s s1. snd (uart_read D (udev s) UARTFR) = udev s \<longrightarrow> fst (uart_read D (udev s) UARTFR) AND m = 0"])
  fix spin :: "'a uart_dev \<Rightarrow> u32w \<Rightarrow> 'a Pl011Uart \<Rightarrow> 'a Pl011Uart option" and D m s s1
  assume 1: "\<And>D m s s1. spin D m s = Some s1 \<Longrightarrow>
      snd (uart_read D (udev s) UARTFR) = udev s \<longrightarrow> fst (uart_read D (udev s) UARTFR) AND m = 0"
    "(let (v, s1) = ureg_read D UARTFR s in if v AND m \<noteq> 0 then spin D m s1 else Some s1) = Some s1"
  show "snd (uart_read D (udev s) UARTFR) = udev s \<longrightarrow> fst (uart_read D (udev s) UARTFR) AND m = 0"
  proof
    assume same: "snd (uart_read D (udev s) UARTFR) = udev s"
    have "s\<lparr>udev := udev s\<rparr> = s" by simp
    then show "fst (uart_read D (udev s) UARTFR) AND m = 0"
      using 1(2) 1(1) [of D m s] same by (auto simp: ureg_read_def Let_def case_prod_beta split: if_splits)
  qed
qed

lemma spin_while_stuck:
  assumes "fst (uart_read D (udev s) UARTFR) AND m \<noteq> 0" and "snd (uart_read D (udev s) UARTFR) = udev s"
  shows "spin_while D m s = None"
  using spin_while_returned [of D m s] assms by (cases "spin_while D m s") auto

section \<open>Sending\<close>

text \<open>What a terminal gets: a carriage return before every line feed.\<close>

definition crlf :: "byte list \<Rightarrow> byte list" where
  "crlf cs = concat (map (\<lambda>c. if c = 10 then [13, 10] else [c]) cs)"

lemma pushb_sends:
  assumes "\<forall>d. clears D 0x20 d"
  shows "\<exists>s1. uart_pushb D ch s = Some s1 \<and> ulog s1 = ulog s @ [(UARTDR, ch)]"
  using spin_while_ends [of D "0x20" s] assms by (auto simp: uart_pushb_def)

lemma puts_sends:
  assumes "\<forall>d. clears D 0x20 d"
  shows "\<exists>s1. uart_puts D cs s = Some s1 \<and> ulog s1 = ulog s @ map (\<lambda>c. (UARTDR, ucast c)) (crlf cs)"
proof (induction cs arbitrary: s)
  case (Cons c cs)
  obtain s1 where s1: "(if c = 10 then uart_pushb D 13 s else Some s) = Some s1"
    "ulog s1 = ulog s @ (if c = 10 then [(UARTDR, 13)] else [])"
    using pushb_sends [OF assms, of 13 s] by (cases "c = 10") auto
  obtain s2 where "uart_pushb D (ucast c) s1 = Some s2" "ulog s2 = ulog s1 @ [(UARTDR, ucast c)]"
    using pushb_sends [OF assms] by blast
  then show ?case
    using s1 Cons.IH [of s2] by (cases "c = 10") (auto simp: crlf_def)
qed (simp add: crlf_def)

text \<open>The accuracy of the divisor: off by at most one half of one sixty-fourth.\<close>

lemma div_x64_rounds:
  assumes "0 < baud"
  shows "\<exists>x. div_x64 clk baud = Some x \<and> x * baud \<le> 4 * clk + baud div 2 \<and> 4 * clk + baud div 2 < x * baud + baud"
proof -
  let ?n = "4 * clk + baud div 2"
  have "?n div baud * baud \<le> ?n" "?n < ?n div baud * baud + baud"
    using assms div_times_less_eq_dividend [of ?n baud] mod_less_divisor [of baud ?n] div_mult_mod_eq [of ?n baud] by linarith+
  then show ?thesis using assms by (auto simp: div_x64_def exec_simps)
qed

text \<open>
  C31. \<open>write\<close> on a port whose transmit FIFO does not stay full forever returns, and what it has written to the
  port, all of it to the data register, is the string with a carriage return before every line feed, byte for
  byte and in order.
\<close>

theorem uart_write_sends:
  assumes "\<forall>d. clears D (field_mask UARTFR_fields ''TXFF'') d"
  shows "\<exists>s1. uart_puts D cs s = Some s1 \<and> ulog s1 = ulog s @ map (\<lambda>c. (UARTDR, ucast c)) (crlf cs)"
  using puts_sends [of D cs s] assms by simp

text \<open>A port with its FIFO full at every other read of the flags.\<close>

definition blinking_uart :: "bool uart_dev" where
  "blinking_uart = \<lparr>uart_read = (\<lambda>d r. (if d then 0x20 else 0x90, \<not> d)), uart_write = (\<lambda>d r v. True)\<rparr>"

theorem uart_write_sends_witness:
  "\<exists>s1. uart_puts blinking_uart [104, 105, 10] \<lparr>udev = True, ulog = []\<rparr> = Some s1
    \<and> ulog s1 = [(UARTDR, 104), (UARTDR, 105), (UARTDR, 13), (UARTDR, 10)]"
proof -
  have "fst (uart_read blinking_uart (polled blinking_uart (if d then 1 else 0) d) UARTFR) AND field_mask UARTFR_fields ''TXFF'' = 0" for d
    by (simp add: blinking_uart_def)
  then have "\<forall>d. clears blinking_uart (field_mask UARTFR_fields ''TXFF'') d" unfolding clears_def by blast
  from uart_write_sends [OF this, of "[104, 105, 10]" "\<lparr>udev = True, ulog = []\<rparr>"]
  show ?thesis by (simp add: crlf_def)
qed

text \<open>
  \<open>init\<close>, once \<open>disabled\<close> has returned, programs a baud rate divisor that is the exact one to within half of
  its last place: with \<open>i\<close> and \<open>f\<close> written to the integer and the fractional register, \<open>(64 i + f) * baudrate\<close> differs
  from four times the clock by at most half of the baud rate; \<open>f\<close> fits its six bits. After that it writes the
  line control and enables the port, in this order, and nothing else.
\<close>

lemma uart_init_baud_rate:
  assumes "uart_disabled D s = Some s1" and "3686400 < clk" and "clk < 2 ^ 32" and "0 < baud"
  shows "\<exists>i f v s2. uart_init D clk baud s = Some s2 \<and> f < 64
    \<and> 2 * ((64 * i + f) * baud) \<le> 8 * clk + baud \<and> 8 * clk \<le> 2 * ((64 * i + f) * baud) + baud
    \<and> ulog s2 = ulog s1 @ [(UARTIBRD, word_of_nat i), (UARTFBRD, word_of_nat f), (UARTLCR, 0x70), (UARTCR, v OR 0x301)]"
proof -
  obtain x where x: "div_x64 clk baud = Some x" "x * baud \<le> 4 * clk + baud div 2" "4 * clk + baud div 2 < x * baud + baud"
    using div_x64_rounds [OF assms(4)] by blast
  have "64 * (x div 64) + x mod 64 = x" by simp
  then show ?thesis
    using assms(1,2) x
    by (intro exI [of _ "x div 64"] exI [of _ "x mod 64"])
      (auto simp: uart_init_def exec_simps ureg_set_bits_def Let_def case_prod_beta)
qed

text \<open>A port that sends each byte at once: never busy, its FIFO never full and never empty.\<close>

definition fast_uart :: "unit uart_dev" where
  "fast_uart = \<lparr>uart_read = (\<lambda>d r. (0, d)), uart_write = (\<lambda>d r v. d)\<rparr>"

lemma uart_init_baud_rate_example:
  "\<exists>i f v s2. uart_init fast_uart 44000000 115200 \<lparr>udev = (), ulog = []\<rparr> = Some s2 \<and> f < 64
    \<and> 2 * ((64 * i + f) * 115200) \<le> 8 * 44000000 + 115200 \<and> 8 * 44000000 \<le> 2 * ((64 * i + f) * 115200) + 115200
    \<and> ulog s2 = [(UARTCR, 0), (UARTICR, 0x7ff), (UARTLCR, 0), (UARTIFLS, 0), (UARTIMSC, 0)]
        @ [(UARTIBRD, word_of_nat i), (UARTFBRD, word_of_nat f), (UARTLCR, 0x70), (UARTCR, v OR 0x301)]"
proof -
  have "spin_while fast_uart m s = Some s" for m s
    by (subst spin_while.simps) (simp add: fast_uart_def ureg_read_def)
  then have "uart_disabled fast_uart \<lparr>udev = (), ulog = []\<rparr> =
      Some \<lparr>udev = (), ulog = [(UARTCR, 0), (UARTICR, 0x7ff), (UARTLCR, 0), (UARTIFLS, 0), (UARTIMSC, 0)]\<rparr>"
    by (simp add: uart_disabled_def uart_flush_def ureg_clear_bits_def ureg_write_def ureg_read_def fast_uart_def)
  from uart_init_baud_rate [OF this, of 44000000 115200] show ?thesis by simp
qed

text \<open>
  C40. The panic handler on a port that is idle: as long as the flags say that nothing is being sent and that the
  transmit FIFO is empty, \<open>flush\<close> waits for the FIFO to be not empty, so that \<open>init\<close> never returns and the handler
  prints nothing.
\<close>

theorem panic_handler_hangs_on_idle_port:
  assumes "uart_read D (udev s) UARTFR = (flags, udev s)"
    and "flags AND field_mask UARTFR_fields ''BUSY'' = 0" and "flags AND field_mask UARTFR_fields ''TXFE'' \<noteq> 0"
  shows "uart_flush D s = None \<and> panic_handler D msg s = None"
proof -
  have "spin_while D 8 s = Some s"
    using assms(1,2) by (subst spin_while.simps) (simp add: ureg_read_def)
  moreover have "spin_while D 0x80 s = None"
    using assms(1,3) by (intro spin_while_stuck) simp_all
  ultimately have "uart_flush D s = None" by (simp add: uart_flush_def)
  then show ?thesis by (simp add: panic_handler_def uart_init_def uart_disabled_def)
qed

text \<open>A port after reset: both FIFOs are empty.\<close>

definition reset_uart :: "unit uart_dev" where
  "reset_uart = \<lparr>uart_read = (\<lambda>d r. (if r = UARTFR then 0x90 else 0, d)), uart_write = (\<lambda>d r v. d)\<rparr>"

theorem panic_handler_hangs_on_idle_port_witness:
  "uart_flush reset_uart \<lparr>udev = (), ulog = []\<rparr> = None \<and> panic_handler reset_uart [33] \<lparr>udev = (), ulog = []\<rparr> = None"
  by (rule panic_handler_hangs_on_idle_port [where flags = "0x90"]) (simp_all add: reset_uart_def)

end
