(* ===== verification/Boot.thy ===== *)
theory Boot
  imports Boot_Args Boot_Image Systimer Storage Pl011
begin

text \<open>
  The boot loader itself: \<open>main\<close> of \<open>src/bootloader/src/main.rs\<close>, with the console of
  \<open>src/arch_hal/aarch64_hal/src/lib.rs\<close> and the system registers of \<open>src/arch_hal/aarch64_hal/cpu/src/lib.rs\<close>. \<open>main\<close> is cut
  where it reports its progress: \<^verbatim>\<open>start_console\<close>, \<^verbatim>\<open>setup_allocator\<close>, \<^verbatim>\<open>find_storage\<close>, \<^verbatim>\<open>load_image\<close>,
  \<^verbatim>\<open>load_device_tree\<close>, \<^verbatim>\<open>hand_over\<close>; \<^verbatim>\<open>boot_main\<close> runs them in order and ends with the state at \<open>eret\<close>.

  What the loader is given is the environment: its argument, the addresses of the linker script, the devices
  and the places where buffers of the file system lie. The state is what it changes.
\<close>

unbundle bit_operations_syntax

section \<open>Processor\<close>

record cpu_regs =
  currentel :: "64 word"
  hcr_el2 :: "64 word"
  sctlr_el2 :: "64 word"
  spsr_el2 :: "64 word"
  elr_el2 :: "64 word"

definition get_current_el :: "cpu_regs \<Rightarrow> 64 word" where
  "get_current_el c = drop_bit 2 (currentel c)"

definition HCR_EL2_RW :: "64 word" where "HCR_EL2_RW = push_bit 31 1"

definition HCR_EL2_API :: "64 word" where "HCR_EL2_API = push_bit 41 1"

definition setup_hypervisor_registers :: "cpu_regs \<Rightarrow> cpu_regs" where
  "setup_hypervisor_registers c = c\<lparr>hcr_el2 := HCR_EL2_RW OR HCR_EL2_API\<rparr>"

definition SPSR_EL2_M_EL1H :: "64 word" where "SPSR_EL2_M_EL1H = 0b0101"

text \<open>The instructions before \<open>eret\<close>: \<open>bic\<close> and \<open>orr\<close> on the two control registers, then the target of the return.\<close>

definition prepare_eret :: "64 word \<Rightarrow> cpu_regs \<Rightarrow> cpu_regs" where
  "prepare_eret el1_main c =
     (let x9 = hcr_el2 c;
          x9 = x9 AND NOT (push_bit 0 1);
          x9 = x9 OR push_bit 31 1;
          c = c\<lparr>hcr_el2 := x9\<rparr>;
          x9 = sctlr_el2 c;
          x9 = x9 AND NOT (push_bit 0 1);
          x9 = x9 AND NOT (push_bit 2 1);
          x9 = x9 AND NOT (push_bit 12 1);
          c = c\<lparr>sctlr_el2 := x9\<rparr>;
          c = c\<lparr>spsr_el2 := SPSR_EL2_M_EL1H\<rparr>
      in c\<lparr>elr_el2 := el1_main\<rparr>)"

section \<open>Environment and state\<close>

record ('d, 'u) boot_env =
  args :: "string list"
  program_start :: usize
  stack_start :: usize
  uart_ops :: "'u uart_dev"
  uart_at :: "usize \<Rightarrow> 'u Pl011Uart"
  timer_frequency :: usize
  raw_memory :: "usize \<Rightarrow> MemoryRegions"
  virtio_at :: "usize \<Rightarrow> 'd virtio_dev"
  queue_place :: "nat \<Rightarrow> usize \<times> usize \<times> usize"
  driver_frame :: "usize \<times> usize"
  buffers :: "usize \<Rightarrow> usize"
  el1_main :: "64 word"

record ('d, 'u) boot =
  console :: "'u Pl011Uart option"
  allocator :: MemoryAllocator
  mach :: "'d machine"
  cpu :: cpu_regs

section \<open>Console\<close>

text \<open>\<open>debug_uart::init\<close>: the cell of the console is set once; a second time panics.\<close>

definition debug_uart_init :: "(usize \<Rightarrow> 'u Pl011Uart) \<Rightarrow> usize \<Rightarrow> 'u Pl011Uart option \<Rightarrow> 'u Pl011Uart option option" where
  "debug_uart_init at base_address cell =
     (case cell of None \<Rightarrow> Some (Some (at base_address)) | Some _ \<Rightarrow> None)"

definition print_args :: "'u uart_dev \<Rightarrow> byte list \<Rightarrow> 'u Pl011Uart option \<Rightarrow> 'u Pl011Uart option option" where
  "print_args U text cell = do {
     uart \<leftarrow> cell;
     uart \<leftarrow> uart_puts U text uart;
     Some (Some uart)
   }"

definition println_str :: "('d, 'u) boot_env \<Rightarrow> string \<Rightarrow> ('d, 'u) boot \<Rightarrow> ('d, 'u) boot option" where
  "println_str env text st = do {
     cell \<leftarrow> print_args (uart_ops env) (str_bytes text @ [10]) (console st);
     Some (st\<lparr>console := cell\<rparr>)
   }"

definition console_callback :: "('d, 'u) boot_env \<Rightarrow> 'u Pl011Uart option callback" where
  "console_callback env addr sz cell = do {
     cell \<leftarrow> debug_uart_init (uart_at env) addr cell;
     Some (Break, cell)
   }"

definition start_console :: "('d, 'u) boot_env \<Rightarrow> DtbParser \<Rightarrow> ('d, 'u) boot \<Rightarrow> ('d, 'u) boot option" where
  "start_console env dtb st = do {
     (_, cell) \<leftarrow> unwrap_result (find_node (mem (mach st)) dtb None (Some (str_bytes ''arm,pl011''))
                    (console_callback env) (console st));
     println_str env (''debug uart starting...'' @ [CHR 13, CHR 10]) (st\<lparr>console := cell\<rparr>)
   }"

section \<open>Storage\<close>

text \<open>The callback of the search keeps the first driver that initialises, and then stops the search.\<close>

definition storage_callback :: "('d, 'u) boot_env \<Rightarrow> (StorageDevice option \<times> 'd machine) callback" where
  "storage_callback env addr sz ds = do {
     (r, s) \<leftarrow> new_virtio (virtio_at env addr) (queue_place env) (driver_frame env) (buffers env) addr (snd ds);
     Some (case r of
         Inr driver \<Rightarrow> (Break, (Some driver, s))
       | Inl e \<Rightarrow> (Continue, (fst ds, s)))
   }"

definition find_storage ::
  "('d, 'u) boot_env \<Rightarrow> DtbParser \<Rightarrow> 'd machine \<Rightarrow> (StorageDevice \<times> 'd machine) option" where
  "find_storage env dtb s = do {
     (_, driver, s) \<leftarrow> unwrap_result (find_node (mem s) dtb None (Some (str_bytes ''virtio,mmio''))
                        (storage_callback env) (None, s));
     file_driver \<leftarrow> driver;
     Some (file_driver, s)
   }"

text \<open>
  What an open handle reads from: its weak references lead to the device and to the file system of the partition
  as long as the storage device lives.
\<close>

definition handle_fs :: "StorageDevice \<Rightarrow> nat \<Rightarrow> FAT32FileSystem option" where
  "handle_fs drv idx = map_option snd (find (\<lambda>x. fst x = idx) (partitions (sd_partition drv)))"

definition storage_device ::
  "('d, 'u) boot_env \<Rightarrow> 'd virtio_dev \<Rightarrow> StorageDevice \<Rightarrow> 'd machine \<Rightarrow> Block_Device.BlockDevice" where
  "storage_device env D drv s = blk_device D (driver_frame env) (buffers env) (sd_dev drv) s"

section \<open>The device tree for the kernel\<close>

text \<open>The device tree for the kernel, read from the same disk into a buffer of eight-byte alignment.\<close>

definition load_device_tree ::
  "('d, 'u) boot_env \<Rightarrow> 'd virtio_dev \<Rightarrow> StorageDevice \<Rightarrow> 'd machine \<Rightarrow> (DtbParser \<times> StorageDevice \<times> memory) option" where
  "load_device_tree env D file_driver s = do {
     (r, file_driver) \<leftarrow> storage_open D (driver_frame env) (buffers env) file_driver 0 (str_bytes ''/qemu.dtb'') Read s;
     h \<leftarrow> unwrap_sum r;
     r \<leftarrow> FileHandle_read (Some (storage_device env D file_driver s)) (handle_fs file_driver 0) h 8;
     modified \<leftarrow> unwrap_sum r;
     let m = store_bytes (mem s) (buffers env (length modified)) modified;
     r \<leftarrow> DtbParser_init m (buffers env (length modified));
     dtb_modified \<leftarrow> unwrap_sum r;
     Some (dtb_modified, file_driver, m)
   }"

section \<open>Everything in order\<close>

text \<open>
  The reports to the console between the steps of one definition are made behind it. The reads of files leave the driver
  as ready as before (\<open>Storage\<close>), so they are all taken at the state in which the search for the device left it.
\<close>

definition boot_main :: "('d, 'u) boot_env \<Rightarrow> ('d, 'u) boot \<Rightarrow> ('d, 'u) boot option" where
  "boot_main env st = do {
     arg \<leftarrow> slice_get (args env) 0;
     rust_assert (valid_utf8 (str_bytes arg));
     dtb_ptr \<leftarrow> str_to_usize arg;
     r \<leftarrow> DtbParser_init (mem (mach st)) dtb_ptr;
     dtb \<leftarrow> unwrap_sum r;
     st \<leftarrow> start_console env dtb st;
     rust_assert (get_current_el (cpu st) = 2);
     st \<leftarrow> println_str env (''system counter frequency: '' @ radix_string 10 (timer_frequency env) @ ''Hz'') st;
     systimer \<leftarrow> SystemTimer_init (timer_frequency env) SystemTimer_new;
     st \<leftarrow> println_str env ''setup allocator'' st;
     ma \<leftarrow> setup_allocator (raw_memory env) (lks (mach st)) (mem (mach st)) dtb dtb_ptr (program_start env) (stack_start env)
             (allocator st);
     let st = st\<lparr>allocator := ma\<rparr>;
     st \<leftarrow> println_str env ''allocator setup success!!!'' st;
     (file_driver, s) \<leftarrow> find_storage env dtb (mach st);
     let D = virtio_at env (registers (transport (virtio (sd_dev file_driver))));
     (r, file_driver) \<leftarrow> storage_open D (driver_frame env) (buffers env) file_driver 0 (str_bytes ''/image'') Read s;
     linux \<leftarrow> unwrap_sum r;
     st \<leftarrow> println_str env ''get linux header'' (st\<lparr>mach := s\<rparr>);
     (linux_image, jump_addr, offset, ma, m) \<leftarrow> load_image (raw_memory env)
        (FileHandle_read_at (Some (storage_device env D file_driver s)) (handle_fs file_driver 0) linux 0)
        (FileHandle_size linux) (allocator st) (mem s);
     let s = s\<lparr>mem := m\<rparr>;
     st \<leftarrow> println_str env ''load linux image'' (st\<lparr>allocator := ma, mach := s\<rparr>);
     (dtb_modified, file_driver, m) \<leftarrow> load_device_tree env D file_driver s;
     let s = storage_drop D file_driver (s\<lparr>mem := m\<rparr>);
     st \<leftarrow> println_str env ''file system closed'' (st\<lparr>mach := s\<rparr>);
     let st = st\<lparr>cpu := setup_hypervisor_registers (cpu st)\<rparr>;
     (dtb_data, ma, m) \<leftarrow> generate_device_tree (raw_memory env) (program_start env) (stack_start env) dtb_modified (allocator st) (mem s);
     st \<leftarrow> println_str env ''allocator closed'' (st\<lparr>allocator := ma, mach := s\<lparr>mem := m\<rparr>\<rparr>);
     _ \<leftarrow> usub jump_addr offset;
     st \<leftarrow> println_str env ''jumping linux...'' st;
     Some (st\<lparr>cpu := prepare_eret (el1_main env) (cpu st)\<rparr>)
   }"

end
