(* ===== verification/Boot_Spec.thy ===== *)
theory Boot_Spec
  imports Boot
begin

text \<open>
  The properties of the boot loader: which storage device it takes, what it puts into memory, and the state of
  the processor when it leaves its exception level.
\<close>

section \<open>The storage device\<close>

text \<open>The reference: the devices one after the other, until one initialises.\<close>

fun first_storage ::
  "('d, 'u) boot_env \<Rightarrow> (usize \<times> usize) list \<Rightarrow> 'd machine \<Rightarrow> (StorageDevice \<times> 'd machine) option" where
  "first_storage env [] s = None"
| "first_storage env ((addr, sz) # rs) s =
     (case new_virtio (virtio_at env addr) (queue_place env) (driver_frame env) (buffers env) addr s of
        None \<Rightarrow> None
      | Some (Inr driver, s') \<Rightarrow> Some (driver, s')
      | Some (Inl e, s') \<Rightarrow> first_storage env rs s')"

lemma each_storage:
  fixes s :: "'d machine"
  shows "do {
     (_, driver, s) \<leftarrow> each (storage_callback env) rs (None, s);
     file_driver \<leftarrow> driver;
     Some (file_driver, s)
   } = first_storage env rs s"
proof (induction rs arbitrary: s)
  case (Cons r rs)
  obtain addr sz where r: "r = (addr, sz)" by (cases r)
  show ?case
    using Cons.IH
    by (auto simp: r storage_callback_def split: option.split sum.split Option.bind_split prod.split)
qed simp


text \<open>A machine with one node compatible with \<open>virtio,mmio\<close>, behind which there is no device.\<close>

definition storage_strs :: "byte list" where
  "storage_strs = ADDRESS_CELLS @ 0 # SIZE_CELLS @ 0 # PROP_COMPATIBLE @ 0 # PROP_REG @ [0]"

definition storage_tree :: fdt_tree where
  "storage_tree = Tree [] [Property 0 (be_bytes 4 1), Property 15 (be_bytes 4 1)]
     [(Tree (str_bytes ''virtio'') [Property 27 (str_bytes ''virtio,mmio'' @ [0]), Property 38 [0, 0, 0, 0x80, 0, 0, 0, 0x20]] [], 0)]"

definition storage_machine :: "unit machine" where
  "storage_machine = \<lparr>dev = (), mem = store_bytes (\<lambda>_. 0) 0x40 (flat_blob [] 0 storage_tree 0 storage_strs), lks = (\<lambda>_. None)\<rparr>"

definition empty_bus :: "(unit, unit) boot_env" where
  "empty_bus = \<lparr>args = [], program_start = 0, stack_start = 0, uart_ops = \<lparr>uart_read = (\<lambda>d r. (0, d)), uart_write = (\<lambda>d r v. d)\<rparr>,
     uart_at = (\<lambda>_. \<lparr>udev = (), ulog = []\<rparr>), timer_frequency = 1, raw_memory = (\<lambda>_. zero_region),
     virtio_at = (\<lambda>_. \<lparr>reg_read = (\<lambda>d r. 0), reg_write = (\<lambda>d r v. d), dev_run = (\<lambda>d m. (d, m))\<rparr>),
     queue_place = (\<lambda>_. (0, 0, 0)), driver_frame = (0, 0), buffers = (\<lambda>_. 0), el1_main = 0\<rparr>"

lemma storage_facts:
  "blob_size [] 0 storage_tree 0 storage_strs < 1000" "tree_good device_good storage_strs storage_tree"
  "tree_regular storage_strs None (Some (str_bytes ''virtio,mmio'')) None storage_tree"
  "device_regs storage_strs None (Some (str_bytes ''virtio,mmio'')) (0, 0) storage_tree = [(0x80, 0x20)]"
  "str_ok (str_bytes ''virtio'')" "str_ok []"
  by code_simp+

lemma storage_names:
  "list_all (\<lambda>k. 0 \<in> set (drop k storage_strs) \<and> valid_utf8 (name_in storage_strs k)) [0, 15, 27, 38]"
  by code_simp

lemma storage_tree_ok: "tree_ok storage_strs storage_tree"
  using storage_facts(5,6) storage_names by (simp add: storage_tree_def u32_limit_def str_bytes_def)


section \<open>Processor state\<close>



end
