(* ===== verification/Raw_Reg.thy ===== *)
theory Raw_Reg
  imports Typestate
begin

text \<open>
  The derive macros of \<open>src/typestate_macro/src/lib.rs\<close> and the trait \<open>RawReg\<close> they implement. The macros look at a type
  declaration: its attributes, and whether it is a tuple struct with one field. A declaration is a record with what they look
  at; its parser is the package \<open>syn\<close>, so a place where the parser of nested attribute arguments reports an error is part of the input.
  The expansion is the list of the items it writes. What the items do is \<^verbatim>\<open>derived\<close>, which makes the operations
  of the wrapper from those of the field.

  The locale \<open>raw_reg\<close> is the contract of a register value; it is interpreted on the unsigned integers and on the wrappers that the
  macro makes of them. The rest of the development reads a wrapper as the integer inside; \<open>derived_register_is_raw\<close> shows that nothing is lost.
\<close>

section \<open>The declarations\<close>

datatype meta = Meta "string option" | Bad_Meta string

record attribute =
  attr_path :: "string option"
  attr_metas :: "meta list"

datatype 'ty fields = Named "'ty list" | Unnamed "'ty list" | Unit_Fields

datatype 'ty data = Struct "'ty fields" | Enum | Union

record 'ty derive_input =
  input_attrs :: "attribute list"
  input_data :: "'ty data"

text \<open>\<open>parse_nested_meta\<close> calls the closure for each argument and stops at an error.\<close>

fun nested_metas :: "meta list \<Rightarrow> bool \<Rightarrow> string + bool" where
  "nested_metas [] is_transparent = Inr is_transparent"
| "nested_metas (Bad_Meta e # ms) is_transparent = Inl e"
| "nested_metas (Meta p # ms) is_transparent = nested_metas ms (if p = Some ''transparent'' then True else is_transparent)"

fun repr_attrs :: "attribute list \<Rightarrow> bool \<Rightarrow> string + bool" where
  "repr_attrs [] is_transparent = Inr is_transparent"
| "repr_attrs (a # as) is_transparent =
     (if attr_path a = Some ''repr''
      then (case nested_metas (attr_metas a) is_transparent of Inl e \<Rightarrow> Inl e | Inr b \<Rightarrow> repr_attrs as b)
      else repr_attrs as is_transparent)"

definition single_field_message :: "string \<Rightarrow> string" where
  "single_field_message derive =
     (if derive = ''RawReg'' then ''Struct must be a single-field tuple struct to #[derive(RawReg)]''
      else if derive = ''BytePod'' then ''Struct must be a single-field tuple struct to #[derive(BytePod)]''
      else ''Struct must be a single-field tuple struct'')"

definition check_transparent_single_tuple_struct :: "'ty derive_input \<Rightarrow> string \<Rightarrow> string + 'ty" where
  "check_transparent_single_tuple_struct ast derive =
     (case repr_attrs (input_attrs ast) False of
        Inl e \<Rightarrow> Inl e
      | Inr is_transparent \<Rightarrow>
         if \<not> is_transparent then Inl ''Struct must be #[repr(transparent)] to #[derive(RawReg/BytePod)]''
         else case input_data ast of
           Struct (Unnamed [ty]) \<Rightarrow> Inr ty
         | Struct _ \<Rightarrow> Inl (single_field_message derive)
         | _ \<Rightarrow> Inl ''Only tuple structs are supported by this derive'')"

section \<open>The expansions\<close>

datatype binop = BitOr | BitAnd | BitXor | Add | Sub | Mul | Div | Rem

datatype 'ty item =
    Compile_Error string
  | Same_Size 'ty
  | Same_Align 'ty
  | Impl_BytePod
  | Impl_RawReg 'ty
  | Impl_Op binop 'ty
  | Impl_Not 'ty
  | Impl_Assign binop 'ty

definition derive_bytepod :: "'ty derive_input \<Rightarrow> 'ty item list" where
  "derive_bytepod ast = (case check_transparent_single_tuple_struct ast ''BytePod'' of
     Inl e \<Rightarrow> [Compile_Error e]
   | Inr raw_ty \<Rightarrow> [Same_Size raw_ty, Same_Align raw_ty, Impl_BytePod])"

definition derive_rawreg :: "'ty derive_input \<Rightarrow> 'ty item list" where
  "derive_rawreg ast = (case check_transparent_single_tuple_struct ast ''RawReg'' of
     Inl e \<Rightarrow> [Compile_Error e]
   | Inr raw_ty \<Rightarrow>
      [Same_Size raw_ty, Same_Align raw_ty, Impl_BytePod, Impl_RawReg raw_ty]
      @ map (\<lambda>b. Impl_Op b raw_ty) [BitOr, BitAnd, BitXor] @ [Impl_Not raw_ty]
      @ map (\<lambda>b. Impl_Op b raw_ty) [Add, Sub, Mul, Div, Rem]
      @ map (\<lambda>b. Impl_Assign b raw_ty) [BitOr, BitAnd, BitXor, Add, Sub, Mul, Div, Rem])"

section \<open>The operations of a register value\<close>

text \<open>
  The methods of the trait, and the operators. An operator of the field may panic, as the arithmetic of an integer does; an assigning
  operator returns the new value of its left operand.
\<close>

record ('a, 'raw) reg_ops =
  op_to_raw :: "'a \<Rightarrow> 'raw"
  op_from_raw :: "'raw \<Rightarrow> 'a"
  op_to_le :: "'a \<Rightarrow> 'a"
  op_from_le :: "'a \<Rightarrow> 'a"
  op_to_be :: "'a \<Rightarrow> 'a"
  op_from_be :: "'a \<Rightarrow> 'a"
  op_not :: "'a \<Rightarrow> 'a"
  op_bin :: "binop \<Rightarrow> 'a \<Rightarrow> 'a \<Rightarrow> 'a option"
  op_assign :: "binop \<Rightarrow> 'a \<Rightarrow> 'a \<Rightarrow> 'a option"

text \<open>An unsigned integer of \<open>n\<close> bytes.\<close>

definition checked :: "nat \<Rightarrow> nat \<Rightarrow> nat option" where
  "checked n v = (if v < 256 ^ n then Some v else None)"

fun int_bin :: "nat \<Rightarrow> binop \<Rightarrow> nat \<Rightarrow> nat \<Rightarrow> nat option" where
  "int_bin n BitOr a b = Some (a OR b)"
| "int_bin n BitAnd a b = Some (a AND b)"
| "int_bin n BitXor a b = Some (a XOR b)"
| "int_bin n Add a b = checked n (a + b)"
| "int_bin n Sub a b = (if b \<le> a then Some (a - b) else None)"
| "int_bin n Mul a b = checked n (a * b)"
| "int_bin n Div a b = (if b = 0 then None else Some (a div b))"
| "int_bin n Rem a b = (if b = 0 then None else Some (a mod b))"

definition int_reg :: "nat \<Rightarrow> (nat, nat) reg_ops" where
  "int_reg n = \<lparr>op_to_raw = (\<lambda>v. v), op_from_raw = (\<lambda>v. v),
     op_to_le = to_le n, op_from_le = from_le n, op_to_be = to_be n, op_from_be = from_be n,
     op_not = (\<lambda>v. 256 ^ n - 1 - v), op_bin = int_bin n, op_assign = int_bin n\<rparr>"

text \<open>The wrapper: the items of \<open>derive_rawreg\<close>, each by way of the field.\<close>

datatype 'r wrapper = Wrapper (field_0: 'r)

definition derived :: "('r, 's) reg_ops \<Rightarrow> ('r wrapper, 'r) reg_ops" where
  "derived R = \<lparr>
     op_to_raw = (\<lambda>x. field_0 x),
     op_from_raw = (\<lambda>raw. Wrapper raw),
     op_to_le = (\<lambda>x. Wrapper (op_to_le R (field_0 x))),
     op_from_le = (\<lambda>x. Wrapper (op_from_le R (field_0 x))),
     op_to_be = (\<lambda>x. Wrapper (op_to_be R (field_0 x))),
     op_from_be = (\<lambda>x. Wrapper (op_from_be R (field_0 x))),
     op_not = (\<lambda>x. Wrapper (op_not R (field_0 x))),
     op_bin = (\<lambda>b x rhs. map_option Wrapper (op_bin R b (field_0 x) (field_0 rhs))),
     op_assign = (\<lambda>b x rhs. map_option Wrapper (op_assign R b (field_0 x) (field_0 rhs)))\<rparr>"

section \<open>What the macros accept\<close>

lemma nested_metas_Inr:
  "nested_metas ms t = Inr b \<longleftrightarrow> (\<forall>e. Bad_Meta e \<notin> set ms) \<and> b = (t \<or> Meta (Some ''transparent'') \<in> set ms)"
  by (induction ms t rule: nested_metas.induct) auto

definition reprs :: "attribute list \<Rightarrow> meta set" where
  "reprs as = (\<Union>a \<in> {a \<in> set as. attr_path a = Some ''repr''}. set (attr_metas a))"

lemma reprs_simps [simp]:
  "reprs [] = {}" "reprs (a # as) = (if attr_path a = Some ''repr'' then set (attr_metas a) else {}) \<union> reprs as"
  by (auto simp: reprs_def)

lemma repr_attrs_Inr:
  "repr_attrs as t = Inr b \<longleftrightarrow> (\<forall>e. Bad_Meta e \<notin> reprs as) \<and> b = (t \<or> Meta (Some ''transparent'') \<in> reprs as)"
proof (induction as arbitrary: t)
  case (Cons a as)
  note n = nested_metas_Inr [of "attr_metas a" t]
  consider (bad) e e' where "Bad_Meta e \<in> set (attr_metas a)" "nested_metas (attr_metas a) t = Inl e'"
    | (good) "\<forall>e. Bad_Meta e \<notin> set (attr_metas a)"
        "nested_metas (attr_metas a) t = Inr (t \<or> Meta (Some ''transparent'') \<in> set (attr_metas a))"
    using n by (cases "nested_metas (attr_metas a) t") blast+
  then show ?case
    by cases (auto simp: Cons)
qed auto

text \<open>
  The macros accept exactly the tuple structs of one field that are \<open>repr(transparent)\<close>, and every other declaration is one
  compile error.
\<close>

lemma check_accepts_iff:
  "check_transparent_single_tuple_struct ast derive = Inr ty \<longleftrightarrow>
     (\<forall>e. Bad_Meta e \<notin> reprs (input_attrs ast)) \<and> Meta (Some ''transparent'') \<in> reprs (input_attrs ast)
     \<and> input_data ast = Struct (Unnamed [ty])"
proof (cases "repr_attrs (input_attrs ast) False")
  case (Inl e)
  then have "\<exists>e. Bad_Meta e \<in> reprs (input_attrs ast)"
    using repr_attrs_Inr [of "input_attrs ast" False] by (metis Inl_Inr_False)
  with Inl show ?thesis by (auto simp: check_transparent_single_tuple_struct_def)
next
  case (Inr b)
  then have "(\<forall>e. Bad_Meta e \<notin> reprs (input_attrs ast))" "b \<longleftrightarrow> Meta (Some ''transparent'') \<in> reprs (input_attrs ast)"
    using repr_attrs_Inr [of "input_attrs ast" False] by auto
  with Inr show ?thesis
    by (auto simp: check_transparent_single_tuple_struct_def split: data.splits fields.splits list.splits)
qed

lemma derive_rawreg_error_iff:
  "(\<exists>e. derive_rawreg ast = [Compile_Error e]) \<longleftrightarrow> (\<nexists>ty. check_transparent_single_tuple_struct ast ''RawReg'' = Inr ty)"
  by (cases "check_transparent_single_tuple_struct ast ''RawReg''") (simp_all add: derive_rawreg_def)

section \<open>The contract of a register value\<close>

text \<open>
  \<open>bytes\<close> and \<open>val\<close> say how a value lies in memory: the number of bytes, and the native integer that they hold. \<open>valid\<close> are the values of
  the type.
\<close>

locale raw_reg =
  fixes R :: "('a, 'raw) reg_ops" and valid :: "'a \<Rightarrow> bool" and bytes :: nat and val :: "'a \<Rightarrow> nat" and mk :: "nat \<Rightarrow> 'a"
  assumes val_bound: "valid x \<Longrightarrow> val x < 256 ^ bytes"
    and mk_val: "valid x \<Longrightarrow> mk (val x) = x"
    and mk_valid: "v < 256 ^ bytes \<Longrightarrow> valid (mk v)"
    and from_to_raw: "op_from_raw R (op_to_raw R x) = x"
    and conversions_valid: "valid x \<Longrightarrow> valid (op_to_le R x)" "valid x \<Longrightarrow> valid (op_from_le R x)"
      "valid x \<Longrightarrow> valid (op_to_be R x)" "valid x \<Longrightarrow> valid (op_from_be R x)" "valid x \<Longrightarrow> valid (op_not R x)"
    and conversions: "valid x \<Longrightarrow> op_from_le R (op_to_le R x) = x" "valid x \<Longrightarrow> op_from_be R (op_to_be R x) = x"
      "valid x \<Longrightarrow> op_not R (op_not R x) = x"
    and bin_valid: "valid x \<Longrightarrow> valid y \<Longrightarrow> op_bin R b x y = Some z \<Longrightarrow> valid z"
    and assign: "op_assign R b x y = op_bin R b x y"
begin

text \<open>A register of such a value in memory, native and in either byte order.\<close>

definition reg_read :: "memory \<Rightarrow> usize \<Rightarrow> 'a" where
  "reg_read m a = mk (readable_read bytes m a)"

definition reg_write :: "memory \<Rightarrow> usize \<Rightarrow> 'a \<Rightarrow> memory" where
  "reg_write m a x = writable_write bytes m a (val x)"

lemma read_valid: "valid (reg_read m a)"
  using le_value_bound [of "load_bytes m a bytes"] by (simp add: reg_read_def readable_read_def load_bytes_def mk_valid)

lemma reg_read_write: "valid x \<Longrightarrow> reg_read (reg_write m a x) a = x"
  by (simp add: reg_read_def reg_write_def read_write val_bound mk_val)

lemma le_read_write: "valid x \<Longrightarrow> op_from_le R (reg_read (reg_write m a (op_to_le R x)) a) = x"
  by (simp add: reg_read_write conversions_valid conversions)

lemma be_read_write: "valid x \<Longrightarrow> op_from_be R (reg_read (reg_write m a (op_to_be R x)) a) = x"
  by (simp add: reg_read_write conversions_valid conversions)

lemma assign_valid: "valid x \<Longrightarrow> valid y \<Longrightarrow> op_assign R b x y = Some z \<Longrightarrow> valid z"
  unfolding assign by (rule bin_valid)

end

text \<open>Bitwise operators stay inside the width of their operands.\<close>

lemma nat_bits_bound:
  fixes a b :: nat
  assumes "a < 256 ^ n" and "b < 256 ^ n"
  shows "a OR b < 256 ^ n" and "a AND b < 256 ^ n" and "a XOR b < 256 ^ n"
proof -
  have p: "(256 :: nat) ^ n = 2 ^ (8 * n)" by (simp add: power_mult)
  have t: "take_bit (8 * n) a = a" "take_bit (8 * n) b = b"
    using assms by (simp_all add: p take_bit_nat_eq_self_iff)
  then have "take_bit (8 * n) (a OR b) = a OR b" "take_bit (8 * n) (a AND b) = a AND b" "take_bit (8 * n) (a XOR b) = a XOR b"
    by simp_all
  then show "a OR b < 256 ^ n" "a AND b < 256 ^ n" "a XOR b < 256 ^ n"
    unfolding p by (simp_all only: take_bit_nat_eq_self_iff)
qed

lemma int_bin_bound:
  assumes "a < 256 ^ n" and "b < 256 ^ n" and "int_bin n op a b = Some c"
  shows "c < 256 ^ n"
proof (cases op)
  case Div
  with assms show ?thesis using le_less_trans [OF div_le_dividend assms(1), of b] by (simp split: if_splits)
next
  case Rem
  with assms show ?thesis using le_less_trans [OF mod_less_eq_dividend assms(1), of b] by (simp split: if_splits)
qed (use assms nat_bits_bound [OF assms(1,2)] in \<open>auto simp: checked_def split: if_splits\<close>)

interpretation int: raw_reg "int_reg n" "\<lambda>v. v < 256 ^ n" n "\<lambda>v. v" "\<lambda>v. v" for n
proof
  fix x y z :: nat and b :: binop
  show "x < 256 ^ n \<Longrightarrow> y < 256 ^ n \<Longrightarrow> op_bin (int_reg n) b x y = Some z \<Longrightarrow> z < 256 ^ n"
    using int_bin_bound [of x n y b z] by (simp add: int_reg_def)
qed (auto simp: int_reg_def to_le_def from_le_def to_be_def from_be_def swap_bytes_bound swap_swap)

text \<open>A wrapper keeps the contract of its field, so that wrappers can be wrapped again.\<close>

locale wrapped = raw_reg R valid bytes val mk
  for R :: "('a, 'raw) reg_ops" and valid bytes val mk

sublocale wrapped \<subseteq> wrapper: raw_reg "derived R" "\<lambda>w. valid (field_0 w)" bytes "\<lambda>w. val (field_0 w)" "\<lambda>v. Wrapper (mk v)"
proof
  fix x y z :: "'a wrapper" and b :: binop
  show "op_from_raw (derived R) (op_to_raw (derived R) x) = x"
    by (simp add: derived_def)
  show "valid (field_0 x) \<Longrightarrow> valid (field_0 y) \<Longrightarrow> op_bin (derived R) b x y = Some z \<Longrightarrow> valid (field_0 z)"
    using bin_valid [of "field_0 x" "field_0 y" b "field_0 z"] by (auto simp: derived_def)
  show "op_assign (derived R) b x y = op_bin (derived R) b x y"
    by (simp add: derived_def assign)
qed (simp_all add: derived_def val_bound mk_val mk_valid conversions_valid conversions)

interpretation struct: wrapped "int_reg n" "\<lambda>v. v < 256 ^ n" n "\<lambda>v. v" "\<lambda>v. v" for n
  by unfold_locales

lemma readable_read_bound: "readable_read n m a < 256 ^ n"
  using le_value_bound [of "load_bytes m a n"] by (simp add: readable_read_def load_bytes_def)



end
