(* ===== verification/Xtask.thy ===== *)
theory Xtask
  imports Main
begin

text \<open>
  The build tool \<open>src/xtask/src/main.rs\<close>: \<open>cargo xtask build\<close>, \<open>run\<close> and \<open>test\<close>. A Rust \<open>str\<close> is the list of its
  Unicode scalar values. Everything the tool does to the outside world is an event of a trace: a process that is run, with what
  came back, a directory that is made, a file that is copied. What other programs and the file system answer is a
  parameter, a function of the trace so far, so that a program may answer differently each time it is run. The tool itself
  ends by returning from \<open>main\<close>, by \<open>std::process::exit\<close>, by a panic or by handing the process over with \<open>exec\<close>.

  Paths are Unix paths. The lines on standard error are values of \<open>message\<close>, one constructor for each format string.
\<close>

section \<open>Strings\<close>

type_synonym str = "nat list"

definition lit :: "string \<Rightarrow> str" where
  "lit s = map of_char s"

text \<open>The characters with the property \<open>White_Space\<close> (\<open>char::is_whitespace\<close>).\<close>

definition is_whitespace :: "nat \<Rightarrow> bool" where
  "is_whitespace c \<longleftrightarrow>
     9 \<le> c \<and> c \<le> 13 \<or> c \<in> {0x20, 0x85, 0xa0, 0x1680} \<or> 0x2000 \<le> c \<and> c \<le> 0x200a
     \<or> c \<in> {0x2028, 0x2029, 0x202f, 0x205f, 0x3000}"

definition trim_text :: "str \<Rightarrow> str" where
  "trim_text s = rev (dropWhile is_whitespace (rev (dropWhile is_whitespace s)))"

text \<open>\<open>str::split_whitespace\<close>: \<open>w\<close> is the word under way.\<close>

fun split_words :: "str \<Rightarrow> str \<Rightarrow> str list" where
  "split_words w [] = (if w = [] then [] else [w])"
| "split_words w (c # s) =
     (if is_whitespace c then (if w = [] then split_words [] s else w # split_words [] s)
      else split_words (w @ [c]) s)"

definition split_whitespace :: "str \<Rightarrow> str list" where
  "split_whitespace s = split_words [] s"

text \<open>\<open>str::lines\<close>: a line feed ends a line, a carriage return before it is dropped, the last line may lack it.\<close>

definition drop_cr :: "str \<Rightarrow> str" where
  "drop_cr l = (if l \<noteq> [] \<and> last l = 13 then butlast l else l)"

fun lines_from :: "str \<Rightarrow> str \<Rightarrow> str list" where
  "lines_from l [] = (if l = [] then [] else [l])"
| "lines_from l (c # s) = (if c = 10 then drop_cr l # lines_from [] s else lines_from (l @ [c]) s)"

definition lines_of :: "str \<Rightarrow> str list" where
  "lines_of s = lines_from [] s"

fun starts_with :: "str \<Rightarrow> str \<Rightarrow> bool" where
  "starts_with s [] = True"
| "starts_with [] (p # ps) = False"
| "starts_with (c # s) (p # ps) = (c = p \<and> starts_with s ps)"

fun contains_text :: "str \<Rightarrow> str \<Rightarrow> bool" where
  "contains_text [] p = starts_with [] p"
| "contains_text (c # s) p = (starts_with (c # s) p \<or> contains_text s p)"

fun decimal :: "nat \<Rightarrow> str" where
  "decimal n = (if n < 10 then [48 + n] else decimal (n div 10) @ [48 + n mod 10])"

declare decimal.simps [simp del]

text \<open>\<open>PathBuf::push\<close> and \<open>Path::join\<close>: an absolute path replaces, a relative one is appended behind a separator.\<close>

definition path_push :: "str \<Rightarrow> str \<Rightarrow> str" where
  "path_push p s =
     (if starts_with s (lit ''/'') then s
      else if p = [] \<or> last p = 47 then p @ s else p @ lit ''/'' @ s)"

section \<open>Processes\<close>

record command =
  program :: str
  cmd_args :: "str list"
  cmd_env :: "(str \<times> str) list"

text \<open>
  What comes back of a process: it could not be started or waited for, or it ended with a code (none if a signal ended it)
  after writing to standard output; the two readings of the output are \<open>String::from_utf8\<close> and \<open>String::from_utf8_lossy\<close>.
\<close>

datatype answer =
    Not_Started
  | Finished (exit_code: "int option") (out_utf8: "str option") (out_lossy: str)

definition success :: "int option \<Rightarrow> bool" where
  "success code \<longleftrightarrow> code = Some 0"

datatype event =
    Ran command answer
  | Made_Dir str
  | Copied str str bool

datatype message =
    Unknown_Command str | No_Command | Usage
  | Building str | Running command | Build_Failed str "int option" | Built | Searching | Running_Script
  | Host_Target str | Missing_Package nat | Expected_Uefi nat | Unknown_Kind nat str
  | Host_Tests str | Tests_Failed str int | Uefi_Test str str str | Uefi_Failed str int
  | Test_Summary | Passed_Count nat | Passed_Item str | Passed_None
  | Failed_Count nat | Failed_Item str int | All_Passed

text \<open>The world of the tool; \<open>env!("CARGO_MANIFEST_DIR")\<close> and the directory it is started in are part of it.\<close>

record world =
  answers :: "event list \<Rightarrow> command \<Rightarrow> answer"
  copy_works :: "event list \<Rightarrow> str \<Rightarrow> str \<Rightarrow> bool"
  current_dir :: "str option"
  manifest_dir :: str
  read_file :: "str \<Rightarrow> str option"

record xstate =
  trace :: "event list"
  stderr :: "message list"

datatype 'a flow = Done 'a | Exited int | Replaced command | Panicked

text \<open>The rest of the program runs only if this part returned.\<close>

definition and_then :: "'a flow \<times> xstate \<Rightarrow> ('a \<Rightarrow> xstate \<Rightarrow> 'b flow \<times> xstate) \<Rightarrow> 'b flow \<times> xstate" where
  "and_then r k = (case r of
     (Done x, s) \<Rightarrow> k x s
   | (Exited c, s) \<Rightarrow> (Exited c, s)
   | (Replaced c, s) \<Rightarrow> (Replaced c, s)
   | (Panicked, s) \<Rightarrow> (Panicked, s))"

definition say :: "message \<Rightarrow> xstate \<Rightarrow> xstate" where
  "say m s = s\<lparr>stderr := stderr s @ [m]\<rparr>"

definition add_event :: "event \<Rightarrow> xstate \<Rightarrow> xstate" where
  "add_event e s = s\<lparr>trace := trace s @ [e]\<rparr>"

text \<open>\<open>Command::output\<close>, which returns a \<open>Result\<close>, and \<open>spawn\<close> followed by \<open>wait\<close>, where an error is a panic.\<close>

definition command_output :: "world \<Rightarrow> command \<Rightarrow> xstate \<Rightarrow> answer \<times> xstate" where
  "command_output W c s = (let r = answers W (trace s) c in (r, add_event (Ran c r) s))"

definition spawn_wait :: "world \<Rightarrow> command \<Rightarrow> xstate \<Rightarrow> int option flow \<times> xstate" where
  "spawn_wait W c s = (case command_output W c s of
     (Not_Started, s) \<Rightarrow> (Panicked, s)
   | (Finished code _ _, s) \<Rightarrow> (Done code, s))"

section \<open>\<open>build\<close> and \<open>run\<close>\<close>

definition build_command :: "str list \<Rightarrow> command" where
  "build_command args = \<lparr>program = lit ''cargo'',
     cmd_args = [lit ''build'', lit ''-p'', lit ''elf-hypervisor'', lit ''--target'', lit ''aarch64-unknown-none''] @ args,
     cmd_env = [(lit ''XTASK_BUILD'', lit ''1'')]\<rparr>"

definition build_from :: "str \<Rightarrow> str" where
  "build_from cwd =
     path_push (path_push (path_push (path_push cwd (lit ''target'')) (lit ''aarch64-unknown-none'')) (lit ''debug''))
       (lit ''elf-hypervisor'')"

definition build_into :: "str \<Rightarrow> str" where
  "build_into cwd = path_push (path_push cwd (lit ''bin'')) (lit ''elf-hypervisor.elf'')"

text \<open>The result of \<open>fs::create_dir\<close> is dropped; \<open>build\<close> never returns \<open>Err\<close>.\<close>

definition xtask_build :: "world \<Rightarrow> str list \<Rightarrow> xstate \<Rightarrow> str flow \<times> xstate" where
  "xtask_build W args s =
     (let pkg = lit ''elf-hypervisor'';
          cmd = build_command args;
          s = say (Running cmd) (say (Building pkg) s)
      in and_then (spawn_wait W cmd s) (\<lambda>status s.
           if \<not> success status
           then (Exited (case status of Some c \<Rightarrow> c | None \<Rightarrow> 1), say (Build_Failed pkg status) s)
           else (let s = say Searching (say Built s) in
             case current_dir W of
               None \<Rightarrow> (Panicked, s)
             | Some cwd \<Rightarrow>
                (let s = add_event (Made_Dir (path_push cwd (lit ''bin''))) s;
                     ok = copy_works W (trace s) (build_from cwd) (build_into cwd);
                     s = add_event (Copied (build_from cwd) (build_into cwd) ok) s
                 in if ok then (Done (build_into cwd), s) else (Panicked, s)))))"

text \<open>\<open>exec\<close> only returns when the program could not be started.\<close>

definition xtask_run :: "world \<Rightarrow> str list \<Rightarrow> xstate \<Rightarrow> unit flow \<times> xstate" where
  "xtask_run W args s =
     and_then (xtask_build W args s) (\<lambda>binary_path s.
       let s = say Running_Script s;
           cmd = \<lparr>program = lit ''./run.sh'', cmd_args = binary_path # args, cmd_env = []\<rparr>
       in case command_output W cmd s of
            (Not_Started, s) \<Rightarrow> (Panicked, s)
          | (Finished _ _ _, s) \<Rightarrow> (Replaced cmd, s))"

section \<open>The test plan\<close>

type_synonym std_crate = "str \<times> str list"

type_synonym uefi_test = "str \<times> str \<times> str \<times> str list"

text \<open>One line of \<open>xtest.txt\<close>; \<open>n\<close> is \<open>lineno + 1\<close>.\<close>

definition plan_line :: "nat \<Rightarrow> str \<Rightarrow> std_crate list \<times> uefi_test list \<Rightarrow> xstate \<Rightarrow> (std_crate list \<times> uefi_test list) \<times> xstate" where
  "plan_line n line plan s =
     (let line = trim_text line; (std_crates, uefi_tests) = plan in
      if line = [] \<or> starts_with line (lit ''#'') then (plan, s)
      else case split_whitespace line of
        [] \<Rightarrow> (plan, s)
      | kind # parts \<Rightarrow>
         if kind = lit ''std'' then
           (case parts of
              pkg # _ \<Rightarrow> ((std_crates @ [(pkg, [])], uefi_tests), s)
            | [] \<Rightarrow> (plan, say (Missing_Package n) s))
         else if kind = lit ''uefi'' then
           (case parts of
              p # t # scr # _ \<Rightarrow> ((std_crates, uefi_tests @ [(p, t, scr, [])]), s)
            | _ \<Rightarrow> (plan, say (Expected_Uefi n) s))
         else (plan, say (Unknown_Kind n kind) s))"

fun plan_lines :: "nat \<Rightarrow> str list \<Rightarrow> std_crate list \<times> uefi_test list \<Rightarrow> xstate \<Rightarrow> (std_crate list \<times> uefi_test list) \<times> xstate" where
  "plan_lines n [] plan s = (plan, s)"
| "plan_lines n (line # rest) plan s = (let (plan, s) = plan_line n line plan s in plan_lines (Suc n) rest plan s)"

section \<open>Running the tests\<close>

definition timeout_prefix :: "world \<Rightarrow> nat \<Rightarrow> xstate \<Rightarrow> str list option \<times> xstate" where
  "timeout_prefix W secs s =
     (case command_output W \<lparr>program = lit ''timeout'', cmd_args = [lit ''--help''], cmd_env = []\<rparr> s of
        (Not_Started, s) \<Rightarrow> (None, s)
      | (Finished _ _ help, s) \<Rightarrow>
         (if contains_text help (lit ''--foreground'')
          then (Some [lit ''timeout'', lit ''--foreground'', lit ''-k'', lit ''5s'', decimal secs @ lit ''s''], s)
          else (Some [lit ''timeout'', decimal secs], s)))"

text \<open>The words of the command up to \<open>cargo test\<close>.\<close>

definition cargo_test :: "str list option \<Rightarrow> str list" where
  "cargo_test prefix = (case prefix of Some p \<Rightarrow> p @ [lit ''cargo'', lit ''test''] | None \<Rightarrow> [lit ''cargo'', lit ''test''])"

definition command_of :: "str list \<Rightarrow> str list \<Rightarrow> (str \<times> str) list \<Rightarrow> command" where
  "command_of words opts env = \<lparr>program = hd words, cmd_args = tl words @ opts, cmd_env = env\<rparr>"

type_synonym verdicts = "str list \<times> (str \<times> int) list"

fun std_tests :: "world \<Rightarrow> str \<Rightarrow> str list \<Rightarrow> std_crate list \<Rightarrow> verdicts \<Rightarrow> xstate \<Rightarrow> verdicts flow \<times> xstate" where
  "std_tests W host args [] v s = (Done v, s)"
| "std_tests W host args ((pkg, extra) # rest) v s =
     (let s = say (Host_Tests pkg) s;
          (prefix, s) = timeout_prefix W 30 s;
          cmd = command_of (cargo_test prefix) ([lit ''--target'', host, lit ''-p'', pkg] @ extra @ args) [];
          s = say (Running cmd) s;
          (passed, failed) = v;
          label = lit ''std:'' @ pkg
      in and_then (spawn_wait W cmd s) (\<lambda>status s.
           if success status then std_tests W host args rest (passed @ [label], failed) s
           else (let code = (case status of Some c \<Rightarrow> c | None \<Rightarrow> 1)
                 in std_tests W host args rest (passed, failed @ [(label, code)]) (say (Tests_Failed pkg code) s))))"

fun uefi_tests :: "world \<Rightarrow> str \<Rightarrow> str list \<Rightarrow> uefi_test list \<Rightarrow> verdicts \<Rightarrow> xstate \<Rightarrow> verdicts flow \<times> xstate" where
  "uefi_tests W repo_root args [] v s = (Done v, s)"
| "uefi_tests W repo_root args ((pkg, testname, testscript, extra) # rest) v s =
     (let runner = path_push repo_root testscript;
          s = say (Uefi_Test pkg testname runner) s;
          (prefix, s) = timeout_prefix W 30 s;
          cmd = command_of (cargo_test prefix)
            ([lit ''--target'', lit ''aarch64-unknown-uefi'', lit ''-p'', pkg, lit ''--test'', testname] @ extra @ args)
            [(lit ''CARGO_TARGET_AARCH64_UNKNOWN_UEFI_RUNNER'', runner)];
          s = say (Running cmd) s;
          (passed, failed) = v;
          label = lit ''uefi:'' @ pkg @ lit ''::'' @ testname
      in and_then (spawn_wait W cmd s) (\<lambda>status s.
           if success status then uefi_tests W repo_root args rest (passed @ [label], failed) s
           else (let code = (case status of Some c \<Rightarrow> c | None \<Rightarrow> 1)
                 in uefi_tests W repo_root args rest (passed, failed @ [(label, code)]) (say (Uefi_Failed pkg code) s))))"

definition summary :: "verdicts \<Rightarrow> xstate \<Rightarrow> unit flow \<times> xstate" where
  "summary v s =
     (let (passed, failed) = v;
          s = say Test_Summary s;
          s = (if passed \<noteq> [] then fold (\<lambda>p. say (Passed_Item p)) passed (say (Passed_Count (length passed)) s)
               else say Passed_None s)
      in if failed \<noteq> []
         then (Exited 1, fold (\<lambda>(f, code). say (Failed_Item f code)) failed (say (Failed_Count (length failed)) s))
         else (Done (), say All_Passed s))"

definition host_tuple_command :: command where
  "host_tuple_command = \<lparr>program = lit ''rustc'', cmd_args = [lit ''--print'', lit ''host-tuple''], cmd_env = []\<rparr>"

definition xtask_test :: "world \<Rightarrow> str list \<Rightarrow> xstate \<Rightarrow> unit flow \<times> xstate" where
  "xtask_test W args s =
     (case command_output W host_tuple_command s of
        (Not_Started, s) \<Rightarrow> (Panicked, s)
      | (Finished _ None _, s) \<Rightarrow> (Panicked, s)
      | (Finished _ (Some out) _, s) \<Rightarrow>
         (let host_tuple = trim_text out;
              s = say (Host_Target host_tuple) s;
              repo_root = path_push (manifest_dir W) (lit ''../'')
          in case read_file W (path_push repo_root (lit ''xtest.txt'')) of
               None \<Rightarrow> (Panicked, s)
             | Some plan_text \<Rightarrow>
                (let ((std_crates, uefi), s) = plan_lines 1 (lines_of plan_text) ([], []) s
                 in and_then (std_tests W host_tuple args std_crates ([], []) s) (\<lambda>v s.
                      and_then (uefi_tests W repo_root args uefi v s) summary))))"

section \<open>\<open>main\<close>\<close>

definition xtask_main :: "world \<Rightarrow> str list \<Rightarrow> xstate \<Rightarrow> unit flow \<times> xstate" where
  "xtask_main W argv s =
     (case drop 1 argv of
        [] \<Rightarrow> (Exited 1, say Usage (say No_Command s))
      | cmd # remaining_args \<Rightarrow>
         if cmd = lit ''build'' then and_then (xtask_build W remaining_args s) (\<lambda>_ s. (Done (), s))
         else if cmd = lit ''run'' then xtask_run W remaining_args s
         else if cmd = lit ''test'' then xtask_test W remaining_args s
         else (Exited 1, say Usage (say (Unknown_Command cmd) s)))"

section \<open>Reading a plan back\<close>

text \<open>A test of a plan, and the plan as the comment at the head of \<open>xtest.txt\<close> describes it.\<close>

datatype job = is_Std: Std str | Uefi str str str

fun job_words :: "job \<Rightarrow> str list" where
  "job_words (Std p) = [lit ''std'', p]"
| "job_words (Uefi p t scr) = [lit ''uefi'', p, t, scr]"

fun join_words :: "str list \<Rightarrow> str" where
  "join_words [] = []"
| "join_words [w] = w"
| "join_words (w # ws) = w @ 32 # join_words ws"

text \<open>A line of a plan file: a test, or a remark that the tool passes over.\<close>

datatype plan_item = Test job | Remark str

fun item_line :: "plan_item \<Rightarrow> str" where
  "item_line (Test j) = join_words (job_words j)"
| "item_line (Remark l) = l"

definition plan_text :: "plan_item list \<Rightarrow> str" where
  "plan_text is = concat (map (\<lambda>i. item_line i @ [10]) is)"

fun jobs_of :: "plan_item list \<Rightarrow> job list" where
  "jobs_of [] = []"
| "jobs_of (Test j # is) = j # jobs_of is"
| "jobs_of (Remark l # is) = jobs_of is"

definition is_word :: "str \<Rightarrow> bool" where
  "is_word w \<longleftrightarrow> w \<noteq> [] \<and> list_all (\<lambda>c. \<not> is_whitespace c) w"

definition job_ok :: "job \<Rightarrow> bool" where
  "job_ok j \<longleftrightarrow> list_all is_word (job_words j)"

fun item_ok :: "plan_item \<Rightarrow> bool" where
  "item_ok (Test j) = job_ok j"
| "item_ok (Remark l) =
     (10 \<notin> set l \<and> (trim_text (drop_cr l) = [] \<or> starts_with (trim_text (drop_cr l)) (lit ''#'')))"

fun std_of :: "job \<Rightarrow> std_crate list" where
  "std_of (Std p) = [(p, [])]"
| "std_of (Uefi p t scr) = []"

fun uefi_of :: "job \<Rightarrow> uefi_test list" where
  "uefi_of (Std p) = []"
| "uefi_of (Uefi p t scr) = [(p, t, scr, [])]"

lemma split_words_word:
  "list_all (\<lambda>c. \<not> is_whitespace c) w \<Longrightarrow> split_words a (w @ s) = split_words (a @ w) s"
  by (induction w arbitrary: a) simp_all

lemma split_join_words: "list_all is_word ws \<Longrightarrow> split_whitespace (join_words ws) = ws"
proof (induction ws rule: join_words.induct)
  case (2 w)
  then show ?case using split_words_word [of w "[]" "[]"] by (simp add: split_whitespace_def is_word_def)
next
  case (3 w v ws)
  moreover have "is_whitespace 32" by (simp add: is_whitespace_def)
  ultimately show ?case
    using split_words_word [of w "[]" "32 # join_words (v # ws)"] by (simp add: split_whitespace_def is_word_def)
qed (simp add: split_whitespace_def)

lemma join_words_ends:
  assumes "list_all is_word ws" and "ws \<noteq> []"
  shows "join_words ws \<noteq> [] \<and> hd (join_words ws) = hd (hd ws) \<and> \<not> is_whitespace (hd (join_words ws))
    \<and> \<not> is_whitespace (last (join_words ws)) \<and> list_all (\<lambda>c. c = 32 \<or> \<not> is_whitespace c) (join_words ws)"
  using assms
proof (induction ws rule: join_words.induct)
  case (2 w)
  then show ?case by (cases w) (auto simp: is_word_def list_all_iff)
next
  case (3 w v ws)
  then show ?case by (cases w) (auto simp: is_word_def list_all_iff)
qed simp

lemma trim_text_id: "s \<noteq> [] \<Longrightarrow> \<not> is_whitespace (hd s) \<Longrightarrow> \<not> is_whitespace (last s) \<Longrightarrow> trim_text s = s"
  using dropWhile_eq_self_iff [of is_whitespace s] dropWhile_eq_self_iff [of is_whitespace "rev s"]
  by (simp add: trim_text_def hd_rev)

lemma lines_from_line: "10 \<notin> set l \<Longrightarrow> lines_from a (l @ 10 # s) = drop_cr (a @ l) # lines_from [] s"
  by (induction l arbitrary: a) simp_all

lemma job_line:
  assumes "job_ok j"
  defines "l \<equiv> join_words (job_words j)"
  shows "10 \<notin> set l" "drop_cr l = l" "trim_text l = l" "l \<noteq> []" "\<not> starts_with l (lit ''#'')" "split_whitespace l = job_words j"
proof -
  have ne: "job_words j \<noteq> []" by (cases j) simp_all
  note ends = join_words_ends [OF assms(1) [unfolded job_ok_def] ne, folded l_def]
  show "10 \<notin> set l" "drop_cr l = l" using ends by (auto simp: list_all_iff is_whitespace_def drop_cr_def)
  show "trim_text l = l" "l \<noteq> []" using ends by (auto intro: trim_text_id)
  have "hd l = hd (hd (job_words j))" using ends by blast
  then show "\<not> starts_with l (lit ''#'')" by (cases j; cases l) (auto simp: lit_def)
  show "split_whitespace l = job_words j"
    unfolding l_def using assms(1) by (intro split_join_words) (simp add: job_ok_def)
qed

lemma plan_text_lines:
  "list_all item_ok is \<Longrightarrow> lines_of (plan_text is) = map (\<lambda>i. drop_cr (item_line i)) is"
proof (induction "is")
  case (Cons i "is")
  then have "10 \<notin> set (item_line i)" by (cases i) (auto simp: job_line)
  from lines_from_line [OF this, of "[]" "plan_text is"] Cons show ?case
    by (simp add: lines_of_def plan_text_def)
qed (simp add: lines_of_def plan_text_def)

lemma plan_line_job:
  assumes "job_ok j"
  shows "plan_line n (join_words (job_words j)) (ss, us) s = ((ss @ std_of j, us @ uefi_of j), s)"
  using job_line(3-6) [OF assms] by (cases j) (auto simp: plan_line_def lit_def)

lemma plan_lines_items:
  assumes "list_all item_ok is"
  shows "plan_lines n (map (\<lambda>i. drop_cr (item_line i)) is) (ss, us) s
     = ((ss @ concat (map std_of (jobs_of is)), us @ concat (map uefi_of (jobs_of is))), s)"
  using assms
proof (induction "is" arbitrary: n ss us)
  case (Cons i "is")
  show ?case
  proof (cases i)
    case (Test j)
    with Cons job_line(2) [of j] plan_line_job [of j] show ?thesis by simp
  next
    case (Remark l)
    with Cons.prems have "plan_line n (drop_cr l) (ss, us) s = ((ss, us), s)" by (auto simp: plan_line_def)
    with Cons Remark show ?thesis by simp
  qed
qed simp

section \<open>The verdict\<close>

text \<open>
  The test a command of the trace runs: the words from \<open>cargo\<close> on name the package and, for a command with a runner in its
  environment, the test.
\<close>

definition test_words :: "command \<Rightarrow> str list" where
  "test_words c = dropWhile (\<lambda>w. w \<noteq> lit ''cargo'') (program c # cmd_args c)"

definition job_of :: "command \<Rightarrow> job option" where
  "job_of c = (case test_words c of
     _ # w # _ # _ # _ # pkg # rest \<Rightarrow>
       if w = lit ''test'' then
         (case (cmd_env c, rest) of
            ([], _) \<Rightarrow> Some (Std pkg)
          | ((_, runner) # _, _ # name # _) \<Rightarrow> Some (Uefi pkg name runner)
          | _ \<Rightarrow> None)
       else None
   | _ \<Rightarrow> None)"

fun test_run :: "event \<Rightarrow> (job \<times> bool) option" where
  "test_run (Ran c (Finished code u l)) = map_option (\<lambda>j. (j, success code)) (job_of c)"
| "test_run _ = None"

definition test_runs :: "event list \<Rightarrow> (job \<times> bool) list" where
  "test_runs tr = List.map_filter test_run tr"

definition cargo_starts :: "world \<Rightarrow> bool" where
  "cargo_starts W \<longleftrightarrow> (\<forall>h c. job_of c \<noteq> None \<longrightarrow> answers W h c \<noteq> Not_Started)"

lemma test_runs_simps [simp]:
  "test_runs [] = []"
  "test_runs (e # tr) = (case test_run e of Some r \<Rightarrow> r # test_runs tr | None \<Rightarrow> test_runs tr)"
  "test_runs (tr @ tr') = test_runs tr @ test_runs tr'"
  by (simp_all add: test_runs_def map_filter_def split: option.splits)

lemma trace_simps [simp]:
  "trace (say m s) = trace s" "trace (add_event e s) = trace s @ [e]"
  by (simp_all add: say_def add_event_def)

lemma decimal_30: "decimal 30 = [51, 48]"
  by (simp add: decimal.simps)

lemma timeout_prefix_words:
  assumes "timeout_prefix W 30 s = (prefix, s')"
  shows "\<exists>r. trace s' = trace s @ [r] \<and> test_run r = None"
    and "\<exists>ws. cargo_test prefix = ws @ [lit ''cargo'', lit ''test''] \<and> lit ''cargo'' \<notin> set ws"
  using assms
  by (auto simp: timeout_prefix_def command_output_def cargo_test_def decimal_30 lit_def job_of_def test_words_def Let_def
      split: answer.splits if_splits)

lemma test_words_command:
  assumes "ws = pre @ [lit ''cargo'', lit ''test'']" and "lit ''cargo'' \<notin> set pre"
  shows "test_words (command_of ws opts env) = lit ''cargo'' # lit ''test'' # opts"
proof -
  have "program (command_of ws opts env) # cmd_args (command_of ws opts env) = pre @ lit ''cargo'' # lit ''test'' # opts"
    using assms(1) by (cases pre) (simp_all add: command_of_def)
  moreover have "dropWhile (\<lambda>w. w \<noteq> lit ''cargo'') (pre @ lit ''cargo'' # lit ''test'' # opts) = lit ''cargo'' # lit ''test'' # opts"
    using assms(2) by (subst dropWhile_append2) auto
  ultimately show ?thesis by (simp only: test_words_def)
qed

text \<open>One test: after asking for \<open>timeout\<close> the tool runs exactly one test process, and takes its status.\<close>

lemma one_test:
  assumes "cargo_starts W" and "timeout_prefix W 30 s = (prefix, s1)"
    and "job_of (command_of (cargo_test prefix) opts env) = Some j"
  obtains code s2 tr where "spawn_wait W (command_of (cargo_test prefix) opts env) (say m s1) = (Done code, s2)"
    "trace s2 = trace s @ tr" "test_runs tr = [(j, success code)]"
proof -
  let ?c = "command_of (cargo_test prefix) opts env"
  obtain r where r: "trace s1 = trace s @ [r]" "test_run r = None" using timeout_prefix_words [OF assms(2)] by blast
  obtain code u l where "answers W (trace s1) ?c = Finished code u l"
    using assms(1,3) by (cases "answers W (trace s1) ?c") (auto simp: cargo_starts_def)
  then show ?thesis
    using r assms(3) that [of code _ "[r, Ran ?c (Finished code u l)]"]
    by (simp add: spawn_wait_def command_output_def Let_def)
qed

lemma std_tests_run:
  assumes "cargo_starts W"
  shows "\<exists>p' f' s' tr. std_tests W host args cs (p, f) s = (Done (p', f'), s') \<and> trace s' = trace s @ tr
    \<and> map fst (test_runs tr) = map (\<lambda>(pkg, _). Std pkg) cs \<and> (f' = [] \<longleftrightarrow> f = [] \<and> list_all snd (test_runs tr))"
proof (induction cs arbitrary: p f s)
  case (Cons c cs)
  obtain pkg extra where c: "c = (pkg, extra)" by fastforce
  obtain prefix s1 where t: "timeout_prefix W 30 (say (Host_Tests pkg) s) = (prefix, s1)" by fastforce
  let ?cmd = "command_of (cargo_test prefix) ([lit ''--target'', host, lit ''-p'', pkg] @ extra @ args) []"
  have "job_of ?cmd = Some (Std pkg)"
    using timeout_prefix_words(2) [OF t] test_words_command by (fastforce simp: job_of_def command_of_def)
  from one_test [OF assms t this, of "Running ?cmd"] obtain code s2 tr
    where one: "spawn_wait W ?cmd (say (Running ?cmd) s1) = (Done code, s2)" "trace s2 = trace s @ tr" "test_runs tr = [(Std pkg, success code)]"
    by (metis trace_simps(1))
  show ?case
  proof (cases "success code")
    case True
    obtain p' f' s' tr' where ih: "std_tests W host args cs (p @ [lit ''std:'' @ pkg], f) s2 = (Done (p', f'), s')"
        "trace s' = trace s2 @ tr'" "map fst (test_runs tr') = map (\<lambda>(pkg, _). Std pkg) cs"
        "f' = [] \<longleftrightarrow> f = [] \<and> list_all snd (test_runs tr')"
      using Cons.IH [of "p @ [lit ''std:'' @ pkg]" f s2] by auto
    show ?thesis
      using one True ih by (intro exI [of _ p'] exI [of _ f'] exI [of _ s'] exI [of _ "tr @ tr'"]) (simp add: c t and_then_def Let_def)
  next
    case False
    let ?code = "case code of Some c \<Rightarrow> c | None \<Rightarrow> 1"
    obtain p' f' s' tr' where ih: "std_tests W host args cs (p, f @ [(lit ''std:'' @ pkg, ?code)]) (say (Tests_Failed pkg ?code) s2) = (Done (p', f'), s')"
        "trace s' = trace s2 @ tr'" "map fst (test_runs tr') = map (\<lambda>(pkg, _). Std pkg) cs"
        "f' = [] \<longleftrightarrow> f @ [(lit ''std:'' @ pkg, ?code)] = [] \<and> list_all snd (test_runs tr')"
      using Cons.IH [of p "f @ [(lit ''std:'' @ pkg, ?code)]" "say (Tests_Failed pkg ?code) s2"] by auto
    show ?thesis
      using one False ih by (intro exI [of _ p'] exI [of _ f'] exI [of _ s'] exI [of _ "tr @ tr'"]) (simp add: c t and_then_def Let_def)
  qed
qed simp

lemma uefi_tests_run:
  assumes "cargo_starts W"
  shows "\<exists>p' f' s' tr. uefi_tests W root args us (p, f) s = (Done (p', f'), s') \<and> trace s' = trace s @ tr
    \<and> map fst (test_runs tr) = map (\<lambda>(pkg, name, scr, _). Uefi pkg name (path_push root scr)) us
    \<and> (f' = [] \<longleftrightarrow> f = [] \<and> list_all snd (test_runs tr))"
proof (induction us arbitrary: p f s)
  case (Cons u us)
  obtain pkg name scr extra where u: "u = (pkg, name, scr, extra)" by (cases u) auto
  let ?m = "Uefi_Test pkg name (path_push root scr)" and ?label = "lit ''uefi:'' @ pkg @ lit ''::'' @ name"
  obtain prefix s1 where t: "timeout_prefix W 30 (say ?m s) = (prefix, s1)" by fastforce
  let ?cmd = "command_of (cargo_test prefix)
      ([lit ''--target'', lit ''aarch64-unknown-uefi'', lit ''-p'', pkg, lit ''--test'', name] @ extra @ args)
      [(lit ''CARGO_TARGET_AARCH64_UNKNOWN_UEFI_RUNNER'', path_push root scr)]"
  let ?j = "Uefi pkg name (path_push root scr)"
  have "job_of ?cmd = Some ?j"
    using timeout_prefix_words(2) [OF t] test_words_command by (fastforce simp: job_of_def command_of_def)
  from one_test [OF assms t this, of "Running ?cmd"] obtain code s2 tr
    where one: "spawn_wait W ?cmd (say (Running ?cmd) s1) = (Done code, s2)" "trace s2 = trace s @ tr" "test_runs tr = [(?j, success code)]"
    by (metis trace_simps(1))
  show ?case
  proof (cases "success code")
    case True
    obtain p' f' s' tr' where ih: "uefi_tests W root args us (p @ [?label], f) s2 = (Done (p', f'), s')"
        "trace s' = trace s2 @ tr'" "map fst (test_runs tr') = map (\<lambda>(pkg, name, scr, _). Uefi pkg name (path_push root scr)) us"
        "f' = [] \<longleftrightarrow> f = [] \<and> list_all snd (test_runs tr')"
      using Cons.IH [of "p @ [?label]" f s2] by auto
    show ?thesis
      using one True ih by (intro exI [of _ p'] exI [of _ f'] exI [of _ s'] exI [of _ "tr @ tr'"]) (simp add: u t and_then_def Let_def)
  next
    case False
    let ?code = "case code of Some c \<Rightarrow> c | None \<Rightarrow> 1"
    obtain p' f' s' tr' where ih: "uefi_tests W root args us (p, f @ [(?label, ?code)]) (say (Uefi_Failed pkg ?code) s2) = (Done (p', f'), s')"
        "trace s' = trace s2 @ tr'" "map fst (test_runs tr') = map (\<lambda>(pkg, name, scr, _). Uefi pkg name (path_push root scr)) us"
        "f' = [] \<longleftrightarrow> f @ [(?label, ?code)] = [] \<and> list_all snd (test_runs tr')"
      using Cons.IH [of p "f @ [(?label, ?code)]" "say (Uefi_Failed pkg ?code) s2"] by auto
    show ?thesis
      using one False ih by (intro exI [of _ p'] exI [of _ f'] exI [of _ s'] exI [of _ "tr @ tr'"]) (simp add: u t and_then_def Let_def)
  qed
qed simp

text \<open>The summary adds nothing to the trace and turns the failures into the exit code.\<close>

lemma trace_fold_say [simp]: "trace (fold (\<lambda>x. say (f x)) xs s) = trace s"
  by (induction xs arbitrary: s) simp_all

lemma summary_verdict:
  "\<exists>s'. summary (p, f) s = (if f = [] then Done () else Exited 1, s') \<and> trace s' = trace s"
  by (simp add: summary_def Let_def case_prod_unfold)

definition planned :: "str \<Rightarrow> job list \<Rightarrow> job list" where
  "planned root js = filter is_Std js
     @ map (\<lambda>j. case j of Uefi p t scr \<Rightarrow> Uefi p t (path_push root scr) | Std p \<Rightarrow> j) (filter (\<lambda>j. \<not> is_Std j) js)"

lemma planned_tests:
  "map (\<lambda>(pkg, _). Std pkg) (concat (map std_of js)) @ map (\<lambda>(pkg, name, scr, _). Uefi pkg name (path_push root scr)) (concat (map uefi_of js))
     = planned root js"
proof -
  have "map (\<lambda>(pkg, _). Std pkg) (std_of j) = (if is_Std j then [j] else [])"
    "map (\<lambda>(pkg, name, scr, _). Uefi pkg name (path_push root scr)) (uefi_of j)
      = (if is_Std j then [] else [case j of Uefi p t scr \<Rightarrow> Uefi p t (path_push root scr) | Std p \<Rightarrow> j])" for j
    by (cases j; simp)+
  then have "map (\<lambda>(pkg, _). Std pkg) (concat (map std_of js)) = filter is_Std js"
    "map (\<lambda>(pkg, name, scr, _). Uefi pkg name (path_push root scr)) (concat (map uefi_of js))
      = map (\<lambda>j. case j of Uefi p t scr \<Rightarrow> Uefi p t (path_push root scr) | Std p \<Rightarrow> j) (filter (\<lambda>j. \<not> is_Std j) js)"
    by (induction js) simp_all
  then show ?thesis by (simp add: planned_def)
qed

text \<open>
  C26. The verdict of \<open>cargo xtask test\<close> is right. If \<open>rustc\<close> names the host, \<open>xtest.txt\<close> is a plan (tests and lines to pass over) and
  \<open>cargo\<close> can be started, the tool runs every test of the plan exactly once and no other, the host tests before the UEFI tests and
  each kind in the order of the file, whatever the earlier ones answer and whether or not \<open>timeout\<close> is installed; it returns
  normally if all of them succeeded and exits with code 1 otherwise.\<close>

theorem xtask_test_verdict:
  assumes "cargo_starts W" and "answers W (trace s) host_tuple_command = Finished code (Some out) l"
    and "root = path_push (manifest_dir W) (lit ''../'')"
    and "read_file W (path_push root (lit ''xtest.txt'')) = Some (plan_text is)" and "list_all item_ok is"
  shows "\<exists>s' tr. xtask_test W args s = (if list_all snd (test_runs tr) then Done () else Exited 1, s')
    \<and> trace s' = trace s @ tr \<and> map fst (test_runs tr) = planned root (jobs_of is)"
proof -
  let ?ss = "concat (map std_of (jobs_of is))" and ?us = "concat (map uefi_of (jobs_of is))"
  let ?h = "Ran host_tuple_command (Finished code (Some out) l)" and ?host = "trim_text out"
  let ?s = "say (Host_Target ?host) (add_event ?h s)"
  have h: "test_run ?h = None" by (simp add: job_of_def test_words_def host_tuple_command_def lit_def)
  obtain p1 f1 s1 tr1 where std: "std_tests W ?host args ?ss ([], []) ?s = (Done (p1, f1), s1)" "trace s1 = trace s @ ?h # tr1"
    "map fst (test_runs tr1) = map (\<lambda>(pkg, _). Std pkg) ?ss" "f1 = [] \<longleftrightarrow> list_all snd (test_runs tr1)"
    using std_tests_run [OF assms(1), of ?host args ?ss "[]" "[]" ?s] by auto
  obtain p2 f2 s2 tr2 where uefi: "uefi_tests W root args ?us (p1, f1) s1 = (Done (p2, f2), s2)" "trace s2 = trace s1 @ tr2"
    "map fst (test_runs tr2) = map (\<lambda>(pkg, name, scr, _). Uefi pkg name (path_push root scr)) ?us"
    "f2 = [] \<longleftrightarrow> f1 = [] \<and> list_all snd (test_runs tr2)"
    using uefi_tests_run [OF assms(1), of root args ?us p1 f1 s1] by auto
  obtain s3 where "summary (p2, f2) s2 = (if f2 = [] then Done () else Exited 1, s3)" "trace s3 = trace s2"
    using summary_verdict by blast
  moreover have "xtask_test W args s = summary (p2, f2) s2"
    using assms(2-5) std(1) uefi(1)
    by (simp add: xtask_test_def command_output_def Let_def and_then_def plan_text_lines plan_lines_items)
  ultimately show ?thesis
    using std uefi h planned_tests [of "jobs_of is" root] by (intro exI [of _ s3] exI [of _ "?h # tr1 @ tr2"]) auto
qed

text \<open>The plan of the repository, its comments shortened, on a machine without \<open>timeout\<close>.\<close>

definition repository_plan :: "plan_item list" where
  "repository_plan =
     [Remark (lit ''# Format:''), Remark (lit ''#   std  <package>''), Remark [],
      Test (Std (lit ''allocator'')), Test (Std (lit ''mutex'')), Remark [],
      Test (Uefi (lit ''file'') (lit ''fat32_virtio'') (lit ''file/run_test.sh''))]"

definition quiet_world :: world where
  "quiet_world = \<lparr>
     answers = (\<lambda>h c. if c = host_tuple_command then Finished (Some 0) (Some (lit ''aarch64-apple-darwin'' @ [10])) []
       else if program c = lit ''timeout'' \<and> cmd_args c = [lit ''--help''] then Not_Started else Finished (Some 0) (Some []) []),
     copy_works = (\<lambda>_ _ _. True), current_dir = Some (lit ''/w''), manifest_dir = lit ''/w/xtask'',
     read_file = (\<lambda>f. if f = lit ''/w/xtask/../xtest.txt'' then Some (plan_text repository_plan) else None)\<rparr>"

lemma repository_plan_ok: "list_all item_ok repository_plan"
  by (simp add: repository_plan_def job_ok_def is_word_def is_whitespace_def lit_def trim_text_def drop_cr_def)

lemma quiet_world_starts: "cargo_starts quiet_world"
  by (auto simp: cargo_starts_def quiet_world_def job_of_def test_words_def lit_def)

lemma path_push_quiet:
  "path_push (lit ''/w/xtask'') (lit ''../'') = lit ''/w/xtask/../''"
  "path_push (lit ''/w/xtask/../'') (lit ''xtest.txt'') = lit ''/w/xtask/../xtest.txt''"
  by (simp_all add: path_push_def lit_def)

lemma repository_planned:
  "planned (lit ''/w/xtask/../'') (jobs_of repository_plan)
     = [Std (lit ''allocator''), Std (lit ''mutex''),
        Uefi (lit ''file'') (lit ''fat32_virtio'') (lit ''/w/xtask/../file/run_test.sh'')]"
  by (simp add: repository_plan_def planned_def path_push_def lit_def)

theorem xtask_test_verdict_witness:
  "\<exists>s' tr. xtask_test quiet_world [lit ''-q''] \<lparr>trace = [], stderr = []\<rparr>
      = (if list_all snd (test_runs tr) then Done () else Exited 1, s')
    \<and> trace s' = tr \<and> map fst (test_runs tr) = [Std (lit ''allocator''), Std (lit ''mutex''),
        Uefi (lit ''file'') (lit ''fat32_virtio'') (lit ''/w/xtask/../file/run_test.sh'')]"
proof -
  have "answers quiet_world (trace \<lparr>trace = [], stderr = []\<rparr>) host_tuple_command
      = Finished (Some 0) (Some (lit ''aarch64-apple-darwin'' @ [10])) []"
    "lit ''/w/xtask/../'' = path_push (manifest_dir quiet_world) (lit ''../'')"
    "read_file quiet_world (path_push (lit ''/w/xtask/../'') (lit ''xtest.txt'')) = Some (plan_text repository_plan)"
    by (simp_all add: quiet_world_def path_push_quiet)
  from xtask_test_verdict [OF quiet_world_starts this repository_plan_ok, of "[lit ''-q'']"] show ?thesis
    by (simp only: repository_planned xstate.simps append_Nil)
qed

text \<open>
  \<open>build\<close> takes the binary from the directory \<open>debug\<close> whatever the arguments are, so that after \<open>cargo xtask build --release\<close> the copy
  is not the binary that was built.
\<close>

lemma xtask_build_copies_debug:
  assumes "answers W (trace s) (build_command args) = Finished (Some 0) u l" and "current_dir W = Some cwd"
    and "\<forall>h. copy_works W h (build_from cwd) (build_into cwd)"
  shows "\<exists>s'. xtask_build W args s = (Done (build_into cwd), s') \<and> trace s' = trace s
    @ [Ran (build_command args) (Finished (Some 0) u l), Made_Dir (path_push cwd (lit ''bin'')), Copied (build_from cwd) (build_into cwd) True]"
  using assms by (simp add: xtask_build_def spawn_wait_def command_output_def and_then_def success_def Let_def)

lemma build_from_debug:
  "build_from (lit ''/w'') = lit ''/w/target/aarch64-unknown-none/debug/elf-hypervisor''"
  by (simp add: build_from_def path_push_def lit_def)

text \<open>A build that fails ends the tool with the code of \<open>cargo\<close>, before anything is copied and, under \<open>run\<close>, before anything is started.\<close>

lemma xtask_run_build_fails:
  assumes "answers W (trace s) (build_command args) = Finished code u l" and "\<not> success code"
  shows "\<exists>s'. xtask_run W args s = (Exited (case code of Some c \<Rightarrow> c | None \<Rightarrow> 1), s')
    \<and> trace s' = trace s @ [Ran (build_command args) (Finished code u l)]"
  using assms by (simp add: xtask_run_def xtask_build_def spawn_wait_def command_output_def and_then_def Let_def)

end
