(* ===== verification/Build_Scripts.thy ===== *)
theory Build_Scripts
  imports Xtask
begin

text \<open>
  The build scripts that cargo runs before it compiles a crate: \<open>src/bootloader/build.rs\<close> passes the linker script, \<open>src/dtb/build.rs\<close> compiles
  the device tree sources of the tests, \<open>src/xtask/build.rs\<close> fetches the firmware of the test machine. A script prints directives for cargo on
  standard output, runs programs and ends by returning or by a panic. As in \<open>Xtask\<close>, what programs and files answer is a
  parameter.
\<close>

record script_world =
  script_answers :: "event list \<Rightarrow> command \<Rightarrow> answer"
  file_exists :: "str \<Rightarrow> bool"
  create_dir_all :: "str \<Rightarrow> bool"
  read_dir :: "str \<Rightarrow> str option list option"
  env_var :: "str \<Rightarrow> str option"

record script_state =
  script_trace :: "event list"
  directives :: "str list"

definition directive :: "str \<Rightarrow> script_state \<Rightarrow> script_state" where
  "directive d s = s\<lparr>directives := directives s @ [d]\<rparr>"

text \<open>\<open>Command::status\<close>: an error if the program could not be run, its exit code otherwise.\<close>

definition command_status :: "script_world \<Rightarrow> command \<Rightarrow> script_state \<Rightarrow> int option option \<times> script_state" where
  "command_status W c s =
     (let r = script_answers W (script_trace s) c;
          s = s\<lparr>script_trace := script_trace s @ [Ran c r]\<rparr>
      in case r of Not_Started \<Rightarrow> (None, s) | Finished code _ _ \<Rightarrow> (Some code, s))"

section \<open>\<open>bootloader/build.rs\<close>\<close>

definition bootloader_build :: "script_world \<Rightarrow> script_state \<Rightarrow> unit flow \<times> script_state" where
  "bootloader_build W s = (case env_var W (lit ''CARGO_MANIFEST_DIR'') of
     None \<Rightarrow> (Panicked, s)
   | Some crate_dir \<Rightarrow> (Done (), fold directive
       [lit ''cargo:rerun-if-changed=build.rs'', lit ''cargo:rerun-if-changed=aarch64.lds'',
        lit ''cargo:rerun-if-env-changed=XTASK_BUILD'', lit ''cargo:rustc-link-search='' @ crate_dir,
        lit ''cargo:rustc-link-arg=-Taarch64.lds''] s))"

section \<open>\<open>dtb/build.rs\<close>\<close>

text \<open>\<open>Path::file_stem\<close> and \<open>Path::extension\<close> of a file name: cut at the last dot, unless it is the first character.\<close>

definition stem_extension :: "str \<Rightarrow> str \<times> str option" where
  "stem_extension name =
     (let before = rev (tl (dropWhile (\<lambda>c. c \<noteq> 46) (rev name))); after = rev (takeWhile (\<lambda>c. c \<noteq> 46) (rev name))
      in if 46 \<notin> set name \<or> before = [] then (name, None) else (before, Some after))"

definition dtc_command :: "str \<Rightarrow> str \<Rightarrow> command" where
  "dtc_command out_path path =
     \<lparr>program = lit ''dtc'', cmd_args = [lit ''-O'', lit ''dtb'', lit ''-o'', out_path, path], cmd_env = []\<rparr>"

text \<open>The loop over the entries of the directory; entries that cannot be read are passed over by \<open>flatten\<close>.\<close>

fun dtb_entries :: "script_world \<Rightarrow> str \<Rightarrow> str \<Rightarrow> str option list \<Rightarrow> script_state \<Rightarrow> unit flow \<times> script_state" where
  "dtb_entries W dts_dir out_dir [] s = (Done (), s)"
| "dtb_entries W dts_dir out_dir (None # rest) s = dtb_entries W dts_dir out_dir rest s"
| "dtb_entries W dts_dir out_dir (Some name # rest) s =
     (let path = path_push dts_dir name; (file_name, ext) = stem_extension name in
      if ext \<noteq> Some (lit ''dts'') then dtb_entries W dts_dir out_dir rest s
      else
        (let out_path = path_push out_dir (file_name @ lit ''.dtb'');
             s = directive (lit ''cargo:rerun-if-changed='' @ path) s
         in case command_status W (dtc_command out_path path) s of
              (Some code, s) \<Rightarrow> (if success code then dtb_entries W dts_dir out_dir rest s else (Panicked, s))
            | (None, s) \<Rightarrow> (Panicked, s)))"

definition dtb_build :: "script_world \<Rightarrow> script_state \<Rightarrow> unit flow \<times> script_state" where
  "dtb_build W s =
     (let dts_dir = lit ''test/dts''; s = directive (lit ''cargo:rerun-if-changed=test/dts'') s in
      if \<not> file_exists W dts_dir then (Done (), s)
      else case env_var W (lit ''OUT_DIR'') of
        None \<Rightarrow> (Panicked, s)
      | Some out_dir \<Rightarrow>
         (case read_dir W dts_dir of
            None \<Rightarrow> (Panicked, s)
          | Some entries \<Rightarrow> dtb_entries W dts_dir out_dir entries s))"

section \<open>\<open>xtask/build.rs\<close>\<close>

definition curl_command :: "str \<Rightarrow> str \<Rightarrow> command" where
  "curl_command url dest = \<lparr>program = lit ''curl'', cmd_args = [lit ''-L'', lit ''-o'', dest, url], cmd_env = []\<rparr>"

definition wget_command :: "str \<Rightarrow> str \<Rightarrow> command" where
  "wget_command url dest = \<lparr>program = lit ''wget'', cmd_args = [lit ''-O'', dest, url], cmd_env = []\<rparr>"

definition status_ok :: "int option option \<Rightarrow> bool" where
  "status_ok r \<longleftrightarrow> (case r of Some code \<Rightarrow> success code | None \<Rightarrow> False)"

definition fetch_with_tools :: "script_world \<Rightarrow> str \<Rightarrow> str \<Rightarrow> script_state \<Rightarrow> (string + unit) \<times> script_state" where
  "fetch_with_tools W url dest s =
     (let (r, s) = command_status W (curl_command url dest) s in
      if status_ok r then (Inr (), s)
      else
        (let (r, s) = command_status W (wget_command url dest) s in
         if status_ok r then (Inr (), s)
         else (Inl ''neither 'curl' nor 'wget' succeeded (or were found)'', s)))"

definition firmware_url :: str where
  "firmware_url = lit ''https://retrage.github.io/edk2-nightly/bin/RELEASEAARCH64_QEMU_EFI.fd''"

definition xtask_build_script :: "script_world \<Rightarrow> script_state \<Rightarrow> unit flow \<times> script_state" where
  "xtask_build_script W s =
     (let dir = lit ''../test''; s = directive (lit ''cargo:rerun-if-changed=../test'') s;
          firmware_path = path_push dir (lit ''RELEASEAARCH64_QEMU_EFI.fd'')
      in if file_exists W firmware_path then (Done (), s)
         else if \<not> create_dir_all W dir then (Panicked, s)
         else case fetch_with_tools W firmware_url firmware_path s of
           (Inr _, s) \<Rightarrow> (Done (), s)
         | (Inl _, s) \<Rightarrow> (Panicked, s))"

section \<open>What the scripts guarantee\<close>

text \<open>The sources among the entries, with the file each is compiled to.\<close>

fun dts_commands :: "str \<Rightarrow> str \<Rightarrow> str option list \<Rightarrow> command list" where
  "dts_commands dts_dir out_dir [] = []"
| "dts_commands dts_dir out_dir (None # rest) = dts_commands dts_dir out_dir rest"
| "dts_commands dts_dir out_dir (Some name # rest) =
     (case stem_extension name of
        (stem, Some ext) \<Rightarrow>
          (if ext = lit ''dts''
           then dtc_command (path_push out_dir (stem @ lit ''.dtb'')) (path_push dts_dir name) # dts_commands dts_dir out_dir rest
           else dts_commands dts_dir out_dir rest)
      | _ \<Rightarrow> dts_commands dts_dir out_dir rest)"

fun ran :: "event \<Rightarrow> command list" where
  "ran (Ran c (Finished code _ _)) = (if success code then [c] else [])"
| "ran _ = []"

lemma script_trace_directive [simp]: "script_trace (directive d s) = script_trace s"
  by (simp add: directive_def)

lemma command_status_trace:
  "command_status W c s = (r, s') \<Longrightarrow> \<exists>e. script_trace s' = script_trace s @ [e] \<and> (status_ok r \<longrightarrow> ran e = [c])"
  by (auto simp: command_status_def status_ok_def Let_def split: answer.splits)

text \<open>
  If the script of \<open>dtb\<close> ends normally, every device tree source has been compiled, in the order of the directory, and nothing else has
  been run: a missing or failing \<open>dtc\<close> cannot be overlooked.
\<close>

lemma dtb_entries_compiled:
  "dtb_entries W dts_dir out_dir es s = (Done (), s') \<Longrightarrow>
     \<exists>tr. script_trace s' = script_trace s @ tr \<and> concat (map ran tr) = dts_commands dts_dir out_dir es
       \<and> length tr = length (dts_commands dts_dir out_dir es)"
proof (induction W dts_dir out_dir es s rule: dtb_entries.induct)
  case (3 W dts_dir out_dir name rest s)
  obtain stem ext where n: "stem_extension name = (stem, ext)" by fastforce
  show ?case
  proof (cases "ext = Some (lit ''dts'')")
    case False
    with 3 n show ?thesis by (cases ext) auto
  next
    case True
    let ?c = "dtc_command (path_push out_dir (stem @ lit ''.dtb'')) (path_push dts_dir name)"
    let ?s = "directive (lit ''cargo:rerun-if-changed='' @ path_push dts_dir name) s"
    obtain r s1 where r: "command_status W ?c ?s = (r, s1)" by fastforce
    then obtain e where e: "script_trace s1 = script_trace s @ [e]" "status_ok r \<longrightarrow> ran e = [?c]"
      using command_status_trace [OF r] by auto
    from "3.prems" n True r have ok: "status_ok r" "dtb_entries W dts_dir out_dir rest s1 = (Done (), s')"
      by (auto simp: Let_def status_ok_def split: option.splits if_splits)
    then obtain code where "r = Some code" "success code" by (auto simp: status_ok_def split: option.splits)
    with "3.IH"(2) n True r ok(2) obtain tr where "script_trace s' = script_trace s1 @ tr"
        "concat (map ran tr) = dts_commands dts_dir out_dir rest" "length tr = length (dts_commands dts_dir out_dir rest)"
      by (fastforce simp: Let_def)
    with e ok(1) n True show ?thesis by (intro exI [of _ "e # tr"]) simp
  qed
qed simp_all

lemma dtb_build_compiles_all:
  assumes "dtb_build W s = (Done (), s')" and "file_exists W (lit ''test/dts'')"
  shows "\<exists>out_dir es tr. env_var W (lit ''OUT_DIR'') = Some out_dir \<and> read_dir W (lit ''test/dts'') = Some es
    \<and> script_trace s' = script_trace s @ tr \<and> concat (map ran tr) = dts_commands (lit ''test/dts'') out_dir es
    \<and> length tr = length (dts_commands (lit ''test/dts'') out_dir es)"
  using assms dtb_entries_compiled by (fastforce simp: dtb_build_def Let_def split: option.splits)

text \<open>The firmware is there, or a tool that was asked for it reported success; \<open>wget\<close> is only run when \<open>curl\<close> did not succeed.\<close>

lemma firmware_fetched:
  assumes "xtask_build_script W s = (Done (), s')"
  defines "f \<equiv> path_push (lit ''../test'') (lit ''RELEASEAARCH64_QEMU_EFI.fd'')"
  shows "file_exists W f \<or> (\<exists>e. script_trace s' = script_trace s @ [e] \<and> ran e = [curl_command firmware_url f])
    \<or> (\<exists>d e. script_trace s' = script_trace s @ [d, e] \<and> ran e = [wget_command firmware_url f])"
proof (cases "file_exists W f")
  case False
  let ?s = "directive (lit ''cargo:rerun-if-changed=../test'') s"
  obtain r1 s1 where c: "command_status W (curl_command firmware_url f) ?s = (r1, s1)" by fastforce
  obtain r2 s2 where w: "command_status W (wget_command firmware_url f) s1 = (r2, s2)" by fastforce
  from assms(1) False c w have "status_ok r1 \<and> s' = s1 \<or> status_ok r2 \<and> s' = s2"
    by (auto simp: xtask_build_script_def fetch_with_tools_def Let_def f_def split: if_splits)
  with command_status_trace [OF c] command_status_trace [OF w] show ?thesis by auto
qed simp

end
