(* ===== verification/Bump.thy ===== *)
theory Bump
  imports Mutex Range_List_Spec Allocator
begin

text \<open>
  The support library of the UEFI tests, \<open>src/arch_hal/aarch64_hal/aarch64_test/src/lib.rs\<close>: a bump allocator without locks, and the
  semihosting call that ends a test. Threads interleave at the atomic operations, as in \<open>Mutex\<close>; a configuration has the offset of the
  next free byte, the blocks that clients hold, in the order in which they were given, and the program counter of each thread. \<open>heap_start\<close>,
  the address of the static array, is a parameter.
\<close>

section \<open>The allocator\<close>

definition HEAP_SIZE :: usize where
  "HEAP_SIZE = 64 * 1024 * 1024"

definition BumpAllocator_new :: usize where
  "BumpAllocator_new = 0"

text \<open>The loop body up to the exchange: return null, or try to move the offset and return the address.\<close>

datatype bump_choice = Give_Null | Exchange usize usize

definition bump_attempt :: "usize \<Rightarrow> Layout \<Rightarrow> usize \<Rightarrow> bump_choice option" where
  "bump_attempt heap_start layout current_offset = do {
     heap_end \<leftarrow> uadd heap_start HEAP_SIZE;
     current_addr \<leftarrow> uadd heap_start current_offset;
     aligned_addr \<leftarrow> next_multiple_of current_addr (layout_align layout);
     aligned_offset \<leftarrow> usub aligned_addr heap_start;
     (case uadd aligned_offset (layout_size layout) of
        None \<Rightarrow> Some Give_Null
      | Some end_offset \<Rightarrow> do {
          allocation_end \<leftarrow> uadd heap_start end_offset;
          if heap_end < allocation_end then Some Give_Null
          else do {
            new_offset \<leftarrow> usub allocation_end heap_start;
            Some (Exchange aligned_addr new_offset)
          }
        })
   }"

text \<open>\<open>compare_exchange\<close>: the value that was found, as an error if it is not the expected one.\<close>

definition bump_compare_exchange :: "usize \<Rightarrow> usize \<Rightarrow> usize \<Rightarrow> (usize + usize) \<times> usize" where
  "bump_compare_exchange nxt current new = (if nxt = current then (Inr nxt, new) else (Inl nxt, nxt))"

datatype bump_pc = BumpIdle | BumpCalled Layout | BumpLoaded Layout usize | BumpPanic

text \<open>The next step of a thread inside \<open>alloc\<close>: program counter, offset, and the block if one is returned.\<close>

fun bump_turn :: "usize \<Rightarrow> usize \<Rightarrow> bump_pc \<Rightarrow> bump_pc \<times> usize \<times> (usize \<times> Layout) option" where
  "bump_turn heap_start nxt (BumpCalled layout) = (BumpLoaded layout nxt, nxt, None)"
| "bump_turn heap_start nxt (BumpLoaded layout current_offset) =
     (case bump_attempt heap_start layout current_offset of
        None \<Rightarrow> (BumpPanic, nxt, None)
      | Some Give_Null \<Rightarrow> (BumpIdle, nxt, None)
      | Some (Exchange aligned_addr new_offset) \<Rightarrow>
         (case bump_compare_exchange nxt current_offset new_offset of
            (Inr _, nxt') \<Rightarrow> (BumpIdle, nxt', Some (aligned_addr, layout))
          | (Inl offset, nxt') \<Rightarrow> (BumpLoaded layout offset, nxt', None)))"
| "bump_turn heap_start nxt pc = (pc, nxt, None)"

definition bump_dealloc :: "usize \<Rightarrow> usize \<Rightarrow> Layout \<Rightarrow> usize" where
  "bump_dealloc nxt ptr layout = nxt"

definition given_blocks :: "(usize \<times> Layout) list \<Rightarrow> (usize \<times> Layout) option \<Rightarrow> (usize \<times> Layout) list" where
  "given_blocks bs r = bs @ (case r of Some b \<Rightarrow> [b] | None \<Rightarrow> [])"

type_synonym bump_config = "usize \<times> (usize \<times> Layout) list \<times> bump_pc list"

inductive bump_step :: "usize \<Rightarrow> bump_config \<Rightarrow> bump_config \<Rightarrow> bool" for heap_start where
  bump_call: "i < length pcs \<Longrightarrow> pcs ! i = BumpIdle \<Longrightarrow> from_size_align (layout_size l) (layout_align l) = Some l \<Longrightarrow>
     bump_step heap_start (nxt, bs, pcs) (nxt, bs, pcs[i := BumpCalled l])"
| bump_next: "i < length pcs \<Longrightarrow> bump_turn heap_start nxt (pcs ! i) = (pc, nxt', r) \<Longrightarrow>
     bump_step heap_start (nxt, bs, pcs) (nxt', given_blocks bs r, pcs[i := pc])"
| bump_free: "bump_step heap_start (nxt, as @ (p, l) # bs, pcs) (bump_dealloc nxt p l, as @ bs, pcs)"

inductive_cases bump_stepE: "bump_step h (nxt, bs, pcs) c"

section \<open>Ending a test\<close>

record ExitArgs =
  exit_reason :: "32 word"
  exit_value :: "32 word"

text \<open>The operation in \<open>x0\<close> and the structure that \<open>x1\<close> points to when the trap is taken.\<close>

definition exit_with_code :: "32 word \<Rightarrow> 64 word \<times> ExitArgs" where
  "exit_with_code code = (0x20, \<lparr>exit_reason = 0x20026, exit_value = code\<rparr>)"

definition exit_success :: "64 word \<times> ExitArgs" where
  "exit_success = exit_with_code 0"

definition exit_failure :: "64 word \<times> ExitArgs" where
  "exit_failure = exit_with_code 1"

section \<open>The loop body\<close>

text \<open>
  On a valid layout and below the middle of the address space, where the addresses of a process lie, the arithmetic of the loop does not
  overflow: null is returned exactly if the aligned block does not fit.
\<close>

lemma layout_bounds:
  assumes "from_size_align (layout_size l) (layout_align l) = Some l"
  shows "0 < layout_align l" and "layout_size l + layout_align l \<le> 2 ^ 63"
  using assms by (auto simp: from_size_align_def is_power_of_two_def isize_MAX_def split: if_splits)

lemma bump_attempt_fits:
  assumes "from_size_align (layout_size l) (layout_align l) = Some l" and "h + HEAP_SIZE \<le> 2 ^ 63" and "off \<le> HEAP_SIZE"
  defines "a \<equiv> align_up (h + off) (layout_align l)"
  shows "bump_attempt h l off =
    Some (if a + layout_size l \<le> h + HEAP_SIZE then Exchange a (a + layout_size l - h) else Give_Null)"
proof -
  note l = layout_bounds [OF assms(1)]
  have a: "h + off \<le> a" "a < h + off + layout_align l"
    unfolding a_def using align_up_ge align_up_less [OF l(1)] by auto
  have "a + layout_size l < 2 ^ 64" using a(2) l(2) assms(2,3) by simp
  moreover have "next_multiple_of (h + off) (layout_align l) = Some a"
    using l a(2) assms(2,3) unfolding a_def by (intro next_multiple_of_ok) (simp_all add: usize_limit_def)
  ultimately show ?thesis
    using a assms(2,3) by (auto simp: bump_attempt_def uadd_def usub_def usize_limit_def)
qed

text \<open>An exchange fails only if another thread has moved the offset since it was read, so that some thread always gets on.\<close>

lemma bump_retry_only_after_progress:
  assumes "bump_turn h nxt (BumpLoaded l off) = (BumpLoaded l' off', nxt', r)"
  shows "nxt \<noteq> off \<and> off' = nxt \<and> nxt' = nxt \<and> r = None"
  using assms by (auto simp: bump_compare_exchange_def split: option.splits bump_choice.splits if_splits)

section \<open>Every interleaving\<close>

definition pc_ok :: "bump_pc \<Rightarrow> bool" where
  "pc_ok pc \<longleftrightarrow> (case pc of
     BumpIdle \<Rightarrow> True
   | BumpCalled l \<Rightarrow> from_size_align (layout_size l) (layout_align l) = Some l
   | BumpLoaded l off \<Rightarrow> from_size_align (layout_size l) (layout_align l) = Some l \<and> off \<le> HEAP_SIZE
   | BumpPanic \<Rightarrow> False)"

definition given_ok :: "usize \<Rightarrow> usize \<Rightarrow> usize \<times> Layout \<Rightarrow> bool" where
  "given_ok h nxt b \<longleftrightarrow> h \<le> fst b \<and> fst b + layout_size (snd b) \<le> h + nxt \<and> layout_align (snd b) dvd fst b"

definition bump_start :: "usize \<Rightarrow> bump_config \<Rightarrow> bool" where
  "bump_start h c \<longleftrightarrow> h + HEAP_SIZE \<le> 2 ^ 63
     \<and> (case c of (nxt, bs, pcs) \<Rightarrow> nxt = BumpAllocator_new \<and> bs = [] \<and> (\<forall>pc \<in> set pcs. pc = BumpIdle))"

definition bump_inv :: "usize \<Rightarrow> bump_config \<Rightarrow> bool" where
  "bump_inv h c \<longleftrightarrow> h + HEAP_SIZE \<le> 2 ^ 63
     \<and> (case c of (nxt, bs, pcs) \<Rightarrow> nxt \<le> HEAP_SIZE \<and> list_all pc_ok pcs \<and> list_all (given_ok h nxt) bs
          \<and> sorted_wrt (\<lambda>b c. fst b + layout_size (snd b) \<le> fst c) bs)"

lemma given_ok_mono: "list_all (given_ok h nxt) bs \<Longrightarrow> nxt \<le> nxt' \<Longrightarrow> list_all (given_ok h nxt') bs"
  by (auto simp: list_all_iff given_ok_def)

text \<open>What one step of a thread does to the shared state.\<close>

lemma bump_turn_ok:
  assumes "h + HEAP_SIZE \<le> 2 ^ 63" and "nxt \<le> HEAP_SIZE" and "pc_ok pc" and "bump_turn h nxt pc = (pc', nxt', r)"
  shows "pc_ok pc'" and "nxt \<le> nxt'" and "nxt' \<le> HEAP_SIZE"
    and "\<forall>b. r = Some b \<longrightarrow> given_ok h nxt' b \<and> h + nxt \<le> fst b"
proof -
  have "pc_ok pc' \<and> nxt \<le> nxt' \<and> nxt' \<le> HEAP_SIZE \<and> (\<forall>b. r = Some b \<longrightarrow> given_ok h nxt' b \<and> h + nxt \<le> fst b)"
  proof (cases pc)
    case (BumpLoaded l off)
    let ?a = "align_up (h + off) (layout_align l)"
    have l: "from_size_align (layout_size l) (layout_align l) = Some l" "off \<le> HEAP_SIZE"
      using assms(3) by (simp_all add: BumpLoaded pc_ok_def)
    have a: "h + off \<le> ?a" "layout_align l dvd ?a"
      using align_up_ge align_up_dvd [OF layout_bounds(1) [OF l(1)]] by auto
    show ?thesis
      using assms(2-4) a l bump_attempt_fits [OF l(1) assms(1) l(2)]
      by (auto simp: BumpLoaded bump_compare_exchange_def pc_ok_def given_ok_def split: if_splits)
  qed (use assms(2-4) in \<open>auto simp: pc_ok_def\<close>)
  then show "pc_ok pc'" "nxt \<le> nxt'" "nxt' \<le> HEAP_SIZE" "\<forall>b. r = Some b \<longrightarrow> given_ok h nxt' b \<and> h + nxt \<le> fst b"
    by blast+
qed

lemma list_all_update: "list_all P xs \<Longrightarrow> P x \<Longrightarrow> list_all P (xs[i := x])"
  by (auto simp: list_all_iff dest: set_update_subset_insert [THEN subsetD])

lemma bump_inv_step:
  assumes "bump_inv h c" and "bump_step h c c'"
  shows "bump_inv h c'"
  using assms(2,1)
proof (cases rule: bump_step.cases)
  case (bump_call i pcs l nxt bs)
  then show ?thesis using assms(1) by (auto simp: bump_inv_def pc_ok_def intro: list_all_update)
next
  case (bump_next i pcs nxt pc nxt' r bs)
  have inv: "h + HEAP_SIZE \<le> 2 ^ 63" "nxt \<le> HEAP_SIZE" "pc_ok (pcs ! i)" "list_all pc_ok pcs"
    "list_all (given_ok h nxt) bs" "sorted_wrt (\<lambda>b c. fst b + layout_size (snd b) \<le> fst c) bs"
    using assms(1) bump_next(1,3) by (auto simp: bump_inv_def list_all_length)
  note t = bump_turn_ok [OF inv(1-3) bump_next(4)]
  have "list_all (given_ok h nxt') (given_blocks bs r)"
    using t(4) given_ok_mono [OF inv(5) t(2)] by (auto simp: given_blocks_def split: option.splits)
  moreover have "sorted_wrt (\<lambda>b c. fst b + layout_size (snd b) \<le> fst c) (given_blocks bs r)"
    using t(4) inv(5,6) by (fastforce simp: given_blocks_def sorted_wrt_append list_all_iff given_ok_def split: option.splits)
  ultimately show ?thesis
    using bump_next(2) inv(1,4) t(1,3) by (simp add: bump_inv_def list_all_update)
next
  case (bump_free nxt as p l bs pcs)
  then show ?thesis using assms(1) by (auto simp: bump_inv_def bump_dealloc_def sorted_wrt_append)
qed

interpretation bump: transition_system "bump_start h" "bump_step h" "bump_inv h" for h
proof
  show "bump_start h c \<Longrightarrow> bump_inv h c" for c
    by (auto simp: bump_start_def bump_inv_def BumpAllocator_new_def list_all_iff pc_ok_def)
qed (rule bump_inv_step)

text \<open>
  C22. The allocator of the tests is safe without a lock: in every interleaving of any number of threads that allocate and free with valid
  layouts, on a heap below the middle of the address space, no thread panics, the blocks held lie inside the heap, are aligned
  as asked and do not overlap one another.\<close>

theorem bump_blocks_disjoint:
  assumes "bump_start h c" and "(bump_step h)\<^sup>*\<^sup>* c (nxt, bs, pcs)"
  shows "BumpPanic \<notin> set pcs
    \<and> (\<forall>b \<in> set bs. block_span b \<subseteq> {h..<h + HEAP_SIZE} \<and> layout_align (snd b) dvd fst b)
    \<and> (\<forall>i j. i < j \<and> j < length bs \<longrightarrow> block_span (bs ! i) \<inter> block_span (bs ! j) = {})"
proof -
  have inv: "bump_inv h (nxt, bs, pcs)" by (rule bump.reachable_inv [OF assms(2,1)])
  have "block_span (bs ! i) \<inter> block_span (bs ! j) = {}" if "i < j" "j < length bs" for i j
    using inv sorted_wrt_nth_less [of "\<lambda>b c. fst b + layout_size (snd b) \<le> fst c" bs i j] that
    by (auto simp: bump_inv_def block_span_def)
  moreover have "block_span b \<subseteq> {h..<h + HEAP_SIZE} \<and> layout_align (snd b) dvd fst b" if "b \<in> set bs" for b
    using inv that by (fastforce simp: bump_inv_def list_all_iff given_ok_def block_span_def)
  moreover have "BumpPanic \<notin> set pcs" using inv by (auto simp: bump_inv_def list_all_iff pc_ok_def)
  ultimately show ?thesis by blast
qed

text \<open>Two threads that read the same offset: the second one gets its block first, the first one has to try again.\<close>

definition layout_a :: Layout where
  "layout_a = \<lparr>layout_size = 24, layout_align = 8\<rparr>"

definition layout_b :: Layout where
  "layout_b = \<lparr>layout_size = 10, layout_align = 2\<rparr>"

lemma demo_layouts:
  "from_size_align (layout_size layout_a) (layout_align layout_a) = Some layout_a"
  "from_size_align (layout_size layout_b) (layout_align layout_b) = Some layout_b"
  by (simp_all add: layout_a_def layout_b_def from_size_align_def is_power_of_two_def power_from.simps isize_MAX_def)

lemma demo_turns:
  "bump_turn 0x1000 0 (BumpLoaded layout_b 0) = (BumpIdle, 10, Some (0x1000, layout_b))"
  "bump_turn 0x1000 10 (BumpLoaded layout_a 0) = (BumpLoaded layout_a 10, 10, None)"
  "bump_turn 0x1000 10 (BumpLoaded layout_a 10) = (BumpIdle, 40, Some (0x1010, layout_a))"
  by (simp_all add: bump_attempt_fits demo_layouts HEAP_SIZE_def bump_compare_exchange_def)
    (simp_all add: layout_a_def layout_b_def align_up_def)

lemma bump_more: "bump_step h c d \<Longrightarrow> (bump_step h)\<^sup>*\<^sup>* d e \<Longrightarrow> (bump_step h)\<^sup>*\<^sup>* c e"
  by (rule converse_rtranclp_into_rtranclp)

lemma demo_run:
  "(bump_step 0x1000)\<^sup>*\<^sup>* (0, [], [BumpIdle, BumpIdle]) (40, [(0x1000, layout_b), (0x1010, layout_a)], [BumpIdle, BumpIdle])"
proof -
  let ?S = "bump_step 0x1000"
  have s1: "?S (0, [], [BumpIdle, BumpIdle]) (0, [], [BumpCalled layout_a, BumpIdle])"
    using bump_call [OF _ _ demo_layouts(1), of 0 "[BumpIdle, BumpIdle]"] by simp
  have s2: "?S (0, [], [BumpCalled layout_a, BumpIdle]) (0, [], [BumpCalled layout_a, BumpCalled layout_b])"
    using bump_call [OF _ _ demo_layouts(2), of 1 "[BumpCalled layout_a, BumpIdle]"] by simp
  have s3: "?S (0, [], [BumpCalled layout_a, BumpCalled layout_b]) (0, [], [BumpLoaded layout_a 0, BumpCalled layout_b])"
    using bump_next [of 0 "[BumpCalled layout_a, BumpCalled layout_b]" "0x1000" 0] by (simp add: given_blocks_def)
  have s4: "?S (0, [], [BumpLoaded layout_a 0, BumpCalled layout_b]) (0, [], [BumpLoaded layout_a 0, BumpLoaded layout_b 0])"
    using bump_next [of 1 "[BumpLoaded layout_a 0, BumpCalled layout_b]" "0x1000" 0 _ _ _ "[]"] by (simp add: given_blocks_def)
  have s5: "?S (0, [], [BumpLoaded layout_a 0, BumpLoaded layout_b 0]) (10, [(0x1000, layout_b)], [BumpLoaded layout_a 0, BumpIdle])"
    using bump_next [of 1 "[BumpLoaded layout_a 0, BumpLoaded layout_b 0]" "0x1000" 0 BumpIdle 10 "Some (0x1000, layout_b)" "[]"] demo_turns(1)
    by (simp add: given_blocks_def del: bump_turn.simps)
  have s6: "?S (10, [(0x1000, layout_b)], [BumpLoaded layout_a 0, BumpIdle]) (10, [(0x1000, layout_b)], [BumpLoaded layout_a 10, BumpIdle])"
    using bump_next [of 0 "[BumpLoaded layout_a 0, BumpIdle]" "0x1000" 10 "BumpLoaded layout_a 10" 10 None "[(0x1000, layout_b)]"] demo_turns(2)
    by (simp add: given_blocks_def del: bump_turn.simps)
  have s7: "?S (10, [(0x1000, layout_b)], [BumpLoaded layout_a 10, BumpIdle])
      (40, [(0x1000, layout_b), (0x1010, layout_a)], [BumpIdle, BumpIdle])"
    using bump_next [of 0 "[BumpLoaded layout_a 10, BumpIdle]" "0x1000" 10 BumpIdle 40 "Some (0x1010, layout_a)" "[(0x1000, layout_b)]"] demo_turns(3)
    by (simp add: given_blocks_def del: bump_turn.simps)
  show ?thesis
    by (rule s1 [THEN bump_more], rule s2 [THEN bump_more], rule s3 [THEN bump_more], rule s4 [THEN bump_more], rule s5 [THEN bump_more], rule s6 [THEN bump_more], rule s7 [THEN bump_more], rule rtranclp.rtrancl_refl)
qed

theorem bump_blocks_disjoint_witness:
  "(bump_step 0x1000)\<^sup>*\<^sup>* (0, [], [BumpIdle, BumpIdle]) (40, [(0x1000, layout_b), (0x1010, layout_a)], [BumpIdle, BumpIdle])
    \<and> block_span (0x1000, layout_b) \<inter> block_span (0x1010, layout_a) = {}"
proof -
  have "bump_start 0x1000 (0, [], [BumpIdle, BumpIdle])"
    by (simp add: bump_start_def BumpAllocator_new_def HEAP_SIZE_def)
  note all = bump_blocks_disjoint [OF this demo_run, THEN conjunct2, THEN conjunct2, rule_format]
  from all [of 0 1] show ?thesis using demo_run by simp
qed

end
