(* ===== verification/Spec2Isabelle.thy ===== *)
theory Spec2Isabelle
  imports Mutex Elf Paging_Registers Cache Boot_Spec Raw_Reg Build_Scripts Bump
begin

text \<open>
  A verification library for the bare-metal boot loader in \<open>src/\<close>, a Rust workspace for AArch64 machines.

  \<^bold>\<open>The program.\<close> \<open>bootloader\<close> starts at EL2 with the address of a device tree as its argument. It parses the tree (\<open>dtb\<close>), opens the
  serial port (\<open>pl011\<close>), fills the global allocator (\<open>allocator\<close>, \<open>intrusive_linked_list\<close>) with the memory the tree describes minus
  what it reserves, looks for a virtio block device (\<open>virtio\<close>, \<open>block-device\<close>), mounts a FAT32 volume on it (\<open>filesystem\<close>,
  \<open>file\<close>), loads a kernel image and a second device tree, writes a new tree that reserves the memory the loader keeps, sets the
  hypervisor registers and returns to EL1. Below this lie the register wrappers of \<open>typestate\<close>, the locks of \<open>mutex\<close> and the system
  registers of \<open>paging\<close>; \<open>elf\<close> reads ELF images.

  \<^bold>\<open>Conventions\<close> (\<open>Prelude\<close>). A panic is \<^term>\<open>None\<close>; the build is the \<open>dev\<close> profile, so overflow panics. A \<open>Result\<close> is a sum,
  with the state beside it where the operation changes one. \<open>usize\<close> is a natural number and every operation on it is a checked
  one; registers and ring indices, where wrapping is meant, are words. Slices and tables are lists with panicking
  access. Loops that end are \<open>fun\<close> or \<open>function\<close> with a termination proof; loops that depend on a device or on unchecked data are
  \<open>partial_function (option)\<close>, so that a theorem of the form "the result is \<open>Some ..\<close>" says that the loop ends. No definition uses fuel.
  Memory is a function from addresses to bytes; the links of intrusive lists are a map.

  \<^bold>\<open>Parts.\<close>

  \<^item> Boot loader. \<open>Boot_Args\<close>: \<open>str_to_usize\<close>. \<open>Systimer\<close>: the timer. \<open>Boot_Memory\<close>: \<^const>\<open>setup_allocator\<close>, with the locale
    \<open>region_sink\<close> for the callbacks that hand regions to the allocator. \<open>Boot_Image\<close>: \<^const>\<open>load_image\<close> and \<^const>\<open>generate_device_tree\<close>.
    \<open>Boot\<close>: console, processor registers, the search for the storage device and \<^const>\<open>boot_main\<close>, all of \<open>main\<close> in order. \<open>Boot_Spec\<close>:
    its properties. Shown: the allocator is ready with exactly the unreserved memory, the image stands where its header
    asks, the first working device is taken, the generated tree reserves everything the loader owns, the registers at \<open>eret\<close>.
  \<^item> Allocator. \<open>Range_List\<close> is \<open>MemoryBlock\<close> of \<open>range_list_allocator.rs\<close>: two tables of regions on arrays. \<open>Range_List_Proofs\<close>,
    \<open>_Check\<close>, \<open>_Alloc\<close>, \<open>_Dealloc\<close>, \<open>_Dyn\<close>, \<open>_Trim\<close> prove that each operation refines one on sorted lists and on sets of addresses;
    \<open>Range_List_Spec\<close> states the locale \<open>interval_allocator\<close>, the contract of an allocator of address intervals, and
    interprets it. \<open>Intrusive_List\<close>, \<open>Buddy\<close>, \<open>Buddy_Proofs\<close>, \<open>Buddy_Alloc\<close>: the buddy allocator on linked free lists, with its free blocks as an abstract
    tiling. \<open>Allocator\<close>, \<open>Allocator_Proofs\<close>, \<open>Allocator_Spec\<close>: the front end, which keeps the same contract.
  \<^item> Device tree. \<open>Dtb\<close>, \<open>Dtb_Parser\<close>, \<open>Dtb_Reserved\<close>, \<open>Dtb_Generator\<close> are \<open>src/dtb/src/lib.rs\<close>. \<open>Dtb_Tree\<close> has trees as data and their
    encoding; \<open>Dtb_Walk\<close> the locale \<open>property_parser\<close>, the contract of a closure of the walk, under which the walk is a recursion over the tree;
    \<open>Dtb_Closures\<close> interprets it on both closures. \<open>Dtb_Search\<close> and \<open>Dtb_Static\<close> compute what the two searches report, whatever the
    callbacks do; \<open>Dtb_Generator_Proofs\<close> what the generator writes; \<open>Dtb_Blob\<close> lays out a whole tree as bytes.
  \<^item> Storage. \<open>Virtqueue\<close>, \<open>Virtio\<close>, \<open>Virtio_Blk\<close>: rings, transport and block driver against a device that is a parameter: it answers
    register accesses and may change memory between two polls. \<open>Virtio_Proofs\<close>, \<open>Virtio_Request\<close>, \<open>Virtio_Spec\<close>: no descriptor leaks
    whatever the device does, and a read fills the buffer if the device serves requests as the specification says
    (\<^const>\<open>device_answers\<close>). \<open>Cache\<close>: cache maintenance as a trace of instructions. \<open>Block_Device\<close>: the interface to
    the file system with its documented contract \<^const>\<open>device_serves\<close>, which \<open>Storage\<close> proves of the driver. \<open>Aligned_Box\<close>, \<open>Fat32\<close>, \<open>Fat32_Proofs\<close>,
    \<open>Fat32_Spec\<close>, \<open>Fat32_Dir\<close>, \<open>Fat32_Dir_Spec\<close>, \<open>Filesystem\<close>: clusters, file contents, directories, names, partitions. \<open>Storage\<close> joins the two ends.
  \<^item> The rest. \<open>Typestate\<close>: register wrappers on byte memory. \<open>Bitregs\<close>: the \<open>bitregs!\<close> macro as folds over a layout, and
    \<open>Paging_Registers\<close> the layouts of \<open>paging\<close>. \<open>Mutex\<close>: both locks as step relations over threads. \<open>Elf\<close>: header checks and program headers.
    \<open>Pl011\<close>: the serial port, again a parameter, and the panic handler. \<open>Raw_Reg\<close>: the derive macros of \<open>typestate_macro\<close>, with the locale \<open>raw_reg\<close> for the
    contract of a register value and \<open>wrapped\<close> for wrappers, which keep it; a derived register is the register of its integer.
  \<^item> Development tools. \<open>Xtask\<close>: the build tool \<open>src/xtask/src/main.rs\<close>, with processes and files as events of a trace whose answers are
    parameters; the test plan is read back as it was written, and the exit code of \<open>test\<close> is right. \<open>Build_Scripts\<close>: the three \<open>build.rs\<close>.
    \<open>Bump\<close>: the allocator of the UEFI tests, which is lock-free, as a step relation; \<open>Mutex\<close> has the locale \<open>transition_system\<close> that it and both
    locks interpret.

  \<^bold>\<open>Parameters.\<close> Devices (serial port, virtio device), the counter, callbacks and the places of buffers and locals are arguments of the definitions.
  What is assumed of a device is a hypothesis of the theorem that needs it, stated as the specification of the device states it.

  \<^bold>\<open>Bounds.\<close> Theorems on the allocator ask for room in its tables (\<^const>\<open>headroom\<close>: ten entries, the margin the code itself keeps) and for candidates
  that do not pass the end of the address space, where the code panics. The boot theorem asks for fewer than 128 regions, the size of the
  static tables, and at most 120 of each kind, the limit that \<open>check_regions\<close> tests.

  \<^bold>\<open>Not modelled.\<close> The unit and integration tests, \<open>Debug\<close> formatting and the wording of messages, the parser \<open>syn\<close> behind the derive macros, constants and
  structure fields that no operation uses. The two paging functions and the file operations that are \<open>todo!()\<close> in the source panic in the model. Atomics are
  interleaved sequentially; weaker orderings are not modelled. Heap blocks that the file system takes and gives back inside one call are not
  threaded through the allocator: their addresses are parameters. The effect of cache and TLB instructions is not modelled. The stack switch of
  \<open>_start\<close> and the idle loop of \<open>el1_main\<close> have no state.
\<close>

end
